(* ===== verification/Kopiur_Prelude.thy ===== *)
theory Kopiur_Prelude
  imports Main
    "HOL-Library.Multiset"
    "HOL-Library.List_Lexorder"
    "HOL-Library.Char_ord"
    "HOL-Library.Product_Lexorder"
    "HOL-Library.Word"
begin

text \<open>
  Shared vocabulary of the development: the types the Rust sources share (instants, durations,
  strings, string maps), the simplification collections, and the generic lemmas about options,
  filters, stable sorts and prefix selection that the component theories use.

  Instants (\<open>chrono::DateTime<Utc>\<close>) are nanoseconds since the Unix epoch, of type \<open>int\<close>;
  \<open>std::time::Duration\<close> is a non-negative number of nanoseconds, of type \<open>nat\<close>;
  Rust strings are lists of bytes and are ordered bytewise, as \<open>str::cmp\<close> orders them.
\<close>

type_synonym datetime = int
type_synonym duration = nat
type_synonym string_map = "string \<rightharpoonup> string"

named_theorems model_defs \<open>definitions that component proofs unfold\<close>

subsection \<open>Time\<close>

text \<open>One second in the model's unit, and \<open>DateTime::from_timestamp(secs, 0)\<close>.\<close>

definition nanos :: int where
  "nanos = 1000000000"

definition from_timestamp :: "int \<Rightarrow> datetime" where
  "from_timestamp secs = secs * nanos"

definition duration_from_secs :: "nat \<Rightarrow> duration" where
  "duration_from_secs s = s * 1000000000"

text \<open>
  \<open>TimeDelta::to_std\<close> fails on a negative difference; \<open>unwrap_or(Duration::ZERO)\<close> after it is
  \<open>nat\<close>, \<open>is_ok_and\<close> after it is the guarded form below.
\<close>

definition to_std :: "int \<Rightarrow> duration option" where
  "to_std d = (if d < 0 then None else Some (nat d))"

text \<open>\<open>TimeDelta::num_seconds\<close>: whole seconds, towards zero.\<close>

definition num_seconds :: "int \<Rightarrow> int" where
  "num_seconds d = (if 0 \<le> d then d div nanos else - ((- d) div nanos))"

lemma to_std_Some_iff [simp]: "to_std d = Some n \<longleftrightarrow> 0 \<le> d \<and> n = nat d"
  by (auto simp: to_std_def)

lemma to_std_None_iff [simp]: "to_std d = None \<longleftrightarrow> d < 0"
  by (simp add: to_std_def)

subsection \<open>Options\<close>

text \<open>The option combinators of the Rust standard library the sources use.\<close>

definition is_some_and :: "('a \<Rightarrow> bool) \<Rightarrow> 'a option \<Rightarrow> bool" where
  "is_some_and p x = (case x of None \<Rightarrow> False | Some y \<Rightarrow> p y)"

definition is_none_or :: "('a \<Rightarrow> bool) \<Rightarrow> 'a option \<Rightarrow> bool" where
  "is_none_or p x = (case x of None \<Rightarrow> True | Some y \<Rightarrow> p y)"

definition unwrap_or :: "'a option \<Rightarrow> 'a \<Rightarrow> 'a" where
  "unwrap_or x d = (case x of None \<Rightarrow> d | Some y \<Rightarrow> y)"

definition or_else :: "'a option \<Rightarrow> 'a option \<Rightarrow> 'a option" where
  "or_else x y = (case x of None \<Rightarrow> y | Some z \<Rightarrow> Some z)"

lemma is_some_and_simps [simp]:
  "is_some_and p None = False" "is_some_and p (Some x) = p x"
  by (simp_all add: is_some_and_def)

lemma is_none_or_simps [simp]:
  "is_none_or p None = True" "is_none_or p (Some x) = p x"
  by (simp_all add: is_none_or_def)

lemma unwrap_or_simps [simp]:
  "unwrap_or None d = d" "unwrap_or (Some x) d = x"
  by (simp_all add: unwrap_or_def)

lemma or_else_simps [simp]:
  "or_else None y = y" "or_else (Some x) y = Some x"
  by (simp_all add: or_else_def)

lemma or_else_Some_iff: "or_else x y = Some z \<longleftrightarrow> x = Some z \<or> (x = None \<and> y = Some z)"
  by (cases x) auto

lemma is_some_and_iff: "is_some_and p x \<longleftrightarrow> (\<exists>y. x = Some y \<and> p y)"
  by (cases x) auto

lemma is_none_or_iff: "is_none_or p x \<longleftrightarrow> (\<forall>y. x = Some y \<longrightarrow> p y)"
  by (cases x) auto

subsection \<open>Lists\<close>

text \<open>\<open>Iterator::filter_map\<close>.\<close>

fun filter_map :: "('a \<Rightarrow> 'b option) \<Rightarrow> 'a list \<Rightarrow> 'b list" where
  "filter_map f [] = []"
| "filter_map f (x # xs) = (case f x of None \<Rightarrow> filter_map f xs | Some y \<Rightarrow> y # filter_map f xs)"

lemma set_filter_map: "set (filter_map f xs) = {y. \<exists>x \<in> set xs. f x = Some y}"
  by (induction xs) (auto split: option.splits)

lemma in_set_filter_map: "y \<in> set (filter_map f xs) \<longleftrightarrow> (\<exists>x \<in> set xs. f x = Some y)"
  by (simp add: set_filter_map)

lemma filter_map_append [simp]: "filter_map f (xs @ ys) = filter_map f xs @ filter_map f ys"
  by (induction xs) (auto split: option.splits)

lemma length_filter_map_le: "length (filter_map f xs) \<le> length xs"
  by (induction xs) (auto split: option.splits)

text \<open>\<open>Iterator::max\<close> and \<open>Iterator::min\<close>: \<open>None\<close> on an empty iterator.\<close>

definition iter_max :: "'a::linorder list \<Rightarrow> 'a option" where
  "iter_max xs = (case xs of [] \<Rightarrow> None | y # ys \<Rightarrow> Some (fold max ys y))"

definition iter_min :: "'a::linorder list \<Rightarrow> 'a option" where
  "iter_min xs = (case xs of [] \<Rightarrow> None | y # ys \<Rightarrow> Some (fold min ys y))"

lemma iter_empty [simp]: "iter_max [] = None" "iter_min [] = None"
  by (simp_all add: iter_max_def iter_min_def)

lemma iter_max_None_iff [simp]: "iter_max xs = None \<longleftrightarrow> xs = []"
  by (cases xs) (simp_all add: iter_max_def)

lemma iter_min_None_iff [simp]: "iter_min xs = None \<longleftrightarrow> xs = []"
  by (cases xs) (simp_all add: iter_min_def)

lemma iter_max_Some:
  assumes "iter_max xs = Some m"
  shows "m \<in> set xs" and "\<And>x. x \<in> set xs \<Longrightarrow> x \<le> m"
proof -
  obtain y ys where xs: "xs = y # ys" using assms by (cases xs) (auto simp: iter_max_def)
  then have m: "m = Max (set (y # ys))"
    using assms Max.set_eq_fold [of y ys] by (simp add: iter_max_def)
  show "m \<in> set xs" unfolding m xs by (rule Max_in) auto
  show "\<And>x. x \<in> set xs \<Longrightarrow> x \<le> m" unfolding m xs by (rule Max_ge) auto
qed

lemma iter_min_Some:
  assumes "iter_min xs = Some m"
  shows "m \<in> set xs" and "\<And>x. x \<in> set xs \<Longrightarrow> m \<le> x"
proof -
  obtain y ys where xs: "xs = y # ys" using assms by (cases xs) (auto simp: iter_min_def)
  then have m: "m = Min (set (y # ys))"
    using assms Min.set_eq_fold [of y ys] by (simp add: iter_min_def)
  show "m \<in> set xs" unfolding m xs by (rule Min_in) auto
  show "\<And>x. x \<in> set xs \<Longrightarrow> m \<le> x" unfolding m xs by (rule Min_le) auto
qed

subsection \<open>Stable sorts\<close>

text \<open>
  Rust's \<open>sort_by\<close>, \<open>sort_by_key\<close> are stable, as \<^const>\<open>sort_key\<close> is. The facts the
  component proofs use: the result is a permutation, and it is sorted by the key.
\<close>

lemma sorted_wrt_sort_key: "sorted_wrt (\<lambda>x y. f x \<le> f y) (sort_key f xs)"
  using sorted_sort_key [of f xs] by (simp add: sorted_map)

lemma sorted_wrt_sublist_filter: "sorted_wrt P xs \<Longrightarrow> sorted_wrt P (filter Q xs)"
  by (induction xs) auto

lemma sorted_wrt_nth_le:
  "sorted_wrt P xs \<Longrightarrow> i < j \<Longrightarrow> j < length xs \<Longrightarrow> P (xs ! i) (xs ! j)"
  by (simp add: sorted_wrt_nth_less)

subsection \<open>Ordered maps of lists\<close>

text \<open>
  \<open>BTreeMap<K, Vec<V>>::entry(k).or_default().push(v)\<close> on an association list sorted by key, and
  the grouping loops built on it. Iterating the list is iterating the map in key order.
\<close>

fun bt_push :: "'k::linorder \<Rightarrow> 'v \<Rightarrow> ('k \<times> 'v list) list \<Rightarrow> ('k \<times> 'v list) list" where
  "bt_push k v [] = [(k, [v])]"
| "bt_push k v ((k', vs) # m) =
     (if k < k' then (k, [v]) # (k', vs) # m
      else if k = k' then (k', vs @ [v]) # m
      else (k', vs) # bt_push k v m)"

fun bt_group :: "('a \<Rightarrow> ('k::linorder \<times> 'v) option) \<Rightarrow> 'a list \<Rightarrow> ('k \<times> 'v list) list \<Rightarrow>
     ('k \<times> 'v list) list" where
  "bt_group f [] m = m"
| "bt_group f (x # xs) m =
     (case f x of None \<Rightarrow> bt_group f xs m | Some (k, v) \<Rightarrow> bt_group f xs (bt_push k v m))"

abbreviation bt_wf :: "('k::linorder \<times> 'v) list \<Rightarrow> bool" where
  "bt_wf m \<equiv> sorted_wrt (<) (map fst m)"

lemma fst_set_bt_push: "fst ` set (bt_push k v m) = insert k (fst ` set m)"
  by (induction k v m rule: bt_push.induct) auto

lemma bt_push_wf: "bt_wf m \<Longrightarrow> bt_wf (bt_push k v m)"
proof (induction k v m rule: bt_push.induct)
  case (2 k v k' vs m)
  then show ?case
    using fst_set_bt_push [of k v m] by (force simp: image_iff)
qed simp

lemma bt_push_lookup:
  "bt_wf m \<Longrightarrow>
     map_of (bt_push k v m) = (map_of m)(k \<mapsto> unwrap_or (map_of m k) [] @ [v])"
proof (induction k v m rule: bt_push.induct)
  case (2 k v k' vs m)
  have "k < k' \<Longrightarrow> map_of m k = None"
    using 2(2) by (force simp: map_of_eq_None_iff)
  with 2 show ?case by (auto simp: fun_eq_iff)
qed auto

lemma bt_group_wf: "bt_wf m \<Longrightarrow> bt_wf (bt_group f xs m)"
  by (induction xs arbitrary: m) (auto split: option.split simp: bt_push_wf)

definition in_group :: "('a \<Rightarrow> ('k \<times> 'v) option) \<Rightarrow> 'k \<Rightarrow> 'a \<Rightarrow> 'v option" where
  "in_group f k x = (case f x of None \<Rightarrow> None | Some (k', v) \<Rightarrow> if k' = k then Some v else None)"

lemma in_group_Some: "in_group f k x = Some v \<longleftrightarrow> f x = Some (k, v)"
  by (auto simp: in_group_def split: option.splits if_splits)

lemma bt_group_lookup:
  assumes "bt_wf m"
  shows "map_of (bt_group f xs m) k =
    (if filter_map (in_group f k) xs = [] then map_of m k
     else Some (unwrap_or (map_of m k) [] @ filter_map (in_group f k) xs))"
  using assms
proof (induction xs arbitrary: m)
  case (Cons x xs)
  have *: "in_group f k x = (case f x of None \<Rightarrow> None | Some (k', v) \<Rightarrow>
             if k' = k then Some v else None)"
    by (simp add: in_group_def)
  from Cons show ?case
    by (cases "f x") (auto simp: * bt_push_wf bt_push_lookup)
qed simp

text \<open>Every group is the non-empty list of the values filed under its key, in input order.\<close>

lemma bt_group_entry:
  assumes "(k, vs) \<in> set (bt_group f xs [])"
  shows "vs = filter_map (in_group f k) xs" and "vs \<noteq> []"
proof -
  have "distinct (map fst (bt_group f xs []))"
    using bt_group_wf [of "[]" f xs] by (simp add: strict_sorted_iff)
  then have "map_of (bt_group f xs []) k = Some vs"
    using assms by (simp add: map_of_is_SomeI)
  then show "vs = filter_map (in_group f k) xs" and "vs \<noteq> []"
    by (auto simp: bt_group_lookup split: if_splits)
qed

subsection \<open>State machines\<close>

text \<open>
  States reachable from the initial ones by the steps of a component, and the contract by which the
  components prove their invariants: what holds initially and is kept by every step holds of every
  reachable state.
\<close>

inductive reachable :: "('s \<Rightarrow> bool) \<Rightarrow> ('s \<Rightarrow> 's \<Rightarrow> bool) \<Rightarrow> 's \<Rightarrow> bool"
  for init :: "'s \<Rightarrow> bool" and step :: "'s \<Rightarrow> 's \<Rightarrow> bool" where
  reachable_init: "init s \<Longrightarrow> reachable init step s"
| reachable_step: "reachable init step s \<Longrightarrow> step s s' \<Longrightarrow> reachable init step s'"

locale step_invariant =
  fixes init :: "'s \<Rightarrow> bool" and step :: "'s \<Rightarrow> 's \<Rightarrow> bool" and inv :: "'s \<Rightarrow> bool"
  assumes inv_init: "init s \<Longrightarrow> inv s"
    and inv_step: "inv s \<Longrightarrow> step s s' \<Longrightarrow> inv s'"
begin

lemma inv_reachable:
  assumes "reachable init step s"
  shows "inv s"
  using assms by induction (auto intro: inv_init inv_step)

lemma inv_closure:
  assumes "step\<^sup>*\<^sup>* s s'" and "inv s"
  shows "inv s'"
  using assms by induction (auto intro: inv_step)

end

end
