(* ===== verification/Kopiur_Api.thy ===== *)
theory Kopiur_Api
  imports Kopiur_Prelude
begin

text \<open>
  The custom-resource types the reconcilers share (\<open>crates/api/src/snapshot.rs\<close>,
  \<open>crates/api/src/common/mod.rs\<close>): enums as datatypes with the source's constructors, structs as
  records with the fields the modelled code reads. Fields no modelled function reads (log tails,
  hook bookkeeping, mover overrides) are left out of the records.
\<close>

subsection \<open>Enums\<close>

datatype repository_kind = Repository | ClusterRepository

record repository_ref =
  rr_kind :: repository_kind
  rr_name :: string
  rr_namespace :: "string option"

datatype deletion_policy = DP_Delete | DP_Retain | DP_Orphan

datatype namespace_delete_policy = NDP_Orphan | NDP_Delete

datatype schedule_delete_policy = SDP_Retain | SDP_Delete

datatype policy_delete_policy = PDP_Retain | PDP_Delete

datatype origin = Scheduled | Manual | Discovered_Origin | Adopted | Replicated

datatype snapshot_phase =
    Pending | Running | Succeeded | Failed | Deleting | Discovered | Unchanged | Unknown string

datatype pruned_by =
    PB_Retention | PB_FailedHistory | PB_PolicyCascade | PB_ReplicationRetention | PB_ReplacedRun

subsection \<open>Wire values\<close>

fun origin_label_value :: "origin \<Rightarrow> string" where
  "origin_label_value Scheduled = ''scheduled''"
| "origin_label_value Manual = ''manual''"
| "origin_label_value Discovered_Origin = ''discovered''"
| "origin_label_value Adopted = ''adopted''"
| "origin_label_value Replicated = ''replicated''"

definition origin_parse :: "string \<Rightarrow> origin option" where
  "origin_parse v =
     (if v = ''scheduled'' then Some Scheduled
      else if v = ''manual'' then Some Manual
      else if v = ''discovered'' then Some Discovered_Origin
      else if v = ''adopted'' then Some Adopted
      else if v = ''replicated'' then Some Replicated
      else None)"

fun pruned_by_annotation_value :: "pruned_by \<Rightarrow> string" where
  "pruned_by_annotation_value PB_Retention = ''retention''"
| "pruned_by_annotation_value PB_FailedHistory = ''failed-history''"
| "pruned_by_annotation_value PB_PolicyCascade = ''policy-cascade''"
| "pruned_by_annotation_value PB_ReplicationRetention = ''replication-retention''"
| "pruned_by_annotation_value PB_ReplacedRun = ''replaced-run''"

definition pruned_by_parse :: "string \<Rightarrow> pruned_by option" where
  "pruned_by_parse v =
     (if v = ''retention'' then Some PB_Retention
      else if v = ''failed-history'' then Some PB_FailedHistory
      else if v = ''policy-cascade'' then Some PB_PolicyCascade
      else if v = ''replication-retention'' then Some PB_ReplicationRetention
      else if v = ''replaced-run'' then Some PB_ReplacedRun
      else None)"

fun snapshot_phase_is_terminal :: "snapshot_phase \<Rightarrow> bool" where
  "snapshot_phase_is_terminal Succeeded = True"
| "snapshot_phase_is_terminal Failed = True"
| "snapshot_phase_is_terminal Discovered = True"
| "snapshot_phase_is_terminal Unchanged = True"
| "snapshot_phase_is_terminal Pending = False"
| "snapshot_phase_is_terminal Running = False"
| "snapshot_phase_is_terminal Deleting = False"
| "snapshot_phase_is_terminal (Unknown s) = False"

fun snapshot_phase_label :: "snapshot_phase \<Rightarrow> string" where
  "snapshot_phase_label Pending = ''Pending''"
| "snapshot_phase_label Running = ''Running''"
| "snapshot_phase_label Succeeded = ''Succeeded''"
| "snapshot_phase_label Failed = ''Failed''"
| "snapshot_phase_label Deleting = ''Deleting''"
| "snapshot_phase_label Discovered = ''Discovered''"
| "snapshot_phase_label Unchanged = ''Unchanged''"
| "snapshot_phase_label (Unknown s) = s"

text \<open>The annotation, label and finalizer names of \<open>crates/api/src/consts.rs\<close>.\<close>

definition SNAPSHOT_CLEANUP_FINALIZER :: string where
  "SNAPSHOT_CLEANUP_FINALIZER = ''kopiur.home-operations.com/snapshot-cleanup''"

definition SKIP_SNAPSHOT_CLEANUP_ANNOTATION :: string where
  "SKIP_SNAPSHOT_CLEANUP_ANNOTATION = ''kopiur.home-operations.com/skip-snapshot-cleanup''"

definition ORIGIN_LABEL :: string where
  "ORIGIN_LABEL = ''kopiur.home-operations.com/origin''"

definition REPOSITORY_UID_LABEL :: string where
  "REPOSITORY_UID_LABEL = ''kopiur.home-operations.com/repository-uid''"

definition SNAPSHOT_ID_LABEL :: string where
  "SNAPSHOT_ID_LABEL = ''kopiur.home-operations.com/snapshot-id''"

definition CONFIG_LABEL :: string where
  "CONFIG_LABEL = ''kopiur.home-operations.com/config''"

definition PRUNED_BY_ANNOTATION :: string where
  "PRUNED_BY_ANNOTATION = ''kopiur.home-operations.com/pruned-by''"

definition API_VERSION :: string where
  "API_VERSION = ''kopiur.home-operations.com/v1alpha1''"

subsection \<open>Object metadata and the Snapshot resource\<close>

text \<open>
  Kubernetes timestamps are whole seconds (\<open>Time.0.as_second()\<close>); the reconcilers convert them
  with \<^const>\<open>from_timestamp\<close>. RFC 3339 strings stay strings: the parser is chrono's and a
  parameter (\<open>rfc3339\<close>) of every definition that reads one.
\<close>

record owner_reference =
  or_api_version :: string
  or_kind :: string
  or_name :: string
  or_uid :: string
  or_controller :: "bool option"

record object_meta =
  m_name :: "string option"
  m_namespace :: "string option"
  m_uid :: "string option"
  m_creation_timestamp :: "int option"
  m_deletion_timestamp :: "int option"
  m_labels :: string_map
  m_annotations :: string_map
  m_finalizers :: "string list"
  m_owner_references :: "owner_reference list"

definition empty_meta :: object_meta where
  "empty_meta = \<lparr>m_name = None, m_namespace = None, m_uid = None, m_creation_timestamp = None,
     m_deletion_timestamp = None, m_labels = Map.empty, m_annotations = Map.empty,
     m_finalizers = [], m_owner_references = []\<rparr>"

record resolved_identity =
  ri_username :: string
  ri_hostname :: string
  ri_source_path :: "string option"

text \<open>
  What a mover recorded of its own identity (\<open>crates/api/src/recorded.rs\<close>), as a Snapshot's
  \<open>status.recorded\<close> holds it.
\<close>

datatype recorded_src = RS_Inherited | RS_Explicit | RS_Defaults | RS_Unknown

record recorded_meta =
  rm_schema :: int
  rm_src :: recorded_src
  rm_uid :: "int option"
  rm_gid :: "int option"
  rm_fs_group :: "int option"

record snapshot_info =
  si_kopia_snapshot_id :: string
  si_identity :: resolved_identity
  si_description :: "string option"

record snapshot_timing =
  st_start_time :: "string option"
  st_end_time :: "string option"
  st_duration_seconds :: "int option"

record snapshot_status =
  ss_phase :: "snapshot_phase option"
  ss_origin :: "origin option"
  ss_snapshot :: "snapshot_info option"
  ss_timing :: "snapshot_timing option"
  ss_resolved_repository :: "repository_ref option"
  ss_conditions :: "(string \<times> string) list"
  ss_size_bytes :: "int option"
  ss_recorded :: "recorded_meta option"

record policy_ref =
  pr_name :: string
  pr_namespace :: "string option"

record snapshot_spec =
  sp_policy_ref :: "policy_ref option"
  sp_repository :: "repository_ref option"
  sp_source_pvc :: "(string \<times> string) option"
  sp_deletion_policy :: "deletion_policy option"
  sp_on_schedule_delete :: "schedule_delete_policy option"
  sp_pin :: bool

record snapshot =
  s_meta :: object_meta
  s_spec :: snapshot_spec
  s_status :: "snapshot_status option"

definition empty_spec :: snapshot_spec where
  "empty_spec = \<lparr>sp_policy_ref = None, sp_repository = None, sp_source_pvc = None,
     sp_deletion_policy = None, sp_on_schedule_delete = None, sp_pin = False\<rparr>"

abbreviation s_phase :: "snapshot \<Rightarrow> snapshot_phase option" where
  "s_phase b \<equiv> Option.bind (s_status b) ss_phase"

abbreviation s_snapshot_info :: "snapshot \<Rightarrow> snapshot_info option" where
  "s_snapshot_info b \<equiv> Option.bind (s_status b) ss_snapshot"

abbreviation s_terminating :: "snapshot \<Rightarrow> bool" where
  "s_terminating b \<equiv> m_deletion_timestamp (s_meta b) \<noteq> None"

definition live_row_actionable :: "snapshot option \<Rightarrow> bool" where
  "live_row_actionable live = (case live of Some row \<Rightarrow> \<not> s_terminating row | None \<Rightarrow> False)"

subsection \<open>Label selectors\<close>

record label_selector_requirement =
  lr_key :: string
  lr_operator :: string
  lr_values :: "string list option"

record label_selector =
  ls_match_labels :: "(string \<times> string) list"
  ls_match_expressions :: "label_selector_requirement list"

subsection \<open>The kopia listing\<close>

text \<open>
  An entry of \<open>kopia snapshot list --json\<close> (\<open>crates/kopia/src/model.rs\<close>). The source is flattened
  into its three fields, and of the root entry only the marker of an interrupted run is kept; tags
  carry kopia's \<open>tag:\<close> prefix on a raw manifest.
\<close>

record snapshot_list_entry =
  le_id :: string
  le_path :: string
  le_user_name :: string
  le_host :: string
  le_description :: string
  le_start_time :: datetime
  le_end_time :: datetime
  le_total_size :: nat
  le_retention_reason :: "string list"
  le_tags :: string_map
  le_incomplete :: "string option"
  le_summ_incomplete :: "string option"

definition incomplete_reason :: "snapshot_list_entry \<Rightarrow> string option" where
  "incomplete_reason e =
     List.find (\<lambda>r. r \<noteq> []) (filter_map id [le_incomplete e, le_summ_incomplete e])"

subsection \<open>Repository keys\<close>

definition repo_key :: "repository_ref \<Rightarrow> string \<Rightarrow> string" where
  "repo_key repo owner_namespace =
     (case rr_kind repo of
        Repository \<Rightarrow>
          ''Repository/'' @ unwrap_or (rr_namespace repo) owner_namespace @ ''/'' @ rr_name repo
      | ClusterRepository \<Rightarrow> ''ClusterRepository/'' @ rr_name repo)"

definition normalized_repository_ref :: "repository_ref \<Rightarrow> string \<Rightarrow> repository_ref" where
  "normalized_repository_ref r owner_namespace =
     (case rr_kind r of
        Repository \<Rightarrow> \<lparr>rr_kind = Repository, rr_name = rr_name r,
          rr_namespace = Some (unwrap_or (rr_namespace r) owner_namespace)\<rparr>
      | ClusterRepository \<Rightarrow> \<lparr>rr_kind = ClusterRepository, rr_name = rr_name r,
          rr_namespace = None\<rparr>)"

definition pinned_repo_key :: "repository_ref \<Rightarrow> string" where
  "pinned_repo_key r =
     (case rr_kind r of
        Repository \<Rightarrow> ''repository:'' @ unwrap_or (rr_namespace r) '''' @ ''/'' @ rr_name r
      | ClusterRepository \<Rightarrow> ''clusterrepository:'' @ rr_name r)"

text \<open>Two strings with no slash, joined by one, split back uniquely.\<close>

lemma slash_join_inj:
  assumes "CHR ''/'' \<notin> set a" and "CHR ''/'' \<notin> set c"
  shows "a @ CHR ''/'' # b = c @ CHR ''/'' # d \<longleftrightarrow> a = c \<and> b = d"
  using assms
proof (induction a arbitrary: c)
  case Nil
  then show ?case by (cases c) auto
next
  case (Cons x a)
  then show ?case by (cases c) auto
qed

lemma repo_key_normalized:
  "repo_key (normalized_repository_ref r ns) ns' = repo_key r ns"
  by (simp add: repo_key_def normalized_repository_ref_def split: repository_kind.split)

lemma normalized_idem:
  "normalized_repository_ref (normalized_repository_ref r ns) ns' = normalized_repository_ref r ns"
  by (simp add: normalized_repository_ref_def split: repository_kind.split)

text \<open>Namespaces and names of Kubernetes objects carry no slash.\<close>

definition ref_wf :: "repository_ref \<Rightarrow> bool" where
  "ref_wf r \<longleftrightarrow> CHR ''/'' \<notin> set (rr_name r) \<and>
     (case rr_namespace r of None \<Rightarrow> True | Some ns \<Rightarrow> CHR ''/'' \<notin> set ns)"

lemma pinned_repo_key_inj:
  assumes "ref_wf r" and "ref_wf r'" and "CHR ''/'' \<notin> set ns" and "CHR ''/'' \<notin> set ns'"
  shows "pinned_repo_key (normalized_repository_ref r ns) =
           pinned_repo_key (normalized_repository_ref r' ns') \<longleftrightarrow>
         normalized_repository_ref r ns = normalized_repository_ref r' ns'"
  using assms
  by (cases "rr_namespace r"; cases "rr_namespace r'")
     (auto simp: pinned_repo_key_def normalized_repository_ref_def ref_wf_def slash_join_inj
      split: repository_kind.splits)

lemma origin_parse_label: "origin_parse (origin_label_value o') = Some o'"
  by (cases o') (simp_all add: origin_parse_def)

lemma origin_parse_Some: "origin_parse v = Some o' \<longleftrightarrow> v = origin_label_value o'"
  by (cases o') (auto simp: origin_parse_def)

lemma pruned_by_parse_value: "pruned_by_parse (pruned_by_annotation_value p) = Some p"
  by (cases p) (simp_all add: pruned_by_parse_def)

lemma pruned_by_parse_Some: "pruned_by_parse v = Some p \<longleftrightarrow> v = pruned_by_annotation_value p"
  by (cases p) (auto simp: pruned_by_parse_def)

end
