(* ===== verification/Deletion.thy ===== *)
theory Deletion
  imports Kopiur_Api
begin

text \<open>
  The deletion decision of the \<open>Snapshot\<close> finalizer: \<open>crates/controller/src/snapshot/plan.rs\<close>. The
  annotations, the owner's state, the namespace's state and the mass-deletion breaker's verdict
  determine one of six plans; only \<open>DeleteSnapshot\<close> contacts the repository.
\<close>

subsection \<open>Facts and plans\<close>

datatype deletion_plan =
    DeleteSnapshot | RetainSnapshot | OrphanSnapshot | RetainSnapshotOnScheduleDelete
  | RetainSnapshotOnPolicyDelete | HoldSnapshotDeletion

datatype owner_state = Alive | GoneOrReplaced | NoScheduleOwner

datatype breaker_state = Allowed | Held

record deletion_facts =
  df_policy :: deletion_policy
  df_annotations :: string_map
  df_owner :: owner_state
  df_cascade :: schedule_delete_policy
  df_ns_terminating :: bool
  df_ns_policy :: "namespace_delete_policy option"
  df_breaker :: breaker_state

definition pruned_by :: "string_map \<Rightarrow> pruned_by option" where
  "pruned_by annotations = Option.bind (annotations PRUNED_BY_ANNOTATION) pruned_by_parse"

fun plan_prune :: "pruned_by \<Rightarrow> deletion_policy \<Rightarrow> deletion_plan" where
  "plan_prune PB_Retention DP_Delete = DeleteSnapshot"
| "plan_prune PB_Retention DP_Retain = RetainSnapshot"
| "plan_prune PB_Retention DP_Orphan = OrphanSnapshot"
| "plan_prune PB_FailedHistory DP_Delete = DeleteSnapshot"
| "plan_prune PB_FailedHistory DP_Retain = RetainSnapshot"
| "plan_prune PB_FailedHistory DP_Orphan = OrphanSnapshot"
| "plan_prune PB_PolicyCascade DP_Delete = RetainSnapshotOnPolicyDelete"
| "plan_prune PB_PolicyCascade DP_Retain = RetainSnapshot"
| "plan_prune PB_PolicyCascade DP_Orphan = OrphanSnapshot"
| "plan_prune PB_ReplicationRetention DP_Delete = DeleteSnapshot"
| "plan_prune PB_ReplicationRetention DP_Retain = RetainSnapshot"
| "plan_prune PB_ReplicationRetention DP_Orphan = OrphanSnapshot"
| "plan_prune PB_ReplacedRun DP_Delete = RetainSnapshot"
| "plan_prune PB_ReplacedRun DP_Retain = RetainSnapshot"
| "plan_prune PB_ReplacedRun DP_Orphan = OrphanSnapshot"

fun plan_external :: "deletion_policy \<Rightarrow> breaker_state \<Rightarrow> deletion_plan" where
  "plan_external DP_Delete Held = HoldSnapshotDeletion"
| "plan_external DP_Delete Allowed = DeleteSnapshot"
| "plan_external DP_Retain _ = RetainSnapshot"
| "plan_external DP_Orphan _ = OrphanSnapshot"

definition plan_prune_or_external :: "deletion_facts \<Rightarrow> deletion_plan" where
  "plan_prune_or_external f =
     (case pruned_by (df_annotations f) of
        Some p \<Rightarrow> plan_prune p (df_policy f)
      | None \<Rightarrow> plan_external (df_policy f) (df_breaker f))"

fun cascade_guard_applies :: "owner_state \<Rightarrow> bool" where
  "cascade_guard_applies GoneOrReplaced = True"
| "cascade_guard_applies Alive = False"
| "cascade_guard_applies NoScheduleOwner = False"

fun plan_cascade_guard :: "schedule_delete_policy \<Rightarrow> deletion_policy \<Rightarrow> deletion_plan option" where
  "plan_cascade_guard SDP_Retain DP_Delete = Some RetainSnapshotOnScheduleDelete"
| "plan_cascade_guard SDP_Retain DP_Retain = Some RetainSnapshot"
| "plan_cascade_guard SDP_Retain DP_Orphan = Some OrphanSnapshot"
| "plan_cascade_guard SDP_Delete _ = None"

definition plan_live_namespace :: "deletion_facts \<Rightarrow> deletion_plan" where
  "plan_live_namespace f =
     (if \<not> cascade_guard_applies (df_owner f) \<or> pruned_by (df_annotations f) \<noteq> None
      then plan_prune_or_external f
      else case plan_cascade_guard (df_cascade f) (df_policy f) of
             Some plan \<Rightarrow> plan
           | None \<Rightarrow> plan_prune_or_external f)"

definition plan_ns_delete :: "deletion_facts \<Rightarrow> deletion_plan" where
  "plan_ns_delete f =
     (case pruned_by (df_annotations f) of
        None \<Rightarrow> plan_external (df_policy f) (df_breaker f)
      | Some PB_PolicyCascade \<Rightarrow> plan_external (df_policy f) (df_breaker f)
      | Some p \<Rightarrow> plan_prune p (df_policy f))"

definition plan_ns_terminating :: "deletion_facts \<Rightarrow> deletion_plan" where
  "plan_ns_terminating f =
     (case df_ns_policy f of
        None \<Rightarrow> OrphanSnapshot
      | Some NDP_Orphan \<Rightarrow> OrphanSnapshot
      | Some NDP_Delete \<Rightarrow> plan_ns_delete f)"

definition plan_deletion :: "deletion_facts \<Rightarrow> deletion_plan" where
  "plan_deletion f =
     (if df_annotations f SKIP_SNAPSHOT_CLEANUP_ANNOTATION \<noteq> None then OrphanSnapshot
      else if df_ns_terminating f then plan_ns_terminating f
      else plan_live_namespace f)"

subsection \<open>The facts, from the row\<close>

definition schedule_owner_ref :: "snapshot \<Rightarrow> owner_reference option" where
  "schedule_owner_ref b =
     List.find (\<lambda>o'. or_api_version o' = API_VERSION \<and> or_kind o' = ''SnapshotSchedule'')
       (m_owner_references (s_meta b))"

text \<open>The fetched schedule's metadata, \<open>None\<close> for a 404.\<close>

definition owner_state_from :: "object_meta option \<Rightarrow> owner_reference \<Rightarrow> owner_state" where
  "owner_state_from fetched owner =
     (case fetched of None \<Rightarrow> GoneOrReplaced
      | Some sched \<Rightarrow>
          if m_uid sched = Some (or_uid owner) \<and> m_deletion_timestamp sched = None
          then Alive else GoneOrReplaced)"

definition effective_on_schedule_delete ::
    "schedule_delete_policy option \<Rightarrow> schedule_delete_policy" where
  "effective_on_schedule_delete stamped = unwrap_or stamped SDP_Retain"

fun effective_deletion_policy :: "deletion_policy option \<Rightarrow> origin option \<Rightarrow> deletion_policy" where
  "effective_deletion_policy _ (Some Discovered_Origin) = DP_Retain"
| "effective_deletion_policy _ None = DP_Retain"
| "effective_deletion_policy p (Some Scheduled) = unwrap_or p DP_Delete"
| "effective_deletion_policy p (Some Manual) = unwrap_or p DP_Delete"
| "effective_deletion_policy p (Some Adopted) = unwrap_or p DP_Delete"
| "effective_deletion_policy p (Some Replicated) = unwrap_or p DP_Delete"

definition resolve_origin :: "snapshot \<Rightarrow> origin option" where
  "resolve_origin b =
     (case Option.bind (s_status b) ss_origin of
        Some o' \<Rightarrow> Some o'
      | None \<Rightarrow>
          (case m_labels (s_meta b) ORIGIN_LABEL of
             None \<Rightarrow> Some Manual
           | Some label \<Rightarrow> origin_parse label))"

subsection \<open>The mass-deletion breaker\<close>

fun breaker_relevant :: "pruned_by option \<Rightarrow> bool" where
  "breaker_relevant (Some PB_Retention) = False"
| "breaker_relevant (Some PB_FailedHistory) = False"
| "breaker_relevant (Some PB_ReplicationRetention) = False"
| "breaker_relevant (Some PB_ReplacedRun) = False"
| "breaker_relevant None = True"
| "breaker_relevant (Some PB_PolicyCascade) = True"

definition counts_toward_breaker :: "deletion_facts \<Rightarrow> bool" where
  "counts_toward_breaker f =
     (if \<not> breaker_relevant (pruned_by (df_annotations f)) then False
      else plan_deletion (f\<lparr>df_breaker := Allowed\<rparr>) = DeleteSnapshot)"

definition clamp_ack :: "datetime option \<Rightarrow> datetime \<Rightarrow> datetime option" where
  "clamp_ack ack now = map_option (\<lambda>a. min a now) ack"

definition breaker_state :: "nat \<Rightarrow> nat \<Rightarrow> datetime \<Rightarrow> datetime option \<Rightarrow> breaker_state" where
  "breaker_state unacked_pending_for_repo threshold deletion_timestamp ack =
     (if threshold = 0 then Allowed
      else if is_some_and (\<lambda>a. deletion_timestamp \<le> a) ack then Allowed
      else if threshold \<le> unacked_pending_for_repo then Held
      else Allowed)"

definition breaker_stores_ready :: "bool \<Rightarrow> bool \<Rightarrow> bool" where
  "breaker_stores_ready store_present synced \<longleftrightarrow> store_present \<and> synced"

definition parse_mass_deletion_ack ::
    "(string \<Rightarrow> datetime option) \<Rightarrow> string option \<Rightarrow> datetime \<Rightarrow> datetime option \<times> bool" where
  "parse_mass_deletion_ack rfc3339 raw now =
     (case raw of None \<Rightarrow> (None, False)
      | Some v \<Rightarrow>
          (case rfc3339 v of
             Some dt \<Rightarrow> (clamp_ack (Some dt) now, False)
           | None \<Rightarrow> (None, True)))"

subsection \<open>Where the delete Job runs\<close>

datatype delete_job_placement = RunIn string | OrphanFallback string

definition delete_job_placement ::
    "bool \<Rightarrow> string \<Rightarrow> string option \<Rightarrow> string option \<Rightarrow> delete_job_placement" where
  "delete_job_placement ns_terminating snapshot_ns repo_namespace operator_namespace =
     (if \<not> ns_terminating then RunIn snapshot_ns
      else case repo_namespace of
        Some rns \<Rightarrow> if rns \<noteq> snapshot_ns then RunIn rns
                    else OrphanFallback (''the Repository is in `'' @ snapshot_ns @
                      ''`, which is being deleted, so the kopia snapshot was left in place. '' @
                      ''Delete it with `kopia snapshot delete` if unwanted'')
      | None \<Rightarrow>
          (case operator_namespace of
             Some op \<Rightarrow> if op \<noteq> snapshot_ns then RunIn op
                        else OrphanFallback (''the operator namespace `'' @ op @
                          ''` is being deleted, so the kopia snapshot was left in place'')
           | None \<Rightarrow> OrphanFallback (''KOPIUR_NAMESPACE is unset, so there is nowhere to run the '' @
               ''delete Job and the kopia snapshot was left in place. Fix: set KOPIUR_NAMESPACE on '' @
               ''the controller Deployment'')))"

definition batch_job_placement ::
    "string option \<Rightarrow> string option \<Rightarrow> string option \<Rightarrow> delete_job_placement" where
  "batch_job_placement repo_namespace operator_namespace terminating_ns =
     (case repo_namespace of
        Some rns \<Rightarrow> if terminating_ns \<noteq> Some rns then RunIn rns
                    else OrphanFallback (''the Repository is in `'' @ rns @
                      ''`, which is being deleted, so the kopia snapshots were left in place. '' @
                      ''Delete them with `kopia snapshot delete` if unwanted'')
      | None \<Rightarrow>
          (case operator_namespace of
             Some op \<Rightarrow> if terminating_ns \<noteq> Some op then RunIn op
                        else OrphanFallback (''the operator namespace `'' @ op @
                          ''` is being deleted, so the kopia snapshots were left in place'')
           | None \<Rightarrow> OrphanFallback (''KOPIUR_NAMESPACE is unset, so there is nowhere to run the '' @
               ''delete Job and the kopia snapshots were left in place. Fix: set KOPIUR_NAMESPACE on '' @
               ''the controller Deployment'')))"

subsection \<open>Run and pin decisions\<close>

datatype run_choice = Run | SucceededSteadyState | TerminalFailed | Wait

fun run_decision :: "snapshot_phase option \<Rightarrow> run_choice" where
  "run_decision None = Run"
| "run_decision (Some Pending) = Run"
| "run_decision (Some Running) = Run"
| "run_decision (Some Succeeded) = SucceededSteadyState"
| "run_decision (Some Unchanged) = SucceededSteadyState"
| "run_decision (Some Failed) = TerminalFailed"
| "run_decision (Some Deleting) = Wait"
| "run_decision (Some Discovered) = Wait"
| "run_decision (Some (Unknown s)) = Wait"

fun should_run_preflight :: "snapshot_phase option \<Rightarrow> bool" where
  "should_run_preflight None = True"
| "should_run_preflight (Some Pending) = True"
| "should_run_preflight (Some _) = False"

fun should_run_pool_gate :: "snapshot_phase option \<Rightarrow> bool" where
  "should_run_pool_gate None = True"
| "should_run_pool_gate (Some Pending) = True"
| "should_run_pool_gate (Some _) = False"

datatype ready_outcome = Ready | Reconciling | Stalled

fun snapshot_ready_outcome :: "snapshot_phase \<Rightarrow> ready_outcome" where
  "snapshot_ready_outcome Succeeded = Ready"
| "snapshot_ready_outcome Discovered = Ready"
| "snapshot_ready_outcome Unchanged = Ready"
| "snapshot_ready_outcome Failed = Stalled"
| "snapshot_ready_outcome Pending = Reconciling"
| "snapshot_ready_outcome Running = Reconciling"
| "snapshot_ready_outcome Deleting = Reconciling"
| "snapshot_ready_outcome (Unknown s) = Reconciling"

datatype pin_action = Pin | Unpin | NoOp

fun pin_decision :: "bool \<Rightarrow> bool option \<Rightarrow> pin_action" where
  "pin_decision True (Some True) = NoOp"
| "pin_decision True _ = Pin"
| "pin_decision False (Some True) = Unpin"
| "pin_decision False _ = NoOp"

text \<open>
  \<open>chrono::Duration::from_std(t).unwrap_or(MAX)\<close>: a timeout chrono cannot represent exceeds every
  difference of two instants, so comparing with the exact value gives the same answer.
\<close>

definition preflight_expired ::
    "(string \<Rightarrow> datetime option) \<Rightarrow> string option \<Rightarrow> duration option \<Rightarrow> datetime \<Rightarrow> bool" where
  "preflight_expired rfc3339 preflight_since timeout now =
     (case (timeout, Option.bind preflight_since rfc3339) of
        (Some t, Some since) \<Rightarrow> int t \<le> now - since
      | _ \<Rightarrow> False)"

subsection \<open>When the repository is contacted\<close>

lemmas plan_defs = plan_deletion_def plan_ns_terminating_def plan_ns_delete_def
  plan_live_namespace_def plan_prune_or_external_def

lemma plan_prune_delete_iff:
  "plan_prune p pol = DeleteSnapshot \<longleftrightarrow>
     pol = DP_Delete \<and> p \<in> {PB_Retention, PB_FailedHistory, PB_ReplicationRetention}"
  by (cases p; cases pol) auto

lemma plan_prune_not_hold: "plan_prune p pol \<noteq> HoldSnapshotDeletion"
  by (cases p; cases pol) auto

lemma plan_external_delete_iff [simp]:
  "plan_external pol br = DeleteSnapshot \<longleftrightarrow> pol = DP_Delete \<and> br = Allowed"
  "DeleteSnapshot = plan_external pol br \<longleftrightarrow> pol = DP_Delete \<and> br = Allowed"
  by (cases pol; cases br; simp)+

lemma plan_external_hold_iff [simp]:
  "plan_external pol br = HoldSnapshotDeletion \<longleftrightarrow> pol = DP_Delete \<and> br = Held"
  by (cases pol; cases br; simp)

lemma plan_cascade_guard_cases:
  "plan_cascade_guard c pol = None \<longleftrightarrow> c = SDP_Delete"
  "plan_cascade_guard c pol \<noteq> Some DeleteSnapshot"
  "plan_cascade_guard c pol \<noteq> Some HoldSnapshotDeletion"
  by (cases c; cases pol; simp)+

lemma cascade_guard_applies_iff [simp]: "cascade_guard_applies ow \<longleftrightarrow> ow = GoneOrReplaced"
  by (cases ow) auto

definition operator_prune :: "pruned_by option \<Rightarrow> bool" where
  "operator_prune p \<longleftrightarrow> p \<in> Some ` {PB_Retention, PB_FailedHistory, PB_ReplicationRetention}"

lemma plan_ns_delete_delete_iff:
  "plan_ns_delete f = DeleteSnapshot \<longleftrightarrow>
     df_policy f = DP_Delete \<and>
     (operator_prune (pruned_by (df_annotations f)) \<or>
      (df_breaker f = Allowed \<and> pruned_by (df_annotations f) \<in> {None, Some PB_PolicyCascade}))"
proof (cases "pruned_by (df_annotations f)")
  case (Some p)
  then show ?thesis
    by (cases p) (auto simp: plan_ns_delete_def operator_prune_def plan_prune_delete_iff)
qed (simp add: plan_ns_delete_def operator_prune_def)

lemma plan_live_namespace_delete_iff:
  "plan_live_namespace f = DeleteSnapshot \<longleftrightarrow>
     df_policy f = DP_Delete \<and>
     (operator_prune (pruned_by (df_annotations f)) \<or>
      (df_breaker f = Allowed \<and> pruned_by (df_annotations f) = None \<and>
       (df_owner f = GoneOrReplaced \<longrightarrow> df_cascade f = SDP_Delete)))"
proof (cases "pruned_by (df_annotations f)")
  case (Some p)
  then show ?thesis
    by (auto simp: plan_live_namespace_def plan_prune_or_external_def operator_prune_def
        plan_prune_delete_iff)
next
  case None
  then show ?thesis
    using plan_cascade_guard_cases [of "df_cascade f" "df_policy f"]
    by (auto simp: plan_live_namespace_def plan_prune_or_external_def operator_prune_def
        split: option.split)
qed

lemma plan_deletion_deletes_policy:
  "plan_deletion f = DeleteSnapshot \<Longrightarrow> df_policy f = DP_Delete"
  by (auto simp: plan_deletion_def plan_ns_terminating_def plan_ns_delete_delete_iff
      plan_live_namespace_delete_iff split: if_splits option.splits namespace_delete_policy.splits)

text \<open>
  C8: exactly when a deleted \<open>Snapshot\<close> loses its kopia data. The finalizer plans a repository
  delete if and only if the skip-cleanup annotation is absent, the effective policy is Delete, and
  either an operator prune (retention, failed history, replication retention) stamped the row, or the
  breaker allows it and the deletion is external: unstamped with a live or absent schedule owner (or
  an opted-in cascade), or unstamped or policy-cascaded in a terminating namespace. In a terminating
  namespace the repository must in every case have opted in with \<open>onNamespaceDelete: Delete\<close>.
\<close>

theorem plan_deletion_deletes_iff:
  "plan_deletion f = DeleteSnapshot \<longleftrightarrow>
     df_annotations f SKIP_SNAPSHOT_CLEANUP_ANNOTATION = None \<and> df_policy f = DP_Delete \<and>
     (df_ns_terminating f \<longrightarrow> df_ns_policy f = Some NDP_Delete) \<and>
     (operator_prune (pruned_by (df_annotations f)) \<or>
      (df_breaker f = Allowed \<and>
       (if df_ns_terminating f then pruned_by (df_annotations f) \<in> {None, Some PB_PolicyCascade}
        else pruned_by (df_annotations f) = None \<and>
             (df_owner f = GoneOrReplaced \<longrightarrow> df_cascade f = SDP_Delete))))"
proof (cases "df_ns_terminating f")
  case True
  then show ?thesis
    by (cases "df_ns_policy f"; cases "the (df_ns_policy f)")
       (auto simp: plan_deletion_def plan_ns_terminating_def plan_ns_delete_delete_iff)
qed (auto simp: plan_deletion_def plan_live_namespace_delete_iff)

theorem plan_deletion_deletes_iff_witness:
  "plan_deletion \<lparr>df_policy = DP_Delete, df_annotations = Map.empty, df_owner = Alive,
     df_cascade = SDP_Retain, df_ns_terminating = False, df_ns_policy = None,
     df_breaker = Allowed\<rparr> = DeleteSnapshot"
  using plan_deletion_deletes_iff [of "\<lparr>df_policy = DP_Delete, df_annotations = Map.empty,
     df_owner = Alive, df_cascade = SDP_Retain, df_ns_terminating = False, df_ns_policy = None,
     df_breaker = Allowed\<rparr>"]
  by (simp add: pruned_by_def)

subsection \<open>The breaker holds every external delete and no prune\<close>

lemma plan_deletion_hold_iff:
  "plan_deletion f = HoldSnapshotDeletion \<longleftrightarrow>
     counts_toward_breaker f \<and> df_breaker f = Held"
proof (cases "df_ns_terminating f")
  case True
  show ?thesis
  proof (cases "pruned_by (df_annotations f)")
    case (Some p)
    with True show ?thesis
      by (cases p; cases "df_ns_policy f"; cases "the (df_ns_policy f)")
         (auto simp: counts_toward_breaker_def plan_defs plan_prune_not_hold)
  next
    case None
    with True show ?thesis
      by (cases "df_ns_policy f"; cases "the (df_ns_policy f)")
         (auto simp: counts_toward_breaker_def plan_defs)
  qed
next
  case False
  show ?thesis
  proof (cases "pruned_by (df_annotations f)")
    case (Some p)
    with False show ?thesis
      by (cases p; cases "df_policy f") (auto simp: counts_toward_breaker_def plan_defs)
  next
    case None
    with False plan_cascade_guard_cases [of "df_cascade f" "df_policy f"] show ?thesis
      by (auto simp: counts_toward_breaker_def plan_defs split: option.splits)
  qed
qed

text \<open>
  C22: the mass-deletion breaker holds what it counts. A deletion is held if and only if it counts
  toward the breaker and the breaker's verdict is Held; a row the operator itself prunes is never
  held, whatever the verdict, so retention keeps working during an incident.
\<close>

theorem held_iff_counted:
  "(plan_deletion f = HoldSnapshotDeletion \<longleftrightarrow> counts_toward_breaker f \<and> df_breaker f = Held) \<and>
   (operator_prune (pruned_by (df_annotations f)) \<longrightarrow> plan_deletion f \<noteq> HoldSnapshotDeletion)"
proof -
  have "operator_prune (pruned_by (df_annotations f)) \<Longrightarrow> \<not> counts_toward_breaker f"
    by (auto simp: operator_prune_def counts_toward_breaker_def)
  then show ?thesis by (auto simp: plan_deletion_hold_iff)
qed

theorem held_iff_counted_witness:
  "plan_deletion \<lparr>df_policy = DP_Delete,
     df_annotations = [PRUNED_BY_ANNOTATION \<mapsto> ''retention''], df_owner = Alive,
     df_cascade = SDP_Retain, df_ns_terminating = False, df_ns_policy = None, df_breaker = Held\<rparr>
   \<noteq> HoldSnapshotDeletion"
proof -
  have "operator_prune (pruned_by [PRUNED_BY_ANNOTATION \<mapsto> ''retention''])"
    by (simp add: operator_prune_def pruned_by_def pruned_by_parse_def)
  then show ?thesis
    using held_iff_counted [of "\<lparr>df_policy = DP_Delete,
     df_annotations = [PRUNED_BY_ANNOTATION \<mapsto> ''retention''], df_owner = Alive,
     df_cascade = SDP_Retain, df_ns_terminating = False, df_ns_policy = None, df_breaker = Held\<rparr>"]
    by auto
qed

subsection \<open>Foreign data is never deleted\<close>

lemma effective_deletion_policy_foreign:
  "effective_deletion_policy p o' = DP_Delete \<Longrightarrow>
     o' \<noteq> None \<and> o' \<noteq> Some Discovered_Origin \<and> (p = None \<or> p = Some DP_Delete)"
  by (cases "(p, o')" rule: effective_deletion_policy.cases) (auto simp: unwrap_or_def split: option.splits)

text \<open>
  C23: data the operator did not create is never deleted. If the facts carry the effective policy of a
  row whose origin marker is \<open>discovered\<close> or cannot be parsed, no combination of annotations,
  owner, namespace and breaker state makes the finalizer plan a repository delete or hold the row.
\<close>

theorem foreign_rows_never_deleted:
  assumes "df_policy f = effective_deletion_policy p (resolve_origin b)"
    and "resolve_origin b = None \<or> resolve_origin b = Some Discovered_Origin"
  shows "plan_deletion f \<noteq> DeleteSnapshot \<and> plan_deletion f \<noteq> HoldSnapshotDeletion"
proof -
  have "df_policy f = DP_Retain" using assms by auto
  then show ?thesis
    by (auto simp: plan_deletion_hold_iff counts_toward_breaker_def dest: plan_deletion_deletes_policy)
qed

theorem foreign_rows_never_deleted_witness:
  "plan_deletion \<lparr>df_policy = DP_Retain, df_annotations = Map.empty, df_owner = Alive,
     df_cascade = SDP_Delete, df_ns_terminating = True, df_ns_policy = Some NDP_Delete,
     df_breaker = Allowed\<rparr> \<noteq> DeleteSnapshot"
  using foreign_rows_never_deleted [of "\<lparr>df_policy = DP_Retain, df_annotations = Map.empty,
     df_owner = Alive, df_cascade = SDP_Delete, df_ns_terminating = True,
     df_ns_policy = Some NDP_Delete, df_breaker = Allowed\<rparr>" "Some DP_Delete"
     "\<lparr>s_meta = empty_meta\<lparr>m_labels := [ORIGIN_LABEL \<mapsto> ''from-the-future'']\<rparr>,
       s_spec = empty_spec, s_status = None\<rparr>"]
  by (simp add: resolve_origin_def origin_parse_def empty_meta_def)

subsection \<open>The breaker verdict\<close>

text \<open>
  An acknowledgement releases exactly the wave it names and can never pre-approve. With the ack
  parsed and clamped, a deletion is allowed if and only if the breaker is disabled, or the parsed ack
  instant and the present both lie at or after its deletion timestamp, or the unacknowledged count is
  below the threshold; an unparseable annotation acknowledges nothing.
\<close>

theorem breaker_verdict_exact:
  "breaker_state n threshold ts (fst (parse_mass_deletion_ack rfc3339 raw now)) = Allowed \<longleftrightarrow>
     threshold = 0 \<or>
     (\<exists>v a. raw = Some v \<and> rfc3339 v = Some a \<and> ts \<le> a \<and> ts \<le> now) \<or>
     n < threshold"
  by (cases raw; cases "rfc3339 (the raw)")
     (auto simp: breaker_state_def parse_mass_deletion_ack_def clamp_ack_def)

subsection \<open>Placement\<close>

text \<open>
  A delete Job is never placed in a terminating namespace. If the row's own namespace is the one
  being deleted, neither placement function returns it: the Job runs in the repository's or the
  operator's surviving namespace, or the snapshot is orphaned with a reason.
\<close>

theorem placement_avoids_terminating:
  "delete_job_placement True ns repo op \<noteq> RunIn ns \<and>
   batch_job_placement repo op (Some ns) \<noteq> RunIn ns \<and>
   (delete_job_placement True ns repo op = RunIn ns' \<longleftrightarrow>
      batch_job_placement repo op (Some ns) = RunIn ns')"
  by (auto simp: delete_job_placement_def batch_job_placement_def split: option.splits)

text \<open>A phase that may run is never terminal, and terminal phases never launch a Job.\<close>

lemma run_decision_not_terminal:
  "run_decision (Some ph) = Run \<Longrightarrow> \<not> snapshot_phase_is_terminal ph"
  by (cases ph) auto

lemma gates_only_at_first_launch:
  "should_run_preflight ph \<Longrightarrow> run_decision ph = Run \<and> ph \<noteq> Some Running"
  "should_run_pool_gate ph = should_run_preflight ph"
  by (cases ph rule: run_decision.cases; simp)+

text \<open>After the pin action the observed state matches the desired one, and then nothing is done.\<close>

fun apply_pin :: "pin_action \<Rightarrow> bool option \<Rightarrow> bool option" where
  "apply_pin Pin _ = Some True"
| "apply_pin Unpin _ = Some False"
| "apply_pin NoOp s = s"

lemma pin_converges: "pin_decision d (apply_pin (pin_decision d s) s) = NoOp"
  by (cases "(d, s)" rule: pin_decision.cases) auto

end
