(* ===== verification/Rust_Text.thy ===== *)
theory Rust_Text
  imports Kopiur_Prelude
begin

text \<open>
  The standard-library text operations the sources use, on byte strings: decimal and fixed-width
  hexadecimal formatting, \<open>str::parse::<u64>\<close>, \<open>trim\<close>, \<open>split_whitespace\<close>, \<open>join\<close>,
  \<open>trim_end_matches\<close>. Kubernetes names, cron expressions and duration strings are ASCII, where
  bytes and characters coincide.
\<close>

subsection \<open>Digits\<close>

definition digit_char :: "nat \<Rightarrow> char" where
  "digit_char d = char_of (if d < 10 then 48 + d else 87 + d)"

definition digit_val :: "char \<Rightarrow> nat option" where
  "digit_val c = (let n = of_char c in if 48 \<le> n \<and> n \<le> (57::nat) then Some (n - 48) else None)"

lemma digit_val_char [simp]: "d < 10 \<Longrightarrow> digit_val (digit_char d) = Some d"
  by (simp add: digit_val_def digit_char_def)

text \<open>\<open>u64::to_string\<close>: no leading zeros.\<close>

fun dec :: "nat \<Rightarrow> string" where
  "dec n = (if n < 10 then [digit_char n] else dec (n div 10) @ [digit_char (n mod 10)])"

declare dec.simps [simp del]

text \<open>\<open>format!("{:0k x}")\<close> for a value that fits in \<open>k\<close> digits.\<close>

fun hex_fixed :: "nat \<Rightarrow> nat \<Rightarrow> string" where
  "hex_fixed 0 n = []"
| "hex_fixed (Suc k) n = hex_fixed k (n div 16) @ [digit_char (n mod 16)]"

lemma length_hex_fixed [simp]: "length (hex_fixed k n) = k"
  by (induction k arbitrary: n) auto

fun digits_val :: "nat \<Rightarrow> string \<Rightarrow> nat option" where
  "digits_val acc [] = Some acc"
| "digits_val acc (c # cs) =
     (case digit_val c of None \<Rightarrow> None | Some d \<Rightarrow> digits_val (acc * 10 + d) cs)"

text \<open>
  \<open>str::parse::<u64>\<close>: an optional plus sign, at least one digit, digits only, and no overflow.
\<close>

definition u64_max :: nat where
  "u64_max = 2 ^ 64 - 1"

definition parse_u64 :: "string \<Rightarrow> nat option" where
  "parse_u64 s =
     (let ds = (case s of c # cs \<Rightarrow> if c = CHR ''+'' then cs else s | [] \<Rightarrow> [])
      in if ds = [] then None
         else case digits_val 0 ds of
                None \<Rightarrow> None
              | Some n \<Rightarrow> if n \<le> u64_max then Some n else None)"

lemma digits_val_append:
  "digits_val acc (xs @ ys) = Option.bind (digits_val acc xs) (\<lambda>a. digits_val a ys)"
  by (induction xs arbitrary: acc) (auto split: option.split)

lemma digits_val_dec: "digits_val 0 (dec n) = Some n"
proof (induction n rule: dec.induct)
  case (1 n)
  show ?case
  proof (cases "n < 10")
    case True
    then show ?thesis by (subst dec.simps) simp
  next
    case False
    with 1 have "digits_val 0 (dec (n div 10)) = Some (n div 10)" by simp
    with False show ?thesis by (subst dec.simps) (simp add: digits_val_append)
  qed
qed

definition ascii_digit :: "char \<Rightarrow> bool" where
  "ascii_digit c \<longleftrightarrow> digit_val c \<noteq> None"

lemma dec_digits: "c \<in> set (dec n) \<Longrightarrow> ascii_digit c"
proof (induction n rule: dec.induct)
  case (1 n)
  then show ?case
    by (subst (asm) (2) dec.simps) (auto simp: ascii_digit_def split: if_splits)
qed

lemma dec_nonempty [simp]: "dec n \<noteq> []"
  by (subst dec.simps) simp

lemma ascii_digit_simps:
  "\<not> ascii_digit (CHR ''+'')" "\<not> ascii_digit (CHR ''h'')" "\<not> ascii_digit (CHR ''m'')"
  "\<not> ascii_digit (CHR ''s'')" "\<not> ascii_digit (CHR '' '')"
  by (simp_all add: ascii_digit_def digit_val_def)

lemma parse_u64_dec: "n \<le> u64_max \<Longrightarrow> parse_u64 (dec n) = Some n"
proof -
  assume n: "n \<le> u64_max"
  obtain c cs where d: "dec n = c # cs" by (cases "dec n") auto
  then have "c \<noteq> CHR ''+''" using dec_digits [of c n] ascii_digit_simps by auto
  with d n digits_val_dec [of n] show ?thesis by (simp add: parse_u64_def)
qed

subsection \<open>Trimming and splitting\<close>

definition is_space :: "char \<Rightarrow> bool" where
  "is_space c \<longleftrightarrow> c = CHR '' '' \<or> c \<in> {CHR 0x09, CHR 0x0A, CHR 0x0B, CHR 0x0C, CHR 0x0D}"

definition trim_end_matches :: "(char \<Rightarrow> bool) \<Rightarrow> string \<Rightarrow> string" where
  "trim_end_matches p s = rev (dropWhile p (rev s))"

definition trim :: "string \<Rightarrow> string" where
  "trim s = trim_end_matches is_space (dropWhile is_space s)"

fun split_ws :: "string \<Rightarrow> string \<Rightarrow> string list" where
  "split_ws cur [] = (if cur = [] then [] else [cur])"
| "split_ws cur (c # cs) =
     (if is_space c then (if cur = [] then split_ws [] cs else cur # split_ws [] cs)
      else split_ws (cur @ [c]) cs)"

definition split_whitespace :: "string \<Rightarrow> string list" where
  "split_whitespace s = split_ws [] s"

fun join :: "string \<Rightarrow> string list \<Rightarrow> string" where
  "join sep [] = []"
| "join sep [x] = x"
| "join sep (x # y # xs) = x @ sep @ join sep (y # xs)"

definition strip_suffix :: "char \<Rightarrow> string \<Rightarrow> string option" where
  "strip_suffix c s = (if s \<noteq> [] \<and> last s = c then Some (butlast s) else None)"

lemma trim_end_matches_last:
  "trim_end_matches p s \<noteq> [] \<Longrightarrow> \<not> p (last (trim_end_matches p s))"
  using hd_dropWhile [of p "rev s"] by (simp add: trim_end_matches_def last_rev)

lemma length_trim_end_le: "length (trim_end_matches p s) \<le> length s"
  using length_dropWhile_le [of p "rev s"] by (simp add: trim_end_matches_def)

lemma trim_id:
  assumes "s \<noteq> []" and "\<not> is_space (hd s)" and "\<not> is_space (last s)"
  shows "trim s = s"
proof -
  have "dropWhile is_space s = s" using assms by (cases s) auto
  moreover have "dropWhile is_space (rev s) = rev s"
    using assms by (cases "rev s") (auto simp: last_rev [symmetric] hd_rev)
  ultimately show ?thesis by (simp add: trim_def trim_end_matches_def)
qed

lemma split_ws_word:
  "\<forall>c \<in> set w. \<not> is_space c \<Longrightarrow> split_ws cur (w @ rest) = split_ws (cur @ w) rest"
  by (induction w arbitrary: cur) auto

text \<open>Joining non-empty words by a space and splitting the result gives the words back.\<close>

definition word_list :: "string list \<Rightarrow> bool" where
  "word_list ws \<longleftrightarrow> (\<forall>w \<in> set ws. w \<noteq> [] \<and> (\<forall>c \<in> set w. \<not> is_space c))"

lemma split_join: "word_list ws \<Longrightarrow> split_whitespace (join '' '' ws) = ws"
proof (induction "'' ''" ws rule: join.induct)
  case 1
  then show ?case by (simp add: split_whitespace_def)
next
  case (2 x)
  then show ?case
    using split_ws_word [of x "[]" "[]"] by (simp add: split_whitespace_def word_list_def)
next
  case (3 x y xs)
  then have "split_whitespace (join '' '' (y # xs)) = y # xs" by (simp add: word_list_def)
  moreover have "is_space (CHR '' '')" by (simp add: is_space_def)
  ultimately show ?case
    using 3(2) split_ws_word [of x "[]" "CHR '' '' # join '' '' (y # xs)"]
    by (simp add: split_whitespace_def word_list_def)
qed

lemma split_ws_words: "\<forall>c \<in> set cur. \<not> is_space c \<Longrightarrow> word_list (split_ws cur s)"
proof (induction s arbitrary: cur)
  case Nil
  then show ?case by (simp add: word_list_def)
next
  case (Cons c cs)
  have nil: "word_list (split_ws [] cs)" by (rule Cons.IH) simp
  show ?case
  proof (cases "is_space c")
    case True
    with nil Cons.prems show ?thesis by (simp add: word_list_def)
  next
    case False
    with Cons.prems have "word_list (split_ws (cur @ [c]) cs)" by (intro Cons.IH) simp
    with False show ?thesis by simp
  qed
qed

lemma split_whitespace_words: "word_list (split_whitespace s)"
  unfolding split_whitespace_def by (rule split_ws_words) simp

end
