(* ===== verification/Naming.thy ===== *)
theory Naming
  imports Kopiur_Api Rust_Text
begin

text \<open>
  Deterministic names, jitter and durations: \<open>crates/controller/src/naming.rs\<close>,
  \<open>crates/api/src/jitter.rs\<close>, \<open>crates/api/src/duration.rs\<close>. Hashes are 64-bit FNV-1a, computed
  on \<open>64 word\<close> with the wrap-around of \<open>wrapping_mul\<close>.
\<close>

unbundle bit_operations_syntax

subsection \<open>FNV-1a\<close>

definition FNV_OFFSET :: "64 word" where
  "FNV_OFFSET = 0xcbf29ce484222325"

definition FNV_PRIME :: "64 word" where
  "FNV_PRIME = 0x00000100000001b3"

fun fnv1a_bytes :: "64 word \<Rightarrow> 64 word list \<Rightarrow> 64 word" where
  "fnv1a_bytes h [] = h"
| "fnv1a_bytes h (b # bs) = fnv1a_bytes ((h XOR b) * FNV_PRIME) bs"

definition str_bytes :: "string \<Rightarrow> 64 word list" where
  "str_bytes s = map of_char s"

text \<open>\<open>naming::fnv1a\<close>: over the string's bytes.\<close>

definition naming_fnv1a :: "string \<Rightarrow> 64 word" where
  "naming_fnv1a s = fnv1a_bytes FNV_OFFSET (str_bytes s)"

text \<open>\<open>i64::to_le_bytes\<close>, each byte widened to \<open>u64\<close>.\<close>

definition to_le_bytes :: "int \<Rightarrow> 64 word list" where
  "to_le_bytes n = map (\<lambda>i. drop_bit (8 * i) (word_of_int n :: 64 word) AND 255) [0..<8]"

text \<open>\<open>jitter::fnv1a\<close>: the seed's bytes, then the slot as eight little-endian bytes.\<close>

definition jitter_fnv1a :: "string \<Rightarrow> int \<Rightarrow> 64 word" where
  "jitter_fnv1a seed slot_start_unix =
     fnv1a_bytes (fnv1a_bytes FNV_OFFSET (str_bytes seed)) (to_le_bytes slot_start_unix)"

subsection \<open>Bounded names\<close>

definition JOB_NAME_MAX :: nat where
  "JOB_NAME_MAX = 57"

definition capped_name :: "string \<Rightarrow> string" where
  "capped_name full =
     (if length full \<le> 63 then full
      else trim_end_matches (\<lambda>c. c = CHR ''-'') (take 46 full) @ ''-'' @
             hex_fixed 16 (unat (naming_fnv1a full)))"

definition capped_job_name :: "string \<Rightarrow> string" where
  "capped_job_name full =
     (if length full \<le> JOB_NAME_MAX then full
      else trim_end_matches (\<lambda>c. c = CHR ''-'' \<or> c = CHR ''.'') (take (JOB_NAME_MAX - 17) full) @ ''-'' @
             hex_fixed 16 (unat (naming_fnv1a full)))"

definition legacy_job_name :: "string \<Rightarrow> string \<Rightarrow> string option" where
  "legacy_job_name legacy current =
     (if legacy \<noteq> current \<and> length legacy \<le> 63 then Some legacy else None)"

definition short_hash :: "string \<Rightarrow> string" where
  "short_hash s = hex_fixed 8 (unat (naming_fnv1a s AND 0xffffffff))"

definition wide_hash :: "string \<Rightarrow> string" where
  "wide_hash s = hex_fixed 16 (unat (naming_fnv1a s))"

definition repo_tag6 :: "string \<Rightarrow> string" where
  "repo_tag6 key = take 6 (short_hash key)"

definition repo_label :: "repository_ref \<Rightarrow> string" where
  "repo_label r = take 40 (rr_name r) @ ''-'' @ short_hash (pinned_repo_key r)"

subsection \<open>Jitter\<close>

definition jitter_offset :: "string \<Rightarrow> int \<Rightarrow> duration \<Rightarrow> duration" where
  "jitter_offset seed slot_start_unix mx =
     (let max_secs = mx div 1000000000
      in if max_secs = 0 then 0
         else duration_from_secs (unat (jitter_fnv1a seed slot_start_unix) mod max_secs))"

text \<open>\<open>RANGES\<close> of \<open>substitute_h\<close>: lower bound and width per cron field.\<close>

definition cron_ranges :: "(nat \<times> nat) list" where
  "cron_ranges = [(0, 60), (0, 24), (1, 28), (1, 12), (0, 7)]"

definition resolve_h :: "64 word \<Rightarrow> nat \<Rightarrow> string \<Rightarrow> string" where
  "resolve_h base i f =
     (if f = ''H'' then
        (let (lo, width) = cron_ranges ! i;
             mixed = word_rotl ((i + 1) * 7) base
         in dec (lo + unat mixed mod width))
      else f)"

definition substitute_h :: "string \<Rightarrow> string \<Rightarrow> string" where
  "substitute_h expr seed =
     (let fields = split_whitespace expr
      in if length fields \<noteq> 5 then expr
         else join '' '' (map (\<lambda>(i, f). resolve_h (jitter_fnv1a seed 0) i f) (enumerate 0 fields)))"

subsection \<open>Go-style durations\<close>

definition checked_mul_u64 :: "nat \<Rightarrow> nat \<Rightarrow> nat option" where
  "checked_mul_u64 a b = (if a * b \<le> u64_max then Some (a * b) else None)"

definition parse_go_duration :: "string \<Rightarrow> duration option" where
  "parse_go_duration str =
     (let s = trim str
      in if s = [] then None
         else
           (let (num, mult) =
              (case strip_suffix (CHR ''h'') s of Some stripped \<Rightarrow> (stripped, 3600)
               | None \<Rightarrow>
                  (case strip_suffix (CHR ''m'') s of Some stripped \<Rightarrow> (stripped, 60)
                   | None \<Rightarrow>
                      (case strip_suffix (CHR ''s'') s of Some stripped \<Rightarrow> (stripped, 1)
                       | None \<Rightarrow> (s, 1))))
            in map_option duration_from_secs
                 (Option.bind (parse_u64 (trim num)) (\<lambda>n. checked_mul_u64 n mult))))"

definition render_go_duration :: "duration \<Rightarrow> string" where
  "render_go_duration d =
     (let secs = d div 1000000000
      in if secs \<noteq> 0 \<and> secs mod 3600 = 0 then dec (secs div 3600) @ ''h''
         else if secs \<noteq> 0 \<and> secs mod 60 = 0 then dec (secs div 60) @ ''m''
         else dec secs @ ''s'')"

definition resolve_timeout :: "string option \<Rightarrow> duration \<Rightarrow> duration option" where
  "resolve_timeout spec dflt =
     (case spec of None \<Rightarrow> Some dflt
      | Some s \<Rightarrow>
          (case parse_go_duration s of
             Some d \<Rightarrow> if d = 0 then None else Some d
           | None \<Rightarrow> Some dflt))"

subsection \<open>Names fit\<close>

lemma length_capped_name: "length (capped_name full) \<le> 63"
  using length_trim_end_le [of "\<lambda>c. c = CHR ''-''" "take 46 full"]
  by (simp add: capped_name_def)

lemma length_capped_job_name: "length (capped_job_name full) \<le> 57"
  using length_trim_end_le [of "\<lambda>c. c = CHR ''-'' \<or> c = CHR ''.''" "take (JOB_NAME_MAX - 17) full"]
  by (simp add: capped_job_name_def JOB_NAME_MAX_def)

lemma capped_short:
  "length full \<le> 63 \<Longrightarrow> capped_name full = full"
  "length full \<le> 57 \<Longrightarrow> capped_job_name full = full"
  by (simp_all add: capped_name_def capped_job_name_def JOB_NAME_MAX_def)

text \<open>Two long names collide only when their prefixes and their hashes do.\<close>

lemma hex_fixed_inj: "hex_fixed k m = hex_fixed k n \<Longrightarrow> m < 16 ^ k \<Longrightarrow> n < 16 ^ k \<Longrightarrow> m = n"
proof (induction k arbitrary: m n)
  case (Suc k)
  have eq: "hex_fixed k (m div 16) = hex_fixed k (n div 16)"
    and dig: "digit_char (m mod 16) = digit_char (n mod 16)"
    using Suc.prems(1) by auto
  have "m div 16 = n div 16"
    using Suc.IH [OF eq] Suc.prems(2,3) by (simp add: less_mult_imp_div_less mult.commute)
  moreover have "m mod 16 = n mod 16"
  proof -
    have "of_char (digit_char d) = (if d < 10 then 48 + d else 87 + d)" if "d < 16" for d :: nat
      using that by (simp add: digit_char_def)
    then show ?thesis
      using arg_cong [OF dig, of "of_char :: char \<Rightarrow> nat"] by (auto split: if_splits)
  qed
  ultimately show ?case by (metis div_mult_mod_eq)
qed simp

lemma wide_hash_inj: "wide_hash s = wide_hash t \<longleftrightarrow> naming_fnv1a s = naming_fnv1a t"
proof
  assume "wide_hash s = wide_hash t"
  moreover have "unat (naming_fnv1a x) < 16 ^ 16" for x
    using unsigned_less [of "naming_fnv1a x", where ?'a = nat] by simp
  ultimately show "naming_fnv1a s = naming_fnv1a t"
    unfolding wide_hash_def by (metis hex_fixed_inj word_unat_eq_iff)
qed (simp add: wide_hash_def)



subsection \<open>Jitter is bounded and hashed cron fields stay in range\<close>

text \<open>
  A jitter offset lies in the requested window. For every seed, slot and window of at least one
  second the offset is strictly less than the window; a window below one second gives no jitter.
\<close>

theorem jitter_offset_bounded:
  "(if mx < 1000000000 then jitter_offset seed slot mx = 0 else jitter_offset seed slot mx < mx) \<and>
   1000000000 dvd jitter_offset seed slot mx"
proof (cases "mx < 1000000000")
  case False
  let ?s = "mx div 1000000000"
  let ?o = "unat (jitter_fnv1a seed slot) mod ?s"
  have s: "0 < ?s" using False by simp
  then have "?o < ?s" by simp
  then have "?o * 1000000000 < ?s * 1000000000" by simp
  also have "\<dots> \<le> mx" by simp
  finally show ?thesis using False s by (simp add: jitter_offset_def Let_def duration_from_secs_def)
qed (simp add: jitter_offset_def)

lemma dec_word: "dec n \<noteq> [] \<and> (\<forall>c \<in> set (dec n). \<not> is_space c)"
proof -
  have "\<not> is_space c" if "ascii_digit c" for c
    using that by (auto simp: ascii_digit_def is_space_def digit_val_def)
  then show ?thesis using dec_digits by auto
qed

lemma resolve_h_nonempty: "f \<noteq> [] \<Longrightarrow> resolve_h base i f \<noteq> []"
  using dec_word by (simp add: resolve_h_def split: prod.split)

lemma resolve_h_no_space:
  "\<forall>c \<in> set f. \<not> is_space c \<Longrightarrow> c \<in> set (resolve_h base i f) \<Longrightarrow> \<not> is_space c"
  using dec_word by (auto simp: resolve_h_def split: if_splits prod.splits)

lemma resolve_h_field:
  assumes "cron_ranges ! i = (lo, Suc hi - lo)" and "lo \<le> hi"
  shows "if f = ''H'' then \<exists>n. resolve_h base i f = dec n \<and> lo \<le> n \<and> n \<le> hi
         else resolve_h base i f = f"
proof -
  have "lo + x mod (Suc hi - lo) \<le> hi" for x :: nat
    using mod_less_divisor [of "Suc hi - lo" x] assms(2) by linarith
  then show ?thesis using assms(1) by (auto simp: resolve_h_def)
qed

text \<open>
  Resolving the hashed fields of a five-field cron expression yields a five-field expression.
  Field by field it is the input, except that each \<open>H\<close> becomes the decimal of a value inside the
  field's range (minute 0-59, hour 0-23, day of month 1-28, month 1-12, day of week 0-6).
\<close>

theorem substitute_h_in_range:
  assumes "split_whitespace expr = [f0, f1, f2, f3, f4]"
  shows "\<exists>g0 g1 g2 g3 g4. split_whitespace (substitute_h expr seed) = [g0, g1, g2, g3, g4] \<and>
    (if f0 = ''H'' then \<exists>n. g0 = dec n \<and> n \<le> 59 else g0 = f0) \<and>
    (if f1 = ''H'' then \<exists>n. g1 = dec n \<and> n \<le> 23 else g1 = f1) \<and>
    (if f2 = ''H'' then \<exists>n. g2 = dec n \<and> 1 \<le> n \<and> n \<le> 28 else g2 = f2) \<and>
    (if f3 = ''H'' then \<exists>n. g3 = dec n \<and> 1 \<le> n \<and> n \<le> 12 else g3 = f3) \<and>
    (if f4 = ''H'' then \<exists>n. g4 = dec n \<and> n \<le> 6 else g4 = f4)"
proof -
  let ?b = "jitter_fnv1a seed 0"
  let ?gs = "[resolve_h ?b 0 f0, resolve_h ?b 1 f1, resolve_h ?b 2 f2, resolve_h ?b 3 f3,
     resolve_h ?b 4 f4]"
  have words: "word_list [f0, f1, f2, f3, f4]"
    using split_whitespace_words [of expr] assms by simp
  have sub: "substitute_h expr seed = join '' '' ?gs"
    by (simp add: substitute_h_def assms numeral_eq_Suc)
  have "word_list ?gs" using words by (auto simp: word_list_def resolve_h_nonempty dest: resolve_h_no_space)
  then have split: "split_whitespace (substitute_h expr seed) = ?gs"
    unfolding sub by (rule split_join)
  have r0: "if f0 = ''H'' then \<exists>n. resolve_h ?b 0 f0 = dec n \<and> n \<le> 59
      else resolve_h ?b 0 f0 = f0"
    using resolve_h_field [of 0 0 59 f0 ?b] by (auto simp: cron_ranges_def split: if_splits)
  have r1: "if f1 = ''H'' then \<exists>n. resolve_h ?b 1 f1 = dec n \<and> n \<le> 23
      else resolve_h ?b 1 f1 = f1"
    using resolve_h_field [of 1 0 23 f1 ?b] by (auto simp: cron_ranges_def split: if_splits)
  have r2: "if f2 = ''H'' then \<exists>n. resolve_h ?b 2 f2 = dec n \<and> 1 \<le> n \<and> n \<le> 28
      else resolve_h ?b 2 f2 = f2"
    using resolve_h_field [of 2 1 28 f2 ?b] by (auto simp: cron_ranges_def split: if_splits)
  have r3: "if f3 = ''H'' then \<exists>n. resolve_h ?b 3 f3 = dec n \<and> 1 \<le> n \<and> n \<le> 12
      else resolve_h ?b 3 f3 = f3"
    using resolve_h_field [of 3 1 12 f3 ?b] by (auto simp: cron_ranges_def split: if_splits)
  have r4: "if f4 = ''H'' then \<exists>n. resolve_h ?b 4 f4 = dec n \<and> n \<le> 6
      else resolve_h ?b 4 f4 = f4"
    using resolve_h_field [of 4 0 6 f4 ?b] by (auto simp: cron_ranges_def split: if_splits)
  show ?thesis unfolding split
    by (intro exI conjI, rule refl, rule r0, rule r1, rule r2, rule r3, rule r4)
qed

theorem substitute_h_in_range_witness:
  "\<exists>g0 g1 g2 g3 g4. split_whitespace (substitute_h ''H 2 * * *'' ''uid'') = [g0, g1, g2, g3, g4] \<and>
     g1 = ''2'' \<and> (\<exists>n. g0 = dec n \<and> n \<le> 59)"
proof -
  have "split_whitespace ''H 2 * * *'' = [''H'', ''2'', ''*'', ''*'', ''*'']"
    by (simp add: split_whitespace_def is_space_def)
  from substitute_h_in_range [OF this, of "''uid''"] show ?thesis by auto
qed

subsection \<open>Durations round-trip\<close>

lemma strip_suffix_snoc [simp]: "strip_suffix c (s @ [d]) = (if d = c then Some s else None)"
  by (simp add: strip_suffix_def)

lemma trim_dec [simp]: "trim (dec n) = dec n"
  using dec_word [of n] by (intro trim_id) auto

lemma trim_dec_unit:
  assumes "u \<in> {CHR ''h'', CHR ''m'', CHR ''s''}"
  shows "trim (dec n @ [u]) = dec n @ [u]"
proof (rule trim_id)
  show "\<not> is_space (hd (dec n @ [u]))" using dec_word [of n] by simp
  show "\<not> is_space (last (dec n @ [u]))" using assms by (auto simp: is_space_def)
qed simp

text \<open>
  C25: rendering a duration and parsing the result returns the duration. Every duration that is a
  whole number of seconds representable as \<open>u64\<close> survives the round trip through the Go-style
  string exactly, with the largest unit that divides it.
\<close>

theorem go_duration_roundtrip:
  assumes "secs \<le> u64_max"
  shows "parse_go_duration (render_go_duration (duration_from_secs secs)) =
           Some (duration_from_secs secs)"
proof -
  have le: "secs div k \<le> u64_max" for k :: nat
    using assms div_le_dividend le_trans by blast
  have mul: "k dvd secs \<Longrightarrow> checked_mul_u64 (secs div k) k = Some secs" for k
    using assms by (simp add: checked_mul_u64_def)
  have one: "n \<le> u64_max \<Longrightarrow> checked_mul_u64 n (Suc 0) = Some n" for n
    by (simp add: checked_mul_u64_def)
  have sec: "duration_from_secs secs div 1000000000 = secs" by (simp add: duration_from_secs_def)
  show ?thesis
    using assms le [of 3600] le [of 60] mul [of 3600] mul [of 60]
    by (auto simp: render_go_duration_def sec parse_go_duration_def Let_def trim_dec_unit
        parse_u64_dec one dvd_eq_mod_eq_0)
qed

theorem go_duration_roundtrip_witness:
  "parse_go_duration (render_go_duration (duration_from_secs 21600)) = Some (duration_from_secs 21600)"
  using go_duration_roundtrip [of 21600] by (simp add: u64_max_def)

end
