(* ===== verification/Batching.thy ===== *)
theory Batching
  imports Deletion Naming
begin

text \<open>
  Batched snapshot deletion: \<open>crates/controller/src/snapshot/batch.rs\<close> (the pending set, the fire
  set, the fire decision, the classification of batch Jobs) and the dispatcher of
  \<open>crates/controller/src/snapshot/mod.rs\<close> that composes them. The serialized size of a work-spec
  item is \<open>serde_json\<close>'s and is the parameter \<open>item_bytes\<close>.
\<close>

subsection \<open>The counting set\<close>

record snapshot_anchor =
  an_source_path :: string
  an_start_time :: "string option"
  an_username :: "string option"
  an_hostname :: "string option"

record pending_member =
  pm_namespace :: string
  pm_name :: string
  pm_uid :: string
  pm_snapshot_id :: string
  pm_anchor :: snapshot_anchor
  pm_external :: bool
  pm_deletion_timestamp :: datetime
  pm_pinned :: bool
  pm_schedule_owned :: bool

definition deletion_timestamp_utc :: "snapshot \<Rightarrow> datetime option" where
  "deletion_timestamp_utc b = map_option from_timestamp (m_deletion_timestamp (s_meta b))"

definition anchor_for :: "snapshot \<Rightarrow> snapshot_anchor" where
  "anchor_for b =
     (let snap = s_snapshot_info b; timing = Option.bind (s_status b) ss_timing
      in \<lparr>an_source_path = unwrap_or (Option.bind snap (\<lambda>s. ri_source_path (si_identity s))) '''',
          an_start_time = Option.bind timing st_start_time,
          an_username = map_option (\<lambda>s. ri_username (si_identity s)) snap,
          an_hostname = map_option (\<lambda>s. ri_hostname (si_identity s)) snap\<rparr>)"

definition pinned_repository :: "snapshot \<Rightarrow> repository_ref option" where
  "pinned_repository b = Option.bind (s_status b) ss_resolved_repository"

definition repo_matches :: "snapshot \<Rightarrow> string \<Rightarrow> bool" where
  "repo_matches b key =
     (case pinned_repository b of
        Some pinned \<Rightarrow> pinned_repo_key pinned = key
      | None \<Rightarrow>
          (case sp_repository (s_spec b) of
             Some pinned \<Rightarrow> pinned_repo_key pinned = key
           | None \<Rightarrow> True))"

definition has_cleanup_finalizer :: "snapshot \<Rightarrow> bool" where
  "has_cleanup_finalizer b \<longleftrightarrow> SNAPSHOT_CLEANUP_FINALIZER \<in> set (m_finalizers (s_meta b))"

definition is_pending_candidate :: "snapshot \<Rightarrow> string \<Rightarrow> bool" where
  "is_pending_candidate b key \<longleftrightarrow>
     deletion_timestamp_utc b \<noteq> None \<and> has_cleanup_finalizer b \<and> repo_matches b key \<and>
     s_snapshot_info b \<noteq> None"

definition pending_candidate_namespaces :: "snapshot list \<Rightarrow> string \<Rightarrow> string set" where
  "pending_candidate_namespaces snapshots key =
     set (filter_map (\<lambda>s. m_namespace (s_meta s)) (filter (\<lambda>s. is_pending_candidate s key) snapshots))"

definition member_facts ::
    "snapshot \<Rightarrow> string \<Rightarrow> owner_state \<Rightarrow> string set \<Rightarrow> namespace_delete_policy \<Rightarrow> deletion_facts" where
  "member_facts b namespace owner terminating ns_policy =
     \<lparr>df_policy = effective_deletion_policy (sp_deletion_policy (s_spec b)) (resolve_origin b),
      df_annotations = m_annotations (s_meta b),
      df_owner = owner,
      df_cascade = effective_on_schedule_delete (sp_on_schedule_delete (s_spec b)),
      df_ns_terminating = namespace \<in> terminating,
      df_ns_policy = Some ns_policy,
      df_breaker = Allowed\<rparr>"

definition pending_member_for ::
    "snapshot \<Rightarrow> string \<Rightarrow> (snapshot \<Rightarrow> owner_state) \<Rightarrow> string set \<Rightarrow> namespace_delete_policy \<Rightarrow>
     pending_member option" where
  "pending_member_for b key owner_lookup terminating ns_policy =
     (case deletion_timestamp_utc b of None \<Rightarrow> None
      | Some deletion_timestamp \<Rightarrow>
          if \<not> has_cleanup_finalizer b then None
          else if \<not> repo_matches b key then None
          else case s_snapshot_info b of None \<Rightarrow> None
          | Some info \<Rightarrow>
              (case m_namespace (s_meta b) of None \<Rightarrow> None
               | Some namespace \<Rightarrow>
                   if plan_deletion (member_facts b namespace (owner_lookup b) terminating ns_policy)
                        \<noteq> DeleteSnapshot then None
                   else case m_uid (s_meta b) of None \<Rightarrow> None
                   | Some uid \<Rightarrow>
                       Some \<lparr>pm_namespace = namespace,
                             pm_name = unwrap_or (m_name (s_meta b)) '''',
                             pm_uid = uid,
                             pm_snapshot_id = si_kopia_snapshot_id info,
                             pm_anchor = anchor_for b,
                             pm_external = breaker_relevant (pruned_by (m_annotations (s_meta b))),
                             pm_deletion_timestamp = deletion_timestamp,
                             pm_pinned = (pinned_repository b \<noteq> None),
                             pm_schedule_owned = (schedule_owner_ref b \<noteq> None)\<rparr>))"

definition pending_members ::
    "snapshot list \<Rightarrow> string \<Rightarrow> (snapshot \<Rightarrow> owner_state) \<Rightarrow> string set \<Rightarrow> namespace_delete_policy \<Rightarrow>
     pending_member list" where
  "pending_members snapshots key owner_lookup terminating ns_policy =
     filter_map (\<lambda>s. pending_member_for s key owner_lookup terminating ns_policy) snapshots"

definition unacked_breaker_count :: "pending_member list \<Rightarrow> datetime option \<Rightarrow> nat" where
  "unacked_breaker_count pending ack =
     length (filter (\<lambda>m. pm_external m \<and> is_none_or (\<lambda>a. a < pm_deletion_timestamp m) ack) pending)"

definition newest_pending_deletion :: "pending_member list \<Rightarrow> datetime option" where
  "newest_pending_deletion pending =
     iter_max (map pm_deletion_timestamp (filter pm_external pending))"

subsection \<open>The fire set\<close>

definition MAX_BATCH_MEMBERS :: nat where
  "MAX_BATCH_MEMBERS = 1000"

definition BATCH_ITEMS_BYTE_BUDGET :: nat where
  "BATCH_ITEMS_BYTE_BUDGET = 80 * 1024"

definition BATCH_QUIET_WINDOW :: duration where
  "BATCH_QUIET_WINDOW = duration_from_secs 10"

definition FAILED_BATCH_REAP_AGE :: duration where
  "FAILED_BATCH_REAP_AGE = duration_from_secs 60"

record fire_eligibility =
  fe_self_uid :: string
  fe_threshold :: nat
  fe_ack :: "datetime option"
  fe_on_namespace_delete :: namespace_delete_policy
  fe_terminating_namespaces :: "string set"
  fe_unreadable_namespaces :: "string set"
  fe_schedule_synced :: bool

definition fire_pin_ok :: "pending_member \<Rightarrow> bool" where
  "fire_pin_ok m = pm_pinned m"

definition fire_schedule_ok :: "pending_member \<Rightarrow> bool \<Rightarrow> bool" where
  "fire_schedule_ok m schedule_synced \<longleftrightarrow>
     schedule_synced \<or> \<not> pm_external m \<or> \<not> pm_schedule_owned m"

definition fire_namespace_readable_ok :: "pending_member \<Rightarrow> string set \<Rightarrow> bool" where
  "fire_namespace_readable_ok m unreadable \<longleftrightarrow> pm_namespace m \<notin> unreadable"

definition fire_namespace_ok :: "pending_member \<Rightarrow> string set \<Rightarrow> namespace_delete_policy \<Rightarrow> bool" where
  "fire_namespace_ok m terminating policy =
     (if pm_namespace m \<notin> terminating then True
      else case policy of NDP_Delete \<Rightarrow> True | NDP_Orphan \<Rightarrow> False)"

definition fire_breaker_ok :: "pending_member \<Rightarrow> bool \<Rightarrow> datetime option \<Rightarrow> bool" where
  "fire_breaker_ok m breaker_tripping ack =
     (if \<not> breaker_tripping then True
      else \<not> pm_external m \<or> is_some_and (\<lambda>a. pm_deletion_timestamp m \<le> a) ack)"

definition fire_eligible :: "pending_member list \<Rightarrow> fire_eligibility \<Rightarrow> pending_member list" where
  "fire_eligible pending cx =
     (let unacked = unacked_breaker_count pending (fe_ack cx);
          breaker_tripping = (0 < fe_threshold cx \<and> fe_threshold cx \<le> unacked)
      in filter (\<lambda>m. pm_uid m = fe_self_uid cx \<or>
            (fire_pin_ok m \<and> fire_schedule_ok m (fe_schedule_synced cx) \<and>
             fire_namespace_readable_ok m (fe_unreadable_namespaces cx) \<and>
             fire_namespace_ok m (fe_terminating_namespaces cx) (fe_on_namespace_delete cx) \<and>
             fire_breaker_ok m breaker_tripping (fe_ack cx))) pending)"

definition fireable_members :: "pending_member list \<Rightarrow> string set \<Rightarrow> pending_member list" where
  "fireable_members pending covered = filter (\<lambda>m. pm_uid m \<notin> covered) pending"

subsection \<open>The fire decision\<close>

datatype batch_fire = Fire "pending_member list" | Accumulate duration

fun within_budget_count ::
    "(pending_member \<Rightarrow> nat) \<Rightarrow> nat \<Rightarrow> pending_member list \<Rightarrow> nat" where
  "within_budget_count item_bytes used [] = 0"
| "within_budget_count item_bytes used (m # ms) =
     (if used + item_bytes m \<le> BATCH_ITEMS_BYTE_BUDGET
      then Suc (within_budget_count item_bytes (used + item_bytes m) ms) else 0)"

definition within_byte_budget ::
    "(pending_member \<Rightarrow> nat) \<Rightarrow> pending_member list \<Rightarrow> pending_member list" where
  "within_byte_budget item_bytes srt = take (max (within_budget_count item_bytes 0 srt) 1) srt"

definition oldest_first_truncated ::
    "(pending_member \<Rightarrow> nat) \<Rightarrow> pending_member list \<Rightarrow> nat \<Rightarrow> pending_member list" where
  "oldest_first_truncated item_bytes fireable mx =
     within_byte_budget item_bytes
       (take mx (sort_key (\<lambda>m. (pm_deletion_timestamp m, pm_uid m)) fireable))"

definition batch_fire_decision ::
    "(pending_member \<Rightarrow> nat) \<Rightarrow> pending_member list \<Rightarrow> datetime \<Rightarrow> duration \<Rightarrow> nat \<Rightarrow> batch_fire" where
  "batch_fire_decision item_bytes fireable now quiet_window mx =
     (case iter_min (map pm_deletion_timestamp fireable) of
        None \<Rightarrow> Accumulate quiet_window
      | Some oldest \<Rightarrow>
          (let age = unwrap_or (to_std (now - oldest)) 0
           in if mx \<le> length fireable \<or> quiet_window \<le> age
              then Fire (oldest_first_truncated item_bytes fireable mx)
              else Accumulate (quiet_window - age)))"

definition batch_job_name :: "repository_ref \<Rightarrow> pending_member list \<Rightarrow> string" where
  "batch_job_name repo members =
     capped_job_name (''snapdel-'' @ repo_label repo @ ''-'' @
       join ''-'' (sort (map pm_uid members)))"

datatype deletion_requeue =
    LiveJob | Throttled | JobFailed | RequeueHeld | Accumulating duration

fun deletion_requeue_after :: "deletion_requeue \<Rightarrow> duration" where
  "deletion_requeue_after LiveJob = duration_from_secs 15"
| "deletion_requeue_after Throttled = duration_from_secs 30"
| "deletion_requeue_after JobFailed = duration_from_secs 60"
| "deletion_requeue_after RequeueHeld = duration_from_secs 300"
| "deletion_requeue_after (Accumulating d) = d"

subsection \<open>Batch Job classification\<close>

datatype batch_job_state = JLive | JSucceeded | JFailed

record batch_job_view =
  bj_name :: string
  bj_members :: "string list"
  bj_state :: batch_job_state
  bj_terminal_at :: "datetime option"

datatype member_disposition = LiveMember | SucceededMember | FailedMember | NotAMember bool

fun disposition_flags ::
    "string \<Rightarrow> batch_job_view list \<Rightarrow> bool \<times> bool \<times> bool \<times> bool \<Rightarrow> bool \<times> bool \<times> bool \<times> bool" where
  "disposition_flags uid [] flags = flags"
| "disposition_flags uid (j # js) (succeeded, live, failed, any_live) =
     (let covers = uid \<in> set (bj_members j)
      in disposition_flags uid js
        (case bj_state j of
           JSucceeded \<Rightarrow> (succeeded \<or> covers, live, failed, any_live)
         | JLive \<Rightarrow> (succeeded, live \<or> covers, failed, True)
         | JFailed \<Rightarrow> (succeeded, live, failed \<or> covers, any_live)))"

definition member_disposition :: "string \<Rightarrow> batch_job_view list \<Rightarrow> member_disposition" where
  "member_disposition uid jobs =
     (case disposition_flags uid jobs (False, False, False, False) of
        (succeeded, live, failed, any_live) \<Rightarrow>
          if succeeded then SucceededMember
          else if live then LiveMember
          else if failed then FailedMember
          else NotAMember any_live)"

fun covered_uids :: "batch_job_view list \<Rightarrow> string set" where
  "covered_uids [] = {}"
| "covered_uids (j # js) =
     (case bj_state j of
        JLive \<Rightarrow> set (bj_members j) \<union> covered_uids js
      | JSucceeded \<Rightarrow> set (bj_members j) \<union> covered_uids js
      | JFailed \<Rightarrow> covered_uids js)"

datatype batch_job_outcome = OSucceeded | OFailed

record reap_target =
  rt_name :: string
  rt_outcome :: batch_job_outcome
  rt_members :: nat

definition reap_target_of ::
    "string set \<Rightarrow> datetime \<Rightarrow> duration \<Rightarrow> batch_job_view \<Rightarrow> reap_target option" where
  "reap_target_of finalizer_holding now failed_min_age j =
     (case bj_state j of
        JLive \<Rightarrow> None
      | JSucceeded \<Rightarrow>
          if list_all (\<lambda>u. u \<notin> finalizer_holding) (bj_members j)
          then Some \<lparr>rt_name = bj_name j, rt_outcome = OSucceeded, rt_members = length (bj_members j)\<rparr>
          else None
      | JFailed \<Rightarrow>
          if is_some_and (\<lambda>t. is_some_and (\<lambda>age. failed_min_age \<le> age) (to_std (now - t)))
               (bj_terminal_at j)
          then Some \<lparr>rt_name = bj_name j, rt_outcome = OFailed, rt_members = length (bj_members j)\<rparr>
          else None)"

definition reap_targets ::
    "batch_job_view list \<Rightarrow> string set \<Rightarrow> datetime \<Rightarrow> duration \<Rightarrow> reap_target list" where
  "reap_targets jobs finalizer_holding now failed_min_age =
     filter_map (reap_target_of finalizer_holding now failed_min_age) jobs"

definition finalizer_holding_uids :: "snapshot list \<Rightarrow> string set" where
  "finalizer_holding_uids snapshots =
     set (filter_map (\<lambda>s. m_uid (s_meta s)) (filter has_cleanup_finalizer snapshots))"

subsection \<open>The dispatcher\<close>

text \<open>
  What one reconcile of a deleting row does once its plan is \<open>DeleteSnapshot\<close> and a Job namespace
  is known: \<open>dispatch_batch_for_member\<close> with \<open>fire_batch\<close>. The admission ledger's answer for the
  wave is the argument \<open>admit\<close>; \<open>Launch\<close> carries the members enrolled in the new Job.
\<close>

datatype batch_action =
    Requeue deletion_requeue | ReleaseFinalizer | BackOffFailed | Launch "pending_member list"

record fire_env =
  fv_key :: string
  fv_owner_lookup :: "snapshot \<Rightarrow> owner_state"
  fv_confirmed_terminating :: "string set"
  fv_unreadable :: "string set"
  fv_on_namespace_delete :: namespace_delete_policy
  fv_ack_raw :: "string option"
  fv_threshold :: nat
  fv_schedule_synced :: bool

definition fire_set ::
    "(string \<Rightarrow> datetime option) \<Rightarrow> fire_env \<Rightarrow> string \<Rightarrow> snapshot list \<Rightarrow> batch_job_view list \<Rightarrow>
     datetime \<Rightarrow> pending_member list" where
  "fire_set rfc3339 env self_uid state views now =
     (let pending = pending_members state (fv_key env) (fv_owner_lookup env)
                      (fv_confirmed_terminating env) (fv_on_namespace_delete env);
          ack = fst (parse_mass_deletion_ack rfc3339 (fv_ack_raw env) now);
          eligible = fire_eligible pending
            \<lparr>fe_self_uid = self_uid, fe_threshold = fv_threshold env, fe_ack = ack,
             fe_on_namespace_delete = fv_on_namespace_delete env,
             fe_terminating_namespaces = fv_confirmed_terminating env \<union> fv_unreadable env,
             fe_unreadable_namespaces = fv_unreadable env,
             fe_schedule_synced = fv_schedule_synced env\<rparr>
      in fireable_members eligible (covered_uids views))"

definition fire_batch ::
    "(string \<Rightarrow> datetime option) \<Rightarrow> (pending_member \<Rightarrow> nat) \<Rightarrow> (pending_member list \<Rightarrow> bool) \<Rightarrow>
     fire_env \<Rightarrow> string \<Rightarrow> snapshot list \<Rightarrow> batch_job_view list \<Rightarrow> datetime \<Rightarrow> batch_action" where
  "fire_batch rfc3339 item_bytes admit env self_uid state views now =
     (let fireable = fire_set rfc3339 env self_uid state views now
      in if fireable = [] then Requeue LiveJob
         else case batch_fire_decision item_bytes fireable now BATCH_QUIET_WINDOW MAX_BATCH_MEMBERS of
                Accumulate retry_in \<Rightarrow> Requeue (Accumulating retry_in)
              | Fire members \<Rightarrow> if admit members then Launch members else Requeue Throttled)"

definition dispatch_batch_for_member ::
    "(string \<Rightarrow> datetime option) \<Rightarrow> (pending_member \<Rightarrow> nat) \<Rightarrow> (pending_member list \<Rightarrow> bool) \<Rightarrow>
     fire_env \<Rightarrow> string \<Rightarrow> snapshot list \<Rightarrow> batch_job_view list \<Rightarrow> datetime \<Rightarrow>
     string list \<times> batch_action" where
  "dispatch_batch_for_member rfc3339 item_bytes admit env uid state views now =
     (map rt_name (reap_targets views (finalizer_holding_uids state) now FAILED_BATCH_REAP_AGE),
      (case member_disposition uid views of
         LiveMember \<Rightarrow> Requeue LiveJob
       | SucceededMember \<Rightarrow> ReleaseFinalizer
       | FailedMember \<Rightarrow> BackOffFailed
       | NotAMember _ \<Rightarrow> fire_batch rfc3339 item_bytes admit env uid state views now))"

subsection \<open>Who is enrolled\<close>

lemma pending_member_for_SomeD:
  assumes "pending_member_for b key ol term nsp = Some m"
  obtains info namespace uid where
    "m_namespace (s_meta b) = Some namespace" "m_uid (s_meta b) = Some uid"
    "s_snapshot_info b = Some info" "has_cleanup_finalizer b" "repo_matches b key"
    "plan_deletion (member_facts b namespace (ol b) term nsp) = DeleteSnapshot"
    "deletion_timestamp_utc b = Some (pm_deletion_timestamp m)"
    "pm_namespace m = namespace" "pm_uid m = uid"
    "pm_snapshot_id m = si_kopia_snapshot_id info" "pm_anchor m = anchor_for b"
    "pm_external m = breaker_relevant (pruned_by (m_annotations (s_meta b)))"
    "pm_pinned m \<longleftrightarrow> pinned_repository b \<noteq> None"
    "pm_schedule_owned m \<longleftrightarrow> schedule_owner_ref b \<noteq> None"
  using assms unfolding pending_member_for_def
  by (simp split: option.splits if_splits) (use that in force)

lemma fire_set_member:
  "m \<in> set (fire_set rfc env self state views now) \<longleftrightarrow>
     (let pending = pending_members state (fv_key env) (fv_owner_lookup env)
                      (fv_confirmed_terminating env) (fv_on_namespace_delete env);
          ack = fst (parse_mass_deletion_ack rfc (fv_ack_raw env) now)
      in m \<in> set pending \<and> pm_uid m \<notin> covered_uids views \<and>
         (pm_uid m = self \<or>
          (pm_pinned m \<and> fire_schedule_ok m (fv_schedule_synced env) \<and>
           pm_namespace m \<notin> fv_unreadable env \<and>
           fire_namespace_ok m (fv_confirmed_terminating env) (fv_on_namespace_delete env) \<and>
           fire_breaker_ok m (0 < fv_threshold env \<and>
              fv_threshold env \<le> unacked_breaker_count pending ack) ack)))"
  by (auto simp: fire_set_def fire_eligible_def fireable_members_def Let_def fire_pin_ok_def
      fire_namespace_readable_ok_def fire_namespace_ok_def)

lemma fire_batch_Launch:
  assumes "fire_batch rfc ib admit env self state views now = Launch members"
  shows "batch_fire_decision ib (fire_set rfc env self state views now) now BATCH_QUIET_WINDOW
           MAX_BATCH_MEMBERS = Fire members"
    and "admit members"
  using assms by (auto simp: fire_batch_def Let_def split: if_splits batch_fire.splits)

lemma set_within_byte_budget: "set (within_byte_budget ib xs) \<subseteq> set xs"
  by (simp add: within_byte_budget_def set_take_subset)

lemma set_oldest_first_truncated: "set (oldest_first_truncated ib xs mx) \<subseteq> set xs"
proof -
  have "set (oldest_first_truncated ib xs mx) \<subseteq>
        set (take mx (sort_key (\<lambda>m. (pm_deletion_timestamp m, pm_uid m)) xs))"
    unfolding oldest_first_truncated_def by (rule set_within_byte_budget)
  also have "\<dots> \<subseteq> set (sort_key (\<lambda>m. (pm_deletion_timestamp m, pm_uid m)) xs)"
    by (rule set_take_subset)
  finally show ?thesis by simp
qed

lemma batch_fire_decision_Fire:
  assumes "batch_fire_decision ib xs now qw mx = Fire ms"
  shows "ms = oldest_first_truncated ib xs mx" and "xs \<noteq> []"
  using assms by (auto simp: batch_fire_decision_def Let_def split: option.splits if_splits)

lemma launched_in_fire_set:
  assumes "fire_batch rfc ib admit env self state views now = Launch members"
  shows "set members \<subseteq> set (fire_set rfc env self state views now)"
  using batch_fire_decision_Fire(1) [OF fire_batch_Launch(1) [OF assms]]
    set_oldest_first_truncated by simp

subsection \<open>Held rows are not swept up by a sibling's wave\<close>

text \<open>The verdict the breaker gives a row, from the same pending set and the same acknowledgement.\<close>

definition row_verdict ::
    "(string \<Rightarrow> datetime option) \<Rightarrow> fire_env \<Rightarrow> snapshot list \<Rightarrow> datetime \<Rightarrow> datetime \<Rightarrow> breaker_state" where
  "row_verdict rfc3339 env state now ts =
     breaker_state
       (unacked_breaker_count
          (pending_members state (fv_key env) (fv_owner_lookup env)
             (fv_confirmed_terminating env) (fv_on_namespace_delete env))
          (fst (parse_mass_deletion_ack rfc3339 (fv_ack_raw env) now)))
       (fv_threshold env) ts (fst (parse_mass_deletion_ack rfc3339 (fv_ack_raw env) now))"

lemma breaker_state_Held:
  "breaker_state n threshold ts ack = Held \<longleftrightarrow>
     threshold \<noteq> 0 \<and> \<not> is_some_and (\<lambda>a. ts \<le> a) ack \<and> threshold \<le> n"
  by (auto simp: breaker_state_def)

lemma counts_toward_breaker_relevant:
  "counts_toward_breaker f \<Longrightarrow> breaker_relevant (pruned_by (df_annotations f))"
  by (simp add: counts_toward_breaker_def split: if_splits)

text \<open>
  C17: a row the breaker holds is never deleted through a sibling's wave. If the plan of a pending row,
  under the breaker's verdict on the same cache state, is to hold it, then no wave that another row
  triggers enrolls it, whatever the other row is and whatever Jobs already exist.
\<close>

theorem held_peers_not_enrolled:
  assumes row: "pending_member_for b (fv_key env) (fv_owner_lookup env)
      (fv_confirmed_terminating env) (fv_on_namespace_delete env) = Some m"
    and held: "plan_deletion
      ((member_facts b (pm_namespace m) (fv_owner_lookup env b) (fv_confirmed_terminating env)
          (fv_on_namespace_delete env))
        \<lparr>df_breaker := row_verdict rfc3339 env state now (pm_deletion_timestamp m)\<rparr>)
      = HoldSnapshotDeletion"
    and wave: "fire_batch rfc3339 item_bytes admit env self state views now = Launch members"
    and peer: "pm_uid m \<noteq> self"
  shows "m \<notin> set members"
proof
  assume "m \<in> set members"
  then have m: "m \<in> set (fire_set rfc3339 env self state views now)"
    using launched_in_fire_set [OF wave] by blast
  have ext: "pm_external m"
    using row held
    by (auto simp: plan_deletion_hold_iff member_facts_def
        elim!: pending_member_for_SomeD dest!: counts_toward_breaker_relevant)
  have "row_verdict rfc3339 env state now (pm_deletion_timestamp m) = Held"
    using held by (simp add: plan_deletion_hold_iff)
  then show False
    using m ext peer
    by (auto simp: fire_set_member Let_def row_verdict_def breaker_state_Held fire_breaker_ok_def)
qed

subsection \<open>The shape of a wave\<close>

definition oldest_first :: "pending_member \<Rightarrow> pending_member \<Rightarrow> bool" where
  "oldest_first m m' \<longleftrightarrow>
     (pm_deletion_timestamp m, pm_uid m) \<le> (pm_deletion_timestamp m', pm_uid m')"

lemma within_budget_count_sum:
  "used \<le> BATCH_ITEMS_BYTE_BUDGET \<Longrightarrow>
   used + sum_list (map ib (take (within_budget_count ib used ms) ms)) \<le> BATCH_ITEMS_BYTE_BUDGET"
proof (induction ms arbitrary: used)
  case (Cons m ms)
  then show ?case using Cons.IH [of "used + ib m"] by (auto simp: add.assoc)
qed simp

lemma within_byte_budget_bound:
  "length (within_byte_budget ib xs) \<le> 1 \<or>
   sum_list (map ib (within_byte_budget ib xs)) \<le> BATCH_ITEMS_BYTE_BUDGET"
proof (cases "within_budget_count ib 0 xs \<le> 1")
  case False
  then have "within_byte_budget ib xs = take (within_budget_count ib 0 xs) xs"
    by (simp add: within_byte_budget_def max_def)
  then show ?thesis using within_budget_count_sum [of 0 ib xs] by simp
qed (simp add: within_byte_budget_def max_def)

lemma within_byte_budget_nonempty: "xs \<noteq> [] \<Longrightarrow> within_byte_budget ib xs \<noteq> []"
  by (simp add: within_byte_budget_def)

text \<open>A prefix of a sorted list: everything outside it comes after everything inside it.\<close>

lemma sorted_wrt_take_rest:
  assumes "sorted_wrt P xs" and "x \<in> set (take n xs)" and "y \<in> set xs" and "y \<notin> set (take n xs)"
  shows "P x y"
proof -
  have "y \<in> set (drop n xs)"
    using assms(3,4) by (metis Un_iff append_take_drop_id set_append)
  with assms(1,2) show ?thesis
    by (metis append_take_drop_id sorted_wrt_append)
qed

lemma oldest_first_truncated_prefix:
  obtains n where "oldest_first_truncated ib xs mx =
    take n (sort_key (\<lambda>m. (pm_deletion_timestamp m, pm_uid m)) xs)"
proof
  show "oldest_first_truncated ib xs mx =
    take (min (max (within_budget_count ib 0
        (take mx (sort_key (\<lambda>m. (pm_deletion_timestamp m, pm_uid m)) xs))) 1) mx)
      (sort_key (\<lambda>m. (pm_deletion_timestamp m, pm_uid m)) xs)"
    by (simp add: oldest_first_truncated_def within_byte_budget_def)
qed

lemma oldest_first_truncated_order:
  "sorted_wrt oldest_first (oldest_first_truncated ib xs mx)"
  "\<lbrakk>m \<in> set (oldest_first_truncated ib xs mx); m' \<in> set xs;
    m' \<notin> set (oldest_first_truncated ib xs mx)\<rbrakk> \<Longrightarrow> oldest_first m m'"
proof -
  let ?s = "sort_key (\<lambda>m. (pm_deletion_timestamp m, pm_uid m)) xs"
  have s: "sorted_wrt oldest_first ?s"
    using sorted_wrt_sort_key [of "\<lambda>m. (pm_deletion_timestamp m, pm_uid m)" xs]
    by (simp add: oldest_first_def [abs_def])
  obtain n where n: "oldest_first_truncated ib xs mx = take n ?s"
    by (rule oldest_first_truncated_prefix)
  show "sorted_wrt oldest_first (oldest_first_truncated ib xs mx)"
    unfolding n by (rule sorted_wrt_take [OF s])
  show "\<lbrakk>m \<in> set (oldest_first_truncated ib xs mx); m' \<in> set xs;
    m' \<notin> set (oldest_first_truncated ib xs mx)\<rbrakk> \<Longrightarrow> oldest_first m m'"
    unfolding n by (rule sorted_wrt_take_rest [OF s]) simp_all
qed

lemma oldest_first_truncated_size:
  "length (oldest_first_truncated ib xs mx) \<le> mx"
  "\<lbrakk>xs \<noteq> []; 0 < mx\<rbrakk> \<Longrightarrow> oldest_first_truncated ib xs mx \<noteq> []"
  by (simp_all add: oldest_first_truncated_def within_byte_budget_def
      flip: length_greater_0_conv)

lemma oldest_first_truncated_distinct:
  assumes "distinct (map pm_uid xs)"
  shows "distinct (map pm_uid (oldest_first_truncated ib xs mx))"
proof -
  let ?s = "sort_key (\<lambda>m. (pm_deletion_timestamp m, pm_uid m)) xs"
  have "distinct (map pm_uid ?s)"
    using assms by (simp add: distinct_map)
  moreover obtain n where "oldest_first_truncated ib xs mx = take n ?s"
    by (rule oldest_first_truncated_prefix)
  ultimately show ?thesis by (simp add: distinct_take flip: take_map)
qed

lemma filter_map_distinct_uid:
  assumes "distinct (filter_map (\<lambda>s. m_uid (s_meta s)) state)"
  shows "distinct (map pm_uid (pending_members state key ol term nsp))"
  using assms
proof (induction state)
  case (Cons b state)
  have sub: "u \<in> set (map pm_uid (pending_members state key ol term nsp)) \<Longrightarrow>
      u \<in> set (filter_map (\<lambda>s. m_uid (s_meta s)) state)" for u
    by (auto simp: pending_members_def in_set_filter_map elim!: pending_member_for_SomeD)
  show ?case
  proof (cases "pending_member_for b key ol term nsp")
    case (Some m)
    then obtain uid where "m_uid (s_meta b) = Some uid" "pm_uid m = uid"
      by (auto elim: pending_member_for_SomeD)
    with Some Cons sub [of uid] show ?thesis by (auto simp: pending_members_def)
  qed (use Cons in \<open>auto simp: pending_members_def split: option.splits\<close>)
qed (simp add: pending_members_def)

lemma fire_set_distinct:
  assumes "distinct (filter_map (\<lambda>s. m_uid (s_meta s)) state)"
  shows "distinct (map pm_uid (fire_set rfc env self state views now))"
proof -
  have "distinct (map pm_uid (filter P (filter Q (pending_members state k ol t np))))" for P Q k ol t np
    using filter_map_distinct_uid [OF assms, of k ol t np] by (simp add: distinct_map_filter)
  then show ?thesis
    by (simp add: fire_set_def fire_eligible_def fireable_members_def Let_def)
qed

text \<open>
  C26: the shape of every delete Job the dispatcher creates. It has between one and 1000 members, its
  items fit the work-spec byte budget unless it is a single item, it lists members oldest first, no
  older fireable row is left out of it, no member is already covered by a live or succeeded Job, and
  no row is enrolled twice.
\<close>

theorem wave_shape:
  assumes wave: "fire_batch rfc3339 item_bytes admit env self state views now = Launch members"
    and uids: "distinct (filter_map (\<lambda>s. m_uid (s_meta s)) state)"
  shows "members \<noteq> [] \<and> length members \<le> 1000 \<and>
    (length members = 1 \<or> sum_list (map item_bytes members) \<le> 80 * 1024) \<and>
    sorted_wrt oldest_first members \<and>
    (\<forall>m \<in> set members. \<forall>m' \<in> set (fire_set rfc3339 env self state views now).
       m' \<notin> set members \<longrightarrow> oldest_first m m') \<and>
    (\<forall>m \<in> set members. pm_uid m \<notin> covered_uids views) \<and>
    distinct (map pm_uid members)"
proof -
  let ?fs = "fire_set rfc3339 env self state views now"
  have ms: "members = oldest_first_truncated item_bytes ?fs MAX_BATCH_MEMBERS" and ne: "?fs \<noteq> []"
    using batch_fire_decision_Fire [OF fire_batch_Launch(1) [OF wave]] by auto
  have mx: "0 < MAX_BATCH_MEMBERS" by (simp add: MAX_BATCH_MEMBERS_def)
  have nonempty: "members \<noteq> []"
    unfolding ms by (rule oldest_first_truncated_size(2) [OF ne mx])
  moreover have "length members \<le> 1000"
    using oldest_first_truncated_size(1) [of item_bytes ?fs MAX_BATCH_MEMBERS]
    by (simp add: ms MAX_BATCH_MEMBERS_def)
  moreover have "length members = 1 \<or> sum_list (map item_bytes members) \<le> 80 * 1024"
    using within_byte_budget_bound
      [of item_bytes "take MAX_BATCH_MEMBERS (sort_key (\<lambda>m. (pm_deletion_timestamp m, pm_uid m)) ?fs)"]
      nonempty
    by (auto simp: ms oldest_first_truncated_def BATCH_ITEMS_BYTE_BUDGET_def le_Suc_eq)
  moreover have "\<forall>m \<in> set members. pm_uid m \<notin> covered_uids views"
    using launched_in_fire_set [OF wave] by (auto simp: fire_set_member Let_def)
  moreover have "distinct (map pm_uid members)"
    unfolding ms by (rule oldest_first_truncated_distinct [OF fire_set_distinct [OF uids]])
  ultimately show ?thesis
    using oldest_first_truncated_order(1) [of item_bytes ?fs MAX_BATCH_MEMBERS]
      oldest_first_truncated_order(2) [of _ item_bytes ?fs MAX_BATCH_MEMBERS]
    by (simp add: ms)
qed


subsection \<open>Classification and reaping\<close>

lemma disposition_flags_eq:
  "disposition_flags uid js (s, l, f, a) =
     (s \<or> (\<exists>j \<in> set js. bj_state j = JSucceeded \<and> uid \<in> set (bj_members j)),
      l \<or> (\<exists>j \<in> set js. bj_state j = JLive \<and> uid \<in> set (bj_members j)),
      f \<or> (\<exists>j \<in> set js. bj_state j = JFailed \<and> uid \<in> set (bj_members j)),
      a \<or> (\<exists>j \<in> set js. bj_state j = JLive))"
  by (induction js arbitrary: s l f a) (auto simp: Let_def split: batch_job_state.split)

lemma covered_uids_iff:
  "uid \<in> covered_uids js \<longleftrightarrow> (\<exists>j \<in> set js. bj_state j \<noteq> JFailed \<and> uid \<in> set (bj_members j))"
  by (induction js) (auto split: batch_job_state.split)

lemma member_disposition_Succeeded:
  "member_disposition uid js = SucceededMember \<longleftrightarrow>
     (\<exists>j \<in> set js. bj_state j = JSucceeded \<and> uid \<in> set (bj_members j))"
  by (simp add: member_disposition_def disposition_flags_eq)

lemma not_failed_iff: "bj_state j \<noteq> JFailed \<longleftrightarrow> bj_state j = JSucceeded \<or> bj_state j = JLive"
  by (cases "bj_state j") simp_all

lemma member_disposition_covered:
  "member_disposition uid js \<in> {SucceededMember, LiveMember} \<longleftrightarrow> uid \<in> covered_uids js"
proof -
  have "uid \<in> covered_uids js \<longleftrightarrow>
      (\<exists>j \<in> set js. bj_state j = JSucceeded \<and> uid \<in> set (bj_members j)) \<or>
      (\<exists>j \<in> set js. bj_state j = JLive \<and> uid \<in> set (bj_members j))"
    unfolding covered_uids_iff not_failed_iff by blast
  then show ?thesis by (simp add: member_disposition_def disposition_flags_eq)
qed

lemma reap_target_of_Some:
  "reap_target_of fh now age j = Some t \<longleftrightarrow>
     rt_name t = bj_name j \<and> rt_members t = length (bj_members j) \<and>
     ((rt_outcome t = OSucceeded \<and> bj_state j = JSucceeded \<and> (\<forall>u \<in> set (bj_members j). u \<notin> fh)) \<or>
      (rt_outcome t = OFailed \<and> bj_state j = JFailed \<and>
       (\<exists>x. bj_terminal_at j = Some x \<and> x + int age \<le> now)))"
  by (cases t; cases "bj_state j"; cases "bj_terminal_at j")
     (auto simp: reap_target_of_def list_all_iff to_std_def)

text \<open>
  No Job is deleted while it still has work to do. The reaper removes exactly the succeeded Jobs
  none of whose members still holds the cleanup finalizer and the failed Jobs at least a minute old;
  a live Job and a succeeded Job with an undrained member are never removed.
\<close>

theorem reap_targets_exact:
  "t \<in> set (reap_targets jobs holding now FAILED_BATCH_REAP_AGE) \<longleftrightarrow>
     (\<exists>j \<in> set jobs. rt_name t = bj_name j \<and> rt_members t = length (bj_members j) \<and>
        ((rt_outcome t = OSucceeded \<and> bj_state j = JSucceeded \<and> set (bj_members j) \<inter> holding = {}) \<or>
         (rt_outcome t = OFailed \<and> bj_state j = JFailed \<and>
          (\<exists>x. bj_terminal_at j = Some x \<and> x + 60 * nanos \<le> now))))"
  by (auto simp: reap_targets_def in_set_filter_map reap_target_of_Some FAILED_BATCH_REAP_AGE_def
      duration_from_secs_def nanos_def)

subsection \<open>Deletion as a state machine\<close>

text \<open>
  The batch Jobs of one repository on the API server, every LIST a reconcile may still act on, the
  rows whose kopia snapshot a Job has deleted, and the rows whose finalizer was released. A dispatch
  works on any earlier LIST, so reconciles interleave freely and may be arbitrarily stale. A Job that
  succeeds has served every member; one that fails may have served some.
\<close>

record batch_sys =
  bs_jobs :: "batch_job_view list"
  bs_lists :: "batch_job_view list set"
  bs_deleted :: "string set"
  bs_released :: "string set"

text \<open>Creating a Job whose name exists answers 409 and changes nothing.\<close>

definition launch_batch_job ::
    "repository_ref \<Rightarrow> pending_member list \<Rightarrow> batch_job_view list \<Rightarrow> batch_job_view list" where
  "launch_batch_job repo members jobs =
     (let job_name = batch_job_name repo members
      in if job_name \<in> bj_name ` set jobs then jobs
         else jobs @ [\<lparr>bj_name = job_name, bj_members = sort (map pm_uid members),
                bj_state = JLive, bj_terminal_at = None\<rparr>])"

fun apply_action :: "repository_ref \<Rightarrow> string \<Rightarrow> batch_action \<Rightarrow> batch_sys \<Rightarrow> batch_sys" where
  "apply_action repo uid (Launch members) s = s\<lparr>bs_jobs := launch_batch_job repo members (bs_jobs s)\<rparr>"
| "apply_action repo uid ReleaseFinalizer s = s\<lparr>bs_released := insert uid (bs_released s)\<rparr>"
| "apply_action repo uid BackOffFailed s = s"
| "apply_action repo uid (Requeue _) s = s"

definition finish_job :: "batch_job_view \<Rightarrow> batch_job_state \<Rightarrow> datetime \<Rightarrow> batch_job_view list \<Rightarrow>
     batch_job_view list" where
  "finish_job j st t jobs = map (\<lambda>j'. if j' = j then j\<lparr>bj_state := st, bj_terminal_at := Some t\<rparr> else j') jobs"

inductive batch_step :: "batch_sys \<Rightarrow> batch_sys \<Rightarrow> bool" where
  step_list: "batch_step s (s\<lparr>bs_lists := insert (bs_jobs s) (bs_lists s)\<rparr>)"
| step_dispatch:
    "\<lbrakk>views \<in> bs_lists s;
      dispatch_batch_for_member rfc3339 item_bytes admit env uid state views now = (reaped, act)\<rbrakk> \<Longrightarrow>
     batch_step s (apply_action repo uid act
       (s\<lparr>bs_jobs := filter (\<lambda>j. bj_name j \<notin> set reaped) (bs_jobs s)\<rparr>))"
| step_succeed:
    "\<lbrakk>j \<in> set (bs_jobs s); bj_state j = JLive\<rbrakk> \<Longrightarrow>
     batch_step s (s\<lparr>bs_jobs := finish_job j JSucceeded t (bs_jobs s),
       bs_deleted := bs_deleted s \<union> set (bj_members j)\<rparr>)"
| step_fail:
    "\<lbrakk>j \<in> set (bs_jobs s); bj_state j = JLive; served \<subseteq> set (bj_members j)\<rbrakk> \<Longrightarrow>
     batch_step s (s\<lparr>bs_jobs := finish_job j JFailed t (bs_jobs s),
       bs_deleted := bs_deleted s \<union> served\<rparr>)"

definition batch_init :: "batch_sys \<Rightarrow> bool" where
  "batch_init s \<longleftrightarrow> bs_jobs s = [] \<and> bs_lists s = {} \<and> bs_released s = {}"

definition jobs_honest :: "string set \<Rightarrow> batch_job_view list \<Rightarrow> bool" where
  "jobs_honest deleted jobs \<longleftrightarrow>
     (\<forall>j \<in> set jobs. bj_state j = JSucceeded \<longrightarrow> set (bj_members j) \<subseteq> deleted)"

definition batch_inv :: "batch_sys \<Rightarrow> bool" where
  "batch_inv s \<longleftrightarrow>
     (\<forall>jobs \<in> insert (bs_jobs s) (bs_lists s). jobs_honest (bs_deleted s) jobs) \<and>
     bs_released s \<subseteq> bs_deleted s"

lemma jobs_honest_mono: "jobs_honest D jobs \<Longrightarrow> D \<subseteq> D' \<Longrightarrow> jobs_honest D' jobs"
  by (auto simp: jobs_honest_def)

lemma jobs_honest_filter: "jobs_honest D jobs \<Longrightarrow> jobs_honest D (filter P jobs)"
  by (auto simp: jobs_honest_def)

lemma jobs_honest_launch: "jobs_honest D jobs \<Longrightarrow> jobs_honest D (launch_batch_job repo ms jobs)"
  by (auto simp: jobs_honest_def launch_batch_job_def Let_def)

lemma jobs_honest_finish:
  assumes "jobs_honest D jobs" and "st = JSucceeded \<Longrightarrow> set (bj_members j) \<subseteq> D'" and "D \<subseteq> D'"
  shows "jobs_honest D' (finish_job j st t jobs)"
  using assms by (auto simp: jobs_honest_def finish_job_def)

lemma dispatch_release:
  assumes "dispatch_batch_for_member rfc ib admit env uid state views now = (reaped, ReleaseFinalizer)"
  shows "\<exists>j \<in> set views. bj_state j = JSucceeded \<and> uid \<in> set (bj_members j)"
proof -
  have "member_disposition uid views = SucceededMember"
    using assms by (auto simp: dispatch_batch_for_member_def fire_batch_def Let_def
        split: member_disposition.splits if_splits batch_fire.splits)
  then show ?thesis by (simp add: member_disposition_Succeeded)
qed

lemma batch_inv_dispatch:
  assumes "batch_inv s" and "views \<in> bs_lists s"
    and "dispatch_batch_for_member rfc ib admit env uid state views now = (reaped, act)"
  shows "batch_inv (apply_action repo uid act
    (s\<lparr>bs_jobs := filter (\<lambda>j. bj_name j \<notin> set reaped) (bs_jobs s)\<rparr>))"
proof (cases act)
  case ReleaseFinalizer
  then have "uid \<in> bs_deleted s"
    using dispatch_release [OF assms(3) [unfolded ReleaseFinalizer]] assms(1,2)
    by (force simp: batch_inv_def jobs_honest_def)
  then show ?thesis
    using assms(1) ReleaseFinalizer by (auto simp: batch_inv_def jobs_honest_filter)
qed (use assms(1) in \<open>auto simp: batch_inv_def jobs_honest_filter jobs_honest_launch\<close>)

lemma batch_inv_step:
  assumes "batch_inv s" and "batch_step s s'"
  shows "batch_inv s'"
  using assms(2)
proof cases
  case step_list
  then show ?thesis using assms(1) by (simp add: batch_inv_def)
next
  case (step_dispatch views rfc3339 item_bytes admit env uid state now reaped act repo)
  then show ?thesis using batch_inv_dispatch [OF assms(1)] by simp
next
  case (step_succeed j t)
  then show ?thesis
    using assms(1) by (auto simp: batch_inv_def intro: jobs_honest_finish jobs_honest_mono)
next
  case (step_fail j served t)
  then show ?thesis
    using assms(1) by (auto simp: batch_inv_def intro: jobs_honest_finish jobs_honest_mono)
qed

interpretation batch_machine: step_invariant batch_init batch_step batch_inv
proof
  show "batch_init s \<Longrightarrow> batch_inv s" for s
    by (simp add: batch_init_def batch_inv_def jobs_honest_def)
qed (rule batch_inv_step)

text \<open>
  C1: a finalizer is released only after the data is gone. In every state reachable by any
  interleaving of LISTs, dispatches on stale LISTs, Job completions, failures and reaps, each row
  whose cleanup finalizer the dispatcher released had its kopia snapshot served by a succeeded Job.
\<close>

theorem released_only_after_delete:
  assumes "reachable batch_init batch_step s"
  shows "bs_released s \<subseteq> bs_deleted s"
  using batch_machine.inv_reachable [OF assms] by (simp add: batch_inv_def)

subsection \<open>Concrete runs\<close>

text \<open>Two rows deleted by hand in one repository, nothing acknowledged, threshold as given.\<close>

definition repo_ex :: repository_ref where
  "repo_ex = \<lparr>rr_kind = ClusterRepository, rr_name = ''nas'', rr_namespace = None\<rparr>"

definition del_ex :: "string \<Rightarrow> int \<Rightarrow> snapshot" where
  "del_ex n secs = \<lparr>s_meta = empty_meta\<lparr>m_name := Some n, m_namespace := Some ''apps'',
       m_uid := Some n, m_deletion_timestamp := Some secs,
       m_finalizers := [SNAPSHOT_CLEANUP_FINALIZER]\<rparr>,
     s_spec = empty_spec,
     s_status = Some \<lparr>ss_phase = Some Succeeded, ss_origin = Some Manual,
       ss_snapshot = Some \<lparr>si_kopia_snapshot_id = n, si_identity = \<lparr>ri_username = ''u'',
         ri_hostname = ''h'', ri_source_path = Some ''/p''\<rparr>,
         si_description = None\<rparr>,
       ss_timing = None, ss_resolved_repository = Some repo_ex, ss_conditions = [],
       ss_size_bytes = None, ss_recorded = None\<rparr>\<rparr>"

definition member_ex :: "string \<Rightarrow> int \<Rightarrow> pending_member" where
  "member_ex n secs = \<lparr>pm_namespace = ''apps'', pm_name = n, pm_uid = n, pm_snapshot_id = n,
     pm_anchor = anchor_for (del_ex n secs), pm_external = True,
     pm_deletion_timestamp = from_timestamp secs, pm_pinned = True, pm_schedule_owned = False\<rparr>"

definition env_ex :: "nat \<Rightarrow> fire_env" where
  "env_ex threshold = \<lparr>fv_key = pinned_repo_key repo_ex, fv_owner_lookup = (\<lambda>_. Alive),
     fv_confirmed_terminating = {}, fv_unreadable = {}, fv_on_namespace_delete = NDP_Orphan,
     fv_ack_raw = None, fv_threshold = threshold, fv_schedule_synced = True\<rparr>"

abbreviation dispatch_ex :: "nat \<Rightarrow> string \<Rightarrow> batch_job_view list \<Rightarrow> string list \<times> batch_action" where
  "dispatch_ex threshold uid views \<equiv>
     dispatch_batch_for_member (\<lambda>_. None) (\<lambda>_. 100) (\<lambda>_. True) (env_ex threshold) uid
       [del_ex ''b'' 2, del_ex ''a'' 1] views (from_timestamp 30)"

lemma pending_ex:
  "pending_members [del_ex ''b'' 2, del_ex ''a'' 1] (pinned_repo_key repo_ex) (\<lambda>_. Alive) {} NDP_Orphan
     = [member_ex ''b'' 2, member_ex ''a'' 1]"
  by code_simp

lemma fire_set_ex:
  "fire_set (\<lambda>_. None) (env_ex 10) uid [del_ex ''b'' 2, del_ex ''a'' 1] [] now =
     [member_ex ''b'' 2, member_ex ''a'' 1]"
  by (simp add: fire_set_def env_ex_def pending_ex fireable_members_def fire_eligible_def
      parse_mass_deletion_ack_def unacked_breaker_count_def member_ex_def fire_pin_ok_def
      fire_schedule_ok_def fire_namespace_readable_ok_def fire_namespace_ok_def fire_breaker_ok_def)

lemma fire_set_tripped_ex:
  "fire_set (\<lambda>_. None) (env_ex 2) ''a'' [del_ex ''b'' 2, del_ex ''a'' 1] [] now =
     [member_ex ''a'' 1]"
  by (simp add: fire_set_def env_ex_def pending_ex fireable_members_def fire_eligible_def
      parse_mass_deletion_ack_def unacked_breaker_count_def member_ex_def fire_pin_ok_def
      fire_schedule_ok_def fire_namespace_readable_ok_def fire_namespace_ok_def fire_breaker_ok_def)

lemmas fire_ex_defs = fire_batch_def batch_fire_decision_def oldest_first_truncated_def
  within_byte_budget_def BATCH_QUIET_WINDOW_def MAX_BATCH_MEMBERS_def BATCH_ITEMS_BYTE_BUDGET_def
  duration_from_secs_def from_timestamp_def nanos_def to_std_def iter_min_def

lemma fire_ex:
  "fire_batch (\<lambda>_. None) (\<lambda>_. 100) (\<lambda>_. True) (env_ex 10) ''a'' [del_ex ''b'' 2, del_ex ''a'' 1] []
     (from_timestamp 30) = Launch [member_ex ''a'' 1, member_ex ''b'' 2]"
  by (simp add: fire_ex_defs fire_set_ex) (simp add: member_ex_def fire_ex_defs)

lemma fire_tripped_ex:
  "fire_batch (\<lambda>_. None) (\<lambda>_. 100) (\<lambda>_. True) (env_ex 2) ''a'' [del_ex ''b'' 2, del_ex ''a'' 1] []
     (from_timestamp 30) = Launch [member_ex ''a'' 1]"
  by (simp add: fire_ex_defs fire_set_tripped_ex) (simp add: member_ex_def fire_ex_defs)

lemma pending_row_ex:
  "pending_member_for (del_ex ''b'' 2) (pinned_repo_key repo_ex) (\<lambda>_. Alive) {} NDP_Orphan =
     Some (member_ex ''b'' 2)"
  by code_simp

theorem held_peers_not_enrolled_witness:
  "member_ex ''b'' 2 \<notin> set [member_ex ''a'' 1]"
proof (rule held_peers_not_enrolled [OF _ _ fire_tripped_ex])
  show "pending_member_for (del_ex ''b'' 2) (fv_key (env_ex 2)) (fv_owner_lookup (env_ex 2))
      (fv_confirmed_terminating (env_ex 2)) (fv_on_namespace_delete (env_ex 2)) =
      Some (member_ex ''b'' 2)"
    using pending_row_ex by (simp add: env_ex_def)
  have "counts_toward_breaker ((member_facts (del_ex ''b'' 2) ''apps'' Alive {} NDP_Orphan)\<lparr>df_breaker := Held\<rparr>)"
    by code_simp
  moreover have "row_verdict (\<lambda>_. None) (env_ex 2) [del_ex ''b'' 2, del_ex ''a'' 1] now ts = Held" for now ts
    by (simp add: row_verdict_def env_ex_def pending_ex parse_mass_deletion_ack_def
        unacked_breaker_count_def member_ex_def breaker_state_def)
  ultimately show "plan_deletion ((member_facts (del_ex ''b'' 2) (pm_namespace (member_ex ''b'' 2))
      (fv_owner_lookup (env_ex 2) (del_ex ''b'' 2)) (fv_confirmed_terminating (env_ex 2))
      (fv_on_namespace_delete (env_ex 2)))
      \<lparr>df_breaker := row_verdict (\<lambda>_. None) (env_ex 2) [del_ex ''b'' 2, del_ex ''a'' 1]
         (from_timestamp 30) (pm_deletion_timestamp (member_ex ''b'' 2))\<rparr>) = HoldSnapshotDeletion"
    by (simp add: plan_deletion_hold_iff member_ex_def env_ex_def)
qed (simp add: member_ex_def)

theorem wave_shape_witness:
  "sorted_wrt oldest_first [member_ex ''a'' 1, member_ex ''b'' 2]"
  using wave_shape [OF fire_ex] by (simp add: del_ex_def empty_meta_def)


definition job_ex :: "batch_job_state \<Rightarrow> datetime option \<Rightarrow> batch_job_view" where
  "job_ex st t = \<lparr>bj_name = batch_job_name repo_ex [member_ex ''a'' 1, member_ex ''b'' 2],
     bj_members = [''a'', ''b''], bj_state = st, bj_terminal_at = t\<rparr>"

lemma dispatch_launch_ex: "dispatch_ex 10 ''a'' [] = ([], Launch [member_ex ''a'' 1, member_ex ''b'' 2])"
  by (simp add: dispatch_batch_for_member_def fire_ex member_disposition_def reap_targets_def)

lemma dispatch_release_ex: "dispatch_ex 10 ''a'' [job_ex JSucceeded (Some 0)] = ([], ReleaseFinalizer)"
  by (simp add: dispatch_batch_for_member_def member_disposition_def reap_targets_def job_ex_def
      reap_target_of_def finalizer_holding_uids_def del_ex_def has_cleanup_finalizer_def empty_meta_def)

lemmas batch_reach = reachable_step [of batch_init batch_step]

theorem released_only_after_delete_witness:
  "\<exists>s. reachable batch_init batch_step s \<and> ''a'' \<in> bs_released s \<and> bs_released s \<subseteq> bs_deleted s"
proof -
  let ?l = "job_ex JLive None" and ?d = "job_ex JSucceeded (Some 0)"
  let ?R = "reachable batch_init batch_step"
  have "?R \<lparr>bs_jobs = [], bs_lists = {}, bs_deleted = {}, bs_released = {}\<rparr>"
    by (rule reachable_init) (simp add: batch_init_def)
  from batch_reach [OF this step_list]
  have "?R \<lparr>bs_jobs = [], bs_lists = {[]}, bs_deleted = {}, bs_released = {}\<rparr>" by simp
  from batch_reach [OF this step_dispatch [OF _ dispatch_launch_ex, where repo = repo_ex]]
  have "?R \<lparr>bs_jobs = [?l], bs_lists = {[]}, bs_deleted = {}, bs_released = {}\<rparr>"
    by (simp add: launch_batch_job_def job_ex_def) (simp add: member_ex_def)
  from batch_reach [OF this step_succeed [where j = ?l and t = 0]]
  have "?R \<lparr>bs_jobs = [?d], bs_lists = {[]}, bs_deleted = {''a'', ''b''}, bs_released = {}\<rparr>"
    by (simp add: finish_job_def job_ex_def)
  from batch_reach [OF this step_list]
  have "?R \<lparr>bs_jobs = [?d], bs_lists = {[?d], []}, bs_deleted = {''a'', ''b''}, bs_released = {}\<rparr>"
    by simp
  from batch_reach [OF this step_dispatch [OF _ dispatch_release_ex, where repo = repo_ex]]
  have r: "?R \<lparr>bs_jobs = [?d], bs_lists = {[?d], []}, bs_deleted = {''a'', ''b''}, bs_released = {''a''}\<rparr>"
    by simp
  show ?thesis
    by (rule exI, rule conjI [OF r], rule conjI [OF _ released_only_after_delete [OF r]]) simp
qed

end
