(* ===== verification/Mover_Delete.thy ===== *)
theory Mover_Delete
  imports Batching
begin

text \<open>
  The mover's batch delete: \<open>crates/mover/src/batch_delete.rs\<close> (the plan of a batch against one
  listing), \<open>crates/mover/src/resolve.rs\<close> (re-resolving a rewritten manifest id) and the I/O shell
  \<open>delete_batch\<close> of \<open>crates/mover/src/main.rs\<close>. A kopia repository is the set of its manifest ids;
  the two kopia calls are the parameters \<open>delete_many\<close> and \<open>delete_single\<close>.
\<close>

subsection \<open>Listing entries and the matcher\<close>

definition matches_source :: "snapshot_list_entry \<Rightarrow> string \<Rightarrow> (string \<times> string) option \<Rightarrow> bool" where
  "matches_source entry source_path identity \<longleftrightarrow>
     le_path entry = source_path \<and>
     (case identity of
        Some (username, hostname) \<Rightarrow> le_user_name entry = username \<and> le_host entry = hostname
      | None \<Rightarrow> True)"

fun unique_entry :: "'a list \<Rightarrow> 'a option" where
  "unique_entry [] = None"
| "unique_entry [x] = Some x"
| "unique_entry (x # y # xs) = None"

definition match_current_manifest ::
    "snapshot_list_entry list \<Rightarrow> string \<Rightarrow> datetime option \<Rightarrow> (string \<times> string) option \<Rightarrow>
     snapshot_list_entry option" where
  "match_current_manifest entries source_path start_time identity =
     (if source_path = [] then None
      else
        (let candidates = filter (\<lambda>e. matches_source e source_path identity) entries
         in case start_time of
              Some anchor \<Rightarrow> unique_entry (filter (\<lambda>e. le_start_time e = anchor) candidates)
            | None \<Rightarrow> unique_entry candidates))"

definition start_instant :: "(string \<Rightarrow> datetime option) \<Rightarrow> snapshot_anchor \<Rightarrow> datetime option" where
  "start_instant rfc3339 anchor = Option.bind (an_start_time anchor) rfc3339"

definition identity_filter :: "snapshot_anchor \<Rightarrow> (string \<times> string) option" where
  "identity_filter anchor =
     (case (an_username anchor, an_hostname anchor) of
        (Some u, Some h) \<Rightarrow> Some (u, h) | _ \<Rightarrow> None)"

definition anchor_self_heal_allowed :: "snapshot_anchor \<Rightarrow> bool" where
  "anchor_self_heal_allowed anchor \<longleftrightarrow> an_start_time anchor \<noteq> None"

subsection \<open>The plan\<close>

record snapshot_delete_item =
  di_snapshot_id :: string
  di_anchor :: snapshot_anchor

record healed_id =
  h_member :: nat
  h_recorded :: string
  h_live :: string

record batch_delete_plan =
  bp_ids :: "string list"
  bp_members_of :: "nat list list"
  bp_already_absent :: "nat list"
  bp_healed :: "healed_id list"

definition empty_plan :: batch_delete_plan where
  "empty_plan = \<lparr>bp_ids = [], bp_members_of = [], bp_already_absent = [], bp_healed = []\<rparr>"

text \<open>\<open>BatchDeletePlan::target\<close>, with the position index it maintains.\<close>

definition target ::
    "string \<Rightarrow> nat \<Rightarrow> batch_delete_plan \<times> (string \<rightharpoonup> nat) \<Rightarrow> batch_delete_plan \<times> (string \<rightharpoonup> nat)" where
  "target sid member pi =
     (let (plan, index) = pi;
          (plan, index, pos) =
            (case index sid of
               Some p \<Rightarrow> (plan, index, p)
             | None \<Rightarrow>
                 (plan\<lparr>bp_ids := bp_ids plan @ [sid], bp_members_of := bp_members_of plan @ [[]]\<rparr>,
                  index(sid \<mapsto> length (bp_ids plan)), length (bp_ids plan)));
          members = bp_members_of plan ! pos
      in if members \<noteq> [] \<and> last members = member then (plan, index)
         else (plan\<lparr>bp_members_of := (bp_members_of plan)[pos := members @ [member]]\<rparr>, index))"

type_synonym path_index = "(string \<times> snapshot_list_entry list) list"

definition by_path_index :: "snapshot_list_entry list \<Rightarrow> path_index" where
  "by_path_index listing =
     bt_group (\<lambda>e. if incomplete_reason e = None then Some (le_path e, e) else None) listing []"

definition self_heal_target ::
    "(string \<Rightarrow> datetime option) \<Rightarrow> snapshot_delete_item \<Rightarrow> path_index \<Rightarrow> string option" where
  "self_heal_target rfc3339 item by_path =
     (let anchor = di_anchor item
      in if \<not> anchor_self_heal_allowed anchor then None
         else case map_of by_path (an_source_path anchor) of
                None \<Rightarrow> None
              | Some es \<Rightarrow>
                  map_option le_id
                    (match_current_manifest (filter (\<lambda>e. le_id e \<noteq> di_snapshot_id item) es)
                       (an_source_path anchor) (start_instant rfc3339 anchor) (identity_filter anchor)))"

definition plan_item ::
    "(string \<Rightarrow> datetime option) \<Rightarrow> string set \<Rightarrow> path_index \<Rightarrow> nat \<Rightarrow> snapshot_delete_item \<Rightarrow>
     batch_delete_plan \<times> (string \<rightharpoonup> nat) \<Rightarrow> batch_delete_plan \<times> (string \<rightharpoonup> nat)" where
  "plan_item rfc3339 present by_path member item pi =
     (let targeted = di_snapshot_id item \<in> present;
          pi = (if targeted then target (di_snapshot_id item) member pi else pi)
      in case self_heal_target rfc3339 item by_path of
           Some live \<Rightarrow>
             (let (plan, index) = target live member pi
              in (plan\<lparr>bp_healed := bp_healed plan @
                    [\<lparr>h_member = member, h_recorded = di_snapshot_id item, h_live = live\<rparr>]\<rparr>, index))
         | None \<Rightarrow>
             if targeted then pi
             else (let (plan, index) = pi
                   in (plan\<lparr>bp_already_absent := bp_already_absent plan @ [member]\<rparr>, index)))"

fun plan_items ::
    "(string \<Rightarrow> datetime option) \<Rightarrow> string set \<Rightarrow> path_index \<Rightarrow> nat \<Rightarrow> snapshot_delete_item list \<Rightarrow>
     batch_delete_plan \<times> (string \<rightharpoonup> nat) \<Rightarrow> batch_delete_plan \<times> (string \<rightharpoonup> nat)" where
  "plan_items rfc3339 present by_path member [] pi = pi"
| "plan_items rfc3339 present by_path member (item # items) pi =
     plan_items rfc3339 present by_path (Suc member) items
       (plan_item rfc3339 present by_path member item pi)"

definition plan_batch_delete ::
    "(string \<Rightarrow> datetime option) \<Rightarrow> snapshot_delete_item list \<Rightarrow> snapshot_list_entry list \<Rightarrow>
     batch_delete_plan" where
  "plan_batch_delete rfc3339 items listing =
     fst (plan_items rfc3339 (le_id ` set listing) (by_path_index listing) 0 items
            (empty_plan, Map.empty))"

subsection \<open>Executing the plan\<close>

text \<open>\<open>Inl r\<close> is a failed kopia call, \<open>r\<close> telling whether its error class is retryable.\<close>

type_synonym kopia_repo = "string set"
type_synonym kopia_result = "(bool + unit) \<times> kopia_repo"

definition SNAPSHOT_DELETE_CHUNK :: nat where
  "SNAPSHOT_DELETE_CHUNK = 500"

fun delete_each ::
    "(string \<Rightarrow> kopia_repo \<Rightarrow> kopia_result) \<Rightarrow> (string \<times> nat list) list \<Rightarrow> kopia_repo \<Rightarrow>
     nat list \<times> kopia_repo" where
  "delete_each delete_single [] repo = ([], repo)"
| "delete_each delete_single ((sid, served) # rest) repo =
     (let (r, repo') = delete_single sid repo;
          (failed, repo'') = delete_each delete_single rest repo'
      in (case r of Inl _ \<Rightarrow> served @ failed | Inr _ \<Rightarrow> failed, repo''))"

definition delete_chunk ::
    "(string list \<Rightarrow> kopia_repo \<Rightarrow> kopia_result) \<Rightarrow> (string \<Rightarrow> kopia_repo \<Rightarrow> kopia_result) \<Rightarrow>
     (string \<times> nat list) list \<Rightarrow> kopia_repo \<Rightarrow> nat list \<times> kopia_repo" where
  "delete_chunk delete_many delete_single chunk repo =
     (case delete_many (map fst chunk) repo of
        (Inr _, repo') \<Rightarrow> ([], repo')
      | (Inl retryable, repo') \<Rightarrow>
          if retryable then (concat (map snd chunk), repo')
          else delete_each delete_single chunk repo')"

function chunks :: "nat \<Rightarrow> 'a list \<Rightarrow> 'a list list" where
  "chunks n xs = (if n = 0 \<or> xs = [] then [] else take n xs # chunks n (drop n xs))"
  by pat_completeness auto

termination chunks
  by (relation "measure (\<lambda>(n, xs). length xs)") auto

declare chunks.simps [simp del]

fun delete_chunks ::
    "(string list \<Rightarrow> kopia_repo \<Rightarrow> kopia_result) \<Rightarrow> (string \<Rightarrow> kopia_repo \<Rightarrow> kopia_result) \<Rightarrow>
     (string \<times> nat list) list list \<Rightarrow> kopia_repo \<Rightarrow> nat set \<times> kopia_repo" where
  "delete_chunks delete_many delete_single [] repo = ({}, repo)"
| "delete_chunks delete_many delete_single (c # cs) repo =
     (let (failed, repo') = delete_chunk delete_many delete_single c repo;
          (rest, repo'') = delete_chunks delete_many delete_single cs repo'
      in (set failed \<union> rest, repo''))"

datatype batch_delete_error = BatchDeleteList | BatchDeleteIncomplete nat nat

definition delete_batch ::
    "(string list \<Rightarrow> kopia_repo \<Rightarrow> kopia_result) \<Rightarrow> (string \<Rightarrow> kopia_repo \<Rightarrow> kopia_result) \<Rightarrow>
     (string \<Rightarrow> datetime option) \<Rightarrow> snapshot_list_entry list option \<Rightarrow>
     snapshot_delete_item list \<Rightarrow> kopia_repo \<Rightarrow> (batch_delete_error + unit) \<times> kopia_repo" where
  "delete_batch delete_many delete_single rfc3339 listed items repo =
     (case listed of
        None \<Rightarrow> (Inl BatchDeleteList, repo)
      | Some listing \<Rightarrow>
          (let plan = plan_batch_delete rfc3339 items listing;
               (failed, repo') =
                 delete_chunks delete_many delete_single
                   (map (\<lambda>(ids, ms). zip ids ms)
                      (zip (chunks SNAPSHOT_DELETE_CHUNK (bp_ids plan))
                           (chunks SNAPSHOT_DELETE_CHUNK (bp_members_of plan)))) repo
           in if failed \<noteq> {} then (Inl (BatchDeleteIncomplete (card failed) (length items)), repo')
              else (Inr (), repo')))"

subsection \<open>The plan's bookkeeping\<close>

text \<open>
  The position index mirrors the id list: it answers exactly the position of each planned id. The
  abstract content of a plan is which members each id serves.
\<close>

definition plan_wf :: "batch_delete_plan \<times> (string \<rightharpoonup> nat) \<Rightarrow> bool" where
  "plan_wf pi \<longleftrightarrow>
     length (bp_members_of (fst pi)) = length (bp_ids (fst pi)) \<and> distinct (bp_ids (fst pi)) \<and>
     (\<forall>i p. snd pi i = Some p \<longleftrightarrow> p < length (bp_ids (fst pi)) \<and> bp_ids (fst pi) ! p = i)"

definition serves :: "batch_delete_plan \<Rightarrow> string \<Rightarrow> nat set" where
  "serves plan i = {m. \<exists>ms. (i, ms) \<in> set (zip (bp_ids plan) (bp_members_of plan)) \<and> m \<in> set ms}"

lemma serves_nth:
  assumes "length (bp_members_of plan) = length (bp_ids plan)" and "distinct (bp_ids plan)"
    and "p < length (bp_ids plan)"
  shows "serves plan (bp_ids plan ! p) = set (bp_members_of plan ! p)"
  using assms by (auto simp: serves_def in_set_zip nth_eq_iff_index_eq)

lemma serves_outside: "i \<notin> set (bp_ids plan) \<Longrightarrow> serves plan i = {}"
  by (auto simp: serves_def dest: set_zip_leftD)

lemma target_new:
  assumes "plan_wf (plan, index)" and "index sid = None"
  shows "target sid m (plan, index) =
    (plan\<lparr>bp_ids := bp_ids plan @ [sid], bp_members_of := bp_members_of plan @ [[m]]\<rparr>,
     index(sid \<mapsto> length (bp_ids plan)))"
  using assms by (simp add: target_def plan_wf_def Let_def nth_append list_update_append)

lemma plan_wf_new:
  assumes "plan_wf (plan, index)" and "index sid = None"
  shows "plan_wf (plan\<lparr>bp_ids := bp_ids plan @ [sid], bp_members_of := bp_members_of plan @ [ms]\<rparr>,
     index(sid \<mapsto> length (bp_ids plan)))"
    and "sid \<notin> set (bp_ids plan)"
proof -
  show new: "sid \<notin> set (bp_ids plan)"
  proof
    assume "sid \<in> set (bp_ids plan)"
    then obtain p where "p < length (bp_ids plan)" "bp_ids plan ! p = sid"
      by (auto simp: in_set_conv_nth)
    then have "index sid = Some p" using assms(1) by (simp add: plan_wf_def)
    with assms(2) show False by simp
  qed
  have "snd (plan, index) i = Some p \<longleftrightarrow> p < length (bp_ids plan) \<and> bp_ids plan ! p = i" for i p
    using assms(1) by (simp add: plan_wf_def)
  then show "plan_wf (plan\<lparr>bp_ids := bp_ids plan @ [sid], bp_members_of := bp_members_of plan @ [ms]\<rparr>,
     index(sid \<mapsto> length (bp_ids plan)))"
    using assms new by (auto simp: plan_wf_def nth_append less_Suc_eq)
qed

lemma target_known:
  assumes "plan_wf (plan, index)" and "index sid = Some p"
  shows "\<exists>ms. target sid m (plan, index) = (plan\<lparr>bp_members_of := (bp_members_of plan)[p := ms]\<rparr>, index)
    \<and> set ms = insert m (set (bp_members_of plan ! p))"
proof (cases "bp_members_of plan ! p \<noteq> [] \<and> last (bp_members_of plan ! p) = m")
  case True
  then have "m \<in> set (bp_members_of plan ! p)" by (metis last_in_set)
  then show ?thesis
    using True assms by (intro exI [of _ "bp_members_of plan ! p"]) (auto simp: target_def Let_def)
next
  case False
  then show ?thesis
    using assms by (intro exI [of _ "bp_members_of plan ! p @ [m]"]) (auto simp: target_def Let_def)
qed

lemma target_spec:
  assumes wf: "plan_wf (plan, index)"
  obtains plan' index' where "target sid m (plan, index) = (plan', index')"
    "plan_wf (plan', index')" "set (bp_ids plan') = insert sid (set (bp_ids plan))"
    "serves plan' = (serves plan)(sid := insert m (serves plan sid))"
    "bp_already_absent plan' = bp_already_absent plan" "bp_healed plan' = bp_healed plan"
proof (cases "index sid")
  case None
  let ?plan = "plan\<lparr>bp_ids := bp_ids plan @ [sid], bp_members_of := bp_members_of plan @ [[m]]\<rparr>"
  have len: "length (bp_members_of plan) = length (bp_ids plan)" using wf by (simp add: plan_wf_def)
  have "serves ?plan i = ((serves plan)(sid := insert m (serves plan sid))) i" for i
    using len serves_outside [OF plan_wf_new(2) [OF wf None]] by (auto simp: serves_def)
  then have "serves ?plan = (serves plan)(sid := insert m (serves plan sid))" by (rule ext)
  then show ?thesis
    by (intro that [OF target_new [OF wf None] plan_wf_new(1) [OF wf None]]) simp_all
next
  case (Some p)
  have p: "p < length (bp_ids plan)" "bp_ids plan ! p = sid"
    and len: "length (bp_members_of plan) = length (bp_ids plan)" and d: "distinct (bp_ids plan)"
    using wf Some by (auto simp: plan_wf_def)
  obtain ms where t: "target sid m (plan, index) =
      (plan\<lparr>bp_members_of := (bp_members_of plan)[p := ms]\<rparr>, index)"
    and ms: "set ms = insert m (set (bp_members_of plan ! p))"
    using target_known [OF wf Some] by blast
  let ?plan = "plan\<lparr>bp_members_of := (bp_members_of plan)[p := ms]\<rparr>"
  have "serves ?plan i = ((serves plan)(sid := insert m (serves plan sid))) i" for i
  proof (cases "i \<in> set (bp_ids plan)")
    case True
    then obtain q where "q < length (bp_ids plan)" "i = bp_ids plan ! q"
      by (auto simp: in_set_conv_nth)
    then show ?thesis
      using serves_nth [of ?plan q] serves_nth [of plan q] len d p ms
      by (auto simp: nth_list_update nth_eq_iff_index_eq)
  qed (use p in \<open>auto simp: serves_outside\<close>)
  then have "serves ?plan = (serves plan)(sid := insert m (serves plan sid))" by (rule ext)
  moreover have "plan_wf (?plan, index)" using wf by (simp add: plan_wf_def)
  moreover have "insert sid (set (bp_ids plan)) = set (bp_ids plan)" using p by auto
  ultimately show ?thesis by (intro that [OF t]) simp_all
qed

text \<open>The manifests one member is responsible for: its recorded id if listed, and its healed id.\<close>

definition item_targets ::
    "(string \<Rightarrow> datetime option) \<Rightarrow> string set \<Rightarrow> path_index \<Rightarrow> snapshot_delete_item \<Rightarrow> string set" where
  "item_targets rfc3339 present by_path item =
     {i. i = di_snapshot_id item \<and> i \<in> present} \<union> set_option (self_heal_target rfc3339 item by_path)"

definition plan_after :: "batch_delete_plan \<Rightarrow> nat \<Rightarrow> string set \<Rightarrow> batch_delete_plan \<Rightarrow> bool" where
  "plan_after plan m T plan' \<longleftrightarrow>
     set (bp_ids plan') = T \<union> set (bp_ids plan) \<and>
     (\<forall>i. serves plan' i = (if i \<in> T then insert m (serves plan i) else serves plan i)) \<and>
     set (bp_already_absent plan') =
       (if T = {} then insert m (set (bp_already_absent plan)) else set (bp_already_absent plan))"

lemma serves_cong:
  "bp_ids p = bp_ids q \<Longrightarrow> bp_members_of p = bp_members_of q \<Longrightarrow> serves p = serves q"
  by (simp add: serves_def fun_eq_iff)

lemma serves_update [simp]:
  "serves (p\<lparr>bp_already_absent := xs\<rparr>) = serves p" "serves (p\<lparr>bp_healed := hs\<rparr>) = serves p"
  by (rule serves_cong; simp)+

lemma plan_item_spec:
  assumes wf: "plan_wf (plan, index)"
  obtains plan' index' where
    "plan_item rfc present by_path m item (plan, index) = (plan', index')" "plan_wf (plan', index')"
    "plan_after plan m (item_targets rfc present by_path item) plan'"
proof -
  let ?sid = "di_snapshot_id item"
  obtain p1 i1 where first: "(if ?sid \<in> present then target ?sid m (plan, index) else (plan, index)) = (p1, i1)"
    and wf1: "plan_wf (p1, i1)"
    and p1: "set (bp_ids p1) = {i. i = ?sid \<and> i \<in> present} \<union> set (bp_ids plan)"
      "\<And>i. serves p1 i = (if i = ?sid \<and> i \<in> present then insert m (serves plan i) else serves plan i)"
      "bp_already_absent p1 = bp_already_absent plan"
  proof (cases "?sid \<in> present")
    case True
    with wf show ?thesis
      by (auto intro!: that elim!: target_spec [of plan index ?sid m])
  next
    case False
    with wf show ?thesis by (intro that [of plan index]) auto
  qed
  show ?thesis
  proof (cases "self_heal_target rfc item by_path")
    case None
    then show ?thesis
      using first wf1 p1 wf
      by (cases "?sid \<in> present")
         (auto intro!: that simp: plan_item_def item_targets_def plan_after_def Let_def plan_wf_def)
  next
    case (Some live)
    obtain p2 i2 where t: "target live m (p1, i1) = (p2, i2)" and wf2: "plan_wf (p2, i2)"
      and p2: "set (bp_ids p2) = insert live (set (bp_ids p1))"
        "serves p2 = (serves p1)(live := insert m (serves p1 live))"
        "bp_already_absent p2 = bp_already_absent p1"
      using target_spec [OF wf1] by metis
    let ?p = "p2\<lparr>bp_healed := bp_healed p2 @ [\<lparr>h_member = m, h_recorded = ?sid, h_live = live\<rparr>]\<rparr>"
    have "plan_item rfc present by_path m item (plan, index) = (?p, i2)"
      using first t Some by (simp add: plan_item_def)
    moreover have "plan_wf (?p, i2)" using wf2 by (simp add: plan_wf_def)
    moreover have "plan_after plan m (item_targets rfc present by_path item) ?p"
      using p1 p2 Some by (auto simp: plan_after_def item_targets_def)
    ultimately show ?thesis by (rule that)
  qed
qed

lemma plan_items_spec:
  assumes "plan_wf pi"
  shows "plan_wf (plan_items rfc present by_path k items pi) \<and>
    set (bp_ids (fst (plan_items rfc present by_path k items pi))) =
      set (bp_ids (fst pi)) \<union> (\<Union>item \<in> set items. item_targets rfc present by_path item) \<and>
    (\<forall>i. serves (fst (plan_items rfc present by_path k items pi)) i =
      serves (fst pi) i \<union> {k + j | j. j < length items \<and> i \<in> item_targets rfc present by_path (items ! j)}) \<and>
    set (bp_already_absent (fst (plan_items rfc present by_path k items pi))) =
      set (bp_already_absent (fst pi)) \<union>
      {k + j | j. j < length items \<and> item_targets rfc present by_path (items ! j) = {}}"
  using assms
proof (induction items arbitrary: k pi)
  case (Cons item items)
  obtain plan index where pi: "pi = (plan, index)" by (cases pi)
  obtain plan' index' where step: "plan_item rfc present by_path k item pi = (plan', index')"
    and wf': "plan_wf (plan', index')"
    and after: "plan_after plan k (item_targets rfc present by_path item) plan'"
    using plan_item_spec [of plan index rfc present by_path k item] Cons.prems by (auto simp: pi)
  let ?T = "item_targets rfc present by_path"
  have split: "{k + j | j. j < length (item # items) \<and> P ((item # items) ! j)} =
      (if P item then {k} else {}) \<union> {Suc k + j | j. j < length items \<and> P (items ! j)}" for P
    by (auto simp: less_Suc_eq_0_disj)
  note IH = Cons.IH [OF wf', of "Suc k", unfolded fst_conv]
  have unfold: "plan_items rfc present by_path k (item # items) pi =
      plan_items rfc present by_path (Suc k) items (plan', index')" by (simp add: step)
  have "serves (fst (plan_items rfc present by_path k (item # items) pi)) i = serves (fst pi) i \<union>
      {k + j | j. j < length (item # items) \<and> i \<in> ?T ((item # items) ! j)}" for i
    using IH after unfolding unfold split [of "\<lambda>it. i \<in> ?T it"] plan_after_def by (simp add: pi)
  moreover have "set (bp_already_absent (fst (plan_items rfc present by_path k (item # items) pi))) =
      set (bp_already_absent (fst pi)) \<union> {k + j | j. j < length (item # items) \<and> ?T ((item # items) ! j) = {}}"
    using IH after unfolding unfold split [of "\<lambda>it. ?T it = {}"] plan_after_def by (simp add: pi)
  moreover have "set (bp_ids (fst (plan_items rfc present by_path k (item # items) pi))) =
      set (bp_ids (fst pi)) \<union> (\<Union>it \<in> set (item # items). ?T it)"
    using IH after unfolding unfold plan_after_def by (simp add: pi Un_ac)
  ultimately show ?case using IH unfolding unfold by blast
qed simp

subsection \<open>Self-healing\<close>

lemma unique_entry_Some: "unique_entry xs = Some x \<Longrightarrow> xs = [x]"
  by (cases xs rule: unique_entry.cases) auto

lemma unique_filter_Some: "unique_entry (filter P xs) = Some x \<Longrightarrow> x \<in> set xs \<and> P x"
  using unique_entry_Some [of "filter P xs" x] set_filter [of P xs] by auto

lemma match_current_manifest_Some:
  assumes "match_current_manifest es path start ident = Some e"
  shows "e \<in> set es \<and> path \<noteq> [] \<and> matches_source e path ident \<and>
    (\<forall>t. start = Some t \<longrightarrow> le_start_time e = t)"
proof (cases start)
  case None
  then show ?thesis
    using assms by (auto simp: match_current_manifest_def split: if_splits dest: unique_filter_Some)
next
  case (Some t)
  then have "unique_entry (filter (\<lambda>e. le_start_time e = t) (filter (\<lambda>e. matches_source e path ident) es))
      = Some e" and "path \<noteq> []"
    using assms by (simp_all add: match_current_manifest_def split: if_splits)
  then show ?thesis using Some by (auto dest!: unique_filter_Some)
qed

text \<open>What a healed manifest has in common with the member it is deleted for.\<close>

definition heals_to :: "(string \<Rightarrow> datetime option) \<Rightarrow> snapshot_delete_item \<Rightarrow> snapshot_list_entry \<Rightarrow> bool" where
  "heals_to rfc3339 item e \<longleftrightarrow>
     le_id e \<noteq> di_snapshot_id item \<and> incomplete_reason e = None \<and>
     an_source_path (di_anchor item) \<noteq> [] \<and>
     matches_source e (an_source_path (di_anchor item)) (identity_filter (di_anchor item)) \<and>
     an_start_time (di_anchor item) \<noteq> None \<and>
     (\<forall>t. start_instant rfc3339 (di_anchor item) = Some t \<longrightarrow> le_start_time e = t)"

lemma by_path_lookup:
  "map_of (by_path_index listing) path = Some es \<Longrightarrow>
     set es = {e \<in> set listing. le_path e = path \<and> incomplete_reason e = None}"
  by (auto simp: by_path_index_def bt_group_lookup in_set_filter_map in_group_Some split: if_splits)

lemma self_heal_target_Some:
  assumes "self_heal_target rfc item (by_path_index listing) = Some live"
  shows "\<exists>e \<in> set listing. le_id e = live \<and> heals_to rfc item e"
proof -
  obtain es e where es: "map_of (by_path_index listing) (an_source_path (di_anchor item)) = Some es"
    and m: "match_current_manifest (filter (\<lambda>e. le_id e \<noteq> di_snapshot_id item) es)
        (an_source_path (di_anchor item)) (start_instant rfc (di_anchor item))
        (identity_filter (di_anchor item)) = Some e"
    and e: "le_id e = live" and st: "an_start_time (di_anchor item) \<noteq> None"
    using assms by (auto simp: self_heal_target_def Let_def anchor_self_heal_allowed_def
        split: if_splits option.splits)
  show ?thesis
    using match_current_manifest_Some [OF m] by_path_lookup [OF es] e st
    by (auto simp: heals_to_def intro!: bexI [of _ e])
qed

subsection \<open>Executing a plan\<close>

text \<open>
  What the mover relies on of kopia: a multi-id delete is all or nothing, a single delete removes its
  id or changes nothing, and neither touches another manifest.
\<close>

definition kopia_deletes ::
    "(string list \<Rightarrow> kopia_repo \<Rightarrow> kopia_result) \<Rightarrow> (string \<Rightarrow> kopia_repo \<Rightarrow> kopia_result) \<Rightarrow> bool" where
  "kopia_deletes delete_many delete_single \<longleftrightarrow>
     (\<forall>ids repo. snd (delete_many ids repo) =
        (case fst (delete_many ids repo) of Inl _ \<Rightarrow> repo | Inr _ \<Rightarrow> repo - set ids)) \<and>
     (\<forall>i repo. snd (delete_single i repo) =
        (case fst (delete_single i repo) of Inl _ \<Rightarrow> repo | Inr _ \<Rightarrow> repo - {i}))"

text \<open>
  The outcome of deleting some (id, members) pairs that are all present: nothing else is removed, and
  the failed members are exactly those of the ids still present.
\<close>

definition deleted_exactly ::
    "(string \<times> nat list) list \<Rightarrow> kopia_repo \<Rightarrow> nat set \<Rightarrow> kopia_repo \<Rightarrow> bool" where
  "deleted_exactly pairs repo failed repo' \<longleftrightarrow>
     repo' \<subseteq> repo \<and> repo - repo' \<subseteq> fst ` set pairs \<and>
     failed = {m. \<exists>i ms. (i, ms) \<in> set pairs \<and> i \<in> repo' \<and> m \<in> set ms}"

lemma deleted_exactly_Nil: "deleted_exactly [] repo {} repo"
  by (simp add: deleted_exactly_def)

lemma deleted_exactly_append:
  assumes "deleted_exactly ps repo F repo1" and "deleted_exactly qs repo1 G repo2"
    and "fst ` set ps \<inter> fst ` set qs = {}"
  shows "deleted_exactly (ps @ qs) repo (F \<union> G) repo2"
proof -
  have same: "i \<in> repo1 \<longleftrightarrow> i \<in> repo2" if "(i, ms) \<in> set ps" for i ms
    using assms that unfolding deleted_exactly_def by force
  have "repo2 \<subseteq> repo" "repo - repo2 \<subseteq> fst ` set (ps @ qs)"
    using assms(1,2) unfolding deleted_exactly_def set_append image_Un by blast+
  moreover have "F \<union> G = {m. \<exists>i ms. (i, ms) \<in> set (ps @ qs) \<and> i \<in> repo2 \<and> m \<in> set ms}"
    using assms(1,2) same unfolding deleted_exactly_def set_append by blast
  ultimately show ?thesis by (simp add: deleted_exactly_def)
qed

lemma delete_each_exact:
  assumes k: "kopia_deletes dm ds" and "distinct (map fst pairs)" and "fst ` set pairs \<subseteq> repo"
    and "delete_each ds pairs repo = (failed, repo')"
  shows "deleted_exactly pairs repo (set failed) repo'"
  using assms(2-4)
proof (induction pairs arbitrary: repo failed repo')
  case (Cons p pairs)
  obtain i ms where p: "p = (i, ms)" by (cases p)
  obtain r repo1 where d: "ds i repo = (r, repo1)" by fastforce
  obtain f2 where rest: "delete_each ds pairs repo1 = (f2, repo')"
    and failed: "failed = (case r of Inl _ \<Rightarrow> ms @ f2 | Inr _ \<Rightarrow> f2)"
    using Cons.prems(3) by (auto simp: p d Let_def split: prod.splits)
  have repo1: "repo1 = (case r of Inl _ \<Rightarrow> repo | Inr _ \<Rightarrow> repo - {i})"
    using k d unfolding kopia_deletes_def by (metis fst_conv snd_conv)
  have "deleted_exactly [(i, ms)] repo (case r of Inl _ \<Rightarrow> set ms | Inr _ \<Rightarrow> {}) repo1"
    using Cons.prems(2) by (auto simp: repo1 deleted_exactly_def p split: sum.split)
  moreover have "deleted_exactly pairs repo1 (set f2) repo'"
    by (rule Cons.IH [OF _ _ rest])
       (use Cons.prems(1,2) in \<open>auto simp: p repo1 split: sum.split\<close>)
  moreover have "set failed = (case r of Inl _ \<Rightarrow> set ms | Inr _ \<Rightarrow> {}) \<union> set f2"
    by (simp add: failed split: sum.split)
  ultimately show ?case
    using deleted_exactly_append [of "[(i, ms)]" repo _ repo1 pairs] Cons.prems(1) by (simp add: p)
qed (simp add: deleted_exactly_Nil)

lemma delete_chunk_exact:
  assumes k: "kopia_deletes dm ds" and d: "distinct (map fst c)" and sub: "fst ` set c \<subseteq> repo"
    and run: "delete_chunk dm ds c repo = (failed, repo')"
  shows "deleted_exactly c repo (set failed) repo'"
proof -
  obtain r repo1 where m: "dm (map fst c) repo = (r, repo1)" by fastforce
  have repo1: "repo1 = (case r of Inl _ \<Rightarrow> repo | Inr _ \<Rightarrow> repo - set (map fst c))"
    using k m unfolding kopia_deletes_def by (metis fst_conv snd_conv)
  consider (ok) "r = Inr ()" | (retry) "r = Inl True" | (each) "r = Inl False"
    by (cases r) auto
  then show ?thesis
  proof cases
    case ok
    then have "failed = []" "repo' = repo - fst ` set c"
      using run m repo1 by (simp_all add: delete_chunk_def)
    then show ?thesis by (auto simp: deleted_exactly_def image_iff) (metis fst_conv)
  next
    case retry
    then have "failed = concat (map snd c)" "repo' = repo"
      using run m repo1 by (simp_all add: delete_chunk_def)
    then show ?thesis using sub by (force simp: deleted_exactly_def)
  next
    case each
    then show ?thesis
      using run m repo1 delete_each_exact [OF k d sub] by (simp add: delete_chunk_def)
  qed
qed

lemma delete_chunks_exact:
  assumes k: "kopia_deletes dm ds"
    and "distinct (map fst (concat cs))" and "fst ` set (concat cs) \<subseteq> repo"
    and "delete_chunks dm ds cs repo = (failed, repo')"
  shows "deleted_exactly (concat cs) repo failed repo'"
  using assms(2-4)
proof (induction cs arbitrary: repo failed repo')
  case (Cons c cs)
  obtain f1 repo1 where c: "delete_chunk dm ds c repo = (f1, repo1)" by fastforce
  obtain f2 where rest: "delete_chunks dm ds cs repo1 = (f2, repo')" and f: "failed = set f1 \<union> f2"
    using Cons.prems(3) by (auto simp: c Let_def split: prod.splits)
  have 1: "deleted_exactly c repo (set f1) repo1"
    by (rule delete_chunk_exact [OF k _ _ c]) (use Cons.prems in auto)
  have disj: "fst ` set c \<inter> fst ` set (concat cs) = {}" using Cons.prems(1) by auto
  have "deleted_exactly (concat cs) repo1 f2 repo'"
  proof (rule Cons.IH [OF _ _ rest])
    show "fst ` set (concat cs) \<subseteq> repo1"
    proof
      fix i assume i: "i \<in> fst ` set (concat cs)"
      then have "i \<in> repo" using Cons.prems(2) by auto
      moreover have "i \<notin> fst ` set c" using i disj by blast
      ultimately show "i \<in> repo1" using 1 unfolding deleted_exactly_def by blast
    qed
  qed (use Cons.prems(1) in simp)
  then show ?case
    using deleted_exactly_append [OF 1 _ disj] by (simp add: f)
qed (simp add: deleted_exactly_Nil)

lemma chunks_zip:
  assumes "0 < n" and "length xs = length ys"
  shows "concat (map (\<lambda>(as, bs). zip as bs) (zip (chunks n xs) (chunks n ys))) = zip xs ys"
  using assms
proof (induction n xs arbitrary: ys rule: chunks.induct)
  case (1 n xs)
  show ?case
  proof (cases "xs = []")
    case False
    then have "ys \<noteq> []" using 1(3) by auto
    then have "concat (map (\<lambda>(as, bs). zip as bs) (zip (chunks n xs) (chunks n ys))) =
        zip (take n xs) (take n ys) @ zip (drop n xs) (drop n ys)"
      using 1 False by (simp add: chunks.simps [of n xs] chunks.simps [of n ys])
    also have "\<dots> = zip xs ys"
      by (metis append_take_drop_id drop_zip take_zip)
    finally show ?thesis .
  qed (use 1 in \<open>simp add: chunks.simps\<close>)
qed

subsection \<open>What a batch removes and when it succeeds\<close>

abbreviation batch_targets ::
    "(string \<Rightarrow> datetime option) \<Rightarrow> snapshot_list_entry list \<Rightarrow> snapshot_delete_item \<Rightarrow> string set" where
  "batch_targets rfc3339 listing \<equiv>
     item_targets rfc3339 (le_id ` set listing) (by_path_index listing)"

lemma plan_batch_delete_spec:
  fixes items :: "snapshot_delete_item list" and rfc listing
  defines "plan \<equiv> plan_batch_delete rfc items listing"
  shows "length (bp_members_of plan) = length (bp_ids plan)" "distinct (bp_ids plan)"
    "set (bp_ids plan) = (\<Union>item \<in> set items. batch_targets rfc listing item)"
    "serves plan i = {j. j < length items \<and> i \<in> batch_targets rfc listing (items ! j)}"
    "set (bp_already_absent plan) = {j. j < length items \<and> batch_targets rfc listing (items ! j) = {}}"
proof -
  have wf: "plan_wf (empty_plan, Map.empty)" by (simp add: plan_wf_def empty_plan_def)
  note spec = plan_items_spec [OF wf, of rfc "le_id ` set listing" "by_path_index listing" 0 items,
      folded plan_batch_delete_def]
  show "length (bp_members_of plan) = length (bp_ids plan)" "distinct (bp_ids plan)"
    using spec by (simp_all add: plan_def plan_batch_delete_def plan_wf_def)
  show "set (bp_ids plan) = (\<Union>item \<in> set items. batch_targets rfc listing item)"
    "serves plan i = {j. j < length items \<and> i \<in> batch_targets rfc listing (items ! j)}"
    "set (bp_already_absent plan) = {j. j < length items \<and> batch_targets rfc listing (items ! j) = {}}"
    using spec by (simp_all add: plan_def plan_batch_delete_def empty_plan_def serves_def)
qed

lemma item_targets_listed: "batch_targets rfc listing item \<subseteq> le_id ` set listing"
  using self_heal_target_Some by (fastforce simp: item_targets_def)

lemma delete_batch_exact:
  assumes k: "kopia_deletes dm ds"
    and run: "delete_batch dm ds rfc (Some listing) items (le_id ` set listing) = (r, repo')"
  shows "repo' \<subseteq> le_id ` set listing"
    and "le_id ` set listing - repo' \<subseteq> (\<Union>item \<in> set items. batch_targets rfc listing item)"
    and "r = Inr () \<longleftrightarrow> (\<forall>item \<in> set items. batch_targets rfc listing item \<inter> repo' = {})"
proof -
  let ?repo = "le_id ` set listing"
  define plan where "plan = plan_batch_delete rfc items listing"
  note spec = plan_batch_delete_spec [of rfc items listing, folded plan_def]
  let ?pairs = "zip (bp_ids plan) (bp_members_of plan)"
  let ?cs = "map (\<lambda>(ids, ms). zip ids ms)
      (zip (chunks SNAPSHOT_DELETE_CHUNK (bp_ids plan)) (chunks SNAPSHOT_DELETE_CHUNK (bp_members_of plan)))"
  have cs: "concat ?cs = ?pairs"
    by (rule chunks_zip) (simp_all add: SNAPSHOT_DELETE_CHUNK_def spec(1))
  obtain failed where d: "delete_chunks dm ds ?cs ?repo = (failed, repo')"
    and r: "r = Inr () \<longleftrightarrow> failed = {}"
    using run by (auto simp: delete_batch_def plan_def Let_def split: prod.splits if_splits)
  have fst: "map fst ?pairs = bp_ids plan" using spec(1) by simp
  then have ids: "fst ` set ?pairs = set (bp_ids plan)" by (metis list.set_map)
  have ex: "deleted_exactly ?pairs ?repo failed repo'"
    using delete_chunks_exact [OF k _ _ d] spec(2,3) item_targets_listed unfolding cs fst ids by blast
  then show "repo' \<subseteq> ?repo"
    and "?repo - repo' \<subseteq> (\<Union>item \<in> set items. batch_targets rfc listing item)"
    unfolding deleted_exactly_def ids spec(3) by blast+
  have failed: "failed = (\<Union>i \<in> repo'. serves plan i)"
    using ex unfolding deleted_exactly_def serves_def by blast
  show "r = Inr () \<longleftrightarrow> (\<forall>item \<in> set items. batch_targets rfc listing item \<inter> repo' = {})"
    unfolding r failed spec(4) all_set_conv_all_nth by blast
qed

text \<open>
  C18: a batch delete Job succeeds exactly when every member has been served. Against a listing of
  the whole repository, whatever mixture of bulk calls, retryable failures and single retries occurs,
  the mover reports success if and only if no member's recorded manifest and no manifest a member
  healed to is left in the repository; on success each recorded id is gone.
\<close>

theorem batch_delete_success_iff_served:
  assumes "kopia_deletes delete_many delete_single"
    and "delete_batch delete_many delete_single rfc3339 (Some listing) items (le_id ` set listing) =
      (r, repo')"
  shows "(r = Inr () \<longleftrightarrow>
      (\<forall>item \<in> set items. di_snapshot_id item \<notin> repo' \<and>
         (\<forall>live. self_heal_target rfc3339 item (by_path_index listing) = Some live \<longrightarrow> live \<notin> repo')))"
proof -
  have "batch_targets rfc3339 listing item \<inter> repo' = {} \<longleftrightarrow>
      di_snapshot_id item \<notin> repo' \<and>
      (\<forall>live. self_heal_target rfc3339 item (by_path_index listing) = Some live \<longrightarrow> live \<notin> repo')" for item
    using delete_batch_exact(1) [OF assms] by (auto simp: item_targets_def)
  then show ?thesis using delete_batch_exact(3) [OF assms] by simp
qed


subsection \<open>Concrete batches\<close>

definition entry_ex :: "string \<Rightarrow> datetime \<Rightarrow> snapshot_list_entry" where
  "entry_ex i t = \<lparr>le_id = i, le_path = ''/pvc/db'', le_user_name = ''mydb'', le_host = ''prod'',
     le_description = [], le_start_time = t, le_end_time = t, le_total_size = 0, le_retention_reason = [],
     le_tags = Map.empty, le_incomplete = None, le_summ_incomplete = None\<rparr>"

definition item_ex :: "string \<Rightarrow> string option \<Rightarrow> snapshot_delete_item" where
  "item_ex i start = \<lparr>di_snapshot_id = i, di_anchor = \<lparr>an_source_path = ''/pvc/db'',
     an_start_time = start, an_username = Some ''mydb'', an_hostname = Some ''prod''\<rparr>\<rparr>"

text \<open>A start-time parser that knows one instant, and a kopia that deletes whatever it is told to.\<close>

definition rfc_ex :: "string \<Rightarrow> datetime option" where
  "rfc_ex s = (if s = ''t7'' then Some 7 else None)"

definition many_ex :: "string list \<Rightarrow> kopia_repo \<Rightarrow> kopia_result" where
  "many_ex ids repo = (Inr (), repo - set ids)"

definition single_ex :: "string \<Rightarrow> kopia_repo \<Rightarrow> kopia_result" where
  "single_ex i repo = (Inr (), repo - {i})"

lemma kopia_ex: "kopia_deletes many_ex single_ex"
  by (simp add: kopia_deletes_def many_ex_def single_ex_def)

lemma batch_ex:
  "delete_batch many_ex single_ex rfc_ex (Some [entry_ex ''live'' 7, entry_ex ''next'' 9])
     [item_ex ''stale'' (Some ''t7'')] (le_id ` set [entry_ex ''live'' 7, entry_ex ''next'' 9]) =
   (Inr (), {''next''})"
  by code_simp

theorem batch_delete_success_iff_served_witness:
  "''stale'' \<notin> {''next''}"
  using batch_delete_success_iff_served [OF kopia_ex batch_ex] by (simp add: item_ex_def)


text \<open>
  The gate of the self-heal asks only whether a start time is recorded, the matcher works with the
  parsed instant: with a start time that does not parse, the gate is open and the matcher falls back
  to path and identity alone. The member below was recorded at a start time this build cannot read;
  the only manifest left at its path is the next backup, and the batch deletes it.
\<close>

theorem unparseable_start_time_heals_to_another_backup:
  "delete_batch many_ex single_ex rfc_ex (Some [entry_ex ''next'' 9])
     [item_ex ''stale'' (Some ''19/06/2026'')] (le_id ` set [entry_ex ''next'' 9]) = (Inr (), {})"
  by code_simp

end
