(* ===== verification/Pool.thy ===== *)
theory Pool
  imports Naming
begin

text \<open>
  The mover-Job pool (\<open>crates/controller/src/pool.rs\<close>): which Jobs count, what a LIST observes, the
  verdict against the caps, and the two admission ledgers that make deciding and reserving atomic.
  Reservations (\<open>BTreeMap<String, BTreeSet<String>>\<close>) are an association list sorted by key.
\<close>

subsection \<open>What counts\<close>

datatype mover_job_kind =
    Backup | Restore | RepositoryReplication | SnapshotReplication | Maintenance | Verification
  | Pin_Job | SnapshotDeleteBatch | Discovery | BrowseSession

fun counts_toward_repo_pool :: "mover_job_kind \<Rightarrow> bool" where
  "counts_toward_repo_pool Backup = True"
| "counts_toward_repo_pool Restore = True"
| "counts_toward_repo_pool RepositoryReplication = True"
| "counts_toward_repo_pool SnapshotReplication = True"
| "counts_toward_repo_pool Maintenance = False"
| "counts_toward_repo_pool Verification = False"
| "counts_toward_repo_pool Pin_Job = False"
| "counts_toward_repo_pool SnapshotDeleteBatch = False"
| "counts_toward_repo_pool Discovery = False"
| "counts_toward_repo_pool BrowseSession = False"

definition REPO_POOL_LABEL :: string where
  "REPO_POOL_LABEL = ''kopiur.home-operations.com/repo-pool''"

definition repo_pool_label :: "mover_job_kind \<Rightarrow> repository_ref \<Rightarrow> (string \<times> string) option" where
  "repo_pool_label kind repo_ref =
     (if counts_toward_repo_pool kind then Some (REPO_POOL_LABEL, repo_label repo_ref) else None)"

datatype pool_class = PC_Backup | PC_Replication | PC_Restore

record pool_caps =
  pc_repo :: "nat option"
  pc_global :: "nat option"

definition is_uncapped :: "pool_caps \<Rightarrow> bool" where
  "is_uncapped caps \<longleftrightarrow> pc_repo caps = None \<and> pc_global caps = None"

datatype pool_verdict = PV_Admit | PV_Park nat nat

definition pool_verdict :: "pool_class \<Rightarrow> nat \<Rightarrow> nat \<Rightarrow> pool_caps \<Rightarrow> pool_verdict" where
  "pool_verdict class repo_live global_live caps =
     (case class of
        PC_Restore \<Rightarrow> PV_Admit
      | _ \<Rightarrow>
          (let at_repo_cap = is_some_and (\<lambda>c. c \<le> repo_live) (pc_repo caps);
               at_global_cap = is_some_and (\<lambda>c. c \<le> global_live) (pc_global caps)
           in if at_repo_cap \<or> at_global_cap then PV_Park repo_live global_live else PV_Admit))"

subsection \<open>Observation\<close>

text \<open>The fields of a \<open>Job\<close> the pool reads; \<open>j_terminal\<close> is \<open>job_terminal_state\<close>.\<close>

record pool_job =
  j_namespace :: "string option"
  j_name :: "string option"
  j_labels :: string_map
  j_suspend :: "bool option"
  j_conditions :: "(string \<times> string) list"
  j_terminal :: "bool option"

definition job_is_suspended :: "pool_job \<Rightarrow> bool" where
  "job_is_suspended job =
     (if j_suspend job = Some True then True
      else list_ex (\<lambda>c. fst c = ''Suspended'' \<and> snd c = ''True'') (j_conditions job))"

definition job_occupies_slot :: "pool_job \<Rightarrow> bool" where
  "job_occupies_slot job = (if j_terminal job \<noteq> None then False else \<not> job_is_suspended job)"

definition job_key :: "string \<Rightarrow> string \<Rightarrow> string" where
  "job_key namespace name = namespace @ ''/'' @ name"

record observed_pool =
  op_repo_live :: nat
  op_global_live :: nat
  op_seen :: "string set"

definition empty_observed :: observed_pool where
  "empty_observed = \<lparr>op_repo_live = 0, op_global_live = 0, op_seen = {}\<rparr>"

definition observe_job :: "string \<Rightarrow> pool_job \<Rightarrow> observed_pool \<Rightarrow> observed_pool" where
  "observe_job repo_pool_value job observed =
     (case j_labels job REPO_POOL_LABEL of
        None \<Rightarrow> observed
      | Some value \<Rightarrow>
          (let observed =
             (case j_name job of
                Some name \<Rightarrow> observed\<lparr>op_seen :=
                  insert (job_key (unwrap_or (j_namespace job) '''') name) (op_seen observed)\<rparr>
              | None \<Rightarrow> observed)
           in if \<not> job_occupies_slot job then observed
              else
                (let observed = observed\<lparr>op_global_live := op_global_live observed + 1\<rparr>
                 in if value = repo_pool_value
                    then observed\<lparr>op_repo_live := op_repo_live observed + 1\<rparr> else observed)))"

definition observe_pool :: "pool_job list \<Rightarrow> string \<Rightarrow> observed_pool" where
  "observe_pool jobs repo_pool_value = fold (observe_job repo_pool_value) jobs empty_observed"

definition count_pool :: "pool_job list \<Rightarrow> string \<Rightarrow> nat \<times> nat" where
  "count_pool jobs v = (let observed = observe_pool jobs v in (op_repo_live observed, op_global_live observed))"

subsection \<open>Reservations\<close>

type_synonym reservations = "(string \<times> string set) list"

fun insert_reservation :: "reservations \<Rightarrow> string \<Rightarrow> string \<Rightarrow> reservations" where
  "insert_reservation [] pool job = [(pool, {job})]"
| "insert_reservation ((k, v) # held) pool job =
     (if pool < k then (pool, {job}) # (k, v) # held
      else if pool = k then (k, insert job v) # held
      else (k, v) # insert_reservation held pool job)"

definition sweep_observed :: "reservations \<Rightarrow> string set \<Rightarrow> reservations" where
  "sweep_observed held seen =
     (if seen = {} then held
      else filter (\<lambda>(k, v). v \<noteq> {}) (map (\<lambda>(k, v). (k, v - seen)) held))"

text \<open>\<open>AdmissionGuard::drop\<close>.\<close>

definition drop_guard :: "reservations \<Rightarrow> string \<Rightarrow> string \<Rightarrow> reservations" where
  "drop_guard held pool job =
     filter (\<lambda>(k, v). k = pool \<longrightarrow> v \<noteq> {}) (map (\<lambda>(k, v). (k, if k = pool then v - {job} else v)) held)"

definition repo_reserved :: "reservations \<Rightarrow> string \<Rightarrow> nat" where
  "repo_reserved held pool = (case map_of held pool of None \<Rightarrow> 0 | Some v \<Rightarrow> card v)"

definition global_reserved :: "reservations \<Rightarrow> nat" where
  "global_reserved held = sum_list (map (\<lambda>(k, v). card v) held)"

subsection \<open>The ledgers\<close>

text \<open>\<open>LV_Admit\<close> carries the guard: the pool and the Job it reserves.\<close>

datatype ledger_verdict = LV_Admit "(string \<times> string) option" | LV_Park nat nat

definition ledger_admit ::
    "reservations \<Rightarrow> string \<Rightarrow> string \<Rightarrow> observed_pool \<Rightarrow> pool_class \<Rightarrow> pool_caps \<Rightarrow>
     ledger_verdict \<times> reservations" where
  "ledger_admit held pool job observed class caps =
     (let held = sweep_observed held (op_seen observed);
          repo_live = op_repo_live observed + repo_reserved held pool;
          global_live = op_global_live observed + global_reserved held
      in case pool_verdict class repo_live global_live caps of
           PV_Park repo_live global_live \<Rightarrow> (LV_Park repo_live global_live, held)
         | PV_Admit \<Rightarrow> (LV_Admit (Some (pool, job)), insert_reservation held pool job))"

definition ledger_reserve ::
    "reservations \<Rightarrow> string \<Rightarrow> string \<Rightarrow> observed_pool \<Rightarrow> (string \<times> string) \<times> reservations" where
  "ledger_reserve held pool job observed =
     ((pool, job), insert_reservation (sweep_observed held (op_seen observed)) pool job)"

definition admit_or_park ::
    "pool_job list \<Rightarrow> reservations \<Rightarrow> string \<Rightarrow> string \<Rightarrow> pool_class \<Rightarrow> pool_caps \<Rightarrow>
     ledger_verdict \<times> reservations" where
  "admit_or_park jobs held pool job class caps =
     (if is_uncapped caps then (LV_Admit None, held)
      else ledger_admit held pool job (observe_pool jobs pool) class caps)"

record delete_caps =
  dc_repo :: nat
  dc_global :: "nat option"

datatype delete_verdict = DV_Admit "string \<times> string" | DV_Park nat nat

definition delete_admit ::
    "reservations \<Rightarrow> string \<Rightarrow> string \<Rightarrow> observed_pool \<Rightarrow> delete_caps \<Rightarrow> delete_verdict \<times> reservations" where
  "delete_admit held pool job observed caps =
     (let held = sweep_observed held (op_seen observed);
          repo_live = op_repo_live observed +
            (case map_of held pool of None \<Rightarrow> 0 | Some v \<Rightarrow> card (v - {job}));
          global_live = op_global_live observed + sum_list (map (\<lambda>(k, v). card (v - {job})) held);
          at_repo_cap = (dc_repo caps \<le> repo_live);
          at_global_cap = is_some_and (\<lambda>c. c \<le> global_live) (dc_global caps)
      in if at_repo_cap \<or> at_global_cap then (DV_Park repo_live global_live, held)
         else (DV_Admit (pool, job), insert_reservation held pool job))"

definition waiting_for_slot_message :: "string \<Rightarrow> string \<Rightarrow> nat \<Rightarrow> nat \<Rightarrow> pool_caps \<Rightarrow> string" where
  "waiting_for_slot_message repo_kind repo repo_live global_live caps =
     (let cap = (case pc_repo caps of Some c \<Rightarrow> dec c | None \<Rightarrow> ''unlimited'');
          global = (case pc_global caps of
             Some g \<Rightarrow> '' (global '' @ dec global_live @ ''/'' @ dec g @ '')''
           | None \<Rightarrow> '''')
      in ''waiting for a mover slot on '' @ repo_kind @ '' '' @ repo @ '': '' @ dec repo_live @ ''/'' @
         cap @ '' jobs running'' @ global @ ''; restores are never held'')"

subsection \<open>Reservations as a set of promises\<close>

text \<open>
  The contract of a reservation store: its content is a finite set of (pool, Job) promises, the
  operations add, sweep and release promises and nothing else, and the two counts are the sizes of
  that set. The ledgers are proved against this contract.
\<close>

locale reservation_store =
  fixes wf :: "'h \<Rightarrow> bool" and content :: "'h \<Rightarrow> (string \<times> string) set"
    and ins :: "'h \<Rightarrow> string \<Rightarrow> string \<Rightarrow> 'h" and sweep :: "'h \<Rightarrow> string set \<Rightarrow> 'h"
    and release :: "'h \<Rightarrow> string \<Rightarrow> string \<Rightarrow> 'h"
    and in_pool :: "'h \<Rightarrow> string \<Rightarrow> nat" and in_all :: "'h \<Rightarrow> nat"
  assumes finite_content: "wf h \<Longrightarrow> finite (content h)"
    and wf_ins: "wf h \<Longrightarrow> wf (ins h p j)"
    and wf_sweep: "wf h \<Longrightarrow> wf (sweep h S)"
    and wf_release: "wf h \<Longrightarrow> wf (release h p j)"
    and content_ins: "wf h \<Longrightarrow> content (ins h p j) = insert (p, j) (content h)"
    and content_sweep: "wf h \<Longrightarrow> content (sweep h S) = {q \<in> content h. snd q \<notin> S}"
    and content_release: "wf h \<Longrightarrow> content (release h p j) = content h - {(p, j)}"
    and in_pool_card: "wf h \<Longrightarrow> in_pool h p = card {j. (p, j) \<in> content h}"
    and in_all_card: "wf h \<Longrightarrow> in_all h = card (content h)"
begin

lemma finite_pool: "wf h \<Longrightarrow> finite {j. (p, j) \<in> content h}"
  by (rule finite_subset [OF _ finite_imageI [OF finite_content, of h snd]]) force+

lemma in_pool_le_all: "wf h \<Longrightarrow> in_pool h p \<le> in_all h"
  by (simp add: in_pool_card in_all_card)
     (rule surj_card_le [OF finite_content, of h _ snd], auto intro: rev_image_eqI)

lemma sweep_idem: "wf h \<Longrightarrow> content (sweep (sweep h S) S) = content (sweep h S)"
  by (simp add: content_sweep wf_sweep)

lemma release_ins: "wf h \<Longrightarrow> (p, j) \<notin> content h \<Longrightarrow> content (release (ins h p j) p j) = content h"
  by (simp add: content_ins content_release wf_ins)

end

definition res_wf :: "reservations \<Rightarrow> bool" where
  "res_wf held \<longleftrightarrow> bt_wf held \<and> (\<forall>(k, v) \<in> set held. finite v \<and> v \<noteq> {})"

definition res_content :: "reservations \<Rightarrow> (string \<times> string) set" where
  "res_content held = {(k, j). \<exists>v. (k, v) \<in> set held \<and> j \<in> v}"

lemma res_content_simps [simp]:
  "res_content [] = {}"
  "res_content ((k, v) # held) = {k} \<times> v \<union> res_content held"
  by (auto simp: res_content_def)

lemma fst_set_insert_reservation: "fst ` set (insert_reservation held p j) = insert p (fst ` set held)"
  by (induction held p j rule: insert_reservation.induct) auto

lemma res_wf_Cons:
  "res_wf ((k, v) # held) \<longleftrightarrow>
     res_wf held \<and> finite v \<and> v \<noteq> {} \<and> (\<forall>k' \<in> fst ` set held. k < k')"
  by (auto simp: res_wf_def)

lemma res_wf_Nil [simp]: "res_wf []" by (simp add: res_wf_def)

lemma res_wf_insert: "res_wf held \<Longrightarrow> res_wf (insert_reservation held p j)"
proof (induction held p j rule: insert_reservation.induct)
  case (2 k v held p j)
  then show ?case
    by (auto simp: res_wf_Cons fst_set_insert_reservation simp del: image_iff)
qed (simp add: res_wf_Cons)

lemma res_content_insert: "res_content (insert_reservation held p j) = insert (p, j) (res_content held)"
  by (induction held p j rule: insert_reservation.induct) auto

lemma res_wf_retain:
  assumes "res_wf held" and "\<And>k v. g k v \<subseteq> v"
    and "\<And>k v. (k, v) \<in> set held \<Longrightarrow> P k (g k v) \<Longrightarrow> g k v \<noteq> {}"
  shows "res_wf (filter (\<lambda>(k, v). P k v) (map (\<lambda>(k, v). (k, g k v)) held))"
  using assms(1,3)
proof (induction held)
  case (Cons kv held)
  obtain k v where kv: "kv = (k, v)" by (cases kv)
  have "finite (g k v)" using Cons.prems(1) assms(2) [of k v] by (auto simp: kv res_wf_Cons intro: finite_subset)
  moreover have "\<forall>k' \<in> fst ` set (filter (\<lambda>(k, v). P k v) (map (\<lambda>(k, v). (k, g k v)) held)). k < k'"
    using Cons.prems(1) by (fastforce simp: kv res_wf_Cons)
  ultimately show ?case
    using Cons.IH Cons.prems by (auto simp: kv res_wf_Cons)
qed simp

lemma in_pool_card_list: "res_wf held \<Longrightarrow> repo_reserved held p = card {j. (p, j) \<in> res_content held}"
proof (induction held)
  case (Cons kv held)
  obtain k v where kv: "kv = (k, v)" by (cases kv)
  have "k \<notin> fst ` set held" using Cons.prems by (force simp: kv res_wf_Cons)
  then have "{j. (k, j) \<in> res_content held} = {}" by (force simp: res_content_def)
  then show ?case using Cons by (auto simp: kv repo_reserved_def res_wf_Cons)
qed (simp add: repo_reserved_def)

lemma res_content_finite: "res_wf held \<Longrightarrow> finite (res_content held)"
  by (induction held) (auto simp: res_wf_Cons)

lemma in_all_card_list: "res_wf held \<Longrightarrow> global_reserved held = card (res_content held)"
proof (induction held)
  case (Cons kv held)
  obtain k v where kv: "kv = (k, v)" by (cases kv)
  have "k \<notin> fst ` set held" using Cons.prems by (force simp: kv res_wf_Cons)
  then have "({k} \<times> v) \<inter> res_content held = {}" by (force simp: res_content_def)
  then show ?case
    using Cons by (simp add: kv global_reserved_def res_wf_Cons card_Un_disjoint res_content_finite
        card_cartesian_product)
qed (simp add: global_reserved_def)

lemma res_wf_sweep: "res_wf held \<Longrightarrow> res_wf (sweep_observed held S)"
  by (auto simp: sweep_observed_def intro!: res_wf_retain [of held "\<lambda>k v. v - S" "\<lambda>k v. v \<noteq> {}", simplified])

lemma res_wf_drop: "res_wf held \<Longrightarrow> res_wf (drop_guard held p j)"
  unfolding drop_guard_def
  by (rule res_wf_retain [where g = "\<lambda>k v. if k = p then v - {j} else v"
        and P = "\<lambda>k v. k = p \<longrightarrow> v \<noteq> {}"]) (auto simp: res_wf_def split: if_splits)

lemma res_content_retain:
  assumes "\<And>k v. \<not> P k (g k v) \<Longrightarrow> g k v = {}"
  shows "res_content (filter (\<lambda>(k, v). P k v) (map (\<lambda>(k, v). (k, g k v)) held)) =
    {(k, j). \<exists>v. (k, v) \<in> set held \<and> j \<in> g k v}"
proof (induction held)
  case (Cons kv held)
  obtain k v where kv: "kv = (k, v)" by (cases kv)
  show ?case
    using Cons.IH assms [of k v] by (cases "P k (g k v)") (auto simp: kv)
qed simp

lemma res_content_sweep: "res_content (sweep_observed held S) = {q \<in> res_content held. snd q \<notin> S}"
proof (cases "S = {}")
  case False
  then show ?thesis
    using res_content_retain [of "\<lambda>k v. v \<noteq> {}" "\<lambda>k v. v - S" held]
    by (simp add: sweep_observed_def) (auto simp: res_content_def)
qed (simp add: sweep_observed_def)

lemma res_content_drop: "res_content (drop_guard held p j) = res_content held - {(p, j)}"
  unfolding drop_guard_def
  by (subst res_content_retain [where P = "\<lambda>k v. k = p \<longrightarrow> v \<noteq> {}"])
     (auto simp: res_content_def split: if_splits)

interpretation ledger: reservation_store res_wf res_content insert_reservation sweep_observed
  drop_guard repo_reserved global_reserved
  by unfold_locales (simp_all add: res_content_finite res_wf_insert res_wf_sweep res_wf_drop
      res_content_insert res_content_sweep res_content_drop in_pool_card_list in_all_card_list)

lemma repo_reserved_others:
  "res_wf held \<Longrightarrow>
    (case map_of held pool of None \<Rightarrow> 0 | Some v \<Rightarrow> card (v - {job})) =
    repo_reserved (filter (\<lambda>(k, v). v \<noteq> {}) (map (\<lambda>(k, v). (k, v - {job})) held)) pool"
proof (induction held)
  case (Cons kv held)
  obtain k v where kv: "kv = (k, v)" by (cases kv)
  have "k \<notin> fst ` set held" using Cons.prems by (force simp: kv res_wf_Cons)
  then have "map_of (filter (\<lambda>(k, v). v \<noteq> {}) (map (\<lambda>(k, v). (k, v - {job})) held)) k = None"
    by (force simp: map_of_eq_None_iff)
  then show ?case
    using Cons.IH Cons.prems by (cases "k = pool") (simp_all add: kv repo_reserved_def res_wf_Cons)
qed (simp add: repo_reserved_def)

text \<open>The promises of other waves that a LIST does not account for yet.\<close>

definition other_promises :: "reservations \<Rightarrow> observed_pool \<Rightarrow> string \<Rightarrow> (string \<times> string) set" where
  "other_promises held observed job =
     {q \<in> res_content held. snd q \<notin> op_seen observed \<and> snd q \<noteq> job}"

text \<open>
  The delete ledger's verdict, exactly. With reservations whose Jobs the LIST already shows
  swept, a wave is admitted if and only if the live Jobs plus the other waves' promises are below both
  caps; a promise for the very same Job never counts against it, admitting adds exactly that promise,
  and parking adds none.
\<close>

theorem delete_admit_exact:
  assumes "res_wf held"
  shows "(fst (delete_admit held pool job observed caps) = DV_Admit (pool, job) \<longleftrightarrow>
      op_repo_live observed + card {j. (pool, j) \<in> other_promises held observed job} < dc_repo caps \<and>
      (\<forall>g. dc_global caps = Some g \<longrightarrow> op_global_live observed + card (other_promises held observed job) < g)) \<and>
    res_wf (snd (delete_admit held pool job observed caps)) \<and>
    res_content (snd (delete_admit held pool job observed caps)) =
      {q \<in> res_content held. snd q \<notin> op_seen observed} \<union>
      (if fst (delete_admit held pool job observed caps) = DV_Admit (pool, job) then {(pool, job)} else {})"
proof -
  define held' where "held' = sweep_observed held (op_seen observed)"
  define rest where "rest = filter (\<lambda>(k, v). v \<noteq> {}) (map (\<lambda>(k, v). (k, v - {job})) held')"
  have wf': "res_wf held'" using assms(1) by (simp add: held'_def res_wf_sweep)
  have wfr: "res_wf rest"
    using res_wf_sweep [OF wf', of "{job}"] by (simp add: rest_def sweep_observed_def)
  have others: "res_content rest = other_promises held observed job"
    using res_content_sweep [of held' "{job}"] res_content_sweep [of held "op_seen observed"]
    by (auto simp: rest_def sweep_observed_def other_promises_def held'_def)
  have repo: "(case map_of held' pool of None \<Rightarrow> 0 | Some v \<Rightarrow> card (v - {job})) = repo_reserved rest pool"
    unfolding rest_def by (rule repo_reserved_others [OF wf'])
  have all: "sum_list (map (\<lambda>(k, v). card (v - {job})) held') = global_reserved rest"
    unfolding rest_def
    by (induction held') (auto simp: global_reserved_def, metis Diff_eq_empty_iff card.empty less_irrefl)
  let ?ok = "op_repo_live observed + repo_reserved rest pool < dc_repo caps \<and>
      (\<forall>g. dc_global caps = Some g \<longrightarrow> op_global_live observed + global_reserved rest < g)"
  have run: "delete_admit held pool job observed caps =
      (if ?ok then (DV_Admit (pool, job), insert_reservation held' pool job)
       else (DV_Park (op_repo_live observed + repo_reserved rest pool)
               (op_global_live observed + global_reserved rest), held'))"
    by (cases "dc_global caps") (auto simp: delete_admit_def Let_def repo all simp flip: held'_def)
  have counts: "repo_reserved rest pool = card {j. (pool, j) \<in> other_promises held observed job}"
    "global_reserved rest = card (other_promises held observed job)"
    using ledger.in_pool_card [OF wfr] ledger.in_all_card [OF wfr] others by simp_all
  have content: "res_content held' = {q \<in> res_content held. snd q \<notin> op_seen observed}"
    by (simp add: held'_def res_content_sweep)
  show ?thesis
    unfolding run counts [symmetric] using wf' content
    by (auto simp: ledger.content_ins ledger.wf_ins)
qed

text \<open>
  The pool verdict. A restore is admitted at and over every cap; any other run is admitted if and
  only if the repository's and the cluster's live counts are both below their caps, and a parked run
  reports the counts it was measured against.
\<close>

theorem pool_verdict_exact:
  "pool_verdict class repo_live global_live caps =
     (if class = PC_Restore \<or>
         ((\<forall>c. pc_repo caps = Some c \<longrightarrow> repo_live < c) \<and> (\<forall>c. pc_global caps = Some c \<longrightarrow> global_live < c))
      then PV_Admit else PV_Park repo_live global_live)"
  by (cases "class"; cases "pc_repo caps"; cases "pc_global caps") (auto simp: pool_verdict_def)

theorem pool_verdict_exact_witness:
  "pool_verdict PC_Backup 2 5 \<lparr>pc_repo = Some 3, pc_global = Some 5\<rparr> = PV_Park 2 5"
  using pool_verdict_exact [of PC_Backup 2 5 "\<lparr>pc_repo = Some 3, pc_global = Some 5\<rparr>"] by simp

theorem delete_admit_exact_witness:
  "fst (delete_admit [(''r'', {''ns/j''})] ''r'' ''ns/j'' empty_observed \<lparr>dc_repo = 1, dc_global = None\<rparr>) =
     DV_Admit (''r'', ''ns/j'')"
proof -
  have "res_wf [(''r'', {''ns/j''})]" by (simp add: res_wf_def)
  moreover have "other_promises [(''r'', {''ns/j''})] empty_observed ''ns/j'' = {}"
    by (auto simp: other_promises_def)
  ultimately show ?thesis
    using delete_admit_exact [of "[(''r'', {''ns/j''})]" "''r''" "''ns/j''" empty_observed
        "\<lparr>dc_repo = 1, dc_global = None\<rparr>"]
    by (simp add: empty_observed_def)
qed

subsection \<open>What a LIST counts\<close>

definition key_of :: "pool_job \<Rightarrow> string" where
  "key_of j = job_key (unwrap_or (j_namespace j) '''') (unwrap_or (j_name j) '''')"

definition pool_of :: "pool_job \<Rightarrow> string option" where
  "pool_of j = j_labels j REPO_POOL_LABEL"

lemma observe_job_fields:
  "op_repo_live (observe_job v j ob) =
    op_repo_live ob + (if job_occupies_slot j \<and> pool_of j = Some v then 1 else 0)"
  "op_global_live (observe_job v j ob) =
    op_global_live ob + (if job_occupies_slot j \<and> pool_of j \<noteq> None then 1 else 0)"
  "op_seen (observe_job v j ob) =
    op_seen ob \<union> (if pool_of j \<noteq> None \<and> j_name j \<noteq> None then {key_of j} else {})"
  by (auto simp: observe_job_def pool_of_def key_of_def Let_def split: option.splits)

lemma observe_fold:
  "op_repo_live (fold (observe_job v) jobs ob) =
     op_repo_live ob + length (filter (\<lambda>j. job_occupies_slot j \<and> pool_of j = Some v) jobs)"
  "op_global_live (fold (observe_job v) jobs ob) =
     op_global_live ob + length (filter (\<lambda>j. job_occupies_slot j \<and> pool_of j \<noteq> None) jobs)"
  "op_seen (fold (observe_job v) jobs ob) =
     op_seen ob \<union> {key_of j | j. j \<in> set jobs \<and> pool_of j \<noteq> None \<and> j_name j \<noteq> None}"
    apply (induction jobs arbitrary: ob)
         apply (simp_all add: observe_job_fields)
  by auto

lemma observe_pool_counts:
  "op_repo_live (observe_pool jobs v) =
     length (filter (\<lambda>j. job_occupies_slot j \<and> pool_of j = Some v) jobs)"
  "op_global_live (observe_pool jobs v) =
     length (filter (\<lambda>j. job_occupies_slot j \<and> pool_of j \<noteq> None) jobs)"
  "op_seen (observe_pool jobs v) = {key_of j | j. j \<in> set jobs \<and> pool_of j \<noteq> None \<and> j_name j \<noteq> None}"
  by (simp_all add: observe_pool_def observe_fold empty_observed_def)

subsection \<open>Admission as a state machine\<close>

text \<open>
  The pooled Jobs on the API server, the ledger, the guards of runs whose Job is not created yet and
  of runs whose Job is, the runs admitted as restores, and the LISTs whose answers are on their way.
  Reconciles of one object are serial, so a run is admitted only when it has neither a Job nor a guard.
  With \<open>stale\<close> unset every admission decides on the Jobs as they are when the ledger is locked; with
  \<open>stale\<close> set it may decide on any LIST answered earlier, as \<open>admit_or_park\<close> does: it awaits the LIST
  before it takes the lock.
\<close>

record pool_sys =
  ps_jobs :: "pool_job list"
  ps_held :: reservations
  ps_pending :: "(string \<times> string) set"
  ps_created :: "(string \<times> string) set"
  ps_restores :: "string set"
  ps_lists :: "(string \<times> observed_pool) set"

definition caps_for :: "(string \<Rightarrow> nat option) \<Rightarrow> nat option \<Rightarrow> string \<Rightarrow> pool_caps" where
  "caps_for repo_cap gcap pool = \<lparr>pc_repo = repo_cap pool, pc_global = gcap\<rparr>"

definition fresh_key :: "pool_sys \<Rightarrow> string \<Rightarrow> bool" where
  "fresh_key s k \<longleftrightarrow> k \<notin> key_of ` set (ps_jobs s) \<and> k \<notin> snd ` (ps_pending s \<union> ps_created s)"

definition live_job :: "string \<Rightarrow> string \<Rightarrow> pool_job \<Rightarrow> bool" where
  "live_job p k j \<longleftrightarrow> pool_of j = Some p \<and> key_of j = k \<and> j_name j \<noteq> None \<and> job_occupies_slot j"

inductive pool_step ::
    "bool \<Rightarrow> (string \<Rightarrow> nat option) \<Rightarrow> nat option \<Rightarrow> pool_sys \<Rightarrow> pool_sys \<Rightarrow> bool"
  for stale :: bool and repo_cap :: "string \<Rightarrow> nat option" and gcap :: "nat option" where
  pool_list:
    "pool_step stale repo_cap gcap s
       (s\<lparr>ps_lists := insert (p, observe_pool (ps_jobs s) p) (ps_lists s)\<rparr>)"
| pool_admit:
    "\<lbrakk>fresh_key s k; \<not> is_uncapped (caps_for repo_cap gcap p);
      ob = observe_pool (ps_jobs s) p \<or> (stale \<and> (p, ob) \<in> ps_lists s);
      ledger_admit (ps_held s) p k ob class (caps_for repo_cap gcap p) = (LV_Admit g, held')\<rbrakk> \<Longrightarrow>
     pool_step stale repo_cap gcap s
       (s\<lparr>ps_held := held', ps_pending := insert (p, k) (ps_pending s),
          ps_restores := (if class = PC_Restore then insert k else (\<lambda>R. R - {k})) (ps_restores s)\<rparr>)"
| pool_park:
    "\<lbrakk>fresh_key s k; \<not> is_uncapped (caps_for repo_cap gcap p);
      ob = observe_pool (ps_jobs s) p \<or> (stale \<and> (p, ob) \<in> ps_lists s);
      ledger_admit (ps_held s) p k ob class (caps_for repo_cap gcap p) = (LV_Park a b, held')\<rbrakk> \<Longrightarrow>
     pool_step stale repo_cap gcap s (s\<lparr>ps_held := held'\<rparr>)"
| pool_create:
    "\<lbrakk>(p, k) \<in> ps_pending s; live_job p k j\<rbrakk> \<Longrightarrow>
     pool_step stale repo_cap gcap s
       (s\<lparr>ps_jobs := ps_jobs s @ [j], ps_pending := ps_pending s - {(p, k)},
          ps_created := insert (p, k) (ps_created s)\<rparr>)"
| pool_create_uncapped:
    "\<lbrakk>fresh_key s k; is_uncapped (caps_for repo_cap gcap p); live_job p k j\<rbrakk> \<Longrightarrow>
     pool_step stale repo_cap gcap s (s\<lparr>ps_jobs := ps_jobs s @ [j]\<rparr>)"
| pool_drop:
    "(p, k) \<in> ps_pending s \<union> ps_created s \<Longrightarrow>
     pool_step stale repo_cap gcap s
       (s\<lparr>ps_held := drop_guard (ps_held s) p k, ps_pending := ps_pending s - {(p, k)},
          ps_created := ps_created s - {(p, k)}\<rparr>)"
| pool_finish:
    "i < length (ps_jobs s) \<Longrightarrow>
     pool_step stale repo_cap gcap s
       (s\<lparr>ps_jobs := (ps_jobs s)[i := (ps_jobs s ! i)\<lparr>j_terminal := Some ok\<rparr>]\<rparr>)"
| pool_delete:
    "pool_step stale repo_cap gcap s (s\<lparr>ps_jobs := filter (\<lambda>j. key_of j \<noteq> k) (ps_jobs s)\<rparr>)"

definition pool_init :: "pool_sys \<Rightarrow> bool" where
  "pool_init s \<longleftrightarrow> ps_jobs s = [] \<and> ps_held s = [] \<and> ps_pending s = {} \<and> ps_created s = {} \<and>
     ps_lists s = {}"

text \<open>The runs that occupy a slot of a pool: live Jobs and promised ones.\<close>

definition running :: "pool_sys \<Rightarrow> string \<Rightarrow> string set" where
  "running s p = key_of ` {j \<in> set (ps_jobs s). job_occupies_slot j \<and> pool_of j = Some p}"

definition occupied :: "pool_sys \<Rightarrow> string \<Rightarrow> string set" where
  "occupied s p = running s p \<union> {k. (p, k) \<in> res_content (ps_held s)}"

definition pool_ok ::
    "pool_job list \<Rightarrow> reservations \<Rightarrow> (string \<times> string) set \<Rightarrow> (string \<times> string) set \<Rightarrow> bool" where
  "pool_ok jobs held pending created \<longleftrightarrow> res_wf held \<and> distinct (map key_of jobs) \<and>
     (\<forall>j \<in> set jobs. pool_of j \<noteq> None \<and> j_name j \<noteq> None) \<and>
     pending \<subseteq> res_content held \<and> res_content held \<subseteq> pending \<union> created \<and>
     snd ` pending \<inter> key_of ` set jobs = {} \<and>
     inj_on snd (pending \<union> created) \<and> pending \<inter> created = {}"

definition pool_wf :: "pool_sys \<Rightarrow> bool" where
  "pool_wf s \<longleftrightarrow> pool_ok (ps_jobs s) (ps_held s) (ps_pending s) (ps_created s)"

definition caps_hold :: "(string \<Rightarrow> nat option) \<Rightarrow> nat option \<Rightarrow> pool_sys \<Rightarrow> bool" where
  "caps_hold repo_cap gcap s \<longleftrightarrow>
     (\<forall>p c. repo_cap p = Some c \<longrightarrow> card (occupied s p - ps_restores s) \<le> c) \<and>
     (\<forall>c. gcap = Some c \<longrightarrow> card ((\<Union>p. occupied s p) - ps_restores s) \<le> c)"

lemma ledger_admit_Admit:
  assumes "res_wf held" and "ledger_admit held p k ob class caps = (LV_Admit g, held')"
  defines "swept \<equiv> {q \<in> res_content held. snd q \<notin> op_seen ob}"
  shows "g = Some (p, k)" "res_wf held'" "res_content held' = insert (p, k) swept"
    "class \<noteq> PC_Restore \<Longrightarrow> pc_repo caps = Some c \<Longrightarrow> op_repo_live ob + card {j. (p, j) \<in> swept} < c"
    "class \<noteq> PC_Restore \<Longrightarrow> pc_global caps = Some c \<Longrightarrow> op_global_live ob + card swept < c"
proof -
  let ?h = "sweep_observed held (op_seen ob)"
  have wf: "res_wf ?h" and content: "res_content ?h = swept"
    using assms(1) by (simp_all add: ledger.wf_sweep ledger.content_sweep swept_def)
  have v: "pool_verdict class (op_repo_live ob + repo_reserved ?h p)
      (op_global_live ob + global_reserved ?h) caps = PV_Admit"
    and g: "g = Some (p, k)" "held' = insert_reservation ?h p k"
    using assms(2) by (auto simp: ledger_admit_def Let_def split: pool_verdict.splits)
  show "g = Some (p, k)" "res_wf held'" "res_content held' = insert (p, k) swept"
    using g wf content by (simp_all add: ledger.wf_ins ledger.content_ins)
  show "class \<noteq> PC_Restore \<Longrightarrow> pc_repo caps = Some c \<Longrightarrow> op_repo_live ob + card {j. (p, j) \<in> swept} < c"
    "class \<noteq> PC_Restore \<Longrightarrow> pc_global caps = Some c \<Longrightarrow> op_global_live ob + card swept < c"
    using v ledger.in_pool_card [OF wf, of p] ledger.in_all_card [OF wf] content
    by (cases "class"; simp add: pool_verdict_def Let_def split: if_splits)+
qed

lemma ledger_admit_Park:
  assumes "res_wf held" and "ledger_admit held p k ob class caps = (LV_Park a b, held')"
  shows "res_wf held'" "res_content held' = {q \<in> res_content held. snd q \<notin> op_seen ob}"
  using assms by (auto simp: ledger_admit_def Let_def ledger.wf_sweep ledger.content_sweep
      split: pool_verdict.splits)

lemma pool_seen:
  "pool_wf s \<Longrightarrow> op_seen (observe_pool (ps_jobs s) p) = key_of ` set (ps_jobs s)"
  by (auto simp: pool_wf_def pool_ok_def observe_pool_counts)

lemma pool_wfD:
  assumes "pool_wf s"
  shows "res_wf (ps_held s)" "distinct (map key_of (ps_jobs s))"
    "\<And>j. j \<in> set (ps_jobs s) \<Longrightarrow> pool_of j \<noteq> None \<and> j_name j \<noteq> None"
    "ps_pending s \<subseteq> res_content (ps_held s)"
    "res_content (ps_held s) \<subseteq> ps_pending s \<union> ps_created s"
    "snd ` ps_pending s \<inter> key_of ` set (ps_jobs s) = {}"
    "inj_on snd (ps_pending s \<union> ps_created s)" "ps_pending s \<inter> ps_created s = {}"
  using assms by (simp_all add: pool_wf_def pool_ok_def)

lemma pool_okI:
  assumes "res_wf held" "distinct (map key_of jobs)"
    "\<And>j. j \<in> set jobs \<Longrightarrow> pool_of j \<noteq> None \<and> j_name j \<noteq> None"
    "pending \<subseteq> res_content held" "res_content held \<subseteq> pending \<union> created"
    "snd ` pending \<inter> key_of ` set jobs = {}"
    "inj_on snd (pending \<union> created)" "pending \<inter> created = {}"
  shows "pool_ok jobs held pending created"
  using assms by (simp add: pool_ok_def)

lemma fresh_keyD:
  assumes "fresh_key s k"
  shows "k \<notin> key_of ` set (ps_jobs s)" "k \<notin> snd ` (ps_pending s \<union> ps_created s)"
    "(p, k) \<notin> ps_created s" "(p, k) \<notin> ps_pending s"
  using assms by (force simp: fresh_key_def)+

lemma pool_wf_admit:
  assumes wf: "pool_wf s" and fresh: "fresh_key s k"
    and run: "ledger_admit (ps_held s) p k (observe_pool (ps_jobs s) p) class caps = (LV_Admit g, held')"
  shows "pool_wf (s\<lparr>ps_held := held', ps_pending := insert (p, k) (ps_pending s), ps_restores := R\<rparr>)"
proof -
  note adm = ledger_admit_Admit [OF pool_wfD(1) [OF wf] run, unfolded pool_seen [OF wf]]
  note d = pool_wfD [OF wf] and f = fresh_keyD [OF fresh]
  have "pool_ok (ps_jobs s) held' (insert (p, k) (ps_pending s)) (ps_created s)"
  proof (rule pool_okI)
    show "insert (p, k) (ps_pending s) \<subseteq> res_content held'" using d(4,6) adm(3) by force
    show "res_content held' \<subseteq> insert (p, k) (ps_pending s) \<union> ps_created s" using d(5) adm(3) by blast
    show "snd ` insert (p, k) (ps_pending s) \<inter> key_of ` set (ps_jobs s) = {}" using d(6) f(1) by simp
    have "inj_on snd (insert (p, k) (ps_pending s \<union> ps_created s))" using d(7) f(2) by force
    then show "inj_on snd (insert (p, k) (ps_pending s) \<union> ps_created s)" by simp
    show "insert (p, k) (ps_pending s) \<inter> ps_created s = {}" using d(8) f(3) by blast
  qed (use d adm(2) in auto)
  then show ?thesis by (simp add: pool_wf_def)
qed

lemma pool_wf_park:
  assumes wf: "pool_wf s"
    and run: "ledger_admit (ps_held s) p k (observe_pool (ps_jobs s) p) class caps = (LV_Park a b, held')"
  shows "pool_wf (s\<lparr>ps_held := held'\<rparr>)"
proof -
  note prk = ledger_admit_Park [OF pool_wfD(1) [OF wf] run, unfolded pool_seen [OF wf]]
  note d = pool_wfD [OF wf]
  have "pool_ok (ps_jobs s) held' (ps_pending s) (ps_created s)"
  proof (rule pool_okI)
    show "ps_pending s \<subseteq> res_content held'" using d(4,6) prk(2) by force
    show "res_content held' \<subseteq> ps_pending s \<union> ps_created s" using d(5) prk(2) by blast
  qed (use d prk(1) in auto)
  then show ?thesis by (simp add: pool_wf_def)
qed

lemma pool_wf_create:
  assumes wf: "pool_wf s" and p: "(p, k) \<in> ps_pending s" and j: "live_job p k j"
  shows "pool_wf (s\<lparr>ps_jobs := ps_jobs s @ [j], ps_pending := ps_pending s - {(p, k)},
    ps_created := insert (p, k) (ps_created s)\<rparr>)"
proof -
  note d = pool_wfD [OF wf]
  have un: "(ps_pending s - {(p, k)}) \<union> insert (p, k) (ps_created s) = ps_pending s \<union> ps_created s"
    using p by auto
  have k: "k \<notin> snd ` (ps_pending s - {(p, k)})"
    using inj_onD [OF d(7), of "(p, k)"] p by force
  have k': "k \<notin> key_of ` set (ps_jobs s)" using d(6) p by force
  have "pool_ok (ps_jobs s @ [j]) (ps_held s) (ps_pending s - {(p, k)}) (insert (p, k) (ps_created s))"
  proof (rule pool_okI; (simp only: un)?)
    show "distinct (map key_of (ps_jobs s @ [j]))" using d(2) k' j by (auto simp: live_job_def)
    show "\<And>x. x \<in> set (ps_jobs s @ [j]) \<Longrightarrow> pool_of x \<noteq> None \<and> j_name x \<noteq> None"
      using d(3) j by (auto simp: live_job_def)
    show "ps_pending s - {(p, k)} \<subseteq> res_content (ps_held s)" using d(4) by blast
    show "snd ` (ps_pending s - {(p, k)}) \<inter> key_of ` set (ps_jobs s @ [j]) = {}"
      using d(6) k j by (auto simp: live_job_def)
    show "(ps_pending s - {(p, k)}) \<inter> insert (p, k) (ps_created s) = {}" using d(8) by blast
  qed (rule d)+
  then show ?thesis by (simp add: pool_wf_def)
qed

lemma pool_wf_drop:
  assumes wf: "pool_wf s"
  shows "pool_wf (s\<lparr>ps_held := drop_guard (ps_held s) p k, ps_pending := ps_pending s - {(p, k)},
    ps_created := ps_created s - {(p, k)}\<rparr>)"
proof -
  note d = pool_wfD [OF wf]
  have "pool_ok (ps_jobs s) (drop_guard (ps_held s) p k) (ps_pending s - {(p, k)}) (ps_created s - {(p, k)})"
  proof (rule pool_okI; (simp only: ledger.content_release [OF d(1)])?)
    show "res_wf (drop_guard (ps_held s) p k)" by (rule ledger.wf_release [OF d(1)])
    show "inj_on snd (ps_pending s - {(p, k)} \<union> (ps_created s - {(p, k)}))"
      by (rule inj_on_subset [OF d(7)]) auto
    show "res_content (ps_held s) - {(p, k)} \<subseteq> ps_pending s - {(p, k)} \<union> (ps_created s - {(p, k)})"
      using d(5) by blast
    show "snd ` (ps_pending s - {(p, k)}) \<inter> key_of ` set (ps_jobs s) = {}" using d(6) by blast
  qed (use d in auto)
  then show ?thesis by (simp add: pool_wf_def)
qed

lemma key_of_update: "key_of (j\<lparr>j_terminal := x\<rparr>) = key_of j" "pool_of (j\<lparr>j_terminal := x\<rparr>) = pool_of j"
  by (simp_all add: key_of_def pool_of_def)

lemma map_key_finish: "map key_of (js[i := (js ! i)\<lparr>j_terminal := x\<rparr>]) = map key_of js"
  by (cases "i < length js") (simp_all add: map_update key_of_update list_update_same_conv list_update_beyond)

lemma pool_wf_jobs:
  assumes wf: "pool_wf s" and "distinct (map key_of js)"
    and "key_of ` set js \<inter> snd ` ps_pending s = {}"
    and "\<And>j. j \<in> set js \<Longrightarrow> pool_of j \<noteq> None \<and> j_name j \<noteq> None"
  shows "pool_wf (s\<lparr>ps_jobs := js\<rparr>)"
proof -
  have "pool_ok js (ps_held s) (ps_pending s) (ps_created s)"
  proof (rule pool_okI)
    show "snd ` ps_pending s \<inter> key_of ` set js = {}" using assms(3) by blast
  qed (use assms(2,4) pool_wfD [OF wf] in simp_all)
  then show ?thesis by (simp add: pool_wf_def)
qed

subsection \<open>The caps are never exceeded\<close>

lemma finite_running: "finite (running s p)" and finite_running_all: "finite (\<Union>p. running s p)"
proof -
  show "finite (running s p)" by (simp add: running_def)
  have "(\<Union>p. running s p) \<subseteq> key_of ` set (ps_jobs s)" by (auto simp: running_def)
  then show "finite (\<Union>p. running s p)" by (rule finite_subset) simp
qed

lemma card_running:
  "card (running s p) \<le> op_repo_live (observe_pool (ps_jobs s) p)"
  "card (\<Union>p. running s p) \<le> op_global_live (observe_pool (ps_jobs s) q)"
proof -
  have "running s p = key_of ` set (filter (\<lambda>j. job_occupies_slot j \<and> pool_of j = Some p) (ps_jobs s))"
    by (auto simp: running_def)
  then show "card (running s p) \<le> op_repo_live (observe_pool (ps_jobs s) p)"
    using card_length [of "map key_of (filter (\<lambda>j. job_occupies_slot j \<and> pool_of j = Some p) (ps_jobs s))"]
    by (simp add: observe_pool_counts)
  have "(\<Union>p. running s p) = key_of ` set (filter (\<lambda>j. job_occupies_slot j \<and> pool_of j \<noteq> None) (ps_jobs s))"
    by (auto simp: running_def)
  then show "card (\<Union>p. running s p) \<le> op_global_live (observe_pool (ps_jobs s) q)"
    using card_length [of "map key_of (filter (\<lambda>j. job_occupies_slot j \<and> pool_of j \<noteq> None) (ps_jobs s))"]
    by (simp add: observe_pool_counts)
qed

lemma finite_occupied:
  assumes "pool_wf s"
  shows "finite (occupied s p)" "finite (\<Union>p. occupied s p)"
proof -
  have "(\<Union>p. occupied s p) \<subseteq> (\<Union>p. running s p) \<union> snd ` res_content (ps_held s)"
    by (force simp: occupied_def)
  then show all: "finite (\<Union>p. occupied s p)"
    by (rule finite_subset) (simp add: finite_running_all res_content_finite pool_wfD(1) [OF assms])
  show "finite (occupied s p)" by (rule finite_subset [OF _ all]) auto
qed

lemma caps_hold_mono:
  assumes "pool_wf s" and "caps_hold repo_cap gcap s"
    and "\<And>p. repo_cap p \<noteq> None \<or> gcap \<noteq> None \<Longrightarrow> occupied s' p - ps_restores s' \<subseteq> occupied s p - ps_restores s"
  shows "caps_hold repo_cap gcap s'"
proof -
  have "card (occupied s' p - ps_restores s') \<le> c" if c: "repo_cap p = Some c" for p c
  proof -
    have "card (occupied s' p - ps_restores s') \<le> card (occupied s p - ps_restores s)"
      by (rule card_mono) (use assms(3) c finite_occupied [OF assms(1)] in auto)
    also have "\<dots> \<le> c" using assms(2) c by (simp add: caps_hold_def)
    finally show ?thesis .
  qed
  moreover have "card ((\<Union>p. occupied s' p) - ps_restores s') \<le> c" if c: "gcap = Some c" for c
  proof -
    have "card ((\<Union>p. occupied s' p) - ps_restores s') \<le> card ((\<Union>p. occupied s p) - ps_restores s)"
      by (rule card_mono) (use assms(3) c finite_occupied [OF assms(1)] in auto)
    also have "\<dots> \<le> c" using assms(2) c by (simp add: caps_hold_def)
    finally show ?thesis .
  qed
  ultimately show ?thesis by (simp add: caps_hold_def)
qed

lemma fresh_not_occupied:
  assumes "pool_wf s" and "fresh_key s k"
  shows "k \<notin> occupied s p"
proof -
  have "(p, k) \<notin> res_content (ps_held s)"
    using pool_wfD(5) [OF assms(1)] fresh_keyD(3,4) [OF assms(2), of p] by blast
  then show ?thesis
    using fresh_keyD(1) [OF assms(2)] by (auto simp: occupied_def running_def)
qed

lemma caps_hold_admit:
  assumes wf: "pool_wf s" and caps: "caps_hold repo_cap gcap s" and fresh: "fresh_key s k"
    and run: "ledger_admit (ps_held s) p k (observe_pool (ps_jobs s) p) class (caps_for repo_cap gcap p) =
      (LV_Admit g, held')"
    and s': "s' = s\<lparr>ps_held := held', ps_pending := insert (p, k) (ps_pending s),
      ps_restores := (if class = PC_Restore then insert k else (\<lambda>R. R - {k})) (ps_restores s)\<rparr>"
  shows "caps_hold repo_cap gcap s'"
proof -
  let ?swept = "{q \<in> res_content (ps_held s). snd q \<notin> op_seen (observe_pool (ps_jobs s) p)}"
  note adm = ledger_admit_Admit [OF pool_wfD(1) [OF wf] run]
  define A where "A q = running s q \<union> {j. (q, j) \<in> ?swept}" for q
  have occ: "occupied s' q = A q \<union> (if q = p then {k} else {})" for q
    using adm(3) by (auto simp: occupied_def running_def s' A_def)
  have sub: "A q \<subseteq> occupied s q" for q by (auto simp: occupied_def A_def)
  have kn: "k \<notin> occupied s q" for q by (rule fresh_not_occupied [OF wf fresh])
  show ?thesis
  proof (cases "class = PC_Restore")
    case True
    then have R: "ps_restores s' = insert k (ps_restores s)" by (simp add: s')
    have "occupied s' q - ps_restores s' \<subseteq> occupied s q - ps_restores s" for q
      unfolding R occ using sub [of q] by auto
    then show ?thesis by (rule caps_hold_mono [OF wf caps])
  next
    case False
    then have R: "ps_restores s' = ps_restores s - {k}" by (simp add: s')
    have fin: "finite ?swept" using res_content_finite [OF pool_wfD(1) [OF wf]] by simp
    have "card (occupied s' q - ps_restores s') \<le> c" if c: "repo_cap q = Some c" for q c
    proof (cases "q = p")
      case True
      have "card (occupied s' q - ps_restores s') \<le> card (A p \<union> {k})"
        by (rule card_mono) (use occ True finite_subset [OF sub finite_occupied(1) [OF wf]] in auto)
      also have "\<dots> \<le> card (running s p) + card {j. (p, j) \<in> ?swept} + 1"
        using card_Un_le [of "A p" "{k}"] card_Un_le [of "running s p" "{j. (p, j) \<in> ?swept}"]
        by (simp add: A_def)
      also have "\<dots> \<le> c"
        using adm(4) [OF False, of c] c True card_running(1) [of s p] by (simp add: caps_for_def)
      finally show ?thesis .
    next
      case False
      have "card (occupied s' q - ps_restores s') \<le> card (occupied s q - ps_restores s)"
        by (rule card_mono) (use occ [of q] False sub [of q] kn [of q] finite_occupied(1) [OF wf] R in auto)
      then show ?thesis using caps c by (force simp: caps_hold_def)
    qed
    moreover have "card ((\<Union>q. occupied s' q) - ps_restores s') \<le> c" if c: "gcap = Some c" for c
    proof -
      have "card ((\<Union>q. occupied s' q) - ps_restores s') \<le> card ((\<Union>q. running s q) \<union> snd ` ?swept \<union> {k})"
      proof (rule card_mono)
        show "(\<Union>q. occupied s' q) - ps_restores s' \<subseteq> (\<Union>q. running s q) \<union> snd ` ?swept \<union> {k}"
          unfolding occ A_def by (auto split: if_splits intro: rev_image_eqI)
      qed (simp add: fin finite_running_all)
      also have "\<dots> \<le> card (\<Union>q. running s q) + card ?swept + 1"
        using card_Un_le [of "(\<Union>q. running s q) \<union> snd ` ?swept" "{k}"]
          card_Un_le [of "\<Union>q. running s q" "snd ` ?swept"] card_image_le [OF fin, of snd] by simp
      also have "\<dots> \<le> c"
        using adm(5) [OF False, of c] c card_running(2) [of s p] by (simp add: caps_for_def)
      finally show ?thesis .
    qed
    ultimately show ?thesis by (simp add: caps_hold_def)
  qed
qed

definition pool_inv :: "(string \<Rightarrow> nat option) \<Rightarrow> nat option \<Rightarrow> pool_sys \<Rightarrow> bool" where
  "pool_inv repo_cap gcap s \<longleftrightarrow> pool_wf s \<and> caps_hold repo_cap gcap s"

lemma pool_inv_shrink:
  assumes "pool_inv repo_cap gcap s" and "pool_wf s'"
    and "\<And>p. repo_cap p \<noteq> None \<or> gcap \<noteq> None \<Longrightarrow> occupied s' p \<subseteq> occupied s p"
    and "ps_restores s' = ps_restores s"
  shows "pool_inv repo_cap gcap s'"
proof -
  have "repo_cap p \<noteq> None \<or> gcap \<noteq> None \<Longrightarrow>
      occupied s' p - ps_restores s' \<subseteq> occupied s p - ps_restores s" for p
    using assms(3) [of p] assms(4) by auto
  then show ?thesis
    using assms(1,2) caps_hold_mono [of s repo_cap gcap s'] by (simp add: pool_inv_def)
qed

lemma pool_inv_park:
  assumes inv: "pool_inv repo_cap gcap s"
    and run: "ledger_admit (ps_held s) p k (observe_pool (ps_jobs s) p) class caps = (LV_Park a b, held')"
  shows "pool_inv repo_cap gcap (s\<lparr>ps_held := held'\<rparr>)"
proof -
  have wf: "pool_wf s" using inv by (simp add: pool_inv_def)
  have "occupied (s\<lparr>ps_held := held'\<rparr>) q \<subseteq> occupied s q" for q
    using ledger_admit_Park(2) [OF pool_wfD(1) [OF wf] run] by (auto simp: occupied_def running_def)
  then show ?thesis using pool_wf_park [OF wf run] by (intro pool_inv_shrink [OF inv]) auto
qed

lemma pool_inv_create:
  assumes inv: "pool_inv repo_cap gcap s" and p: "(p, k) \<in> ps_pending s" and j: "live_job p k j"
  shows "pool_inv repo_cap gcap (s\<lparr>ps_jobs := ps_jobs s @ [j], ps_pending := ps_pending s - {(p, k)},
    ps_created := insert (p, k) (ps_created s)\<rparr>)"
proof -
  have wf: "pool_wf s" using inv by (simp add: pool_inv_def)
  have "(p, k) \<in> res_content (ps_held s)" using pool_wfD(4) [OF wf] p by blast
  then have "occupied (s\<lparr>ps_jobs := ps_jobs s @ [j], ps_pending := ps_pending s - {(p, k)},
      ps_created := insert (p, k) (ps_created s)\<rparr>) q \<subseteq> occupied s q" for q
    using j by (auto simp: occupied_def running_def live_job_def)
  then show ?thesis using pool_wf_create [OF wf p j] by (intro pool_inv_shrink [OF inv]) auto
qed

lemma pool_inv_create_uncapped:
  assumes inv: "pool_inv repo_cap gcap s" and fresh: "fresh_key s k"
    and uncapped: "is_uncapped (caps_for repo_cap gcap p)" and j: "live_job p k j"
  shows "pool_inv repo_cap gcap (s\<lparr>ps_jobs := ps_jobs s @ [j]\<rparr>)"
proof (rule pool_inv_shrink [OF inv])
  have wf: "pool_wf s" using inv by (simp add: pool_inv_def)
  have "k \<notin> snd ` ps_pending s" using fresh_keyD(2) [OF fresh] by auto
  then show "pool_wf (s\<lparr>ps_jobs := ps_jobs s @ [j]\<rparr>)"
    using pool_wfD(2,3,6) [OF wf] fresh_keyD(1) [OF fresh] j
    by (intro pool_wf_jobs [OF wf]) (auto simp: live_job_def)
  show "repo_cap q \<noteq> None \<or> gcap \<noteq> None \<Longrightarrow> occupied (s\<lparr>ps_jobs := ps_jobs s @ [j]\<rparr>) q \<subseteq> occupied s q" for q
    using uncapped j by (auto simp: is_uncapped_def caps_for_def occupied_def running_def live_job_def)
qed simp

lemma pool_inv_drop:
  assumes inv: "pool_inv repo_cap gcap s"
  shows "pool_inv repo_cap gcap (s\<lparr>ps_held := drop_guard (ps_held s) p k,
    ps_pending := ps_pending s - {(p, k)}, ps_created := ps_created s - {(p, k)}\<rparr>)"
  by (rule pool_inv_shrink [OF inv])
     (use inv in \<open>auto simp: pool_inv_def occupied_def running_def res_content_drop intro: pool_wf_drop\<close>)

lemma pool_inv_finish:
  assumes inv: "pool_inv repo_cap gcap s" and i: "i < length (ps_jobs s)"
  shows "pool_inv repo_cap gcap
    (s\<lparr>ps_jobs := (ps_jobs s)[i := (ps_jobs s ! i)\<lparr>j_terminal := Some ok\<rparr>]\<rparr>)"
proof -
  let ?js = "(ps_jobs s)[i := (ps_jobs s ! i)\<lparr>j_terminal := Some ok\<rparr>]"
  have wf: "pool_wf s" using inv by (simp add: pool_inv_def)
  have keys: "key_of ` set ?js = key_of ` set (ps_jobs s)" by (metis list.set_map map_key_finish)
  have in_js: "j \<in> set (ps_jobs s) \<or>
      (j = (ps_jobs s ! i)\<lparr>j_terminal := Some ok\<rparr> \<and> ps_jobs s ! i \<in> set (ps_jobs s))"
    if "j \<in> set ?js" for j
    using that i set_update_subset_insert by fastforce
  have "pool_wf (s\<lparr>ps_jobs := ?js\<rparr>)"
  proof (rule pool_wf_jobs [OF wf])
    show "distinct (map key_of ?js)" using pool_wfD(2) [OF wf] by (simp only: map_key_finish)
    show "key_of ` set ?js \<inter> snd ` ps_pending s = {}" using pool_wfD(6) [OF wf] keys by blast
    show "\<And>j. j \<in> set ?js \<Longrightarrow> pool_of j \<noteq> None \<and> j_name j \<noteq> None"
      using in_js pool_wfD(3) [OF wf] by (fastforce simp: key_of_update)
  qed
  moreover have "{j \<in> set ?js. job_occupies_slot j \<and> pool_of j = Some q} \<subseteq>
      {j \<in> set (ps_jobs s). job_occupies_slot j \<and> pool_of j = Some q}" for q
    by (auto dest!: in_js simp: job_occupies_slot_def)
  then have "occupied (s\<lparr>ps_jobs := ?js\<rparr>) q \<subseteq> occupied s q" for q
    unfolding occupied_def running_def by (simp, blast)
  ultimately show ?thesis by (intro pool_inv_shrink [OF inv]) auto
qed

lemma pool_inv_delete:
  assumes inv: "pool_inv repo_cap gcap s"
  shows "pool_inv repo_cap gcap (s\<lparr>ps_jobs := filter (\<lambda>j. key_of j \<noteq> k) (ps_jobs s)\<rparr>)"
proof (rule pool_inv_shrink [OF inv])
  have wf: "pool_wf s" using inv by (simp add: pool_inv_def)
  show "pool_wf (s\<lparr>ps_jobs := filter (\<lambda>j. key_of j \<noteq> k) (ps_jobs s)\<rparr>)"
    using pool_wfD(2,3,6) [OF wf] by (intro pool_wf_jobs [OF wf]) (auto simp: distinct_map_filter)
qed (auto simp: occupied_def running_def)

lemma pool_inv_step:
  assumes inv: "pool_inv repo_cap gcap s" and "pool_step False repo_cap gcap s s'"
  shows "pool_inv repo_cap gcap s'"
  using assms(2)
proof cases
  case (pool_list p)
  then show ?thesis
    using inv by (simp add: pool_inv_def pool_wf_def caps_hold_def occupied_def running_def)
next
  case (pool_admit k p ob "class" g held')
  then show ?thesis
    using inv pool_wf_admit [of s k p] caps_hold_admit [of s repo_cap gcap k p]
    by (auto simp: pool_inv_def)
qed (auto intro: inv pool_inv_park pool_inv_create pool_inv_create_uncapped pool_inv_drop
      pool_inv_finish pool_inv_delete)

lemma pool_inv_init: "pool_init s \<Longrightarrow> pool_inv repo_cap gcap s"
  by (simp add: pool_init_def pool_inv_def pool_wf_def pool_ok_def caps_hold_def occupied_def running_def)

interpretation pool_machine: step_invariant pool_init "pool_step False repo_cap gcap"
    "pool_inv repo_cap gcap" for repo_cap gcap
  by unfold_locales (auto intro: pool_inv_init pool_inv_step)


subsection \<open>Concrete runs\<close>

definition pool_job_ex :: "string \<Rightarrow> pool_job" where
  "pool_job_ex n = \<lparr>j_namespace = Some ''apps'', j_name = Some n,
     j_labels = [REPO_POOL_LABEL \<mapsto> ''nas''], j_suspend = None, j_conditions = [], j_terminal = None\<rparr>"

definition one_cap :: "string \<Rightarrow> nat option" where
  "one_cap p = Some 1"

definition start_ex :: pool_sys where
  "start_ex = \<lparr>ps_jobs = [], ps_held = [], ps_pending = {}, ps_created = {}, ps_restores = {}, ps_lists = {}\<rparr>"

lemma live_ex: "live_job ''nas'' (''apps/'' @ n) (pool_job_ex n)"
  by (simp add: live_job_def pool_job_ex_def pool_of_def key_of_def job_key_def job_occupies_slot_def
      job_is_suspended_def)

lemma admit_ex:
  "ledger_admit [] ''nas'' k (observe_pool [] ''nas'') PC_Backup (caps_for one_cap None ''nas'') =
     (LV_Admit (Some (''nas'', k)), [(''nas'', {k})])"
  by (simp add: ledger_admit_def observe_pool_def empty_observed_def sweep_observed_def
      repo_reserved_def global_reserved_def pool_verdict_def caps_for_def one_cap_def)

lemma one_cap_capped: "\<not> is_uncapped (caps_for one_cap None p)"
  by (simp add: is_uncapped_def caps_for_def one_cap_def)

lemma admit_step_ex:
  assumes "fresh_key s k" and "ps_held s = []"
    and "observe_pool [] ''nas'' = observe_pool (ps_jobs s) ''nas'' \<or>
      (stale \<and> (''nas'', observe_pool [] ''nas'') \<in> ps_lists s)"
  shows "pool_step stale one_cap None s
    (s\<lparr>ps_held := [(''nas'', {k})], ps_pending := insert (''nas'', k) (ps_pending s),
       ps_restores := ps_restores s - {k}\<rparr>)"
  using pool_admit [OF assms(1) one_cap_capped assms(3), of PC_Backup] assms(2) admit_ex by simp

text \<open>List the pool, admit the first run, create its Job, drop its guard.\<close>

definition listed_ex :: "(string \<times> observed_pool) set" where
  "listed_ex = {(''nas'', observe_pool [] ''nas'')}"

definition after_first :: pool_sys where
  "after_first = \<lparr>ps_jobs = [pool_job_ex ''a''], ps_held = [], ps_pending = {}, ps_created = {},
     ps_restores = {}, ps_lists = listed_ex\<rparr>"

lemma reach_first: "reachable pool_init (pool_step stale one_cap None) after_first"
proof -
  let ?R = "reachable pool_init (pool_step stale one_cap None)"
  note step = reachable_step [of pool_init "pool_step stale one_cap None"]
  have "?R start_ex" by (rule reachable_init) (simp add: pool_init_def start_ex_def)
  from step [OF this pool_list [of stale one_cap None start_ex "''nas''"]]
  have "?R (start_ex\<lparr>ps_lists := listed_ex\<rparr>)" by (simp add: start_ex_def listed_ex_def)
  moreover have "fresh_key (start_ex\<lparr>ps_lists := listed_ex\<rparr>) (''apps/'' @ ''a'')"
    by (simp add: fresh_key_def start_ex_def)
  ultimately have "?R (start_ex\<lparr>ps_lists := listed_ex, ps_held := [(''nas'', {''apps/'' @ ''a''})],
      ps_pending := {(''nas'', ''apps/'' @ ''a'')}\<rparr>)"
    using step [OF _ admit_step_ex [of "start_ex\<lparr>ps_lists := listed_ex\<rparr>" "''apps/'' @ ''a''" stale]]
    by (simp add: start_ex_def)
  from step [OF this pool_create [OF _ live_ex [of "''a''"]]]
  have "?R (start_ex\<lparr>ps_lists := listed_ex, ps_jobs := [pool_job_ex ''a''],
      ps_held := [(''nas'', {''apps/'' @ ''a''})], ps_created := {(''nas'', ''apps/'' @ ''a'')}\<rparr>)"
    by (simp add: start_ex_def)
  from step [OF this pool_drop [of "''nas''" "''apps/'' @ ''a''"]]
  show ?thesis by (simp add: start_ex_def after_first_def drop_guard_def)
qed


text \<open>
  The ledger alone does not close the race with a LIST that is already on its way. A second run LISTs
  the empty pool; the first run, admitted before, creates its Job and drops its guard; only then does
  the second run's LIST arrive and its admission take the lock. The answer predates the Job and the
  reservation is gone, so a repository with \<open>maxConcurrentJobs: 1\<close> runs two Jobs.
\<close>

theorem stale_list_exceeds_the_cap:
  "\<exists>s. reachable pool_init (pool_step True one_cap None) s \<and>
     running s ''nas'' = {''apps/a'', ''apps/b''} \<and> ps_restores s = {}"
proof -
  let ?R = "reachable pool_init (pool_step True one_cap None)"
  note step = reachable_step [of pool_init "pool_step True one_cap None"]
  have "fresh_key after_first (''apps/'' @ ''b'')"
    by (simp add: fresh_key_def after_first_def pool_job_ex_def key_of_def job_key_def)
  then have "?R (after_first\<lparr>ps_held := [(''nas'', {''apps/'' @ ''b''})],
      ps_pending := {(''nas'', ''apps/'' @ ''b'')}\<rparr>)"
    using step [OF reach_first admit_step_ex [of after_first "''apps/'' @ ''b''" True]]
    by (simp add: after_first_def listed_ex_def)
  from step [OF this pool_create [OF _ live_ex [of "''b''"]]]
  have r: "?R (after_first\<lparr>ps_jobs := [pool_job_ex ''a'', pool_job_ex ''b''],
      ps_held := [(''nas'', {''apps/'' @ ''b''})], ps_created := {(''nas'', ''apps/'' @ ''b'')}\<rparr>)"
    by (simp add: after_first_def)
  have "{j \<in> set [pool_job_ex ''a'', pool_job_ex ''b'']. job_occupies_slot j \<and> pool_of j = Some ''nas''} =
      {pool_job_ex ''a'', pool_job_ex ''b''}"
    using live_ex [of "''a''"] live_ex [of "''b''"] by (auto simp: live_job_def)
  then have "running (after_first\<lparr>ps_jobs := [pool_job_ex ''a'', pool_job_ex ''b''],
      ps_held := [(''nas'', {''apps/'' @ ''b''})], ps_created := {(''nas'', ''apps/'' @ ''b'')}\<rparr>) ''nas'' =
      {''apps/a'', ''apps/b''}"
    using live_ex [of "''a''"] live_ex [of "''b''"] by (simp add: running_def live_job_def)
  with r show ?thesis by (intro exI conjI) (assumption | simp add: after_first_def)+
qed

end
