(* ===== verification/Leader.thy ===== *)
theory Leader
  imports Kopiur_Prelude
begin

text \<open>
  Lease-based leader election (\<open>crates/controller/src/leader.rs\<close>, \<open>LeaseTimings\<close> of
  \<open>crates/controller/src/config.rs\<close>). The API server keeps one optional Lease with a resource
  version; a replace is a compare-and-swap on it. Instants are those of one reference clock; a
  replica's wall clock is off by its own skew, its monotonic clock runs at the reference rate.
\<close>

subsection \<open>The Lease and the decision\<close>

record lease_timings =
  lt_lease_duration :: duration
  lt_renew_deadline :: duration
  lt_renew_period :: duration
  lt_retry_period :: duration

definition LEASE_DURATION :: duration where "LEASE_DURATION = duration_from_secs 15"
definition RENEW_DEADLINE :: duration where "RENEW_DEADLINE = duration_from_secs 10"
definition RENEW_PERIOD :: duration where "RENEW_PERIOD = duration_from_secs 2"
definition RETRY_PERIOD :: duration where "RETRY_PERIOD = duration_from_secs 2"
definition RENEW_ATTEMPT_TIMEOUT :: duration where "RENEW_ATTEMPT_TIMEOUT = duration_from_secs 6"
definition MAX_LEASE_DURATION :: duration where "MAX_LEASE_DURATION = duration_from_secs 300"

definition default_timings :: lease_timings where
  "default_timings = \<lparr>lt_lease_duration = LEASE_DURATION, lt_renew_deadline = RENEW_DEADLINE,
     lt_renew_period = RENEW_PERIOD, lt_retry_period = RETRY_PERIOD\<rparr>"

datatype timings_error = WorstCaseTooLong | RetryTooLong | ZeroPeriod | LeaseTooLong

definition validate_timings :: "lease_timings \<Rightarrow> timings_error + unit" where
  "validate_timings t =
     (let worst_case = lt_renew_period t + lt_renew_deadline t
      in if lt_lease_duration t \<le> worst_case then Inl WorstCaseTooLong
         else if lt_renew_deadline t \<le> lt_retry_period t then Inl RetryTooLong
         else if lt_renew_period t = 0 \<or> lt_retry_period t = 0 then Inl ZeroPeriod
         else if MAX_LEASE_DURATION < lt_lease_duration t then Inl LeaseTooLong
         else Inr ())"

datatype decision = Claim | Renew | Standby

definition decide :: "string option \<Rightarrow> string \<Rightarrow> duration \<Rightarrow> duration \<Rightarrow> decision" where
  "decide holder identity observed_unchanged_for lease_duration =
     (case holder of
        Some h \<Rightarrow>
          if h = identity then Renew
          else if lease_duration < observed_unchanged_for then Claim else Standby
      | None \<Rightarrow> Claim)"

record lease_spec =
  sp_holder :: "string option"
  sp_duration_secs :: "int option"
  sp_acquire_time :: "datetime option"
  sp_renew_time :: "datetime option"
  sp_transitions :: "int option"

definition empty_lease_spec :: lease_spec where
  "empty_lease_spec = \<lparr>sp_holder = None, sp_duration_secs = None, sp_acquire_time = None,
     sp_renew_time = None, sp_transitions = None\<rparr>"

record lease =
  l_rv :: nat
  l_spec :: "lease_spec option"

text \<open>\<open>i32::try_from(secs).unwrap_or(i32::MAX)\<close>.\<close>

definition claimed_spec :: "string \<Rightarrow> datetime \<Rightarrow> int \<Rightarrow> duration \<Rightarrow> lease_spec" where
  "claimed_spec identity now transitions lease_duration =
     \<lparr>sp_holder = Some identity,
      sp_duration_secs = Some (min (int (lease_duration div 1000000000)) 2147483647),
      sp_acquire_time = Some now, sp_renew_time = Some now, sp_transitions = Some transitions\<rparr>"

type_synonym lease_key = "string option \<times> datetime option"

definition lease_view :: "lease option \<Rightarrow> lease_key" where
  "lease_view l =
     (case Option.bind l l_spec of
        Some spec \<Rightarrow> (sp_holder spec, sp_renew_time spec)
      | None \<Rightarrow> (None, None))"

record observation =
  ob_seen :: "lease_key option"
  ob_since :: datetime

definition new_observation :: "datetime \<Rightarrow> observation" where
  "new_observation now = \<lparr>ob_seen = None, ob_since = now\<rparr>"

definition track :: "datetime \<Rightarrow> lease_key \<Rightarrow> observation \<Rightarrow> duration \<times> observation" where
  "track now current ob =
     (let ob = (if ob_seen ob \<noteq> Some current then \<lparr>ob_seen = Some current, ob_since = now\<rparr> else ob)
      in (nat (now - ob_since ob), ob))"

subsection \<open>Acting on an observation\<close>

text \<open>The API server: create fails on an existing Lease, replace on another resource version.\<close>

definition api_create :: "lease_spec \<Rightarrow> lease option \<Rightarrow> bool \<times> lease option" where
  "api_create spec stored =
     (case stored of None \<Rightarrow> (True, Some \<lparr>l_rv = 0, l_spec = Some spec\<rparr>) | Some _ \<Rightarrow> (False, stored))"

definition api_replace :: "lease \<Rightarrow> lease option \<Rightarrow> bool \<times> lease option" where
  "api_replace new stored =
     (case stored of
        Some l \<Rightarrow> if l_rv l = l_rv new then (True, Some (new\<lparr>l_rv := Suc (l_rv l)\<rparr>)) else (False, stored)
      | None \<Rightarrow> (False, stored))"

definition act_on_observation ::
    "string \<Rightarrow> lease option \<Rightarrow> duration \<Rightarrow> lease_timings \<Rightarrow> datetime \<Rightarrow> lease option \<Rightarrow>
     bool \<times> lease option" where
  "act_on_observation identity observed observed_unchanged_for timings now stored =
     (case observed of
        None \<Rightarrow> api_create (claimed_spec identity now 1 (lt_lease_duration timings)) stored
      | Some lease \<Rightarrow>
          (let spec = unwrap_or (l_spec lease) empty_lease_spec
           in case decide (sp_holder spec) identity observed_unchanged_for (lt_lease_duration timings) of
                Standby \<Rightarrow> (False, stored)
              | Renew \<Rightarrow>
                  api_replace (lease\<lparr>l_spec := Some (spec\<lparr>sp_renew_time := Some now\<rparr>)\<rparr>) stored
              | Claim \<Rightarrow>
                  api_replace (lease\<lparr>l_spec := Some (claimed_spec identity now
                     (unwrap_or (sp_transitions spec) 0 + 1) (lt_lease_duration timings))\<rparr>) stored))"

datatype attempt_outcome = Renewed | LostToPeer "string option" | Retryable

text \<open>What one renew attempt concludes from an answer; \<open>None\<close> is a transport error or a timeout.\<close>

definition attempt_conclusion :: "string \<Rightarrow> lease option \<Rightarrow> bool option \<Rightarrow> attempt_outcome" where
  "attempt_conclusion identity observed answer =
     (case answer of
        Some True \<Rightarrow> Renewed
      | Some False \<Rightarrow>
          (let holder = fst (lease_view observed)
           in if holder = Some identity then Retryable else LostToPeer holder)
      | None \<Rightarrow> Retryable)"

definition release_lease :: "string \<Rightarrow> lease option \<Rightarrow> lease option \<Rightarrow> bool \<times> lease option" where
  "release_lease identity observed stored =
     (case observed of
        None \<Rightarrow> (False, stored)
      | Some lease \<Rightarrow>
          (let spec = unwrap_or (l_spec lease) empty_lease_spec
           in if sp_holder spec \<noteq> Some identity then (False, stored)
              else api_replace (lease\<lparr>l_spec := Some (spec\<lparr>sp_holder := None, sp_renew_time := None\<rparr>)\<rparr>) stored))"

datatype reconfirmed = StillOurs | Reconfirm_Lost | Reconfirm_Retry

definition reconfirm_attempt ::
    "string \<Rightarrow> lease option \<Rightarrow> datetime \<Rightarrow> lease option \<Rightarrow> reconfirmed \<times> lease option" where
  "reconfirm_attempt identity observed now stored =
     (case observed of
        None \<Rightarrow> (Reconfirm_Lost, stored)
      | Some lease \<Rightarrow>
          (let spec = unwrap_or (l_spec lease) empty_lease_spec
           in if sp_holder spec \<noteq> Some identity then (Reconfirm_Lost, stored)
              else (let (ok, stored') =
                          api_replace (lease\<lparr>l_spec := Some (spec\<lparr>sp_renew_time := Some now\<rparr>)\<rparr>) stored
                    in (if ok then StillOurs else Reconfirm_Retry, stored'))))"

subsection \<open>What a successful write means\<close>

text \<open>
  The content of \<open>act_on_observation\<close>: a failed attempt changes nothing; a successful one stamps the
  Lease with this replica, and it replaced either nothing, or the very Lease it had read, which was
  unheld, its own, or unchanged for longer than the lease duration.
\<close>

lemma lease_view_Some: "lease_view (Some l) = (case l_spec l of None \<Rightarrow> (None, None)
    | Some spec \<Rightarrow> (sp_holder spec, sp_renew_time spec))"
  by (simp add: lease_view_def split: option.split)

lemma api_replace_True:
  assumes "api_replace new stored = (True, stored')"
  obtains l where "stored = Some l" "l_rv l = l_rv new" "stored' = Some (new\<lparr>l_rv := Suc (l_rv l)\<rparr>)"
  using assms by (auto simp: api_replace_def split: option.splits if_splits)

lemma api_replace_False: "api_replace new stored = (False, stored') \<Longrightarrow> stored' = stored"
  by (auto simp: api_replace_def split: option.splits if_splits)

definition replaced_read :: "lease option \<Rightarrow> lease option \<Rightarrow> lease option \<Rightarrow> bool" where
  "replaced_read observed stored stored' \<longleftrightarrow>
     (\<exists>lr l l'. observed = Some lr \<and> stored = Some l \<and> stored' = Some l' \<and>
        l_rv lr = l_rv l \<and> l_rv l' = Suc (l_rv l))"

lemma act_on_observation_lost:
  "act_on_observation i obs un t now stored = (False, stored') \<Longrightarrow> stored' = stored"
  by (auto simp: act_on_observation_def api_create_def Let_def dest: api_replace_False
      split: option.splits decision.splits)

lemma act_on_observation_won:
  assumes "act_on_observation i obs un t now stored = (True, stored')"
  shows "lease_view stored' = (Some i, Some now)"
    and "stored = None \<or>
      (replaced_read obs stored stored' \<and>
       (fst (lease_view obs) \<in> {None, Some i} \<or> lt_lease_duration t < un))"
proof -
  have "lease_view stored' = (Some i, Some now) \<and> (stored = None \<or>
      (replaced_read obs stored stored' \<and>
       (fst (lease_view obs) \<in> {None, Some i} \<or> lt_lease_duration t < un)))"
  proof (cases obs)
    case None
    then show ?thesis
      using assms by (auto simp: act_on_observation_def api_create_def claimed_spec_def lease_view_def
          split: option.splits)
  next
    case (Some lr)
    let ?spec = "unwrap_or (l_spec lr) empty_lease_spec"
    have holder: "fst (lease_view obs) = sp_holder ?spec"
      by (simp add: Some lease_view_Some empty_lease_spec_def split: option.split)
    show ?thesis
    proof (cases "decide (sp_holder ?spec) i un (lt_lease_duration t)")
      case Claim
      with assms Some holder show ?thesis
        by (auto simp: act_on_observation_def decide_def Let_def replaced_read_def claimed_spec_def
            lease_view_Some elim!: api_replace_True split: option.splits if_splits)
    next
      case Renew
      with assms Some holder show ?thesis
        by (auto simp: act_on_observation_def decide_def Let_def replaced_read_def
            lease_view_Some elim!: api_replace_True split: option.splits if_splits)
    qed (use assms Some in \<open>auto simp: act_on_observation_def Let_def\<close>)
  qed
  then show "lease_view stored' = (Some i, Some now)"
    and "stored = None \<or> (replaced_read obs stored stored' \<and>
       (fst (lease_view obs) \<in> {None, Some i} \<or> lt_lease_duration t < un))" by auto
qed

lemma read_holder: "fst (lease_view (Some lr)) = sp_holder (unwrap_or (l_spec lr) empty_lease_spec)"
  by (simp add: lease_view_Some empty_lease_spec_def split: option.split)

lemma reconfirm_still_ours:
  assumes "reconfirm_attempt i obs now stored = (StillOurs, stored')"
  shows "lease_view stored' = (Some i, Some now)" "replaced_read obs stored stored'"
    "fst (lease_view obs) = Some i"
  using assms
  by (auto simp: reconfirm_attempt_def Let_def replaced_read_def read_holder lease_view_Some [of "_\<lparr>l_rv := _\<rparr>"]
      elim!: api_replace_True split: option.splits if_splits prod.splits)

lemma reconfirm_not_ours:
  "reconfirm_attempt i obs now stored = (r, stored') \<Longrightarrow> r \<noteq> StillOurs \<Longrightarrow> stored' = stored"
  by (auto simp: reconfirm_attempt_def Let_def dest: api_replace_False
      split: option.splits if_splits prod.splits)

lemma release_spec:
  assumes "release_lease i obs stored = (ok, stored')"
  shows "stored' = stored \<or>
    (lease_view stored' = (None, None) \<and> replaced_read obs stored stored' \<and> fst (lease_view obs) = Some i)"
  using assms
  by (cases ok)
     (auto simp: release_lease_def Let_def replaced_read_def lease_view_Some empty_lease_spec_def
      elim!: api_replace_True dest: api_replace_False split: option.splits if_splits)

subsection \<open>The election as a state machine\<close>

text \<open>
  A replica's observation, the Lease it read last with how long it had been unchanged, and until when
  its reconcilers may run (\<open>last_renewed + lease_duration\<close>; \<open>None\<close> for a standby). Steps: time
  passes, a replica reads, acts on what it read, re-confirms, stops, releases after stopping, restarts,
  or somebody touches the Lease's metadata. An answer may be lost; a received one arrives up to
  \<open>max_lag\<close> after the write was stamped, and \<open>last_renewed\<close> is taken when it arrives.
\<close>

record replica =
  rp_ob :: observation
  rp_read :: "(lease option \<times> duration) option"
  rp_until :: "datetime option"

record lease_sys =
  ls_now :: datetime
  ls_lease :: "lease option"
  ls_rep :: "string \<Rightarrow> replica"

definition bump_rv :: "lease \<Rightarrow> lease" where
  "bump_rv l = l\<lparr>l_rv := Suc (l_rv l)\<rparr>"

inductive lease_step ::
    "(string \<Rightarrow> int) \<Rightarrow> int \<Rightarrow> lease_timings \<Rightarrow> lease_sys \<Rightarrow> lease_sys \<Rightarrow> bool"
  for skew :: "string \<Rightarrow> int" and max_lag :: int and t :: lease_timings where
  lease_tick: "0 \<le> d \<Longrightarrow> lease_step skew max_lag t s (s\<lparr>ls_now := ls_now s + d\<rparr>)"
| lease_read:
    "track (ls_now s) (lease_view (ls_lease s)) (rp_ob (ls_rep s i)) = (unchanged_for, ob') \<Longrightarrow>
     lease_step skew max_lag t s (s\<lparr>ls_rep := (ls_rep s)(i := (ls_rep s i)
       \<lparr>rp_ob := ob', rp_read := Some (ls_lease s, unchanged_for)\<rparr>)\<rparr>)"
| lease_act:
    "\<lbrakk>rp_read (ls_rep s i) = Some (observed, unchanged_for);
      act_on_observation i observed unchanged_for t (ls_now s + skew i) (ls_lease s) = (won, lease');
      0 \<le> lag; lag \<le> max_lag;
      until' = (case attempt_conclusion i observed (if answered then Some won else None) of
          Renewed \<Rightarrow> Some (ls_now s + lag + int (lt_lease_duration t))
        | LostToPeer _ \<Rightarrow> None
        | Retryable \<Rightarrow> rp_until (ls_rep s i))\<rbrakk> \<Longrightarrow>
     lease_step skew max_lag t s (s\<lparr>ls_lease := lease', ls_rep := (ls_rep s)(i := (ls_rep s i)
       \<lparr>rp_read := None, rp_until := until'\<rparr>)\<rparr>)"
| lease_reconfirm:
    "\<lbrakk>rp_read (ls_rep s i) = Some (observed, unchanged_for);
      reconfirm_attempt i observed (ls_now s + skew i) (ls_lease s) = (r, lease');
      0 \<le> lag; lag \<le> max_lag;
      until' = (case r of StillOurs \<Rightarrow> Some (ls_now s + lag + int (lt_lease_duration t))
        | Reconfirm_Lost \<Rightarrow> None | Reconfirm_Retry \<Rightarrow> rp_until (ls_rep s i))\<rbrakk> \<Longrightarrow>
     lease_step skew max_lag t s (s\<lparr>ls_lease := lease', ls_rep := (ls_rep s)(i := (ls_rep s i)
       \<lparr>rp_read := None, rp_until := until'\<rparr>)\<rparr>)"
| lease_stop:
    "lease_step skew max_lag t s
       (s\<lparr>ls_rep := (ls_rep s)(i := (ls_rep s i)\<lparr>rp_until := None\<rparr>)\<rparr>)"
| lease_release:
    "\<lbrakk>rp_until (ls_rep s i) = None; rp_read (ls_rep s i) = Some (observed, unchanged_for);
      release_lease i observed (ls_lease s) = (ok, lease')\<rbrakk> \<Longrightarrow>
     lease_step skew max_lag t s (s\<lparr>ls_lease := lease',
       ls_rep := (ls_rep s)(i := (ls_rep s i)\<lparr>rp_read := None\<rparr>)\<rparr>)"
| lease_restart:
    "lease_step skew max_lag t s (s\<lparr>ls_rep := (ls_rep s)(i :=
       \<lparr>rp_ob = new_observation (ls_now s), rp_read = None, rp_until = None\<rparr>)\<rparr>)"
| lease_touch:
    "ls_lease s = Some l \<Longrightarrow> lease_step skew max_lag t s (s\<lparr>ls_lease := Some (bump_rv l)\<rparr>)"

definition lease_init :: "lease_sys \<Rightarrow> bool" where
  "lease_init s \<longleftrightarrow> ls_lease s = None \<and>
     (\<forall>i. ls_rep s i = \<lparr>rp_ob = new_observation (ls_now s), rp_read = None, rp_until = None\<rparr>)"

text \<open>A replica whose reconcilers may be running, the last \<open>max_lag\<close> of its window apart.\<close>

definition leads :: "int \<Rightarrow> lease_sys \<Rightarrow> string \<Rightarrow> bool" where
  "leads max_lag s i \<longleftrightarrow> (\<exists>u. rp_until (ls_rep s i) = Some u \<and> ls_now s < u - max_lag)"

subsection \<open>At most one leader\<close>

text \<open>A view of a held Lease was stamped no later than the given instant.\<close>

definition view_ok :: "(string \<Rightarrow> int) \<Rightarrow> lease_key \<Rightarrow> datetime \<Rightarrow> bool" where
  "view_ok skew key at \<longleftrightarrow> (\<forall>h. fst key = Some h \<longrightarrow> (\<exists>r. snd key = Some r \<and> r - skew h \<le> at))"

definition read_ok :: "(string \<Rightarrow> int) \<Rightarrow> datetime \<Rightarrow> lease option \<Rightarrow> lease option \<times> duration \<Rightarrow> bool" where
  "read_ok skew now stored rd \<longleftrightarrow>
     (\<forall>lr. fst rd = Some lr \<longrightarrow> (\<exists>l. stored = Some l \<and> l_rv lr \<le> l_rv l \<and>
        (l_rv lr = l_rv l \<longrightarrow> l_spec lr = l_spec l))) \<and>
     (\<forall>h r. lease_view (fst rd) = (Some h, Some r) \<longrightarrow> int (snd rd) \<le> now - (r - skew h))"

definition until_ok :: "(string \<Rightarrow> int) \<Rightarrow> int \<Rightarrow> lease_timings \<Rightarrow> lease_key \<Rightarrow> datetime \<Rightarrow> string \<Rightarrow> datetime \<Rightarrow> bool" where
  "until_ok skew max_lag t key now i u \<longleftrightarrow>
     (now < u - max_lag \<longrightarrow>
       (\<exists>r. key = (Some i, Some r) \<and> u \<le> (r - skew i) + max_lag + int (lt_lease_duration t)))"

definition lease_inv :: "(string \<Rightarrow> int) \<Rightarrow> int \<Rightarrow> lease_timings \<Rightarrow> lease_sys \<Rightarrow> bool" where
  "lease_inv skew max_lag t s \<longleftrightarrow>
     view_ok skew (lease_view (ls_lease s)) (ls_now s) \<and>
     (\<forall>i key. ob_seen (rp_ob (ls_rep s i)) = Some key \<longrightarrow> view_ok skew key (ob_since (rp_ob (ls_rep s i)))) \<and>
     (\<forall>i rd. rp_read (ls_rep s i) = Some rd \<longrightarrow> read_ok skew (ls_now s) (ls_lease s) rd) \<and>
     (\<forall>i u. rp_until (ls_rep s i) = Some u \<longrightarrow>
        until_ok skew max_lag t (lease_view (ls_lease s)) (ls_now s) i u)"

lemma lease_invD:
  assumes "lease_inv skew max_lag t s"
  shows "view_ok skew (lease_view (ls_lease s)) (ls_now s)"
    "ob_seen (rp_ob (ls_rep s i)) = Some key \<Longrightarrow> view_ok skew key (ob_since (rp_ob (ls_rep s i)))"
    "rp_read (ls_rep s i) = Some rd \<Longrightarrow> read_ok skew (ls_now s) (ls_lease s) rd"
    "rp_until (ls_rep s i) = Some u \<Longrightarrow>
       until_ok skew max_lag t (lease_view (ls_lease s)) (ls_now s) i u"
  using assms unfolding lease_inv_def by blast+

lemma lease_invI:
  assumes "view_ok skew (lease_view (ls_lease s)) (ls_now s)"
    "\<And>i key. ob_seen (rp_ob (ls_rep s i)) = Some key \<Longrightarrow> view_ok skew key (ob_since (rp_ob (ls_rep s i)))"
    "\<And>i rd. rp_read (ls_rep s i) = Some rd \<Longrightarrow> read_ok skew (ls_now s) (ls_lease s) rd"
    "\<And>i u. rp_until (ls_rep s i) = Some u \<Longrightarrow>
       until_ok skew max_lag t (lease_view (ls_lease s)) (ls_now s) i u"
  shows "lease_inv skew max_lag t s"
  using assms unfolding lease_inv_def by blast

lemma read_ok_replaced:
  assumes "read_ok skew now stored rd" and "replaced_read (fst rd) stored stored'"
  shows "lease_view (fst rd) = lease_view stored"
  using assms by (auto simp: read_ok_def replaced_read_def lease_view_Some)

lemma read_ok_write:
  assumes "read_ok skew now stored rd"
    and "stored = None \<or> (\<exists>l l'. stored = Some l \<and> stored' = Some l' \<and> l_rv l < l_rv l')"
  shows "read_ok skew now stored' rd"
  using assms unfolding read_ok_def by force

text \<open>
  Writing the Lease keeps the invariant for every other replica: if its window were still open, the
  Lease would be held by it and stamped less than a lease duration ago, so the writer could not have
  seen it unchanged for longer.
\<close>

lemma until_ok_claim:
  assumes u: "until_ok skew max_lag t (lease_view stored) now k u" and read: "read_ok skew now stored rd"
    and won: "stored = None \<or> (replaced_read (fst rd) stored stored' \<and>
       (fst (lease_view (fst rd)) \<in> {None, Some i} \<or> lt_lease_duration t < snd rd))"
    and ki: "k \<noteq> i"
  shows "until_ok skew max_lag t key now k u"
proof -
  have "\<not> now < u - max_lag"
  proof
    assume "now < u - max_lag"
    then obtain r where v: "lease_view stored = (Some k, Some r)"
      and le: "u \<le> (r - skew k) + max_lag + int (lt_lease_duration t)"
      using u by (auto simp: until_ok_def)
    from v have "stored \<noteq> None" by (cases stored) (auto simp: lease_view_def)
    with won have rr: "replaced_read (fst rd) stored stored'"
      and d: "fst (lease_view (fst rd)) \<in> {None, Some i} \<or> lt_lease_duration t < snd rd" by auto
    have same: "lease_view (fst rd) = (Some k, Some r)" using read_ok_replaced [OF read rr] v by simp
    then have "lt_lease_duration t < snd rd" using d ki by auto
    moreover have "int (snd rd) \<le> now - (r - skew k)" using read same by (simp add: read_ok_def)
    ultimately show False using \<open>now < u - max_lag\<close> le by linarith
  qed
  then show ?thesis by (simp add: until_ok_def)
qed

lemma lease_inv_write:
  assumes inv: "lease_inv skew max_lag t s" and rd: "rp_read (ls_rep s i) = Some rd"
    and view: "lease_view lease' = (Some i, Some (ls_now s + skew i))"
    and won: "ls_lease s = None \<or> (replaced_read (fst rd) (ls_lease s) lease' \<and>
       (fst (lease_view (fst rd)) \<in> {None, Some i} \<or> lt_lease_duration t < snd rd))"
    and until: "\<And>u. until' = Some u \<Longrightarrow> u \<le> ls_now s + max_lag + int (lt_lease_duration t)"
  shows "lease_inv skew max_lag t (s\<lparr>ls_lease := lease', ls_rep := (ls_rep s)(i := (ls_rep s i)
       \<lparr>rp_read := None, rp_until := until'\<rparr>)\<rparr>)"
proof -
  note read = lease_invD(3) [OF inv rd]
  have grow: "ls_lease s = None \<or> (\<exists>l l'. ls_lease s = Some l \<and> lease' = Some l' \<and> l_rv l < l_rv l')"
    using won by (auto simp: replaced_read_def)
  have "until_ok skew max_lag t (lease_view lease') (ls_now s) k u"
    if "rp_until (((ls_rep s)(i := (ls_rep s i)\<lparr>rp_read := None, rp_until := until'\<rparr>)) k) = Some u" for k u
  proof (cases "k = i")
    case True
    then show ?thesis using that until view by (simp add: until_ok_def)
  next
    case False
    then show ?thesis
      using that until_ok_claim [OF lease_invD(4) [OF inv] read won] by simp
  qed
  moreover have "view_ok skew (lease_view lease') (ls_now s)" by (simp add: view view_ok_def)
  ultimately show ?thesis
    using lease_invD(2,3) [OF inv] read_ok_write [OF _ grow]
    by (intro lease_invI) (auto split: if_splits)
qed

text \<open>Steps that leave the Lease alone: they may forget windows and reads but not invent any.\<close>

lemma lease_inv_weaken:
  assumes inv: "lease_inv skew max_lag t s" and "ls_lease s' = ls_lease s" "ls_now s' = ls_now s"
    and "\<And>k. rp_ob (ls_rep s' k) = rp_ob (ls_rep s k) \<or> ob_seen (rp_ob (ls_rep s' k)) = None"
    and "\<And>k. rp_read (ls_rep s' k) \<in> {None, rp_read (ls_rep s k)}"
    and "\<And>k. rp_until (ls_rep s' k) \<in> {None, rp_until (ls_rep s k)}"
  shows "lease_inv skew max_lag t s'"
proof (rule lease_invI)
  show "view_ok skew (lease_view (ls_lease s')) (ls_now s')"
    using lease_invD(1) [OF inv] assms(2,3) by simp
  show "view_ok skew key (ob_since (rp_ob (ls_rep s' i)))"
    if "ob_seen (rp_ob (ls_rep s' i)) = Some key" for i key
    using that assms(4) [of i] lease_invD(2) [OF inv, of i key] by auto
  show "read_ok skew (ls_now s') (ls_lease s') rd" if "rp_read (ls_rep s' i) = Some rd" for i rd
    using that assms(5) [of i] lease_invD(3) [OF inv, of i rd] assms(2,3) by auto
  show "until_ok skew max_lag t (lease_view (ls_lease s')) (ls_now s') i u"
    if "rp_until (ls_rep s' i) = Some u" for i u
    using that assms(6) [of i] lease_invD(4) [OF inv, of i u] assms(2,3) by auto
qed

lemma lease_inv_tick:
  assumes inv: "lease_inv skew max_lag t s" and "0 \<le> d"
  shows "lease_inv skew max_lag t (s\<lparr>ls_now := ls_now s + d\<rparr>)"
proof (rule lease_invI; simp)
  show "view_ok skew (lease_view (ls_lease s)) (ls_now s + d)"
    using lease_invD(1) [OF inv] assms(2) by (fastforce simp: view_ok_def)
  show "view_ok skew key (ob_since (rp_ob (ls_rep s i)))"
    if "ob_seen (rp_ob (ls_rep s i)) = Some key" for i key by (rule lease_invD(2) [OF inv that])
  show "read_ok skew (ls_now s + d) (ls_lease s) rd" if "rp_read (ls_rep s i) = Some rd" for i rd
    using lease_invD(3) [OF inv that] assms(2) by (fastforce simp: read_ok_def)
  show "until_ok skew max_lag t (lease_view (ls_lease s)) (ls_now s + d) i u"
    if "rp_until (ls_rep s i) = Some u" for i u
    using lease_invD(4) [OF inv that] assms(2) by (auto simp: until_ok_def)
qed

lemma track_ok:
  assumes "view_ok skew current now"
    and "\<And>key. ob_seen ob = Some key \<Longrightarrow> view_ok skew key (ob_since ob)"
    and "track now current ob = (un, ob')"
  shows "ob_seen ob' = Some current" "view_ok skew current (ob_since ob')" "un = nat (now - ob_since ob')"
  using assms by (auto simp: track_def Let_def split: if_splits)

lemma lease_inv_read:
  assumes inv: "lease_inv skew max_lag t s"
    and tr: "track (ls_now s) (lease_view (ls_lease s)) (rp_ob (ls_rep s i)) = (un, ob')"
  shows "lease_inv skew max_lag t (s\<lparr>ls_rep := (ls_rep s)(i := (ls_rep s i)
       \<lparr>rp_ob := ob', rp_read := Some (ls_lease s, un)\<rparr>)\<rparr>)"
proof -
  note ob = track_ok [OF lease_invD(1) [OF inv] lease_invD(2) [OF inv, of i] tr]
  have fresh: "read_ok skew (ls_now s) (ls_lease s) (ls_lease s, un)"
  proof -
    have "int un \<le> ls_now s - (r - skew h)" if "lease_view (ls_lease s) = (Some h, Some r)" for h r
      using ob(2,3) lease_invD(1) [OF inv] that by (auto simp: view_ok_def)
    then show ?thesis by (auto simp: read_ok_def)
  qed
  show ?thesis
    by (rule lease_invI)
       (use lease_invD [OF inv] ob fresh in \<open>auto split: if_splits\<close>)
qed

lemma lease_inv_touch:
  assumes inv: "lease_inv skew max_lag t s" and l: "ls_lease s = Some l"
  shows "lease_inv skew max_lag t (s\<lparr>ls_lease := Some (bump_rv l)\<rparr>)"
proof -
  have view: "lease_view (Some (bump_rv l)) = lease_view (ls_lease s)"
    by (simp add: l lease_view_Some bump_rv_def)
  have "read_ok skew (ls_now s) (Some (bump_rv l)) rd" if "rp_read (ls_rep s i) = Some rd" for i rd
    by (rule read_ok_write [OF lease_invD(3) [OF inv that]]) (simp add: l bump_rv_def)
  then show ?thesis using lease_invD [OF inv] by (intro lease_invI) (auto simp: view)
qed

lemma lease_inv_release:
  assumes inv: "lease_inv skew max_lag t s" and stopped: "rp_until (ls_rep s i) = None"
    and rd: "rp_read (ls_rep s i) = Some (obs, un)"
    and rel: "release_lease i obs (ls_lease s) = (ok, lease')"
  shows "lease_inv skew max_lag t (s\<lparr>ls_lease := lease',
       ls_rep := (ls_rep s)(i := (ls_rep s i)\<lparr>rp_read := None\<rparr>)\<rparr>)"
  using release_spec [OF rel]
proof
  assume "lease' = ls_lease s"
  then show ?thesis by (intro lease_inv_weaken [OF inv]) auto
next
  assume r: "lease_view lease' = (None, None) \<and> replaced_read obs (ls_lease s) lease' \<and>
    fst (lease_view obs) = Some i"
  have held: "fst (lease_view (ls_lease s)) = Some i"
    using read_ok_replaced [OF lease_invD(3) [OF inv rd]] r by force
  have other: "until_ok skew max_lag t (None, None) (ls_now s) k u"
    if "rp_until (ls_rep s k) = Some u" for k u
    using lease_invD(4) [OF inv that] held that stopped by (cases "k = i") (auto simp: until_ok_def)
  have grow: "\<exists>l l'. ls_lease s = Some l \<and> lease' = Some l' \<and> l_rv l < l_rv l'"
    using r by (auto simp: replaced_read_def)
  show ?thesis
    using lease_invD(2) [OF inv] read_ok_write [OF lease_invD(3) [OF inv]] grow other r
    by (intro lease_invI) (auto simp: view_ok_def split: if_splits)
qed

lemma old_window:
  assumes inv: "lease_inv skew max_lag t s" and "rp_until (ls_rep s i) = Some u" and "0 \<le> max_lag"
  shows "u \<le> ls_now s + max_lag + int (lt_lease_duration t)"
  using lease_invD(1) [OF inv] lease_invD(4) [OF inv assms(2)] assms(3)
  by (cases "ls_now s < u - max_lag") (auto simp: until_ok_def view_ok_def)

lemma lease_inv_act:
  assumes inv: "lease_inv skew max_lag t s" and rd: "rp_read (ls_rep s i) = Some (obs, un)"
    and act: "act_on_observation i obs un t (ls_now s + skew i) (ls_lease s) = (won, lease')"
    and lag: "0 \<le> lag" "lag \<le> max_lag"
    and until': "until' = (case attempt_conclusion i obs (if answered then Some won else None) of
          Renewed \<Rightarrow> Some (ls_now s + lag + int (lt_lease_duration t))
        | LostToPeer _ \<Rightarrow> None
        | Retryable \<Rightarrow> rp_until (ls_rep s i))"
  shows "lease_inv skew max_lag t (s\<lparr>ls_lease := lease', ls_rep := (ls_rep s)(i := (ls_rep s i)
       \<lparr>rp_read := None, rp_until := until'\<rparr>)\<rparr>)"
proof (cases won)
  case True
  then have "act_on_observation i obs un t (ls_now s + skew i) (ls_lease s) = (True, lease')"
    using act by simp
  note w = act_on_observation_won [OF this]
  show ?thesis
  proof (rule lease_inv_write [OF inv rd])
    show "u \<le> ls_now s + max_lag + int (lt_lease_duration t)" if "until' = Some u" for u
      using that lag old_window [OF inv] True unfolding until'
      by (cases answered) (auto simp: attempt_conclusion_def)
  qed (use w in simp_all)
next
  case False
  then have same: "lease' = ls_lease s" using act by (simp add: act_on_observation_lost)
  have "until' \<in> {None, rp_until (ls_rep s i)}"
    using until' False by (auto simp: attempt_conclusion_def Let_def split: if_splits)
  then show ?thesis by (intro lease_inv_weaken [OF inv]) (auto simp: same)
qed

lemma lease_inv_reconfirm:
  assumes inv: "lease_inv skew max_lag t s" and rd: "rp_read (ls_rep s i) = Some (obs, un)"
    and rc: "reconfirm_attempt i obs (ls_now s + skew i) (ls_lease s) = (r, lease')"
    and lag: "0 \<le> lag" "lag \<le> max_lag"
    and until': "until' = (case r of StillOurs \<Rightarrow> Some (ls_now s + lag + int (lt_lease_duration t))
        | Reconfirm_Lost \<Rightarrow> None | Reconfirm_Retry \<Rightarrow> rp_until (ls_rep s i))"
  shows "lease_inv skew max_lag t (s\<lparr>ls_lease := lease', ls_rep := (ls_rep s)(i := (ls_rep s i)
       \<lparr>rp_read := None, rp_until := until'\<rparr>)\<rparr>)"
proof (cases "r = StillOurs")
  case True
  show ?thesis
    by (rule lease_inv_write [OF inv rd])
       (use reconfirm_still_ours [OF rc [unfolded True]] lag until' True in auto)
next
  case False
  then have "until' \<in> {None, rp_until (ls_rep s i)}" using until' by (auto split: reconfirmed.splits)
  then show ?thesis
    using reconfirm_not_ours [OF rc False] by (intro lease_inv_weaken [OF inv]) auto
qed

lemma lease_inv_step:
  assumes inv: "lease_inv skew max_lag t s" and "lease_step skew max_lag t s s'"
  shows "lease_inv skew max_lag t s'"
  using assms(2)
proof cases
  case (lease_stop i)
  then show ?thesis by (intro lease_inv_weaken [OF inv]) auto
next
  case (lease_restart i)
  then show ?thesis by (intro lease_inv_weaken [OF inv]) (auto simp: new_observation_def)
qed (auto intro: lease_inv_tick [OF inv] lease_inv_read [OF inv] lease_inv_act [OF inv]
      lease_inv_reconfirm [OF inv] lease_inv_release [OF inv] lease_inv_touch [OF inv])

lemma lease_inv_init: "lease_init s \<Longrightarrow> lease_inv skew max_lag t s"
  by (rule lease_invI) (auto simp: lease_init_def lease_view_def view_ok_def new_observation_def)

interpretation election: step_invariant lease_init "lease_step skew max_lag t"
    "lease_inv skew max_lag t" for skew max_lag t
  by unfold_locales (auto intro: lease_inv_init lease_inv_step)




subsection \<open>A run with a slow answer\<close>

definition idle_ex :: replica where
  "idle_ex = \<lparr>rp_ob = new_observation 0, rp_read = None, rp_until = None\<rparr>"

definition reps :: "replica \<Rightarrow> replica \<Rightarrow> string \<Rightarrow> replica" where
  "reps a b i = (if i = ''a'' then a else if i = ''b'' then b else idle_ex)"

lemma reps_simps [simp]:
  "reps a b ''a'' = a" "reps a b ''b'' = b"
  "(reps a b)(''a'' := a') = reps a' b" "(reps a b)(''b'' := b') = reps a b'"
  by (auto simp: reps_def fun_eq_iff)

definition spec_ex :: "string \<Rightarrow> datetime \<Rightarrow> datetime \<Rightarrow> int \<Rightarrow> lease_spec" where
  "spec_ex i acquired renewed n = \<lparr>sp_holder = Some i, sp_duration_secs = Some 15,
     sp_acquire_time = Some acquired, sp_renew_time = Some renewed, sp_transitions = Some n\<rparr>"

definition secs :: "int \<Rightarrow> datetime" where
  "secs n = n * nanos"

lemmas lease_ex_defs = act_on_observation_def api_create_def api_replace_def claimed_spec_def
  decide_def track_def lease_view_def attempt_conclusion_def default_timings_def LEASE_DURATION_def
  duration_from_secs_def new_observation_def idle_ex_def spec_ex_def secs_def nanos_def

definition a_reads :: "datetime \<Rightarrow> lease option \<Rightarrow> replica" where
  "a_reads now l = \<lparr>rp_ob = \<lparr>ob_seen = Some (lease_view l), ob_since = now\<rparr>, rp_read = Some (l, 0), rp_until = None\<rparr>"

text \<open>
  Replica \<open>a\<close> creates the Lease at 0 s and renews it at 2 s, \<open>b\<close> sees that renewal at 2 s, \<open>a\<close>'s
  answer takes \<open>lag\<close>.
\<close>

definition renewed_ex :: "int \<Rightarrow> lease_sys" where
  "renewed_ex lag = \<lparr>ls_now = secs 2,
     ls_lease = Some \<lparr>l_rv = 1, l_spec = Some (spec_ex ''a'' 0 (secs 2) 1)\<rparr>,
     ls_rep = reps
       \<lparr>rp_ob = \<lparr>ob_seen = Some (Some ''a'', Some 0), ob_since = secs 2\<rparr>, rp_read = None,
        rp_until = Some (secs 17 + lag)\<rparr>
       \<lparr>rp_ob = \<lparr>ob_seen = Some (Some ''a'', Some (secs 2)), ob_since = secs 2\<rparr>,
        rp_read = Some (Some \<lparr>l_rv = 1, l_spec = Some (spec_ex ''a'' 0 (secs 2) 1)\<rparr>, 0),
        rp_until = None\<rparr>\<rparr>"

lemma reach_read:
  assumes "reachable lease_init (lease_step skew max_lag t) s"
    and "track (ls_now s) (lease_view (ls_lease s)) (rp_ob (ls_rep s i)) = (un, ob')"
    and "s' = s\<lparr>ls_rep := (ls_rep s)(i := (ls_rep s i)\<lparr>rp_ob := ob', rp_read := Some (ls_lease s, un)\<rparr>)\<rparr>"
  shows "reachable lease_init (lease_step skew max_lag t) s'"
  unfolding assms(3) by (rule reachable_step [OF assms(1) lease_read [OF assms(2)]])

lemma reach_win:
  assumes "reachable lease_init (lease_step skew max_lag t) s"
    and "rp_read (ls_rep s i) = Some (obs, un)"
    and "act_on_observation i obs un t (ls_now s + skew i) (ls_lease s) = (True, lease')"
    and "0 \<le> lag" and "lag \<le> max_lag"
    and "s' = s\<lparr>ls_lease := lease', ls_rep := (ls_rep s)(i := (ls_rep s i)
       \<lparr>rp_read := None, rp_until := Some (ls_now s + lag + int (lt_lease_duration t))\<rparr>)\<rparr>"
  shows "reachable lease_init (lease_step skew max_lag t) s'"
  unfolding assms(6)
  by (rule reachable_step [OF assms(1) lease_act [where skew = skew and answered = True, OF assms(2-5)]])
     (simp add: attempt_conclusion_def)

lemma reach_tick:
  assumes "reachable lease_init (lease_step skew max_lag t) s" and "0 \<le> d"
    and "s' = s\<lparr>ls_now := ls_now s + d\<rparr>"
  shows "reachable lease_init (lease_step skew max_lag t) s'"
  unfolding assms(3) by (rule reachable_step [OF assms(1) lease_tick [OF assms(2)]])

definition created_ex :: "datetime \<Rightarrow> lease_sys" where
  "created_ex now = \<lparr>ls_now = now, ls_lease = Some \<lparr>l_rv = 0, l_spec = Some (spec_ex ''a'' 0 0 1)\<rparr>,
     ls_rep = reps \<lparr>rp_ob = \<lparr>ob_seen = Some (None, None), ob_since = 0\<rparr>, rp_read = None,
       rp_until = Some (secs 15)\<rparr> idle_ex\<rparr>"

lemma reach_created:
  assumes "0 \<le> max_lag"
  shows "reachable lease_init (lease_step (\<lambda>_. 0) max_lag default_timings) (created_ex (secs 2))"
proof -
  let ?R = "reachable lease_init (lease_step (\<lambda>_. 0) max_lag default_timings)"
  have "?R \<lparr>ls_now = 0, ls_lease = None, ls_rep = reps idle_ex idle_ex\<rparr>"
    by (rule reachable_init) (simp add: lease_init_def reps_def idle_ex_def)
  then have "?R \<lparr>ls_now = 0, ls_lease = None, ls_rep = reps (a_reads 0 None) idle_ex\<rparr>"
    by (rule reach_read [where i = "''a''" and un = 0 and
          ob' = "\<lparr>ob_seen = Some (None, None), ob_since = 0\<rparr>"])
       (simp_all add: lease_ex_defs a_reads_def)
  then have "?R (created_ex 0)"
    by (rule reach_win [where i = "''a''" and lag = 0 and obs = None and un = 0 and
          lease' = "Some \<lparr>l_rv = 0, l_spec = Some (spec_ex ''a'' 0 0 1)\<rparr>"])
       (simp_all add: assms lease_ex_defs a_reads_def created_ex_def)
  then show ?thesis by (rule reach_tick [where d = "secs 2"]) (simp_all add: created_ex_def secs_def nanos_def)
qed

lemma reach_renewed:
  assumes "0 \<le> lag" and "lag \<le> max_lag"
  shows "reachable lease_init (lease_step (\<lambda>_. 0) max_lag default_timings) (renewed_ex lag)"
proof -
  let ?R = "reachable lease_init (lease_step (\<lambda>_. 0) max_lag default_timings)"
  let ?l0 = "\<lparr>l_rv = 0, l_spec = Some (spec_ex ''a'' 0 0 1)\<rparr>"
  let ?l1 = "\<lparr>l_rv = 1, l_spec = Some (spec_ex ''a'' 0 (secs 2) 1)\<rparr>"
  have "?R (created_ex (secs 2))" by (rule reach_created) (use assms in simp)
  then have "?R \<lparr>ls_now = secs 2, ls_lease = Some ?l0, ls_rep = reps
      \<lparr>rp_ob = \<lparr>ob_seen = Some (Some ''a'', Some 0), ob_since = secs 2\<rparr>, rp_read = Some (Some ?l0, 0),
       rp_until = Some (secs 15)\<rparr> idle_ex\<rparr>"
    by (rule reach_read [where i = "''a''" and un = 0 and
          ob' = "\<lparr>ob_seen = Some (Some ''a'', Some 0), ob_since = secs 2\<rparr>"])
       (simp_all add: lease_ex_defs created_ex_def)
  then have "?R \<lparr>ls_now = secs 2, ls_lease = Some ?l1, ls_rep = reps
      \<lparr>rp_ob = \<lparr>ob_seen = Some (Some ''a'', Some 0), ob_since = secs 2\<rparr>, rp_read = None,
       rp_until = Some (secs 17 + lag)\<rparr> idle_ex\<rparr>"
    by (rule reach_win [where i = "''a''" and lag = lag and obs = "Some ?l0" and un = 0 and
          lease' = "Some ?l1"]) (simp_all add: assms lease_ex_defs)
  then show ?thesis
    by (rule reach_read [where i = "''b''" and un = 0 and
          ob' = "\<lparr>ob_seen = Some (Some ''a'', Some (secs 2)), ob_since = secs 2\<rparr>"])
       (simp_all add: lease_ex_defs renewed_ex_def)
qed


text \<open>
  The margin is measured from the answer. With the default timings, let \<open>a\<close>'s renewal at 2 s be
  answered 4 s later, within the attempt timeout of 6 s: \<open>a\<close> counts its window from 6 s and is still
  inside its renew period and renew window until 18 s. The standby \<open>b\<close> saw the renewal at 2 s and
  claims the Lease just after 17 s: both replicas reconcile.
\<close>

theorem slow_answer_overlaps_leaders:
  "\<exists>s ua ub. reachable lease_init (lease_step (\<lambda>_. 0) (secs 4) default_timings) s \<and>
     secs 4 < int RENEW_ATTEMPT_TIMEOUT \<and>
     rp_until (ls_rep s ''a'') = Some ua \<and> rp_until (ls_rep s ''b'') = Some ub \<and> ls_now s < ub \<and>
     ls_now s < (ua - int LEASE_DURATION) + int RENEW_PERIOD + int RENEW_DEADLINE"
proof -
  let ?R = "reachable lease_init (lease_step (\<lambda>_. 0) (secs 4) default_timings)"
  let ?l1 = "\<lparr>l_rv = 1, l_spec = Some (spec_ex ''a'' 0 (secs 2) 1)\<rparr>"
  let ?l2 = "\<lparr>l_rv = 2, l_spec = Some (spec_ex ''b'' (secs 17 + 1) (secs 17 + 1) 2)\<rparr>"
  let ?ob = "\<lparr>ob_seen = Some (Some ''a'', Some (secs 2)), ob_since = secs 2\<rparr>"
  let ?a = "\<lparr>rp_ob = \<lparr>ob_seen = Some (Some ''a'', Some 0), ob_since = secs 2\<rparr>, rp_read = None,
        rp_until = Some (secs 17 + secs 4)\<rparr>"
  have "?R (renewed_ex (secs 4))" by (rule reach_renewed) (simp_all add: secs_def nanos_def)
  then have "?R ((renewed_ex (secs 4))\<lparr>ls_now := secs 17 + 1\<rparr>)"
    by (rule reach_tick [where d = "secs 15 + 1"]) (simp_all add: renewed_ex_def secs_def nanos_def)
  then have "?R \<lparr>ls_now = secs 17 + 1, ls_lease = Some ?l1, ls_rep = reps ?a
      \<lparr>rp_ob = ?ob, rp_read = Some (Some ?l1, 15000000001), rp_until = None\<rparr>\<rparr>"
    by (rule reach_read [where i = "''b''" and un = 15000000001 and ob' = ?ob])
       (simp_all add: lease_ex_defs renewed_ex_def)
  then have r: "?R \<lparr>ls_now = secs 17 + 1, ls_lease = Some ?l2, ls_rep = reps ?a
      \<lparr>rp_ob = ?ob, rp_read = None, rp_until = Some (secs 32 + 1)\<rparr>\<rparr>"
    by (rule reach_win [where i = "''b''" and lag = 0 and obs = "Some ?l1" and un = 15000000001 and
          lease' = "Some ?l2"]) (simp_all add: lease_ex_defs)
  show ?thesis
    by (rule exI, rule exI [of _ "secs 21"], rule exI [of _ "secs 32 + 1"], rule conjI [OF r])
       (simp add: secs_def nanos_def RENEW_ATTEMPT_TIMEOUT_def LEASE_DURATION_def RENEW_PERIOD_def
         RENEW_DEADLINE_def duration_from_secs_def)
qed

end
