(* ===== verification/Retention.thy ===== *)
theory Retention
  imports Kopiur_Api
begin

text \<open>
  Grandfather-father-son retention: \<open>crates/api/src/retention.rs\<close> (the selection kernel, the
  population and its bucketing) and the prune decisions of
  \<open>crates/controller/src/snapshot_policy.rs\<close> built on it. The calendar fields of an instant are
  chrono's; they are the fields of the record \<open>calendar\<close>, a parameter of the selection.
\<close>

subsection \<open>The selection kernel\<close>

record calendar =
  cal_year :: "datetime \<Rightarrow> int"
  cal_ordinal :: "datetime \<Rightarrow> nat"
  cal_hour :: "datetime \<Rightarrow> nat"
  cal_iso_year :: "datetime \<Rightarrow> int"
  cal_iso_week :: "datetime \<Rightarrow> nat"
  cal_month :: "datetime \<Rightarrow> nat"

record retention =
  keep_latest :: "nat option"
  keep_hourly :: "nat option"
  keep_daily :: "nat option"
  keep_weekly :: "nat option"
  keep_monthly :: "nat option"
  keep_annual :: "nat option"

record snapshot_retention_view =
  v_name :: string
  v_end_time :: datetime
  v_pinned :: bool

record kept_set =
  ks_keep :: "string list"
  ks_delete :: "string list"

definition hour_key :: "calendar \<Rightarrow> datetime \<Rightarrow> int \<times> nat \<times> nat" where
  "hour_key cal t = (cal_year cal t, cal_ordinal cal t, cal_hour cal t)"

definition day_key :: "calendar \<Rightarrow> datetime \<Rightarrow> int \<times> nat" where
  "day_key cal t = (cal_year cal t, cal_ordinal cal t)"

definition week_key :: "calendar \<Rightarrow> datetime \<Rightarrow> int \<times> nat" where
  "week_key cal t = (cal_iso_year cal t, cal_iso_week cal t)"

definition month_key :: "calendar \<Rightarrow> datetime \<Rightarrow> int \<times> nat" where
  "month_key cal t = (cal_year cal t, cal_month cal t)"

definition year_key :: "calendar \<Rightarrow> datetime \<Rightarrow> int" where
  "year_key cal t = cal_year cal t"

text \<open>The loop of \<open>keep_per_period\<close>: \<open>kept\<close> and \<open>seen\<close> are its two mutable locals.\<close>

fun keep_loop :: "nat \<Rightarrow> (nat \<Rightarrow> 'k) \<Rightarrow> nat list \<Rightarrow> nat list \<Rightarrow> 'k set \<Rightarrow> nat list" where
  "keep_loop cnt key [] kept seen = kept"
| "keep_loop cnt key (idx # rest) kept seen =
     (if cnt \<le> length kept then kept
      else if key idx \<in> seen then keep_loop cnt key rest kept seen
      else keep_loop cnt key rest (kept @ [idx]) (insert (key idx) seen))"

definition keep_per_period ::
    "nat list \<Rightarrow> datetime list \<Rightarrow> nat \<Rightarrow> (datetime \<Rightarrow> 'k) \<Rightarrow> nat list" where
  "keep_per_period srt ts cnt key = keep_loop cnt (\<lambda>idx. key (ts ! idx)) srt [] {}"

text \<open>Indices sorted by end time descending, ties by id: \<open>order\<close> in \<open>select_kept\<close>.\<close>

definition retention_order :: "snapshot_retention_view list \<Rightarrow> nat list" where
  "retention_order backups =
     sort_key (\<lambda>i. (- v_end_time (backups ! i), v_name (backups ! i))) [0..<length backups]"

definition bucket_idx ::
    "nat list \<Rightarrow> datetime list \<Rightarrow> nat option \<Rightarrow> (datetime \<Rightarrow> 'k) \<Rightarrow> nat set" where
  "bucket_idx order ts n key =
     (case n of None \<Rightarrow> {} | Some n \<Rightarrow> set (keep_per_period order ts n key))"

definition keep_indices ::
    "calendar \<Rightarrow> snapshot_retention_view list \<Rightarrow> retention \<Rightarrow> nat set" where
  "keep_indices cal backups policy =
     (let ts = map v_end_time backups; order = retention_order backups in
        (case keep_latest policy of None \<Rightarrow> {} | Some n \<Rightarrow> set (take n order))
        \<union> bucket_idx order ts (keep_hourly policy) (hour_key cal)
        \<union> bucket_idx order ts (keep_daily policy) (day_key cal)
        \<union> bucket_idx order ts (keep_weekly policy) (week_key cal)
        \<union> bucket_idx order ts (keep_monthly policy) (month_key cal)
        \<union> bucket_idx order ts (keep_annual policy) (year_key cal))"

definition select_kept ::
    "calendar \<Rightarrow> snapshot_retention_view list \<Rightarrow> retention \<Rightarrow> kept_set" where
  "select_kept cal backups policy =
     (if backups = [] then \<lparr>ks_keep = [], ks_delete = []\<rparr>
      else
        (let order = retention_order backups;
             keep_idx = keep_indices cal backups policy;
             kept = (\<lambda>idx. idx \<in> keep_idx \<or> v_pinned (backups ! idx))
         in \<lparr>ks_keep = map (\<lambda>idx. v_name (backups ! idx)) (filter kept order),
             ks_delete = map (\<lambda>idx. v_name (backups ! idx)) (filter (\<lambda>i. \<not> kept i) order)\<rparr>))"

subsection \<open>The population\<close>

fun participates_in_gfs :: "snapshot_phase \<Rightarrow> bool" where
  "participates_in_gfs Succeeded = True"
| "participates_in_gfs Unchanged = False"
| "participates_in_gfs Discovered = False"
| "participates_in_gfs Pending = False"
| "participates_in_gfs Running = False"
| "participates_in_gfs Failed = False"
| "participates_in_gfs Deleting = False"
| "participates_in_gfs (Unknown s) = False"

text \<open>\<open>status.timing.endTime\<close>, parsed, else the creation timestamp.\<close>

definition snapshot_end_or_creation :: "(string \<Rightarrow> datetime option) \<Rightarrow> snapshot \<Rightarrow> datetime option" where
  "snapshot_end_or_creation rfc3339 b =
     or_else
       (Option.bind (Option.bind (Option.bind (s_status b) ss_timing) st_end_time) rfc3339)
       (map_option from_timestamp (m_creation_timestamp (s_meta b)))"

definition retention_view ::
    "(string \<Rightarrow> datetime option) \<Rightarrow> snapshot \<Rightarrow> snapshot_retention_view option" where
  "retention_view rfc3339 b =
     (case s_status b of None \<Rightarrow> None
      | Some status \<Rightarrow>
          if \<not> is_some_and participates_in_gfs (ss_phase status) then None
          else if ss_snapshot status = None then None
          else
            (case or_else (Option.bind (Option.bind (ss_timing status) st_end_time) rfc3339)
                    (map_option from_timestamp (m_creation_timestamp (s_meta b))) of
               None \<Rightarrow> None
             | Some end_time \<Rightarrow>
                 Some \<lparr>v_name = unwrap_or (m_name (s_meta b)) '''',
                       v_end_time = end_time, v_pinned = sp_pin (s_spec b)\<rparr>))"

definition retention_group_key :: "snapshot \<Rightarrow> bool \<Rightarrow> string" where
  "retention_group_key b policy_is_multi =
     (let source = (case sp_source_pvc (s_spec b) of
                      Some (ns, name) \<Rightarrow> ''pvc/'' @ ns @ ''/'' @ name
                    | None \<Rightarrow> '''')
      in if \<not> policy_is_multi then source
         else source @ [CHR 0x0A] @
           (case sp_repository (s_spec b) of
              None \<Rightarrow> ''''
            | Some r \<Rightarrow> repo_key r (unwrap_or (m_namespace (s_meta b)) '''')))"

fun retention_buckets ::
    "(string \<Rightarrow> datetime option) \<Rightarrow> snapshot list \<Rightarrow> bool \<Rightarrow>
     (string \<times> snapshot_retention_view list) list \<Rightarrow>
     (string \<times> snapshot_retention_view list) list" where
  "retention_buckets rfc3339 [] multi buckets = buckets"
| "retention_buckets rfc3339 (b # bs) multi buckets =
     (if s_terminating b then retention_buckets rfc3339 bs multi buckets
      else case retention_view rfc3339 b of
             None \<Rightarrow> retention_buckets rfc3339 bs multi buckets
           | Some v \<Rightarrow>
               retention_buckets rfc3339 bs multi (bt_push (retention_group_key b multi) v buckets))"

subsection \<open>The prune decisions of the policy reconciler\<close>

definition backups_to_delete ::
    "(string \<Rightarrow> datetime option) \<Rightarrow> calendar \<Rightarrow> snapshot list \<Rightarrow> retention \<Rightarrow> bool \<Rightarrow> string list" where
  "backups_to_delete rfc3339 cal backups policy multi =
     concat (map (\<lambda>(k, views). ks_delete (select_kept cal views policy))
       (retention_buckets rfc3339 backups multi []))"

text \<open>\<open>Reverse(Option<DateTime>)\<close> as a sort key: newest first, an unknown time last.\<close>

definition reverse_opt_key :: "datetime option \<Rightarrow> nat \<times> int" where
  "reverse_opt_key t = (case t of None \<Rightarrow> (1, 0) | Some t \<Rightarrow> (0, - t))"

fun unchanged_buckets :: "snapshot list \<Rightarrow> bool \<Rightarrow> (string \<times> snapshot list) list \<Rightarrow>
     (string \<times> snapshot list) list" where
  "unchanged_buckets [] multi buckets = buckets"
| "unchanged_buckets (s # ss) multi buckets =
     (if s_phase s = Some Unchanged \<and> \<not> s_terminating s
      then unchanged_buckets ss multi (bt_push (retention_group_key s multi) s buckets)
      else unchanged_buckets ss multi buckets)"

definition unchanged_snapshots_to_prune ::
    "(string \<Rightarrow> datetime option) \<Rightarrow> snapshot list \<Rightarrow> nat \<Rightarrow> bool \<Rightarrow> string list" where
  "unchanged_snapshots_to_prune rfc3339 backups limit multi =
     concat (map (\<lambda>(k, rows).
         filter_map (\<lambda>s. m_name (s_meta s))
           (drop limit (sort_key (\<lambda>s. reverse_opt_key (snapshot_end_or_creation rfc3339 s)) rows)))
       (unchanged_buckets backups multi []))"

text \<open>
  \<open>by_name\<close> collects into a \<open>HashMap\<close>, so the last row of a name wins; \<open>map_of\<close> finds the first,
  hence the reversal.
\<close>

definition by_name :: "snapshot list \<Rightarrow> string \<rightharpoonup> snapshot" where
  "by_name backups =
     map_of (rev (filter_map (\<lambda>b. map_option (\<lambda>n. (n, b)) (m_name (s_meta b))) backups))"

definition executable_prunes ::
    "string list \<Rightarrow> snapshot list \<Rightarrow> string set \<Rightarrow> bool \<Rightarrow> string list" where
  "executable_prunes selected backups ready_keys all_ready =
     (if all_ready then selected
      else filter (\<lambda>name. is_some_and (\<lambda>b. is_some_and (\<lambda>pin.
               repo_key pin (unwrap_or (m_namespace (s_meta b)) '''') \<in> ready_keys)
             (sp_repository (s_spec b))) (by_name backups name)) selected)"

fun bucket_counts :: "retention \<Rightarrow> nat option list" where
  "bucket_counts r = [keep_latest r, keep_hourly r, keep_daily r, keep_weekly r, keep_monthly r,
     keep_annual r]"

text \<open>The admission rule that forbids a retention policy no bucket of which keeps anything.\<close>

definition retention_keeps_nothing :: "retention \<Rightarrow> bool" where
  "retention_keeps_nothing r \<longleftrightarrow> list_all (\<lambda>n. unwrap_or n 0 = 0) (bucket_counts r)"

subsection \<open>What one bucket keeps\<close>

text \<open>The newest entry of each period not yet seen, in order: the loop without its count.\<close>

fun newest_per_period :: "(nat \<Rightarrow> 'k) \<Rightarrow> 'k set \<Rightarrow> nat list \<Rightarrow> nat list" where
  "newest_per_period key seen [] = []"
| "newest_per_period key seen (x # xs) =
     (if key x \<in> seen then newest_per_period key seen xs
      else x # newest_per_period key (insert (key x) seen) xs)"

lemma keep_loop_eq:
  "keep_loop cnt key xs kept seen =
     kept @ take (cnt - length kept) (newest_per_period key seen xs)"
proof (induction cnt key xs kept seen rule: keep_loop.induct)
  case (2 cnt key idx rest kept seen)
  then show ?case by (auto simp: take_Cons' not_le)
qed simp

lemma newest_per_period_subset: "set (newest_per_period key seen xs) \<subseteq> set xs"
  by (induction key seen xs rule: newest_per_period.induct) auto

text \<open>
  Membership, declaratively: the entry at position \<open>p\<close> of a duplicate-free order is kept by a
  bucket of size \<open>n\<close> exactly when no entry before it lies in its period and fewer than \<open>n\<close>
  distinct periods lie before it.
\<close>

lemma in_take_newest_per_period:
  assumes "distinct xs" and "p < length xs"
  shows "xs ! p \<in> set (take n (newest_per_period key seen xs)) \<longleftrightarrow>
           key (xs ! p) \<notin> seen \<and> key (xs ! p) \<notin> key ` set (take p xs) \<and>
           card (key ` set (take p xs) - seen) < n"
  using assms
proof (induction key seen xs arbitrary: p n rule: newest_per_period.induct)
  case (1 key seen)
  then show ?case by simp
next
  case (2 key seen x xs)
  show ?case
  proof (cases p)
    case 0
    have "x \<notin> set (newest_per_period key seen xs)"
      using 2(3) newest_per_period_subset [of key seen xs] by auto
    then have "x \<notin> set (take n (newest_per_period key seen xs))"
      by (blast dest: in_set_takeD)
    with 0 show ?thesis by (cases n) auto
  next
    case (Suc q)
    have q: "q < length xs" and ne: "xs ! q \<noteq> x"
      using 2(3,4) Suc by (auto simp: in_set_conv_nth)
    show ?thesis
    proof (cases "key x \<in> seen")
      case True
      with 2(1) [OF True _ q, of n] 2(3) Suc show ?thesis by auto
    next
      case False
      let ?K = "key ` set (take q xs)"
      have eq: "insert (key x) ?K - seen = insert (key x) (?K - insert (key x) seen)"
        using False by auto
      have c: "card (insert (key x) ?K - seen) = Suc (card (?K - insert (key x) seen))"
        unfolding eq by (subst card_insert_disjoint) auto
      show ?thesis
      proof (cases n)
        case (Suc m)
        with 2(2) [OF False _ q, of m] 2(3) False ne \<open>p = Suc q\<close> c show ?thesis
          by auto
      qed (use False c \<open>p = Suc q\<close> in simp)
    qed
  qed
qed

lemma keep_per_period_eq:
  "keep_per_period srt ts n key = take n (newest_per_period (\<lambda>i. key (ts ! i)) {} srt)"
  by (simp add: keep_per_period_def keep_loop_eq)

subsection \<open>The order\<close>

lemma set_retention_order [simp]: "set (retention_order bs) = {0..<length bs}"
  by (simp add: retention_order_def)

lemma distinct_retention_order [simp]: "distinct (retention_order bs)"
  by (simp add: retention_order_def)

lemma length_retention_order [simp]: "length (retention_order bs) = length bs"
  by (simp add: retention_order_def)

lemma retention_order_sorted:
  "sorted_wrt (\<lambda>i j. v_end_time (bs ! j) \<le> v_end_time (bs ! i)) (retention_order bs)"
proof -
  have "sorted_wrt (\<lambda>i j. (- v_end_time (bs ! i), v_name (bs ! i)) \<le>
                           (- v_end_time (bs ! j), v_name (bs ! j))) (retention_order bs)"
    unfolding retention_order_def by (rule sorted_wrt_sort_key)
  then show ?thesis by (rule sorted_wrt_mono_rel [rotated]) (auto simp: less_eq_prod_def)
qed

lemma mset_retention_order_map:
  "mset (map (\<lambda>i. f (bs ! i)) (retention_order bs)) = mset (map f bs)"
proof -
  have "mset (map (\<lambda>i. f (bs ! i)) (retention_order bs)) =
        mset (map (\<lambda>i. f (bs ! i)) [0..<length bs])"
    by (simp add: retention_order_def)
  also have "map (\<lambda>i. f (bs ! i)) [0..<length bs] = map f bs"
    by (rule nth_equalityI) simp_all
  finally show ?thesis .
qed

subsection \<open>The reference policy\<close>

text \<open>
  The policy as documented, over positions in the newest-first order: a bucket of size \<open>n\<close> keeps
  the position when it is the newest of its period and fewer than \<open>n\<close> newer periods exist.
\<close>

definition bucket_keeps ::
    "snapshot_retention_view list \<Rightarrow> nat option \<Rightarrow> (datetime \<Rightarrow> 'k) \<Rightarrow> nat \<Rightarrow> bool" where
  "bucket_keeps bs n key p \<longleftrightarrow>
     (let k = (\<lambda>q. key (v_end_time (bs ! (retention_order bs ! q))));
          newer = k ` {0..<p}
      in is_some_and (\<lambda>n. k p \<notin> newer \<and> card newer < n) n)"

definition gfs_keeps ::
    "calendar \<Rightarrow> snapshot_retention_view list \<Rightarrow> retention \<Rightarrow> nat \<Rightarrow> bool" where
  "gfs_keeps cal bs policy p \<longleftrightarrow>
     v_pinned (bs ! (retention_order bs ! p))
     \<or> is_some_and (\<lambda>n. p < n) (keep_latest policy)
     \<or> bucket_keeps bs (keep_hourly policy) (hour_key cal) p
     \<or> bucket_keeps bs (keep_daily policy) (day_key cal) p
     \<or> bucket_keeps bs (keep_weekly policy) (week_key cal) p
     \<or> bucket_keeps bs (keep_monthly policy) (month_key cal) p
     \<or> bucket_keeps bs (keep_annual policy) (year_key cal) p"

lemma nth_image_take:
  assumes "p \<le> length xs"
  shows "set (take p xs) = (\<lambda>q. xs ! q) ` {0..<p}"
  using assms by (simp add: nth_image)

lemma bucket_idx_iff:
  assumes "p < length bs"
  shows "retention_order bs ! p \<in> bucket_idx (retention_order bs) (map v_end_time bs) n key \<longleftrightarrow>
           bucket_keeps bs n key p"
proof (cases n)
  case (Some m)
  let ?o = "retention_order bs"
  let ?k = "\<lambda>i. key (map v_end_time bs ! i)"
  have nth: "q < length bs \<Longrightarrow> ?k (?o ! q) = key (v_end_time (bs ! (?o ! q)))" for q
    using nth_mem [of q ?o] by simp
  have im: "?k ` set (take p ?o) = (\<lambda>q. key (v_end_time (bs ! (?o ! q)))) ` {0..<p}"
    using assms nth by (auto simp: nth_image_take image_image intro!: image_cong)
  show ?thesis
    using in_take_newest_per_period [of ?o p m ?k "{}"] assms nth [OF assms]
    by (simp add: Some bucket_idx_def keep_per_period_eq bucket_keeps_def Let_def im)
qed (simp add: bucket_idx_def bucket_keeps_def)

lemma keep_latest_iff:
  assumes "p < length bs"
  shows "retention_order bs ! p \<in> set (take n (retention_order bs)) \<longleftrightarrow> p < n"
proof
  assume "retention_order bs ! p \<in> set (take n (retention_order bs))"
  then obtain q where "q < n" "q < length bs" "retention_order bs ! q = retention_order bs ! p"
    by (auto simp: in_set_conv_nth)
  then show "p < n" using assms nth_eq_iff_index_eq [OF distinct_retention_order [of bs]] by auto
qed (use assms in \<open>auto simp: in_set_conv_nth intro!: exI [of _ p]\<close>)

lemma keep_indices_iff:
  assumes "p < length bs"
  shows "retention_order bs ! p \<in> keep_indices cal bs policy
           \<or> v_pinned (bs ! (retention_order bs ! p)) \<longleftrightarrow> gfs_keeps cal bs policy p"
  using assms
  by (cases "keep_latest policy")
     (auto simp: keep_indices_def Let_def bucket_idx_iff keep_latest_iff gfs_keeps_def)

lemma filter_by_position:
  assumes "\<And>p. p < length xs \<Longrightarrow> P (xs ! p) \<longleftrightarrow> Q p"
  shows "filter P xs = map (\<lambda>p. xs ! p) (filter Q [0..<length xs])"
proof -
  have "filter P xs = filter P (map (\<lambda>p. xs ! p) [0..<length xs])"
    by (simp add: map_nth)
  also have "\<dots> = map (\<lambda>p. xs ! p) (filter (P \<circ> (\<lambda>p. xs ! p)) [0..<length xs])"
    by (simp add: filter_map)
  also have "filter (P \<circ> (\<lambda>p. xs ! p)) [0..<length xs] = filter Q [0..<length xs]"
    using assms by (auto intro!: filter_cong)
  finally show ?thesis .
qed

lemma select_kept_positions:
  "ks_keep (select_kept cal bs policy) =
     map (\<lambda>p. v_name (bs ! (retention_order bs ! p))) (filter (gfs_keeps cal bs policy) [0..<length bs])"
  "ks_delete (select_kept cal bs policy) =
     map (\<lambda>p. v_name (bs ! (retention_order bs ! p)))
       (filter (\<lambda>p. \<not> gfs_keeps cal bs policy p) [0..<length bs])"
proof -
  let ?o = "retention_order bs"
  let ?P = "\<lambda>i. i \<in> keep_indices cal bs policy \<or> v_pinned (bs ! i)"
  have "filter ?P ?o = map (\<lambda>p. ?o ! p) (filter (gfs_keeps cal bs policy) [0..<length bs])"
    using filter_by_position [of ?o ?P "gfs_keeps cal bs policy"] keep_indices_iff by simp
  moreover have "filter (\<lambda>i. \<not> ?P i) ?o =
      map (\<lambda>p. ?o ! p) (filter (\<lambda>p. \<not> gfs_keeps cal bs policy p) [0..<length bs])"
    using filter_by_position [of ?o "\<lambda>i. \<not> ?P i" "\<lambda>p. \<not> gfs_keeps cal bs policy p"]
      keep_indices_iff by simp
  ultimately show "ks_keep (select_kept cal bs policy) =
      map (\<lambda>p. v_name (bs ! (?o ! p))) (filter (gfs_keeps cal bs policy) [0..<length bs])"
    and "ks_delete (select_kept cal bs policy) =
      map (\<lambda>p. v_name (bs ! (?o ! p)))
        (filter (\<lambda>p. \<not> gfs_keeps cal bs policy p) [0..<length bs])"
    by (auto simp: select_kept_def Let_def)
qed

subsection \<open>Properties of the selection\<close>

lemma gfs_keeps_newest:
  assumes "\<not> retention_keeps_nothing policy"
  shows "gfs_keeps cal bs policy 0"
  using assms
  by (cases "keep_latest policy"; cases "keep_hourly policy"; cases "keep_daily policy";
      cases "keep_weekly policy"; cases "keep_monthly policy"; cases "keep_annual policy")
     (auto simp: retention_keeps_nothing_def gfs_keeps_def bucket_keeps_def Let_def)

lemma retention_order_desc:
  assumes "p \<le> q" and "q < length bs"
  shows "v_end_time (bs ! (retention_order bs ! q)) \<le> v_end_time (bs ! (retention_order bs ! p))"
  using assms sorted_wrt_nth_le [OF retention_order_sorted [of bs], of p q]
  by (cases "p = q") auto

lemma retention_order_nth_lt: "p < length bs \<Longrightarrow> retention_order bs ! p < length bs"
  using nth_mem [of p "retention_order bs"] by simp

lemma retention_order_obtain:
  assumes "i < length bs"
  obtains p where "p < length bs" and "retention_order bs ! p = i"
proof -
  from assms have "i \<in> set (retention_order bs)" by simp
  then show ?thesis using that by (auto simp: in_set_conv_nth simp del: set_retention_order)
qed

lemma mset_partition_map:
  "mset (map f (filter P xs)) + mset (map f (filter (\<lambda>x. \<not> P x) xs)) = mset (map f xs)"
  by (induction xs) auto

lemma sorted_wrt_filter_upt:
  assumes "\<And>p q. p < q \<Longrightarrow> q < n \<Longrightarrow> R p q"
  shows "sorted_wrt R (filter P [0..<n])"
proof (rule sorted_wrt_sublist_filter)
  have "sorted_wrt (<) [0..<n]" by simp
  then show "sorted_wrt R [0..<n]"
    by (rule sorted_wrt_mono_rel [rotated]) (use assms in auto)
qed


text \<open>
  Retention selection is a partition. Every input id lands in exactly one of \<open>keep\<close> and
  \<open>delete\<close>, as often as it occurs in the input, and both lists come newest first.
\<close>

theorem select_kept_partition:
  "mset (ks_keep (select_kept cal bs policy)) + mset (ks_delete (select_kept cal bs policy)) =
     mset (map v_name bs)
   \<and> (\<exists>ki di. ks_keep (select_kept cal bs policy) = map (\<lambda>i. v_name (bs ! i)) ki
       \<and> ks_delete (select_kept cal bs policy) = map (\<lambda>i. v_name (bs ! i)) di
       \<and> sorted_wrt (\<lambda>i j. v_end_time (bs ! j) \<le> v_end_time (bs ! i)) ki
       \<and> sorted_wrt (\<lambda>i j. v_end_time (bs ! j) \<le> v_end_time (bs ! i)) di)"
proof -
  let ?o = "retention_order bs" and ?k = "gfs_keeps cal bs policy"
  let ?R = "\<lambda>i j. v_end_time (bs ! j) \<le> v_end_time (bs ! i)"
  have srt: "sorted_wrt ?R (map (\<lambda>p. ?o ! p) (filter Q [0..<length bs]))" for Q
    unfolding sorted_wrt_map by (rule sorted_wrt_filter_upt) (simp add: retention_order_desc)
  have "map (\<lambda>p. v_name (bs ! (?o ! p))) [0..<length bs] = map (\<lambda>i. v_name (bs ! i)) ?o"
    by (rule nth_equalityI) simp_all
  then have "mset (map (\<lambda>p. v_name (bs ! (?o ! p))) [0..<length bs]) = mset (map v_name bs)"
    by (simp only: mset_retention_order_map)
  then have part: "mset (ks_keep (select_kept cal bs policy)) +
      mset (ks_delete (select_kept cal bs policy)) = mset (map v_name bs)"
    by (simp only: select_kept_positions mset_partition_map)
  show ?thesis
    by (rule conjI [OF part],
        rule exI [of _ "map (\<lambda>p. ?o ! p) (filter ?k [0..<length bs])"],
        rule exI [of _ "map (\<lambda>p. ?o ! p) (filter (\<lambda>p. \<not> ?k p) [0..<length bs])"])
       (simp add: select_kept_positions srt)
qed

text \<open>
  A policy the admission webhook accepts never deletes the newest restore point. When some
  bucket count is positive and the population is not empty, the first kept id is that of a snapshot
  whose end time no other snapshot exceeds.
\<close>

theorem select_kept_newest_survives:
  assumes "bs \<noteq> []" and "\<not> retention_keeps_nothing policy"
  shows "ks_keep (select_kept cal bs policy) \<noteq> []
    \<and> (\<exists>i < length bs. hd (ks_keep (select_kept cal bs policy)) = v_name (bs ! i)
        \<and> (\<forall>j < length bs. v_end_time (bs ! j) \<le> v_end_time (bs ! i)))"
proof -
  let ?o = "retention_order bs"
  have up: "[0..<length bs] = 0 # [1..<length bs]"
    using assms(1) by (simp add: upt_conv_Cons)
  have k: "ks_keep (select_kept cal bs policy) =
      v_name (bs ! (?o ! 0)) #
      map (\<lambda>p. v_name (bs ! (?o ! p))) (filter (gfs_keeps cal bs policy) [1..<length bs])"
    by (simp add: select_kept_positions up gfs_keeps_newest [OF assms(2)])
  have "v_end_time (bs ! j) \<le> v_end_time (bs ! (?o ! 0))" if "j < length bs" for j
  proof -
    obtain q where "q < length bs" "?o ! q = j" by (rule retention_order_obtain [OF \<open>j < length bs\<close>])
    then show ?thesis using retention_order_desc [of 0 q bs] by simp
  qed
  moreover have "?o ! 0 < length bs" using assms(1) by (simp add: retention_order_nth_lt)
  ultimately show ?thesis by (auto simp: k)
qed

subsection \<open>Properties of the prune\<close>

definition bucket_of ::
    "(string \<Rightarrow> datetime option) \<Rightarrow> bool \<Rightarrow> snapshot \<Rightarrow> (string \<times> snapshot_retention_view) option" where
  "bucket_of rfc3339 multi b =
     (if s_terminating b then None
      else map_option (\<lambda>v. (retention_group_key b multi, v)) (retention_view rfc3339 b))"

lemma retention_buckets_group:
  "retention_buckets rfc3339 bs multi m = bt_group (bucket_of rfc3339 multi) bs m"
  by (induction bs arbitrary: m) (auto simp: bucket_of_def split: option.split)

abbreviation row_name :: "snapshot \<Rightarrow> string" where
  "row_name b \<equiv> unwrap_or (m_name (s_meta b)) ''''"

lemma retention_viewD:
  assumes "retention_view rfc3339 b = Some v"
  shows "s_phase b = Some Succeeded" and "s_snapshot_info b \<noteq> None"
    and "v_name v = row_name b"
    and "v_pinned v = sp_pin (s_spec b)"
    and "snapshot_end_or_creation rfc3339 b = Some (v_end_time v)"
proof -
  obtain st where st: "s_status b = Some st"
    using assms by (auto simp: retention_view_def split: option.splits)
  obtain ph where ph: "ss_phase st = Some ph" "participates_in_gfs ph"
    using assms st by (auto simp: retention_view_def is_some_and_iff split: if_splits)
  show "s_phase b = Some Succeeded" using st ph by (cases ph) auto
  show "s_snapshot_info b \<noteq> None" and "v_name v = row_name b"
    and "v_pinned v = sp_pin (s_spec b)"
    and "snapshot_end_or_creation rfc3339 b = Some (v_end_time v)"
    using assms st
    by (auto simp: retention_view_def snapshot_end_or_creation_def split: if_splits option.splits)
qed

lemma bucket_ofD:
  "bucket_of rfc3339 multi b = Some (k, v) \<Longrightarrow>
     \<not> s_terminating b \<and> k = retention_group_key b multi \<and> retention_view rfc3339 b = Some v"
  by (auto simp: bucket_of_def split: if_splits)

lemma distinct_filter_map_names:
  assumes "distinct (map nm xs)" and "\<And>x v. f x = Some v \<Longrightarrow> v_name v = nm x"
  shows "distinct (map v_name (filter_map f xs))"
  using assms(1)
proof (induction xs)
  case (Cons x xs)
  show ?case
  proof (cases "f x")
    case (Some v)
    have "nm x \<notin> v_name ` set (filter_map f xs)"
      using Cons.prems assms(2) by (auto simp: set_filter_map image_iff)
    with Cons Some assms(2) show ?thesis by auto
  qed (use Cons in simp)
qed simp

lemma backups_to_delete_iff:
  "n \<in> set (backups_to_delete rfc3339 cal bs policy multi) \<longleftrightarrow>
     (\<exists>k vs. (k, vs) \<in> set (retention_buckets rfc3339 bs multi []) \<and>
        n \<in> set (ks_delete (select_kept cal vs policy)))"
  by (auto simp: backups_to_delete_def)

lemma bucket_view_obtain:
  assumes "(k, vs) \<in> set (retention_buckets rfc3339 bs multi [])" and "v \<in> set vs"
  obtains b where "b \<in> set bs" and "\<not> s_terminating b" and "retention_group_key b multi = k"
    and "retention_view rfc3339 b = Some v"
proof -
  have "v \<in> set (filter_map (in_group (bucket_of rfc3339 multi) k) bs)"
    using bt_group_entry(1) [of k vs "bucket_of rfc3339 multi" bs] assms by (simp add: retention_buckets_group)
  then obtain b where "b \<in> set bs" "bucket_of rfc3339 multi b = Some (k, v)"
    by (auto simp: in_set_filter_map in_group_Some)
  then show ?thesis using that bucket_ofD by blast
qed

lemma bucket_names_distinct:
  assumes "(k, vs) \<in> set (retention_buckets rfc3339 bs multi [])" and "distinct (map row_name bs)"
  shows "distinct (map v_name vs)"
proof -
  have "vs = filter_map (in_group (bucket_of rfc3339 multi) k) bs"
    using bt_group_entry(1) [of k vs "bucket_of rfc3339 multi" bs] assms(1) by (simp add: retention_buckets_group)
  moreover have "v_name v = row_name b"
    if "in_group (bucket_of rfc3339 multi) k b = Some v" for b v
    using that by (auto simp: in_group_Some dest!: bucket_ofD retention_viewD(3))
  ultimately show ?thesis
    using distinct_filter_map_names [OF assms(2)] by blast
qed

lemma keep_delete_disjoint:
  assumes "distinct (map v_name vs)"
  shows "set (ks_keep (select_kept cal vs policy)) \<inter> set (ks_delete (select_kept cal vs policy)) = {}"
proof -
  let ?o = "retention_order vs"
  have inj: "p = q" if "p < length vs" "q < length vs" "v_name (vs ! (?o ! p)) = v_name (vs ! (?o ! q))"
    for p q
  proof -
    have "?o ! p = ?o ! q"
      using nth_eq_iff_index_eq [OF assms, of "?o ! p" "?o ! q"] that
      by (simp add: retention_order_nth_lt)
    then show ?thesis
      using that nth_eq_iff_index_eq [OF distinct_retention_order [of vs]] by simp
  qed
  show ?thesis by (auto simp: select_kept_positions dest: inj)
qed

lemma select_kept_deleted:
  assumes "n \<in> set (ks_delete (select_kept cal vs policy))"
  obtains v where "v \<in> set vs" and "v_name v = n" and "\<not> v_pinned v"
proof -
  obtain p where p: "p < length vs" "\<not> gfs_keeps cal vs policy p"
    "n = v_name (vs ! (retention_order vs ! p))"
    using assms by (auto simp: select_kept_positions)
  then show ?thesis
    using that [of "vs ! (retention_order vs ! p)"] by (simp add: gfs_keeps_def retention_order_nth_lt)
qed

lemma select_kept_kept_newest:
  assumes "vs \<noteq> []" and "\<not> retention_keeps_nothing policy"
  obtains w where "w \<in> set vs" and "v_name w \<in> set (ks_keep (select_kept cal vs policy))"
    and "\<And>v. v \<in> set vs \<Longrightarrow> v_end_time v \<le> v_end_time w"
proof (rule that)
  let ?o = "retention_order vs"
  show "vs ! (?o ! 0) \<in> set vs" using assms(1) by (simp add: retention_order_nth_lt)
  show "v_name (vs ! (?o ! 0)) \<in> set (ks_keep (select_kept cal vs policy))"
    using assms(1) gfs_keeps_newest [OF assms(2)] by (auto simp: select_kept_positions)
  fix v assume "v \<in> set vs"
  then obtain i where i: "i < length vs" "vs ! i = v" by (auto simp: in_set_conv_nth)
  obtain q where "q < length vs" "?o ! q = i" by (rule retention_order_obtain [OF i(1)])
  then show "v_end_time v \<le> v_end_time (vs ! (?o ! 0))"
    using retention_order_desc [of 0 q vs] i by simp
qed

lemma bucket_of_name_unique:
  assumes "distinct (map row_name bs)" and "b \<in> set bs" and "b' \<in> set bs"
    and "row_name b = row_name b'"
  shows "b = b'"
  using assms by (auto simp: distinct_map dest: inj_onD)

subsection \<open>Removing rows\<close>

text \<open>
  The selection without positions: a row is kept by what lies strictly before it in the
  newest-first order. A row kept among some rows is therefore kept among fewer of them.
\<close>

abbreviation view_order :: "snapshot_retention_view \<Rightarrow> int \<times> string" where
  "view_order v \<equiv> (- v_end_time v, v_name v)"

definition ahead_of :: "snapshot_retention_view set \<Rightarrow> snapshot_retention_view \<Rightarrow> snapshot_retention_view set" where
  "ahead_of V v = {w \<in> V. view_order w < view_order v}"

definition period_keeps ::
    "snapshot_retention_view set \<Rightarrow> nat option \<Rightarrow> (datetime \<Rightarrow> 'k) \<Rightarrow> snapshot_retention_view \<Rightarrow> bool" where
  "period_keeps V n key v \<longleftrightarrow>
     is_some_and (\<lambda>n. key (v_end_time v) \<notin> (\<lambda>w. key (v_end_time w)) ` ahead_of V v \<and>
       card ((\<lambda>w. key (v_end_time w)) ` ahead_of V v) < n) n"

definition view_kept :: "calendar \<Rightarrow> retention \<Rightarrow> snapshot_retention_view set \<Rightarrow> snapshot_retention_view \<Rightarrow> bool" where
  "view_kept cal policy V v \<longleftrightarrow>
     v_pinned v \<or> is_some_and (\<lambda>n. card (ahead_of V v) < n) (keep_latest policy)
     \<or> period_keeps V (keep_hourly policy) (hour_key cal) v
     \<or> period_keeps V (keep_daily policy) (day_key cal) v
     \<or> period_keeps V (keep_weekly policy) (week_key cal) v
     \<or> period_keeps V (keep_monthly policy) (month_key cal) v
     \<or> period_keeps V (keep_annual policy) (year_key cal) v"

lemma positions_ahead:
  assumes "distinct (map v_name bs)" and "p < length bs"
  shows "(\<lambda>q. bs ! (retention_order bs ! q)) ` {0..<p} = ahead_of (set bs) (bs ! (retention_order bs ! p))"
    and "inj_on (\<lambda>q. bs ! (retention_order bs ! q)) {0..<p}"
proof -
  let ?o = "retention_order bs" and ?at = "\<lambda>q. bs ! (retention_order bs ! q)"
  have less: "view_order (?at i) < view_order (?at j)" if "i < j" "j < length bs" for i j
  proof -
    have "sorted_wrt (\<lambda>i j. view_order (bs ! i) \<le> view_order (bs ! j)) ?o"
      unfolding retention_order_def by (rule sorted_wrt_sort_key)
    then have "view_order (?at i) \<le> view_order (?at j)"
      using sorted_wrt_nth_less [of _ ?o i j] that by auto
    moreover have "?o ! i \<noteq> ?o ! j"
      using that nth_eq_iff_index_eq [OF distinct_retention_order [of bs]] by simp
    then have "v_name (?at i) \<noteq> v_name (?at j)"
      using that nth_eq_iff_index_eq [OF assms(1), of "?o ! i" "?o ! j"] by (simp add: retention_order_nth_lt)
    ultimately show ?thesis by (auto simp: less_prod_def less_eq_prod_def)
  qed
  have at: "?at q \<in> set bs" if "q < length bs" for q using that by (simp add: retention_order_nth_lt)
  have cover: "\<exists>q < length bs. w = ?at q" if w: "w \<in> set bs" for w
  proof -
    obtain i where i: "i < length bs" "bs ! i = w" using w by (auto simp: in_set_conv_nth)
    then show ?thesis using retention_order_obtain [OF i(1)] by metis
  qed
  have "view_order (?at q) < view_order (?at p) \<longleftrightarrow> q < p" if "q < length bs" for q
    using less [of q p] less [of p q] that assms(2) by (metis less_asym linorder_neqE_nat less_irrefl)
  then have before: "view_order (?at q) < view_order (?at p) \<longleftrightarrow> q \<in> {0..<p}" if "q < length bs" for q
    using that by (simp only: atLeastLessThan_iff le0 simp_thms)
  show "?at ` {0..<p} = ahead_of (set bs) (?at p)"
  proof (intro set_eqI iffI)
    fix w assume "w \<in> ?at ` {0..<p}"
    then obtain q where q: "q \<in> {0..<p}" "w = ?at q" by blast
    then have "q < length bs" using assms(2) by simp
    then show "w \<in> ahead_of (set bs) (?at p)"
      using q at before by (simp only: ahead_of_def mem_Collect_eq simp_thms)
  next
    fix w assume w: "w \<in> ahead_of (set bs) (?at p)"
    then obtain q where "q < length bs" "w = ?at q" using cover by (auto simp: ahead_of_def)
    then show "w \<in> ?at ` {0..<p}"
      using w before by (simp only: ahead_of_def mem_Collect_eq) blast
  qed
  show "inj_on ?at {0..<p}"
  proof (rule linorder_inj_onI)
    fix i j assume "i < j" "i \<in> {0..<p}" "j \<in> {0..<p}"
    then show "?at i \<noteq> ?at j" using less [of i j] assms(2) by auto
  qed auto
qed

lemma bucket_keeps_view:
  assumes "distinct (map v_name bs)" and "p < length bs"
  shows "bucket_keeps bs n key p \<longleftrightarrow> period_keeps (set bs) n key (bs ! (retention_order bs ! p))"
proof -
  have "(\<lambda>q. key (v_end_time (bs ! (retention_order bs ! q)))) ` {0..<p} =
      (\<lambda>w. key (v_end_time w)) ` ahead_of (set bs) (bs ! (retention_order bs ! p))"
    using positions_ahead(1) [OF assms, symmetric] by (simp add: image_image)
  then show ?thesis by (simp add: bucket_keeps_def period_keeps_def Let_def)
qed

lemma gfs_keeps_view:
  assumes "distinct (map v_name bs)" and "p < length bs"
  shows "gfs_keeps cal bs policy p \<longleftrightarrow> view_kept cal policy (set bs) (bs ! (retention_order bs ! p))"
proof -
  have "card (ahead_of (set bs) (bs ! (retention_order bs ! p))) = p"
    using positions_ahead [OF assms] by (metis card_atLeastLessThan card_image diff_zero)
  then show ?thesis by (simp add: gfs_keeps_def view_kept_def bucket_keeps_view [OF assms])
qed

lemma select_kept_view:
  assumes "distinct (map v_name bs)" and "v \<in> set bs"
  shows "v_name v \<in> set (ks_keep (select_kept cal bs policy)) \<longleftrightarrow> view_kept cal policy (set bs) v"
proof -
  obtain i where i: "i < length bs" "bs ! i = v" using assms(2) by (auto simp: in_set_conv_nth)
  obtain p where p: "p < length bs" "retention_order bs ! p = i" by (rule retention_order_obtain [OF i(1)])
  have "q = p" if "q < length bs" "v_name (bs ! (retention_order bs ! q)) = v_name v" for q
  proof -
    have "retention_order bs ! q = retention_order bs ! p"
      using nth_eq_iff_index_eq [OF assms(1), of "retention_order bs ! q" i] that i p by (simp add: retention_order_nth_lt)
    then show ?thesis using that(1) p(1) nth_eq_iff_index_eq [OF distinct_retention_order [of bs]] by simp
  qed
  then have "v_name v \<in> set (ks_keep (select_kept cal bs policy)) \<longleftrightarrow> gfs_keeps cal bs policy p"
    using p i by (force simp: select_kept_positions)
  then show ?thesis using gfs_keeps_view [OF assms(1) p(1), of cal policy] p(2) i(2) by simp
qed

lemma period_keeps_fewer: "period_keeps V n key v \<Longrightarrow> W \<subseteq> V \<Longrightarrow> finite V \<Longrightarrow> period_keeps W n key v"
proof -
  assume k: "period_keeps V n key v" and "W \<subseteq> V" "finite V"
  then have sub: "(\<lambda>w. key (v_end_time w)) ` ahead_of W v \<subseteq> (\<lambda>w. key (v_end_time w)) ` ahead_of V v"
    and fin: "finite ((\<lambda>w. key (v_end_time w)) ` ahead_of V v)"
    by (auto simp: ahead_of_def)
  show ?thesis
    using k sub card_mono [OF fin sub] by (auto simp: period_keeps_def is_some_and_iff)
qed

lemma view_kept_fewer:
  assumes "view_kept cal policy V v" and "W \<subseteq> V" and "finite V"
  shows "view_kept cal policy W v"
proof -
  have "card (ahead_of W v) \<le> card (ahead_of V v)"
    using assms(2,3) by (intro card_mono) (auto simp: ahead_of_def)
  then show ?thesis
    using assms(1) unfolding view_kept_def is_some_and_iff
    by (elim disjE) (auto intro: le_less_trans period_keeps_fewer [OF _ assms(2,3)])
qed

text \<open>
  C21: a retention prune never removes the last restore point of a volume. If the policy is one the
  webhook admits and row names are unique, every name the policy reconciler selects for deletion is
  that of a live, succeeded, unpinned row that records a kopia snapshot; and for each of them some
  row of the same source (and repository, for a multi-repository policy) that is not selected ends
  at the same time or later.
\<close>

theorem prune_keeps_a_newer_restore_point:
  assumes "distinct (map row_name bs)" and "\<not> retention_keeps_nothing policy"
    and "n \<in> set (backups_to_delete rfc3339 cal bs policy multi)"
  shows "\<exists>b b' t t'. b \<in> set bs \<and> b' \<in> set bs \<and> row_name b = n \<and>
     \<not> s_terminating b \<and> s_phase b = Some Succeeded \<and> s_snapshot_info b \<noteq> None \<and>
     \<not> sp_pin (s_spec b) \<and>
     \<not> s_terminating b' \<and> s_phase b' = Some Succeeded \<and> s_snapshot_info b' \<noteq> None \<and>
     row_name b' \<notin> set (backups_to_delete rfc3339 cal bs policy multi) \<and>
     retention_group_key b' multi = retention_group_key b multi \<and>
     snapshot_end_or_creation rfc3339 b = Some t \<and>
     snapshot_end_or_creation rfc3339 b' = Some t' \<and> t \<le> t'"
proof -
  obtain k vs where kv: "(k, vs) \<in> set (retention_buckets rfc3339 bs multi [])"
    and del: "n \<in> set (ks_delete (select_kept cal vs policy))"
    using assms(3) by (auto simp: backups_to_delete_iff)
  obtain v where v: "v \<in> set vs" "v_name v = n" "\<not> v_pinned v"
    by (rule select_kept_deleted [OF del])
  obtain w where w: "w \<in> set vs" "v_name w \<in> set (ks_keep (select_kept cal vs policy))"
    and newest: "\<And>v. v \<in> set vs \<Longrightarrow> v_end_time v \<le> v_end_time w"
    using select_kept_kept_newest [OF _ assms(2)] v(1) by (metis empty_iff empty_set)
  obtain b where b: "b \<in> set bs" "\<not> s_terminating b" "retention_group_key b multi = k"
    "retention_view rfc3339 b = Some v" by (rule bucket_view_obtain [OF kv v(1)])
  obtain b' where b': "b' \<in> set bs" "\<not> s_terminating b'" "retention_group_key b' multi = k"
    "retention_view rfc3339 b' = Some w" by (rule bucket_view_obtain [OF kv w(1)])
  have "row_name b' \<notin> set (backups_to_delete rfc3339 cal bs policy multi)"
  proof
    assume "row_name b' \<in> set (backups_to_delete rfc3339 cal bs policy multi)"
    then obtain k2 vs2 where k2: "(k2, vs2) \<in> set (retention_buckets rfc3339 bs multi [])"
      and d2: "row_name b' \<in> set (ks_delete (select_kept cal vs2 policy))"
      by (auto simp: backups_to_delete_iff)
    obtain u where u: "u \<in> set vs2" "v_name u = row_name b'" by (rule select_kept_deleted [OF d2])
    obtain b2 where b2: "b2 \<in> set bs" "retention_group_key b2 multi = k2"
      "retention_view rfc3339 b2 = Some u" by (rule bucket_view_obtain [OF k2 u(1)])
    have "b2 = b'"
      using bucket_of_name_unique [OF assms(1) b2(1) b'(1)] u(2) retention_viewD(3) [OF b2(3)] by simp
    then have "k2 = k" using b2(2) b'(3) by simp
    then have "vs2 = vs"
      using bt_group_entry(1) [of k _ "bucket_of rfc3339 multi" bs] kv k2
      by (metis retention_buckets_group)
    then show False
      using d2 w(2) retention_viewD(3) [OF b'(4)]
        keep_delete_disjoint [OF bucket_names_distinct [OF kv assms(1)]] by auto
  qed
  with b b' v newest [OF v(1)] retention_viewD [OF b(4)] retention_viewD [OF b'(4)] show ?thesis
    by (intro exI [of _ b] exI [of _ b'] exI [of _ "v_end_time v"] exI [of _ "v_end_time w"]) simp
qed

subsection \<open>Witnesses\<close>

text \<open>
  A concrete calendar (thirty-day months, 360-day years) and three succeeded rows of one source on
  three consecutive days.
\<close>

definition cal_ex :: calendar where
  "cal_ex = \<lparr>cal_year = (\<lambda>t. t div (31104000 * nanos)), cal_ordinal = (\<lambda>t. nat (t div (86400 * nanos) mod 360)),
     cal_hour = (\<lambda>t. nat (t div (3600 * nanos) mod 24)), cal_iso_year = (\<lambda>t. t div (31104000 * nanos)),
     cal_iso_week = (\<lambda>t. nat (t div (604800 * nanos) mod 52)),
     cal_month = (\<lambda>t. nat (t div (2592000 * nanos) mod 12))\<rparr>"

definition row_ex :: "string \<Rightarrow> int \<Rightarrow> snapshot" where
  "row_ex n secs = \<lparr>s_meta = empty_meta\<lparr>m_name := Some n, m_creation_timestamp := Some secs\<rparr>,
     s_spec = empty_spec\<lparr>sp_source_pvc := Some (''apps'', ''data'')\<rparr>,
     s_status = Some \<lparr>ss_phase = Some Succeeded, ss_origin = None,
       ss_snapshot = Some \<lparr>si_kopia_snapshot_id = n, si_identity = \<lparr>ri_username = ''u'',
         ri_hostname = ''h'', ri_source_path = Some ''/p''\<rparr>,
         si_description = None\<rparr>,
       ss_timing = None, ss_resolved_repository = None, ss_conditions = [],
       ss_size_bytes = None, ss_recorded = None\<rparr>\<rparr>"

definition daily_ex :: retention where
  "daily_ex = \<lparr>keep_latest = None, keep_hourly = None, keep_daily = Some 2, keep_weekly = None,
     keep_monthly = None, keep_annual = None\<rparr>"

lemmas retention_ex_defs = cal_ex_def row_ex_def daily_ex_def empty_meta_def empty_spec_def

lemma prune_ex:
  "backups_to_delete (\<lambda>_. None) cal_ex
     [row_ex ''d22'' 0, row_ex ''d24'' 172800, row_ex ''d23'' 86400] daily_ex False = [''d22'']"
  by code_simp

theorem select_kept_newest_survives_witness:
  "ks_keep (select_kept cal_ex [\<lparr>v_name = ''a'', v_end_time = 1, v_pinned = False\<rparr>,
     \<lparr>v_name = ''b'', v_end_time = 2, v_pinned = False\<rparr>] daily_ex) \<noteq> []"
  using select_kept_newest_survives [of "[\<lparr>v_name = ''a'', v_end_time = 1, v_pinned = False\<rparr>,
     \<lparr>v_name = ''b'', v_end_time = 2, v_pinned = False\<rparr>]" daily_ex cal_ex]
  by (simp add: retention_keeps_nothing_def daily_ex_def)

theorem prune_keeps_a_newer_restore_point_witness:
  "\<exists>b b' t t'. row_name b = ''d22'' \<and>
     retention_group_key b' False = retention_group_key b False \<and>
     snapshot_end_or_creation (\<lambda>_. None) b = Some t \<and>
     snapshot_end_or_creation (\<lambda>_. None) b' = Some t' \<and> t \<le> t'"
  using prune_keeps_a_newer_restore_point
    [of "[row_ex ''d22'' 0, row_ex ''d24'' 172800, row_ex ''d23'' 86400]" daily_ex "''d22''"
       "\<lambda>_. None" cal_ex False]
  unfolding prune_ex by (simp add: retention_keeps_nothing_def retention_ex_defs) blast

end
