(* ===== verification/Schedule.thy ===== *)
theory Schedule
  imports Retention Naming Deletion
begin

text \<open>
  Snapshot schedules (\<open>crates/controller/src/snapshot_schedule.rs\<close>): the pinned slot and when it is
  recomputed, what may hold a due slot, what a replacing slot deletes, the failed-history pruning, and
  the reconcile that composes them. The cron parser with its time zones is the parameter
  \<open>cron_next\<close> (the next occurrence strictly after an instant), the time-zone database \<open>parse_tz\<close>.
\<close>

subsection \<open>Slots\<close>

datatype concurrency_policy = Forbid | Allow | Replace

record schedule_spec =
  sc_cron :: string
  sc_run_on_create :: bool
  sc_suspend :: bool
  sc_concurrency_policy :: concurrency_policy
  sc_starting_deadline_seconds :: "int option"
  sc_timezone :: "string option"
  sc_jitter :: "string option"

text \<open>\<open>chrono::Duration::from_std\<close>: an error beyond \<open>i64::MAX\<close> milliseconds.\<close>

definition from_std :: "duration \<Rightarrow> int option" where
  "from_std d = (if d div 1000000 \<le> 9223372036854775807 then Some (int d) else None)"

type_synonym cron_oracle = "string \<Rightarrow> string \<Rightarrow> datetime \<Rightarrow> datetime option"

definition next_fire ::
    "cron_oracle \<Rightarrow> string \<Rightarrow> duration option \<Rightarrow> string \<Rightarrow> datetime \<Rightarrow> string \<Rightarrow> datetime option" where
  "next_fire cron_next cron_expr jitter_window seed after tz =
     (case cron_next (substitute_h cron_expr seed) tz after of
        None \<Rightarrow> None
      | Some slot \<Rightarrow>
          (let offset = (case jitter_window of
                 Some w \<Rightarrow> jitter_offset seed (slot div nanos) w
               | None \<Rightarrow> 0)
           in Some (slot + unwrap_or (from_std offset) 0)))"

definition should_fire_now :: "datetime \<Rightarrow> datetime \<Rightarrow> bool" where
  "should_fire_now slot now \<longleftrightarrow> slot \<le> now"

record pinned_slot =
  pin_timezone :: "string option"
  pin_jitter :: "string option"
  pin_cron :: "string option"

definition jitter_window :: "string option \<Rightarrow> duration option" where
  "jitter_window raw = Option.bind raw parse_go_duration"

definition normalize_cron :: "string \<Rightarrow> string" where
  "normalize_cron cron = join '' '' (split_whitespace cron)"

definition pin_needs_recompute :: "string \<Rightarrow> pinned_slot \<Rightarrow> string \<Rightarrow> string option \<Rightarrow> bool" where
  "pin_needs_recompute effective_cron pinned effective_tz effective_jitter \<longleftrightarrow>
     (let tz_changed = is_some_and (\<lambda>p. p \<noteq> effective_tz) (pin_timezone pinned);
          jitter_changed =
            is_some_and (\<lambda>p. jitter_window (Some p) \<noteq> jitter_window effective_jitter) (pin_jitter pinned);
          cron_changed =
            is_some_and (\<lambda>p. normalize_cron p \<noteq> normalize_cron effective_cron) (pin_cron pinned)
      in tz_changed \<or> jitter_changed \<or> cron_changed)"

datatype schedule_resolution =
    Resolved string "string list option" "string option"
  | Degraded "string option" "string option"

record effective_schedule =
  ef_tz :: string
  ef_ambiguity :: "string list option"
  ef_jitter :: "string option"
  ef_cron :: string

definition ef_window :: "effective_schedule \<Rightarrow> duration option" where
  "ef_window ef = jitter_window (ef_jitter ef)"

text \<open>What \<open>pin_json\<close> records beside the instant.\<close>

definition pin_of :: "effective_schedule \<Rightarrow> pinned_slot" where
  "pin_of ef = \<lparr>pin_timezone = Some (ef_tz ef), pin_jitter = ef_jitter ef, pin_cron = Some (ef_cron ef)\<rparr>"

definition UTC :: string where "UTC = ''UTC''"

definition resolve_tz :: "(string \<Rightarrow> string option) \<Rightarrow> string option \<Rightarrow> string" where
  "resolve_tz parse_tz own = unwrap_or (Option.bind own parse_tz) UTC"

definition resolve_pinned_slot ::
    "(string \<Rightarrow> string option) \<Rightarrow> string \<Rightarrow> pinned_slot \<Rightarrow> schedule_resolution \<Rightarrow>
     effective_schedule \<times> bool" where
  "resolve_pinned_slot parse_tz cron pinned resolution =
     (case resolution of
        Resolved tz ambiguity jitter \<Rightarrow>
          (\<lparr>ef_tz = tz, ef_ambiguity = ambiguity, ef_jitter = jitter, ef_cron = cron\<rparr>,
           pin_needs_recompute cron pinned tz jitter)
      | Degraded own_tz own_jitter \<Rightarrow>
          (let tz = unwrap_or own_tz (resolve_tz parse_tz (pin_timezone pinned));
               jitter = or_else own_jitter (pin_jitter pinned);
               masked = \<lparr>pin_timezone = (if own_tz = None then None else pin_timezone pinned),
                         pin_jitter = (if own_jitter = None then None else pin_jitter pinned),
                         pin_cron = pin_cron pinned\<rparr>
           in (\<lparr>ef_tz = tz, ef_ambiguity = None, ef_jitter = jitter, ef_cron = cron\<rparr>,
               pin_needs_recompute cron masked tz jitter)))"

definition first_pin :: "string \<Rightarrow> schedule_resolution \<Rightarrow> effective_schedule" where
  "first_pin cron resolution =
     (case resolution of
        Resolved tz ambiguity jitter \<Rightarrow>
          \<lparr>ef_tz = tz, ef_ambiguity = ambiguity, ef_jitter = jitter, ef_cron = cron\<rparr>
      | Degraded own_tz own_jitter \<Rightarrow>
          \<lparr>ef_tz = unwrap_or own_tz UTC, ef_ambiguity = None, ef_jitter = own_jitter, ef_cron = cron\<rparr>)"

definition missed_deadline :: "datetime \<Rightarrow> datetime \<Rightarrow> int option \<Rightarrow> bool" where
  "missed_deadline slot now starting_deadline_seconds =
     (case starting_deadline_seconds of Some d \<Rightarrow> d < num_seconds (now - slot) | None \<Rightarrow> False)"

fun concurrency_allows :: "concurrency_policy \<Rightarrow> bool \<Rightarrow> bool" where
  "concurrency_allows Forbid run_active = (\<not> run_active)"
| "concurrency_allows Allow _ = True"
| "concurrency_allows Replace _ = True"

datatype slot_disposition = SD_Fire | SD_SkipExpired | SD_Wait

definition slot_disposition :: "schedule_spec \<Rightarrow> datetime \<Rightarrow> datetime \<Rightarrow> bool \<Rightarrow> slot_disposition" where
  "slot_disposition schedule slot now run_active =
     (if sc_suspend schedule then SD_Wait
      else if \<not> should_fire_now slot now then SD_Wait
      else if missed_deadline slot now (sc_starting_deadline_seconds schedule) then SD_SkipExpired
      else if concurrency_allows (sc_concurrency_policy schedule) run_active then SD_Fire
      else SD_Wait)"

definition should_run_on_create :: "schedule_spec \<Rightarrow> bool \<Rightarrow> bool" where
  "should_run_on_create schedule already_ran \<longleftrightarrow>
     sc_run_on_create schedule \<and> \<not> sc_suspend schedule \<and> \<not> already_ran"

subsection \<open>Runs in the way\<close>

record unreadable_run =
  ur_snapshot :: string
  ur_phase :: string

record active_runs =
  ar_active :: bool
  ar_unreadable :: "unreadable_run option"

abbreviation name_any :: "snapshot \<Rightarrow> string" where
  "name_any b \<equiv> unwrap_or (m_name (s_meta b)) ''''"

definition classify_run :: "snapshot \<Rightarrow> active_runs \<Rightarrow> active_runs" where
  "classify_run b out =
     (if s_terminating b then out
      else case s_phase b of
          None \<Rightarrow> out\<lparr>ar_active := True\<rparr>
        | Some Pending \<Rightarrow> out\<lparr>ar_active := True\<rparr>
        | Some Running \<Rightarrow> out\<lparr>ar_active := True\<rparr>
        | Some (Unknown raw) \<Rightarrow>
            \<lparr>ar_active = True, ar_unreadable =
               or_else (ar_unreadable out) (Some \<lparr>ur_snapshot = name_any b, ur_phase = raw\<rparr>)\<rparr>
        | Some _ \<Rightarrow> out)"

definition classify_active_runs :: "snapshot list \<Rightarrow> active_runs" where
  "classify_active_runs items = fold classify_run items \<lparr>ar_active = False, ar_unreadable = None\<rparr>"

datatype active_run = Own (active_run_name: string) | Foreign (active_run_name: string)

definition runs_target_policy :: "snapshot \<Rightarrow> string \<Rightarrow> policy_ref list \<Rightarrow> bool" where
  "runs_target_policy snapshot namespace targets =
     (case sp_policy_ref (s_spec snapshot) of
        None \<Rightarrow> False
      | Some pref \<Rightarrow>
          (let pref_ns = unwrap_or (or_else (pr_namespace pref) (m_namespace (s_meta snapshot))) namespace
           in list_ex (\<lambda>t. pr_name t = pr_name pref \<and> unwrap_or (pr_namespace t) namespace = pref_ns) targets))"

fun phase_unfinished :: "snapshot_phase option \<Rightarrow> bool" where
  "phase_unfinished None = True"
| "phase_unfinished (Some Pending) = True"
| "phase_unfinished (Some Running) = True"
| "phase_unfinished (Some (Unknown s)) = True"
| "phase_unfinished (Some _) = False"

definition slot_blocker ::
    "snapshot list \<Rightarrow> string \<Rightarrow> policy_ref list \<Rightarrow> snapshot \<Rightarrow> active_run option" where
  "slot_blocker own namespace targets row =
     (if m_namespace (s_meta row) \<noteq> Some namespace \<or> s_terminating row then None
      else if list_ex (\<lambda>o'. name_any o' = name_any row) own then
        (if phase_unfinished (s_phase row) then Some (Own (name_any row)) else None)
      else if runs_target_policy row namespace targets then
        (if s_phase row = Some Running then Some (Foreign (name_any row)) else None)
      else None)"

definition slot_blockers ::
    "snapshot list \<Rightarrow> snapshot list \<Rightarrow> string \<Rightarrow> policy_ref list \<Rightarrow> active_run list" where
  "slot_blockers rows own namespace targets =
     sort_key active_run_name (filter_map (slot_blocker own namespace targets) rows)"

fun first_foreign_run :: "active_run list \<Rightarrow> string option" where
  "first_foreign_run [] = None"
| "first_foreign_run (Own _ # rs) = first_foreign_run rs"
| "first_foreign_run (Foreign name # rs) = Some name"

fun needs_other_run_check :: "concurrency_policy \<Rightarrow> slot_disposition \<Rightarrow> bool" where
  "needs_other_run_check Allow _ = False"
| "needs_other_run_check Forbid d = (d = SD_Fire)"
| "needs_other_run_check Replace d = (d = SD_Fire)"

subsection \<open>Replacing\<close>

datatype replace_plan =
    RP_Clear | RP_Delete "string list" | BlockedUnreadable unreadable_run | HeldByParkedRun string

definition created_before_slot :: "snapshot \<Rightarrow> datetime \<Rightarrow> bool" where
  "created_before_slot snapshot slot =
     is_some_and (\<lambda>created. created < slot)
       (map_option from_timestamp (m_creation_timestamp (s_meta snapshot)))"

definition REPOSITORY_SLOT_AVAILABLE_CONDITION :: string where
  "REPOSITORY_SLOT_AVAILABLE_CONDITION = ''RepositorySlotAvailable''"

definition parked_behind_slot :: "snapshot \<Rightarrow> bool" where
  "parked_behind_slot snapshot =
     list_ex (\<lambda>c. fst c = REPOSITORY_SLOT_AVAILABLE_CONDITION \<and> snd c = ''False'')
       (case s_status snapshot of None \<Rightarrow> [] | Some s \<Rightarrow> ss_conditions s)"

fun replace_loop ::
    "datetime \<Rightarrow> snapshot list \<Rightarrow> string list \<Rightarrow> string option \<Rightarrow> replace_plan" where
  "replace_loop slot [] victims parked =
     (case parked of
        Some name \<Rightarrow> HeldByParkedRun name
      | None \<Rightarrow> if victims = [] then RP_Clear else RP_Delete (sort victims))"
| "replace_loop slot (b # items) victims parked =
     (if s_terminating b \<or> \<not> created_before_slot b slot then replace_loop slot items victims parked
      else case s_phase b of
          Some (Unknown raw) \<Rightarrow> BlockedUnreadable \<lparr>ur_snapshot = name_any b, ur_phase = raw\<rparr>
        | ph \<Rightarrow>
            if \<not> phase_unfinished ph then replace_loop slot items victims parked
            else replace_loop slot items (victims @ [name_any b])
                   (if parked = None \<and> parked_behind_slot b then Some (name_any b) else parked))"

definition replace_plan :: "snapshot list \<Rightarrow> datetime \<Rightarrow> replace_plan" where
  "replace_plan items slot = replace_loop slot items [] None"

definition still_replaceable :: "snapshot option \<Rightarrow> bool" where
  "still_replaceable live =
     (case live of
        None \<Rightarrow> False
      | Some row \<Rightarrow>
          if s_terminating row then False
          else s_phase row \<in> {None, Some Pending, Some Running})"

subsection \<open>Failed history and cascade stamps\<close>

definition snapshot_terminal_time :: "(string \<Rightarrow> datetime option) \<Rightarrow> snapshot \<Rightarrow> datetime option" where
  "snapshot_terminal_time rfc3339 s =
     or_else (Option.bind (Option.bind (Option.bind (s_status s) ss_timing) st_end_time) rfc3339)
       (map_option from_timestamp (m_creation_timestamp (s_meta s)))"

definition failed_history_key :: "snapshot \<Rightarrow> string" where
  "failed_history_key s =
     unwrap_or (map_option (\<lambda>r. repo_key r (unwrap_or (m_namespace (s_meta s)) ''''))
       (sp_repository (s_spec s))) ''''"

definition is_failed_history :: "snapshot \<Rightarrow> bool" where
  "is_failed_history s \<longleftrightarrow>
     s_phase s = Some Failed \<and> \<not> s_terminating s \<and> s_snapshot_info s = None"

definition failed_snapshots_to_prune ::
    "(string \<Rightarrow> datetime option) \<Rightarrow> snapshot list \<Rightarrow> nat \<Rightarrow> string list" where
  "failed_snapshots_to_prune rfc3339 snapshots limit =
     concat (map (\<lambda>(k, rows).
         filter_map (\<lambda>s. m_name (s_meta s))
           (drop limit (sort_key (\<lambda>s. reverse_opt_key (snapshot_terminal_time rfc3339 s)) rows)))
       (bt_group (\<lambda>s. if is_failed_history s then Some (failed_history_key s, s) else None) snapshots []))"

definition children_needing_cascade_stamp :: "snapshot list \<Rightarrow> schedule_delete_policy \<Rightarrow> string list" where
  "children_needing_cascade_stamp children desired =
     filter_map (\<lambda>c. m_name (s_meta c))
       (filter (\<lambda>c. effective_on_schedule_delete (sp_on_schedule_delete (s_spec c)) \<noteq> desired)
         (filter (\<lambda>c. \<not> s_terminating c) children))"

definition slot_fire_blocked_by_terminating :: "snapshot option \<Rightarrow> bool" where
  "slot_fire_blocked_by_terminating existing = is_some_and s_terminating existing"

definition FANOUT_CAP :: nat where "FANOUT_CAP = 400"

text \<open>\<open>saturating_mul\<close> on \<open>usize\<close>.\<close>

definition fanout_cap_exceeded :: "nat \<Rightarrow> nat \<Rightarrow> bool" where
  "fanout_cap_exceeded members repos \<longleftrightarrow> FANOUT_CAP < min (members * repos) u64_max"

subsection \<open>The reconcile\<close>

text \<open>
  What a reconcile reads: the spec, the effective schedule, the recorded pin, the schedule's own
  children, the target policies and the namespace's rows (\<open>None\<close> when the read failed). What it does:
  re-pins, skips an expired slot, fires a slot (deleting the victims first) and pins the next one
  (none when the cron has no next occurrence: the error then comes after the fire), fires on
  creation, pins for the first time, or holds.
\<close>

record schedule_input =
  in_spec :: schedule_spec
  in_seed :: string
  in_resolution :: schedule_resolution
  in_children :: "snapshot list option"
  in_namespace :: string
  in_targets :: "policy_ref list option"
  in_rows :: "snapshot list option"
  in_created :: "datetime option"

datatype schedule_action =
    SA_Error
  | SA_Repin pinned_slot datetime
  | SA_Skip pinned_slot datetime
  | SA_Fire datetime "string list" "(pinned_slot \<times> datetime) option"
  | SA_HoldUnreadable unreadable_run
  | SA_HoldOther string
  | SA_Wait "string option"

text \<open>
  The read behind the check for other runs, made only when the slot is about to fire; \<open>Inl\<close> when it
  failed, which ends the reconcile with an error.
\<close>

definition other_run_check ::
    "schedule_input \<Rightarrow> slot_disposition \<Rightarrow> snapshot list \<Rightarrow> unit + string option" where
  "other_run_check inp disposition own =
     (if needs_other_run_check (sc_concurrency_policy (in_spec inp)) disposition then
        (case (in_targets inp, in_rows inp) of
           (Some targets, Some rows) \<Rightarrow>
             Inr (first_foreign_run (slot_blockers rows own (in_namespace inp) targets))
         | _ \<Rightarrow> Inl ())
      else Inr None)"

definition pinned_reconcile ::
    "cron_oracle \<Rightarrow> (string \<Rightarrow> string option) \<Rightarrow> schedule_input \<Rightarrow> datetime \<Rightarrow> datetime \<times> pinned_slot \<Rightarrow>
     schedule_action" where
  "pinned_reconcile cron_next parse_tz inp now pin =
     (let spec = in_spec inp; slot = fst pin;
          (eff, needs_recompute) = resolve_pinned_slot parse_tz (sc_cron spec) (snd pin) (in_resolution inp);
          next = next_fire cron_next (sc_cron spec) (ef_window eff) (in_seed inp) now (ef_tz eff)
      in if needs_recompute then
           (case next of None \<Rightarrow> SA_Error | Some n \<Rightarrow> SA_Repin (pin_of eff) n)
         else case in_children inp of None \<Rightarrow> SA_Error
         | Some items \<Rightarrow>
             (let runs = classify_active_runs items;
                  disposition = slot_disposition spec slot now (ar_active runs)
              in case other_run_check inp disposition items of Inl _ \<Rightarrow> SA_Error
              | Inr other_run \<Rightarrow>
             (let disposition = (case other_run of Some _ \<Rightarrow> SD_Wait | None \<Rightarrow> disposition);
                  replace =
                    (case sc_concurrency_policy spec of
                       Replace \<Rightarrow> if disposition = SD_Fire \<and> ar_active runs
                                  then Some (replace_plan items slot) else None
                     | _ \<Rightarrow> None);
                  (disposition, parked_hold) =
                    (case replace of
                       Some (BlockedUnreadable _) \<Rightarrow> (SD_Wait, None)
                     | Some (HeldByParkedRun name) \<Rightarrow> (SD_Wait, Some name)
                     | _ \<Rightarrow> (disposition, None));
                  blocker =
                    (if disposition = SD_Wait \<and> \<not> sc_suspend spec \<and> should_fire_now slot now
                     then ar_unreadable runs else None)
              in case disposition of
                   SD_SkipExpired \<Rightarrow>
                     (case next of None \<Rightarrow> SA_Error | Some n \<Rightarrow> SA_Skip (pin_of eff) n)
                 | SD_Fire \<Rightarrow>
                     SA_Fire slot
                       (case replace of Some (RP_Delete victims) \<Rightarrow> victims | _ \<Rightarrow> [])
                       (map_option (\<lambda>n. (pin_of eff, n)) next)
                 | SD_Wait \<Rightarrow>
                     (case blocker of
                        Some b \<Rightarrow> SA_HoldUnreadable b
                      | None \<Rightarrow>
                          (case other_run of
                             Some other \<Rightarrow> SA_HoldOther other
                           | None \<Rightarrow> SA_Wait parked_hold)))))"

definition unpinned_reconcile ::
    "cron_oracle \<Rightarrow> schedule_input \<Rightarrow> datetime \<Rightarrow> bool \<Rightarrow> schedule_action" where
  "unpinned_reconcile cron_next inp now already_ran =
     (let spec = in_spec inp; eff = first_pin (sc_cron spec) (in_resolution inp)
      in case next_fire cron_next (sc_cron spec) (ef_window eff) (in_seed inp) now (ef_tz eff) of
           None \<Rightarrow> SA_Error
         | Some next \<Rightarrow>
             if \<not> should_run_on_create spec already_ran then SA_Repin (pin_of eff) next
             else
               (let fire = SA_Fire (unwrap_or (in_created inp) now) [] (Some (pin_of eff, next))
                in if needs_other_run_check (sc_concurrency_policy spec) SD_Fire then
                     (case in_children inp of
                        None \<Rightarrow> SA_Error
                      | Some own \<Rightarrow>
                          (case other_run_check inp SD_Fire own of
                             Inl _ \<Rightarrow> SA_Error
                           | Inr (Some other) \<Rightarrow> SA_HoldOther other
                           | Inr None \<Rightarrow> fire))
                   else fire))"

definition schedule_reconcile ::
    "cron_oracle \<Rightarrow> (string \<Rightarrow> string option) \<Rightarrow> schedule_input \<Rightarrow> datetime \<Rightarrow>
     (datetime \<times> pinned_slot) option \<Rightarrow> bool \<Rightarrow> schedule_action" where
  "schedule_reconcile cron_next parse_tz inp now pin already_ran =
     (case pin of
        Some p \<Rightarrow> pinned_reconcile cron_next parse_tz inp now p
      | None \<Rightarrow> unpinned_reconcile cron_next inp now already_ran)"

subsection \<open>What a fired slot was checked against\<close>

lemma classify_run_flags:
  "ar_active (classify_run b out) \<longleftrightarrow> ar_active out \<or> (\<not> s_terminating b \<and> phase_unfinished (s_phase b))"
  by (auto simp: classify_run_def split: option.splits snapshot_phase.splits)

lemma classify_fold:
  "ar_active (fold classify_run items out) \<longleftrightarrow>
     ar_active out \<or> (\<exists>b \<in> set items. \<not> s_terminating b \<and> phase_unfinished (s_phase b))"
  by (induction items arbitrary: out) (auto simp: classify_run_flags)

lemma classify_active_runs_active:
  "ar_active (classify_active_runs items) \<longleftrightarrow>
     (\<exists>b \<in> set items. \<not> s_terminating b \<and> phase_unfinished (s_phase b))"
  by (simp add: classify_active_runs_def classify_fold)

lemma first_foreign_run_None: "first_foreign_run rs = None \<longleftrightarrow> (\<forall>n. Foreign n \<notin> set rs)"
  by (induction rs rule: first_foreign_run.induct) auto

text \<open>A run of the same policy that the schedule did not start is moving data.\<close>

definition foreign_running :: "snapshot list \<Rightarrow> snapshot list \<Rightarrow> string \<Rightarrow> policy_ref list \<Rightarrow> bool" where
  "foreign_running rows own namespace targets \<longleftrightarrow>
     (\<exists>row \<in> set rows. m_namespace (s_meta row) = Some namespace \<and> \<not> s_terminating row \<and>
        name_any row \<notin> name_any ` set own \<and> runs_target_policy row namespace targets \<and>
        s_phase row = Some Running)"

lemma slot_blocker_Foreign:
  "slot_blocker own namespace targets row = Some (Foreign n) \<longleftrightarrow>
     m_namespace (s_meta row) = Some namespace \<and> \<not> s_terminating row \<and>
     name_any row \<notin> name_any ` set own \<and> runs_target_policy row namespace targets \<and>
     s_phase row = Some Running \<and> n = name_any row"
  by (auto simp: slot_blocker_def list_ex_iff) (metis rev_image_eqI)

lemma no_foreign_run:
  "first_foreign_run (slot_blockers rows own namespace targets) = None \<longleftrightarrow>
     \<not> foreign_running rows own namespace targets"
  by (auto simp: first_foreign_run_None slot_blockers_def in_set_filter_map slot_blocker_Foreign
      foreign_running_def)

text \<open>The reads were made and show such a run, or could not be made.\<close>

definition other_run_active :: "schedule_input \<Rightarrow> snapshot list \<Rightarrow> bool" where
  "other_run_active inp own \<longleftrightarrow>
     (case (in_targets inp, in_rows inp) of
        (Some targets, Some rows) \<Rightarrow> foreign_running rows own (in_namespace inp) targets
      | _ \<Rightarrow> True)"

lemma other_run_check_Fire:
  "other_run_check inp SD_Fire own = Inr None \<longleftrightarrow>
     sc_concurrency_policy (in_spec inp) = Allow \<or> \<not> other_run_active inp own"
  by (cases "sc_concurrency_policy (in_spec inp)")
     (auto simp: other_run_check_def other_run_active_def no_foreign_run split: option.splits)

text \<open>The own runs a replacing slot is about.\<close>

definition replaceable :: "datetime \<Rightarrow> snapshot \<Rightarrow> bool" where
  "replaceable slot b \<longleftrightarrow> \<not> s_terminating b \<and> created_before_slot b slot \<and> phase_unfinished (s_phase b)"

definition run_unreadable :: "snapshot \<Rightarrow> bool" where
  "run_unreadable b \<longleftrightarrow> (\<exists>raw. s_phase b = Some (Unknown raw))"

lemma replace_loop_Cons:
  "\<exists>u. replace_loop slot (b # items) victims parked =
     (if \<not> replaceable slot b then replace_loop slot items victims parked
      else if run_unreadable b then BlockedUnreadable u
      else replace_loop slot items (victims @ [name_any b])
             (if parked = None \<and> parked_behind_slot b then Some (name_any b) else parked))"
  by (cases "s_phase b"; cases "the (s_phase b)") (auto simp: replaceable_def run_unreadable_def)

declare replace_loop.simps(2) [simp del]

lemma replace_loop_Clear:
  "replace_loop slot items victims parked = RP_Clear \<longleftrightarrow>
     victims = [] \<and> parked = None \<and> (\<forall>b \<in> set items. \<not> replaceable slot b)"
proof (induction items arbitrary: victims parked)
  case (Cons b items)
  from replace_loop_Cons [of slot b items victims parked] obtain u where
    "replace_loop slot (b # items) victims parked =
     (if \<not> replaceable slot b then replace_loop slot items victims parked
      else if run_unreadable b then BlockedUnreadable u
      else replace_loop slot items (victims @ [name_any b])
             (if parked = None \<and> parked_behind_slot b then Some (name_any b) else parked))" ..
  then show ?case using Cons.IH by auto
qed (auto split: option.splits)

lemma replace_loop_Delete:
  "replace_loop slot items victims parked = RP_Delete vs \<Longrightarrow>
     parked = None \<and> vs = sort (victims @ map name_any (filter (replaceable slot) items)) \<and>
     (\<forall>b \<in> set items. replaceable slot b \<longrightarrow> \<not> parked_behind_slot b \<and> \<not> run_unreadable b)"
proof (induction items arbitrary: victims parked)
  case (Cons b items)
  from replace_loop_Cons [of slot b items victims parked] obtain u where
    "replace_loop slot (b # items) victims parked =
     (if \<not> replaceable slot b then replace_loop slot items victims parked
      else if run_unreadable b then BlockedUnreadable u
      else replace_loop slot items (victims @ [name_any b])
             (if parked = None \<and> parked_behind_slot b then Some (name_any b) else parked))" ..
  note step = this
  consider (skip) "\<not> replaceable slot b" | (run) "replaceable slot b" "\<not> run_unreadable b"
    using step Cons.prems by (cases "replaceable slot b"; cases "run_unreadable b") auto
  then show ?case
  proof cases
    case skip
    then show ?thesis using step Cons.prems Cons.IH [of victims parked] by simp
  next
    case run
    let ?parked = "if parked = None \<and> parked_behind_slot b then Some (name_any b) else parked"
    have "replace_loop slot items (victims @ [name_any b]) ?parked = RP_Delete vs"
      using step Cons.prems run by simp
    from Cons.IH [OF this] run show ?thesis by (cases parked) (simp_all split: if_splits)
  qed
qed (auto split: option.splits if_splits)

text \<open>The replacement decision of a slot that is about to fire.\<close>

definition replacement :: "concurrency_policy \<Rightarrow> snapshot list \<Rightarrow> datetime \<Rightarrow> replace_plan option" where
  "replacement policy items slot =
     (if policy = Replace \<and> ar_active (classify_active_runs items) then Some (replace_plan items slot) else None)"

lemma pinned_reconcile_Fire:
  assumes "pinned_reconcile cron_next parse_tz inp now (slot0, pin) = SA_Fire slot victims nx"
  obtains items where "in_children inp = Some items" "slot = slot0"
    "slot_disposition (in_spec inp) slot now (ar_active (classify_active_runs items)) = SD_Fire"
    "sc_concurrency_policy (in_spec inp) \<noteq> Allow \<longrightarrow>
       \<not> other_run_active inp items"
    "(replacement (sc_concurrency_policy (in_spec inp)) items slot \<in> {None, Some RP_Clear} \<and> victims = []) \<or>
     replacement (sc_concurrency_policy (in_spec inp)) items slot = Some (RP_Delete victims)"
proof -
  obtain eff recompute where r: "resolve_pinned_slot parse_tz (sc_cron (in_spec inp)) pin (in_resolution inp)
      = (eff, recompute)" by fastforce
  have nr: "\<not> recompute" using assms by (auto simp: pinned_reconcile_def r Let_def split: option.splits)
  obtain items where items: "in_children inp = Some items"
    using assms nr by (auto simp: pinned_reconcile_def r Let_def split: option.splits)
  let ?policy = "sc_concurrency_policy (in_spec inp)"
  let ?active = "ar_active (classify_active_runs items)"
  let ?disp = "slot_disposition (in_spec inp) slot0 now ?active"
  obtain other where check: "other_run_check inp ?disp items = Inr other"
    using assms nr by (auto simp: pinned_reconcile_def r items Let_def split: sum.splits)
  have "other = None"
    using assms nr by (cases other) (auto simp: pinned_reconcile_def r items Let_def check
        split: option.splits concurrency_policy.splits if_splits)
  have fire: "slot_disposition (in_spec inp) slot0 now ?active = SD_Fire"
    using assms nr check \<open>other = None\<close>
    by (cases ?disp; cases ?policy) (auto simp: pinned_reconcile_def r items Let_def split: option.splits)
  have clear: "?policy \<noteq> Allow \<Longrightarrow> \<not> other_run_active inp items"
    using check fire \<open>other = None\<close> other_run_check_Fire by auto
  have "slot = slot0 \<and>
    ((replacement ?policy items slot0 \<in> {None, Some RP_Clear} \<and> victims = []) \<or>
     replacement ?policy items slot0 = Some (RP_Delete victims))"
    using assms nr check fire \<open>other = None\<close>
    by (cases ?policy) (auto simp: pinned_reconcile_def r items Let_def replacement_def
        split: option.splits replace_plan.splits if_splits)
  with items fire clear show ?thesis by (intro that) auto
qed

lemma fired_slot_facts:
  assumes "schedule_reconcile cron_next parse_tz inp now (Some (slot0, pin)) already_ran = SA_Fire slot victims nx"
  shows "slot = slot0 \<and> \<not> sc_suspend (in_spec inp) \<and> slot \<le> now \<and>
    (\<forall>d. sc_starting_deadline_seconds (in_spec inp) = Some d \<longrightarrow> (now - slot) div nanos \<le> d) \<and>
    (\<exists>items. in_children inp = Some items \<and>
      (case sc_concurrency_policy (in_spec inp) of
         Allow \<Rightarrow> victims = []
       | Forbid \<Rightarrow> victims = [] \<and> (\<forall>b \<in> set items. s_terminating b \<or> \<not> phase_unfinished (s_phase b)) \<and>
           \<not> other_run_active inp items
       | Replace \<Rightarrow> victims = sort (map name_any (filter (replaceable slot) items)) \<and>
           (\<forall>b \<in> set items. replaceable slot b \<longrightarrow> \<not> parked_behind_slot b \<and> \<not> run_unreadable b) \<and>
           \<not> other_run_active inp items))"
proof -
  from assms have "pinned_reconcile cron_next parse_tz inp now (slot0, pin) = SA_Fire slot victims nx"
    by (simp add: schedule_reconcile_def)
  then obtain items where items: "in_children inp = Some items" and slot: "slot = slot0"
    and fire: "slot_disposition (in_spec inp) slot now (ar_active (classify_active_runs items)) = SD_Fire"
    and foreign: "sc_concurrency_policy (in_spec inp) \<noteq> Allow \<longrightarrow>
       \<not> other_run_active inp items"
    and rep: "(replacement (sc_concurrency_policy (in_spec inp)) items slot \<in> {None, Some RP_Clear} \<and> victims = []) \<or>
     replacement (sc_concurrency_policy (in_spec inp)) items slot = Some (RP_Delete victims)"
    by (rule pinned_reconcile_Fire)
  have due: "\<not> sc_suspend (in_spec inp)" "slot \<le> now"
    "\<not> missed_deadline slot now (sc_starting_deadline_seconds (in_spec inp))"
    "concurrency_allows (sc_concurrency_policy (in_spec inp)) (ar_active (classify_active_runs items))"
    using fire by (auto simp: slot_disposition_def should_fire_now_def split: if_splits)
  have inactive: "\<not> ar_active (classify_active_runs items) \<Longrightarrow> filter (replaceable slot) items = []"
    by (auto simp: classify_active_runs_active replaceable_def filter_empty_conv)
  have "case sc_concurrency_policy (in_spec inp) of
         Allow \<Rightarrow> victims = []
       | Forbid \<Rightarrow> victims = [] \<and> (\<forall>b \<in> set items. s_terminating b \<or> \<not> phase_unfinished (s_phase b))
       | Replace \<Rightarrow> victims = sort (map name_any (filter (replaceable slot) items)) \<and>
           (\<forall>b \<in> set items. replaceable slot b \<longrightarrow> \<not> parked_behind_slot b \<and> \<not> run_unreadable b)"
  proof (cases "sc_concurrency_policy (in_spec inp)")
    case Forbid
    then show ?thesis using due(4) rep by (auto simp: classify_active_runs_active replacement_def)
  next
    case Replace
    show ?thesis
    proof (cases "ar_active (classify_active_runs items)")
      case True
      with rep Replace have "replace_plan items slot = RP_Clear \<and> victims = [] \<or>
          replace_plan items slot = RP_Delete victims" by (auto simp: replacement_def)
      then show ?thesis
        using Replace replace_loop_Clear [of slot items "[]" None] replace_loop_Delete [of slot items "[]" None victims]
        by (auto simp: replace_plan_def filter_empty_conv)
    next
      case False
      then show ?thesis
        using rep Replace inactive by (auto simp: replacement_def filter_empty_conv)
    qed
  qed (use rep in \<open>simp add: replacement_def\<close>)
  then show ?thesis
    using slot due(1-3) items foreign
    by (auto simp: missed_deadline_def num_seconds_def split: concurrency_policy.splits option.splits)
qed

text \<open>
  C13: a slot that fires was due and nothing it must not disturb was running. When the reconcile of a
  pinned schedule fires, it fires the pinned slot, the schedule is not suspended, the slot has come
  and its starting deadline has not passed; under \<open>Forbid\<close> no run of the schedule is unfinished; under
  \<open>Forbid\<close> and \<open>Replace\<close> no other run of the same policy is moving data; and what it deletes first are,
  under \<open>Replace\<close>, exactly the schedule's unfinished runs created before the slot, none of them queued
  for a mover slot or at a phase this version cannot read, and nothing under the other policies.
\<close>

theorem fired_slot_is_due_and_clear:
  assumes "schedule_reconcile cron_next parse_tz inp now (Some (slot0, pin)) already_ran = SA_Fire slot victims nx"
  shows "slot = slot0 \<and> \<not> sc_suspend (in_spec inp) \<and> slot \<le> now \<and>
    (\<forall>d. sc_starting_deadline_seconds (in_spec inp) = Some d \<longrightarrow> (now - slot) div nanos \<le> d) \<and>
    (\<exists>items. in_children inp = Some items \<and>
      (case sc_concurrency_policy (in_spec inp) of
         Allow \<Rightarrow> victims = []
       | Forbid \<Rightarrow> victims = [] \<and> (\<forall>b \<in> set items. s_terminating b \<or> \<not> phase_unfinished (s_phase b)) \<and>
           \<not> other_run_active inp items
       | Replace \<Rightarrow> victims = sort (map name_any (filter (replaceable slot) items)) \<and>
           (\<forall>b \<in> set items. replaceable slot b \<longrightarrow> \<not> parked_behind_slot b \<and> \<not> run_unreadable b) \<and>
           \<not> other_run_active inp items))"
  using assms by (rule fired_slot_facts)

definition nightly :: schedule_spec where
  "nightly = \<lparr>sc_cron = ''0 3 * * *'', sc_run_on_create = False, sc_suspend = False,
     sc_concurrency_policy = Replace, sc_starting_deadline_seconds = Some 60,
     sc_timezone = None, sc_jitter = None\<rparr>"

definition run_at :: "string \<Rightarrow> int \<Rightarrow> snapshot_phase \<Rightarrow> snapshot" where
  "run_at name created phase = \<lparr>
     s_meta = empty_meta\<lparr>m_name := Some name, m_namespace := Some ''apps'', m_creation_timestamp := Some created\<rparr>,
     s_spec = empty_spec\<lparr>sp_policy_ref := Some \<lparr>pr_name = ''db'', pr_namespace = None\<rparr>\<rparr>,
     s_status = Some \<lparr>ss_phase = Some phase, ss_origin = None, ss_snapshot = None, ss_timing = None,
       ss_resolved_repository = None, ss_conditions = [],
       ss_size_bytes = None, ss_recorded = None\<rparr>\<rparr>"

definition nightly_input :: schedule_input where
  "nightly_input = \<lparr>in_spec = nightly, in_seed = ''uid'', in_resolution = Resolved UTC None None,
     in_children = Some [run_at ''db-1'' 100 Running, run_at ''db-0'' 10 Succeeded], in_namespace = ''apps'',
     in_targets = Some [\<lparr>pr_name = ''db'', pr_namespace = None\<rparr>],
     in_rows = Some [run_at ''db-1'' 100 Running, run_at ''manual'' 150 Pending], in_created = None\<rparr>"

lemma nightly_fires:
  "schedule_reconcile (\<lambda>_ _ a. Some (a + 86400 * nanos)) Some nightly_input (210 * nanos)
     (Some (200 * nanos, \<lparr>pin_timezone = Some UTC, pin_jitter = None, pin_cron = None\<rparr>)) False =
   SA_Fire (200 * nanos) [''db-1'']
     (Some (\<lparr>pin_timezone = Some UTC, pin_jitter = None, pin_cron = Some ''0 3 * * *''\<rparr>, 86610 * nanos))"
  by (simp add: schedule_reconcile_def pinned_reconcile_def nightly_input_def nightly_def run_at_def empty_meta_def
      empty_spec_def resolve_pinned_slot_def pin_needs_recompute_def is_some_and_def slot_disposition_def
      should_fire_now_def missed_deadline_def num_seconds_def nanos_def classify_active_runs_def classify_run_def
      other_run_check_def slot_blockers_def slot_blocker_def replace_plan_def replace_loop.simps created_before_slot_def
      parked_behind_slot_def REPOSITORY_SLOT_AVAILABLE_CONDITION_def from_timestamp_def next_fire_def ef_window_def
      jitter_window_def from_std_def pin_of_def runs_target_policy_def)

theorem fired_slot_is_due_and_clear_witness:
  "200 * nanos \<le> 210 * nanos \<and>
   [''db-1''] = sort (map name_any (filter (replaceable (200 * nanos))
     [run_at ''db-1'' 100 Running, run_at ''db-0'' 10 Succeeded])) \<and>
   \<not> other_run_active nightly_input [run_at ''db-1'' 100 Running, run_at ''db-0'' 10 Succeeded]"
  using fired_slot_is_due_and_clear [OF nightly_fires] by (simp add: nightly_input_def nightly_def)

subsection \<open>A schedule over time\<close>

text \<open>
  What survives of a schedule between reconciles, with the log of its fires (slot, instant, whether
  the status patch that follows the fire landed). A fire whose patch is lost leaves the pin as it was.
\<close>

record fire =
  fi_slot :: datetime
  fi_at :: datetime
  fi_recorded :: bool

record schedule_world =
  w_now :: datetime
  w_pin :: "(datetime \<times> pinned_slot) option"
  w_last :: "datetime option"
  w_fires :: "fire list"

definition apply_schedule_action :: "bool \<Rightarrow> schedule_action \<Rightarrow> schedule_world \<Rightarrow> schedule_world" where
  "apply_schedule_action patched a w =
     (case a of
        SA_Repin p n \<Rightarrow> if patched then w\<lparr>w_pin := Some (n, p)\<rparr> else w
      | SA_Skip p n \<Rightarrow> if patched then w\<lparr>w_pin := Some (n, p)\<rparr> else w
      | SA_Fire slot victims nx \<Rightarrow>
          (let recorded = (patched \<and> nx \<noteq> None);
               w' = w\<lparr>w_fires := \<lparr>fi_slot = slot, fi_at = w_now w, fi_recorded = recorded\<rparr> # w_fires w\<rparr>
           in case nx of
                Some (p, n) \<Rightarrow> if patched then w'\<lparr>w_pin := Some (n, p), w_last := Some slot\<rparr> else w'
              | None \<Rightarrow> w')
      | _ \<Rightarrow> w)"

text \<open>
  One step: time passes, or a reconcile runs on whatever the cluster shows then. The creation
  timestamp of the schedule never changes.
\<close>

inductive schedule_step ::
    "cron_oracle \<Rightarrow> (string \<Rightarrow> string option) \<Rightarrow> datetime \<Rightarrow> schedule_world \<Rightarrow> schedule_world \<Rightarrow> bool"
  for cron_next parse_tz created where
  tick: "0 \<le> d \<Longrightarrow> schedule_step cron_next parse_tz created w (w\<lparr>w_now := w_now w + d\<rparr>)"
| reconcile: "in_created inp = Some created \<Longrightarrow>
    schedule_step cron_next parse_tz created w
      (apply_schedule_action patched (schedule_reconcile cron_next parse_tz inp (w_now w) (w_pin w) (w_last w \<noteq> None)) w)"

definition schedule_init :: "datetime \<Rightarrow> schedule_world \<Rightarrow> bool" where
  "schedule_init created w \<longleftrightarrow> created \<le> w_now w \<and> w_pin w = None \<and> w_last w = None \<and> w_fires w = []"

definition cron_advances :: "cron_oracle \<Rightarrow> bool" where
  "cron_advances cron_next \<longleftrightarrow> (\<forall>e tz a s. cron_next e tz a = Some s \<longrightarrow> a < s)"

lemma next_fire_after:
  "cron_advances cron_next \<Longrightarrow> next_fire cron_next cron w seed now tz = Some n \<Longrightarrow> now < n"
  by (fastforce simp: next_fire_def cron_advances_def from_std_def Let_def split: option.splits if_splits)

text \<open>The pin an action writes.\<close>

fun written_pin :: "schedule_action \<Rightarrow> (pinned_slot \<times> datetime) option" where
  "written_pin (SA_Repin p n) = Some (p, n)"
| "written_pin (SA_Skip p n) = Some (p, n)"
| "written_pin (SA_Fire slot victims nx) = nx"
| "written_pin _ = None"

lemma pinned_reconcile_pin:
  assumes "written_pin (pinned_reconcile cron_next parse_tz inp now (slot, pin)) = Some (p, n)"
  shows "\<exists>eff. eff = fst (resolve_pinned_slot parse_tz (sc_cron (in_spec inp)) pin (in_resolution inp)) \<and>
    p = pin_of eff \<and> next_fire cron_next (sc_cron (in_spec inp)) (ef_window eff) (in_seed inp) now (ef_tz eff) = Some n"
proof -
  obtain eff recompute where r: "resolve_pinned_slot parse_tz (sc_cron (in_spec inp)) pin (in_resolution inp)
      = (eff, recompute)" by fastforce
  show ?thesis
    using assms unfolding pinned_reconcile_def
    by (auto simp: r Let_def split: option.splits sum.splits slot_disposition.splits prod.splits if_splits)
qed

lemma unpinned_reconcile_pin:
  assumes "written_pin (unpinned_reconcile cron_next inp now ar) = Some (p, n)"
  shows "\<exists>eff. eff = first_pin (sc_cron (in_spec inp)) (in_resolution inp) \<and>
    p = pin_of eff \<and> next_fire cron_next (sc_cron (in_spec inp)) (ef_window eff) (in_seed inp) now (ef_tz eff) = Some n"
  using assms by (auto simp: unpinned_reconcile_def Let_def split: option.splits sum.splits if_splits)

text \<open>The schedule in effect: of the recorded pin, or of the first one.\<close>

definition schedule_in_effect ::
    "(string \<Rightarrow> string option) \<Rightarrow> schedule_input \<Rightarrow> (datetime \<times> pinned_slot) option \<Rightarrow> effective_schedule" where
  "schedule_in_effect parse_tz inp pin =
     (case pin of
        None \<Rightarrow> first_pin (sc_cron (in_spec inp)) (in_resolution inp)
      | Some (s, p) \<Rightarrow> fst (resolve_pinned_slot parse_tz (sc_cron (in_spec inp)) p (in_resolution inp)))"

lemma reconcile_pin:
  assumes "written_pin (schedule_reconcile cron_next parse_tz inp now pin ar) = Some (p, n)"
  shows "p = pin_of (schedule_in_effect parse_tz inp pin) \<and>
    (\<exists>w tz. next_fire cron_next (sc_cron (in_spec inp)) w (in_seed inp) now tz = Some n)"
proof (cases pin)
  case None
  with assms unpinned_reconcile_pin show ?thesis
    by (fastforce simp: schedule_reconcile_def schedule_in_effect_def)
next
  case (Some sp)
  obtain s q where "sp = (s, q)" by fastforce
  with assms Some pinned_reconcile_pin [of cron_next parse_tz inp now s q p n] show ?thesis
    by (auto simp: schedule_reconcile_def schedule_in_effect_def)
qed

lemma reconcile_pins_ahead:
  assumes "cron_advances cron_next"
    and "written_pin (schedule_reconcile cron_next parse_tz inp now pin ar) = Some (p, n)"
  shows "now < n"
  using reconcile_pin [OF assms(2)] next_fire_after [OF assms(1)] by blast

lemma reconcile_fires:
  assumes "schedule_reconcile cron_next parse_tz inp now pin ar = SA_Fire slot victims nx"
  shows "case pin of None \<Rightarrow> slot = unwrap_or (in_created inp) now | Some (s, p) \<Rightarrow> slot = s \<and> s \<le> now"
proof (cases pin)
  case None
  then show ?thesis
    using assms by (auto simp: schedule_reconcile_def unpinned_reconcile_def Let_def
        split: option.splits sum.splits if_splits)
next
  case (Some sp)
  obtain s p where sp: "sp = (s, p)" by fastforce
  have "pinned_reconcile cron_next parse_tz inp now (s, p) = SA_Fire slot victims nx"
    using assms Some sp by (simp add: schedule_reconcile_def)
  then show ?thesis
    by (rule pinned_reconcile_Fire)
       (simp add: Some sp slot_disposition_def should_fire_now_def split: if_splits)
qed

text \<open>
  The log, newest first: a later fire is never of an earlier slot, and of the same slot only while
  the earlier fire of it went unrecorded.
\<close>

definition fires_in_order :: "fire list \<Rightarrow> bool" where
  "fires_in_order fs \<longleftrightarrow>
     sorted_wrt (\<lambda>later earlier. fi_slot earlier \<le> fi_slot later \<and>
       (fi_recorded earlier \<longrightarrow> fi_slot earlier < fi_slot later)) fs"

definition fires_before :: "datetime \<Rightarrow> fire list \<Rightarrow> bool" where
  "fires_before slot fs \<longleftrightarrow>
     (\<forall>f \<in> set fs. fi_slot f \<le> slot \<and> (fi_recorded f \<longrightarrow> fi_slot f < slot))"

definition schedule_inv :: "datetime \<Rightarrow> schedule_world \<Rightarrow> bool" where
  "schedule_inv created w \<longleftrightarrow>
     created \<le> w_now w \<and>
     (\<forall>f \<in> set (w_fires w). fi_slot f \<le> fi_at f \<and> fi_at f \<le> w_now w) \<and>
     fires_in_order (w_fires w) \<and>
     fires_before (case w_pin w of None \<Rightarrow> created | Some (slot, p) \<Rightarrow> slot) (w_fires w)"

lemma fires_in_order_Cons:
  "fires_in_order (f # fs) \<longleftrightarrow> fires_before (fi_slot f) fs \<and> fires_in_order fs"
  by (auto simp: fires_in_order_def fires_before_def)

lemma schedule_invD:
  assumes "schedule_inv created w"
  shows "created \<le> w_now w" "\<And>f. f \<in> set (w_fires w) \<Longrightarrow> fi_slot f \<le> fi_at f \<and> fi_at f \<le> w_now w"
    "fires_in_order (w_fires w)"
    "fires_before (case w_pin w of None \<Rightarrow> created | Some (slot, p) \<Rightarrow> slot) (w_fires w)"
  using assms by (auto simp: schedule_inv_def)

lemma schedule_inv_pin_ahead:
  assumes "schedule_inv created w" "w_now w < n"
  shows "schedule_inv created (w\<lparr>w_pin := Some (n, p)\<rparr>)"
  using schedule_invD [OF assms(1)] assms(2)
  by (force simp: schedule_inv_def fires_before_def)

text \<open>A fire of the pinned slot, or of the creation instant, whose patch is lost.\<close>

lemma schedule_inv_lost_fire:
  assumes "schedule_inv created w"
    and "case w_pin w of None \<Rightarrow> slot = created | Some (s, p) \<Rightarrow> slot = s \<and> s \<le> w_now w"
  shows "schedule_inv created (w\<lparr>w_fires := \<lparr>fi_slot = slot, fi_at = w_now w, fi_recorded = False\<rparr> # w_fires w\<rparr>)"
  using schedule_invD [OF assms(1)] assms(2)
  by (auto simp: schedule_inv_def fires_before_def fires_in_order_Cons split: option.splits)

text \<open>The same fire recorded, the next pin being ahead of it.\<close>

lemma schedule_inv_recorded_fire:
  assumes "schedule_inv created w"
    and "case w_pin w of None \<Rightarrow> slot = created | Some (s, p) \<Rightarrow> slot = s \<and> s \<le> w_now w"
    and "w_now w < n"
  shows "schedule_inv created (w\<lparr>w_fires := \<lparr>fi_slot = slot, fi_at = w_now w, fi_recorded = True\<rparr> # w_fires w,
     w_pin := Some (n, p), w_last := l\<rparr>)"
proof -
  note inv = schedule_invD [OF assms(1)]
  have slot: "slot \<le> w_now w" "fires_before slot (w_fires w)"
    using inv(1,4) assms(2) by (auto split: option.splits)
  then have "fires_before n (w_fires w)"
    using assms(3) by (fastforce simp: fires_before_def)
  then show ?thesis
    using inv slot assms(3) by (auto simp: schedule_inv_def fires_in_order_Cons) (auto simp: fires_before_def)
qed

lemma schedule_inv_tick:
  "schedule_inv created w \<Longrightarrow> 0 \<le> d \<Longrightarrow> schedule_inv created (w\<lparr>w_now := w_now w + d\<rparr>)"
  by (fastforce simp: schedule_inv_def)

lemma schedule_inv_action:
  assumes inv: "schedule_inv created w"
    and ahead: "\<And>p n. written_pin a = Some (p, n) \<Longrightarrow> w_now w < n"
    and fires: "\<And>slot victims nx. a = SA_Fire slot victims nx \<Longrightarrow>
      (case w_pin w of None \<Rightarrow> slot = created | Some (s, p) \<Rightarrow> slot = s \<and> s \<le> w_now w)"
  shows "schedule_inv created (apply_schedule_action patched a w)"
proof (cases a)
  case (SA_Fire slot victims nx)
  show ?thesis
  proof (cases nx)
    case None
    with SA_Fire show ?thesis
      using schedule_inv_lost_fire [OF inv fires [OF SA_Fire]] by (simp add: apply_schedule_action_def)
  next
    case (Some pn)
    obtain p n where "pn = (p, n)" by fastforce
    with SA_Fire Some show ?thesis
      using schedule_inv_lost_fire [OF inv fires [OF SA_Fire]]
        schedule_inv_recorded_fire [OF inv fires [OF SA_Fire] ahead [of p n], of "Some slot"] ahead [of p n]
      by (cases patched) (simp_all add: apply_schedule_action_def Let_def)
  qed
qed (use inv ahead in \<open>auto simp: apply_schedule_action_def intro: schedule_inv_pin_ahead\<close>)

lemma schedule_inv_step:
  assumes "cron_advances cron_next" and "schedule_inv created w" and "schedule_step cron_next parse_tz created w w'"
  shows "schedule_inv created w'"
  using assms(3)
proof cases
  case (tick d)
  then show ?thesis using assms(2) by (simp add: schedule_inv_tick)
next
  case (reconcile inp patched)
  have "case w_pin w of None \<Rightarrow> slot = created | Some (s, p) \<Rightarrow> slot = s \<and> s \<le> w_now w"
    if "schedule_reconcile cron_next parse_tz inp (w_now w) (w_pin w) (w_last w \<noteq> None) = SA_Fire slot victims nx"
    for slot victims nx
    using reconcile_fires [OF that] reconcile(2) by (auto split: option.splits)
  then show ?thesis
    unfolding reconcile(1)
    by (intro schedule_inv_action assms(2) reconcile_pins_ahead [OF assms(1)])
qed

text \<open>Steps of a schedule whose cron library always answers with a later instant.\<close>

definition advancing_step ::
    "cron_oracle \<Rightarrow> (string \<Rightarrow> string option) \<Rightarrow> datetime \<Rightarrow> schedule_world \<Rightarrow> schedule_world \<Rightarrow> bool" where
  "advancing_step cron_next parse_tz created w w' \<longleftrightarrow>
     cron_advances cron_next \<and> schedule_step cron_next parse_tz created w w'"

interpretation schedule_machine: step_invariant "schedule_init created" "advancing_step cron_next parse_tz created"
    "schedule_inv created" for cron_next parse_tz created
proof unfold_locales
  show "schedule_inv created w" if "schedule_init created w" for w
    using that by (auto simp: schedule_inv_def schedule_init_def fires_in_order_def fires_before_def)
  show "schedule_inv created w'" if "schedule_inv created w" "advancing_step cron_next parse_tz created w w'" for w w'
    using that by (auto simp: advancing_step_def intro: schedule_inv_step)
qed

lemma reachable_advancing:
  assumes "reachable (schedule_init created) (schedule_step cron_next parse_tz created) w"
    and "cron_advances cron_next"
  shows "reachable (schedule_init created) (advancing_step cron_next parse_tz created) w"
  using assms(1) by induction (auto intro: reachable.intros simp: advancing_step_def assms(2))

text \<open>
  C12: over any history of reconciles, edits of the spec, changes of the cluster, lost status patches
  and passing time, a schedule never fires early, and a fire that was recorded is the last one of its
  slot: whatever fires later is of a later slot, and a slot that fires again is one whose earlier fire
  was not recorded. The pinned slot is never behind a recorded fire. It assumes of the cron library
  that the next occurrence it gives is after the instant it is asked for.
\<close>

theorem recorded_slots_fire_once_in_order:
  assumes "cron_advances cron_next"
    and "reachable (schedule_init created) (schedule_step cron_next parse_tz created) w"
  shows "(\<forall>f \<in> set (w_fires w). fi_slot f \<le> fi_at f \<and> fi_at f \<le> w_now w) \<and>
    (\<forall>i j. i < j \<and> j < length (w_fires w) \<longrightarrow>
       fi_slot (w_fires w ! j) \<le> fi_slot (w_fires w ! i) \<and>
       (fi_recorded (w_fires w ! j) \<longrightarrow> fi_slot (w_fires w ! j) < fi_slot (w_fires w ! i))) \<and>
    (\<forall>slot p f. w_pin w = Some (slot, p) \<and> f \<in> set (w_fires w) \<and> fi_recorded f \<longrightarrow> fi_slot f < slot)"
proof -
  have "schedule_inv created w"
    using assms by (blast intro: schedule_machine.inv_reachable reachable_advancing)
  note inv = schedule_invD [OF this]
  show ?thesis
    using inv(2-4) by (auto simp: fires_in_order_def fires_before_def sorted_wrt_iff_nth_less)
qed

lemma nightly_runs_on_create:
  "schedule_reconcile (\<lambda>_ _ a. Some (a + 86400 * nanos)) Some
     (nightly_input\<lparr>in_spec := nightly\<lparr>sc_run_on_create := True\<rparr>, in_created := Some (10 * nanos)\<rparr>)
     (10 * nanos) None False =
   SA_Fire (10 * nanos) []
     (Some (\<lparr>pin_timezone = Some UTC, pin_jitter = None, pin_cron = Some ''0 3 * * *''\<rparr>, 86410 * nanos))"
  by (simp add: schedule_reconcile_def unpinned_reconcile_def nightly_input_def nightly_def run_at_def empty_meta_def
      empty_spec_def first_pin_def should_run_on_create_def nanos_def other_run_check_def slot_blockers_def slot_blocker_def
      next_fire_def ef_window_def jitter_window_def from_std_def pin_of_def runs_target_policy_def)

theorem recorded_slots_fire_once_in_order_witness:
  "\<exists>(w :: schedule_world) p. w_fires w = [\<lparr>fi_slot = 10 * nanos, fi_at = 10 * nanos, fi_recorded = True\<rparr>] \<and>
     w_pin w = Some (86410 * nanos, p) \<and> 10 * nanos < 86410 * nanos"
proof -
  let ?cron = "(\<lambda>_ _ a. Some (a + 86400 * nanos)) :: cron_oracle"
  let ?inp = "nightly_input\<lparr>in_spec := nightly\<lparr>sc_run_on_create := True\<rparr>, in_created := Some (10 * nanos)\<rparr>"
  let ?start = "\<lparr>w_now = 10 * nanos, w_pin = None, w_last = None, w_fires = []\<rparr>"
  let ?a = "schedule_reconcile ?cron Some ?inp (w_now ?start) (w_pin ?start) (w_last ?start \<noteq> None)"
  let ?w = "apply_schedule_action True ?a ?start"
  have adv: "cron_advances ?cron" by (simp add: cron_advances_def nanos_def)
  have "reachable (schedule_init (10 * nanos)) (schedule_step ?cron Some (10 * nanos)) ?start"
    by (rule reachable_init) (simp add: schedule_init_def)
  moreover have "schedule_step ?cron Some (10 * nanos) ?start ?w"
    by (rule schedule_step.reconcile) (simp add: nightly_input_def)
  ultimately have reach: "reachable (schedule_init (10 * nanos)) (schedule_step ?cron Some (10 * nanos)) ?w"
    by (rule reachable_step [of "schedule_init (10 * nanos)" "schedule_step ?cron Some (10 * nanos)"])
  have "w_fires ?w = [\<lparr>fi_slot = 10 * nanos, fi_at = 10 * nanos, fi_recorded = True\<rparr>]"
    "\<exists>p. w_pin ?w = Some (86410 * nanos, p)"
    using nightly_runs_on_create by (simp_all add: apply_schedule_action_def)
  with reach obtain w p where
    r: "reachable (schedule_init (10 * nanos)) (schedule_step ?cron Some (10 * nanos)) w" and
    w: "w_fires w = [\<lparr>fi_slot = 10 * nanos, fi_at = 10 * nanos, fi_recorded = True\<rparr>]"
    "w_pin w = Some (86410 * nanos, p)" by blast
  from recorded_slots_fire_once_in_order [OF adv r] w show ?thesis by - (rule exI [of _ w], rule exI [of _ p], auto)
qed

subsection \<open>Stability of the pin\<close>

text \<open>
  What the same schedule resolves to when the lookup of the repositories' defaults fails: the halves it
  sets itself are still known, the inherited ones are not.
\<close>

definition degraded_of :: "schedule_resolution \<Rightarrow> schedule_resolution \<Rightarrow> bool" where
  "degraded_of r r' \<longleftrightarrow>
     r' = r \<or>
     (\<exists>tz ambiguity jitter own_tz own_jitter. r = Resolved tz ambiguity jitter \<and> r' = Degraded own_tz own_jitter \<and>
        own_tz \<in> {None, Some tz} \<and> own_jitter \<in> {None, jitter})"

lemma pin_of_resolved_stable:
  "\<not> snd (resolve_pinned_slot parse_tz cron
      (pin_of (fst (resolve_pinned_slot parse_tz cron p r))) r')" if "degraded_of r r'"
  using that
  by (auto simp: degraded_of_def resolve_pinned_slot_def pin_needs_recompute_def pin_of_def is_some_and_def
      split: schedule_resolution.splits option.splits)

lemma pin_of_first_pin_stable:
  "\<not> snd (resolve_pinned_slot parse_tz cron (pin_of (first_pin cron r)) r')" if "degraded_of r r'"
  using that
  by (auto simp: degraded_of_def resolve_pinned_slot_def first_pin_def pin_needs_recompute_def pin_of_def is_some_and_def
      split: schedule_resolution.splits option.splits)

lemma pinned_reconcile_Repin:
  "pinned_reconcile cron_next parse_tz inp now (slot, p) = SA_Repin q n \<Longrightarrow>
     snd (resolve_pinned_slot parse_tz (sc_cron (in_spec inp)) p (in_resolution inp))"
  unfolding pinned_reconcile_def
  by (auto simp: Let_def split: option.splits sum.splits slot_disposition.splits prod.splits if_splits)

text \<open>
  A pin settles. After a reconcile that pinned a slot (a first pin, a re-pin, a skip or a fire), a
  later reconcile of a schedule with the same cron and the same effective time zone and jitter does not
  recompute it, and neither does one during which the repositories' defaults cannot be read: a failing
  lookup never moves an established slot.
\<close>

theorem pin_settles:
  assumes "written_pin (schedule_reconcile cron_next parse_tz inp now pin ar) = Some (p, n)"
    and "sc_cron (in_spec inp') = sc_cron (in_spec inp)"
    and "degraded_of (in_resolution inp) (in_resolution inp')"
  shows "schedule_reconcile cron_next' parse_tz inp' now' (Some (n, p)) ar' \<noteq> SA_Repin p' n'"
proof -
  have "p = pin_of (schedule_in_effect parse_tz inp pin)"
    using reconcile_pin [OF assms(1)] by simp
  then have "\<not> snd (resolve_pinned_slot parse_tz (sc_cron (in_spec inp')) p (in_resolution inp'))"
    using pin_of_resolved_stable [OF assms(3)] pin_of_first_pin_stable [OF assms(3)]
    by (auto simp: schedule_in_effect_def assms(2) split: option.splits)
  then show ?thesis
    using pinned_reconcile_Repin by (auto simp: schedule_reconcile_def)
qed

theorem pin_settles_witness:
  "schedule_reconcile (\<lambda>_ _ a. Some (a + 86400 * nanos)) Some
     (nightly_input\<lparr>in_resolution := Degraded None None\<rparr>) (300 * nanos)
     (Some (86610 * nanos, \<lparr>pin_timezone = Some UTC, pin_jitter = None, pin_cron = Some ''0 3 * * *''\<rparr>)) True \<noteq>
   SA_Repin \<lparr>pin_timezone = Some UTC, pin_jitter = None, pin_cron = Some ''0 3 * * *''\<rparr> (86700 * nanos)"
proof -
  have "written_pin (schedule_reconcile (\<lambda>_ _ a. Some (a + 86400 * nanos)) Some nightly_input (210 * nanos)
     (Some (200 * nanos, \<lparr>pin_timezone = Some UTC, pin_jitter = None, pin_cron = None\<rparr>)) False) =
     Some (\<lparr>pin_timezone = Some UTC, pin_jitter = None, pin_cron = Some ''0 3 * * *''\<rparr>, 86610 * nanos)"
    by (simp only: nightly_fires written_pin.simps)
  then show ?thesis
    by (rule pin_settles) (simp_all add: degraded_of_def nightly_input_def)
qed

subsection \<open>Failed history\<close>

definition failed_bucket :: "snapshot list \<Rightarrow> string \<Rightarrow> snapshot list" where
  "failed_bucket snapshots k = filter (\<lambda>s. is_failed_history s \<and> failed_history_key s = k) snapshots"

abbreviation failed_by_key :: "snapshot \<Rightarrow> (string \<times> snapshot) option" where
  "failed_by_key s \<equiv> if is_failed_history s then Some (failed_history_key s, s) else None"

lemma failed_group: "filter_map (in_group failed_by_key k) xs = failed_bucket xs k"
  by (induction xs) (auto simp: failed_bucket_def in_group_def)

text \<open>At least as recent; an unknown time is the oldest.\<close>

definition as_recent :: "datetime option \<Rightarrow> datetime option \<Rightarrow> bool" where
  "as_recent a b \<longleftrightarrow> (case b of None \<Rightarrow> True | Some t \<Rightarrow> (case a of None \<Rightarrow> False | Some t' \<Rightarrow> t \<le> t'))"

lemma reverse_opt_key_le: "reverse_opt_key a \<le> reverse_opt_key b \<longleftrightarrow> as_recent a b"
  by (auto simp: reverse_opt_key_def as_recent_def less_eq_prod_def split: option.splits)

lemma failed_prune_set:
  "set (failed_snapshots_to_prune rfc3339 snapshots limit) =
     {n. \<exists>k. \<exists>s \<in> set (drop limit (sort_key (\<lambda>s. reverse_opt_key (snapshot_terminal_time rfc3339 s))
                                    (failed_bucket snapshots k))). m_name (s_meta s) = Some n}"
    (is "?L = ?R")
proof
  show "?L \<subseteq> ?R"
    unfolding failed_snapshots_to_prune_def
    by (auto simp: in_set_filter_map dest!: bt_group_entry(1) simp: failed_group) blast
  show "?R \<subseteq> ?L"
  proof
    fix n assume "n \<in> ?R"
    then obtain k s where s: "s \<in> set (drop limit (sort_key (\<lambda>s. reverse_opt_key (snapshot_terminal_time rfc3339 s))
        (failed_bucket snapshots k)))" "m_name (s_meta s) = Some n" by auto
    then have "failed_bucket snapshots k \<noteq> []" by auto
    then have "(k, failed_bucket snapshots k) \<in> set (bt_group failed_by_key snapshots [])"
      by (intro map_of_SomeD) (simp add: bt_group_lookup failed_group)
    with s show "n \<in> ?L" by (force simp: failed_snapshots_to_prune_def in_set_filter_map)
  qed
qed

text \<open>
  C29: the failed-history bound. Per repository, the failed, live, artefact-less runs of a schedule are
  split into the \<open>limit\<close> most recent, which stay, and the rest; what is pruned are exactly the names of
  the rest. So a failed run that owns a kopia snapshot is never pruned, and a flood of failures in one
  repository never evicts another's.
\<close>

theorem failed_history_prune_exact:
  "\<exists>kept gone.
     (\<forall>k. mset (kept k) + mset (gone k) = mset (failed_bucket snapshots k) \<and>
        length (kept k) = min limit (length (failed_bucket snapshots k)) \<and>
        (\<forall>x y. x \<in> set (kept k) \<and> y \<in> set (gone k) \<longrightarrow>
           as_recent (snapshot_terminal_time rfc3339 x) (snapshot_terminal_time rfc3339 y))) \<and>
     set (failed_snapshots_to_prune rfc3339 snapshots limit) =
       {n. \<exists>k. \<exists>s \<in> set (gone k). m_name (s_meta s) = Some n}"
proof -
  define rows where "rows k = sort_key (\<lambda>s. reverse_opt_key (snapshot_terminal_time rfc3339 s))
    (failed_bucket snapshots k)" for k
  have "as_recent (snapshot_terminal_time rfc3339 x) (snapshot_terminal_time rfc3339 y)"
    if "x \<in> set (take limit (rows k))" "y \<in> set (drop limit (rows k))" for x y k
  proof -
    have "sorted (map (\<lambda>s. reverse_opt_key (snapshot_terminal_time rfc3339 s))
        (take limit (rows k) @ drop limit (rows k)))" by (simp add: rows_def)
    then show ?thesis
      using that unfolding map_append sorted_append by (simp add: reverse_opt_key_le [symmetric])
  qed
  moreover have "mset (take limit (rows k)) + mset (drop limit (rows k)) = mset (failed_bucket snapshots k)" for k
    by (metis append_take_drop_id mset_append mset_sort rows_def)
  ultimately show ?thesis
    unfolding failed_prune_set rows_def [symmetric]
    by (intro exI [of _ "\<lambda>k. take limit (rows k)"] exI [of _ "\<lambda>k. drop limit (rows k)"])
       (auto simp: rows_def min.commute)
qed

theorem failed_history_prune_exact_witness:
  "\<exists>kept gone. length (kept ('''' :: string)) = 1 \<and>
     mset (kept '''') + mset (gone ('''' :: string)) = {#run_at ''a'' 100 Failed, run_at ''b'' 200 Failed#} \<and>
     set (failed_snapshots_to_prune (\<lambda>_. None) [run_at ''a'' 100 Failed, run_at ''b'' 200 Failed, run_at ''c'' 300 Running] 1) =
       {n. \<exists>k. \<exists>s \<in> set (gone k). m_name (s_meta s) = Some n}"
proof -
  have bucket: "failed_bucket [run_at ''a'' 100 Failed, run_at ''b'' 200 Failed, run_at ''c'' 300 Running] '''' =
      [run_at ''a'' 100 Failed, run_at ''b'' 200 Failed]"
    by (simp add: failed_bucket_def is_failed_history_def failed_history_key_def run_at_def empty_meta_def empty_spec_def)
  from failed_history_prune_exact [of "[run_at ''a'' 100 Failed, run_at ''b'' 200 Failed, run_at ''c'' 300 Running]" 1
      "\<lambda>_. None"]
  obtain kept gone where *:
    "\<And>k. mset (kept k) + mset (gone k) =
        mset (failed_bucket [run_at ''a'' 100 Failed, run_at ''b'' 200 Failed, run_at ''c'' 300 Running] k) \<and>
      length (kept k) = min 1 (length (failed_bucket [run_at ''a'' 100 Failed, run_at ''b'' 200 Failed, run_at ''c'' 300 Running] k))"
    "set (failed_snapshots_to_prune (\<lambda>_. None) [run_at ''a'' 100 Failed, run_at ''b'' 200 Failed, run_at ''c'' 300 Running] 1) =
       {n. \<exists>k. \<exists>s \<in> set (gone k). m_name (s_meta s) = Some n}" by blast
  show ?thesis
    using *(1) [of "''''"] *(2) by (intro exI [of _ kept] exI [of _ gone]) (simp add: bucket)
qed

end
