(* ===== verification/Expansion.thy ===== *)
theory Expansion
  imports Kopiur_Api Naming
begin

text \<open>
  Source expansion (\<open>crates/api/src/expand.rs\<close>): the effective source of a run and the kopia path it
  records, the path a restore reads, the names of fanned-out children, the expansion of selector
  sources into members and the cells a slot mints. Error texts are reduced to the field they name;
  names are ASCII, so clipping on a character boundary is \<open>take\<close>.
\<close>

subsection \<open>Policies and their sources\<close>

datatype source_path_strategy = PvcName | PvcNamespacedName

datatype group_by = VolumeGroupSnapshot | NoGroup

text \<open>A source: the PVC it names, its selector, its NFS export path, its stream's file name.\<close>

record source =
  so_pvc :: "string option"
  so_pvc_selector :: "label_selector option"
  so_nfs :: "string option"
  so_stream :: "string option"
  so_path_override :: "string option"
  so_path_strategy :: "source_path_strategy option"
  so_read_only :: "bool option"

record snapshot_policy =
  po_meta :: object_meta
  po_sources :: "source list"
  po_repository :: "repository_ref option"
  po_repositories :: "repository_ref list"
  po_group_by :: "group_by option"
  po_suspend :: bool
  po_default_deletion_policy :: "deletion_policy option"

definition policy_namespace :: "snapshot_policy \<Rightarrow> string" where
  "policy_namespace p = unwrap_or (m_namespace (po_meta p)) ''''"

record pvc_target =
  pt_namespace :: string
  pt_name :: string

record source_group =
  sg_namespace :: string
  sg_name :: string

record source_ref =
  sr_index :: nat
  sr_target :: pvc_target
  sr_group :: "source_group option"

datatype validation_error = MissingRequiredField | MutuallyExclusive string string | InvalidFieldValue string

datatype source_shape = ShapePvc string | ShapeSelector label_selector | ShapeNfs string | ShapeStream string

definition set_forms :: "source \<Rightarrow> string list" where
  "set_forms s = map fst (filter snd
     [(''pvc'', so_pvc s \<noteq> None), (''pvcSelector'', so_pvc_selector s \<noteq> None),
      (''nfs'', so_nfs s \<noteq> None), (''stream'', so_stream s \<noteq> None)])"

definition source_shape :: "source \<Rightarrow> validation_error + source_shape" where
  "source_shape s =
     (case set_forms s of
        [] \<Rightarrow> Inl MissingRequiredField
      | first # second # _ \<Rightarrow> Inl (MutuallyExclusive first second)
      | [only] \<Rightarrow>
          (case (so_pvc s, so_pvc_selector s, so_nfs s, so_stream s) of
             (Some p, _) \<Rightarrow> Inr (ShapePvc p)
           | (None, Some sel, _) \<Rightarrow> Inr (ShapeSelector sel)
           | (None, None, Some path, _) \<Rightarrow> Inr (ShapeNfs path)
           | (None, None, None, Some f) \<Rightarrow> Inr (ShapeStream f)
           | _ \<Rightarrow> Inl (InvalidFieldValue ''spec.sources[]'')))"

definition source_read_only :: "source \<Rightarrow> bool" where
  "source_read_only s = unwrap_or (so_read_only s) True"

definition is_multi_repo :: "snapshot_policy \<Rightarrow> bool" where
  "is_multi_repo p \<longleftrightarrow> po_repositories p \<noteq> []"

definition repository_refs :: "snapshot_policy \<Rightarrow> repository_ref list" where
  "repository_refs p = (case po_repository p of None \<Rightarrow> [] | Some r \<Rightarrow> [r]) @ po_repositories p"

definition stream_source_path :: "string \<Rightarrow> string" where
  "stream_source_path file_name = ''/stream'' @ ''/'' @ file_name"

subsection \<open>The effective source\<close>

record effective_source =
  es_index :: nat
  es_pvc :: "pvc_target option"
  es_nfs_path :: "string option"
  es_stream :: "string option"
  es_path_override :: "string option"
  es_read_only :: bool

definition kopia_source_path :: "effective_source \<Rightarrow> source_path_strategy \<Rightarrow> string option" where
  "kopia_source_path es strategy =
     (case es_path_override es of
        Some ov \<Rightarrow> Some ov
      | None \<Rightarrow>
          (case es_pvc es of
             Some p \<Rightarrow>
               Some (case strategy of
                  PvcName \<Rightarrow> ''/pvc/'' @ pt_name p
                | PvcNamespacedName \<Rightarrow> ''/pvc/'' @ pt_namespace p @ ''/'' @ pt_name p)
           | None \<Rightarrow>
               (case es_stream es of
                  Some f \<Rightarrow> Some (stream_source_path f)
                | None \<Rightarrow> es_nfs_path es)))"

definition strategy_for :: "source \<Rightarrow> source_path_strategy" where
  "strategy_for s =
     (if so_pvc_selector s \<noteq> None then unwrap_or (so_path_strategy s) PvcName else PvcName)"

definition source_common :: "source \<Rightarrow> nat \<Rightarrow> pvc_target option \<Rightarrow> effective_source" where
  "source_common s index pvc =
     \<lparr>es_index = index, es_pvc = pvc, es_nfs_path = so_nfs s, es_stream = so_stream s,
      es_path_override = so_path_override s, es_read_only = source_read_only s\<rparr>"

definition effective_source_in ::
    "source list \<Rightarrow> string \<Rightarrow> source_ref option \<Rightarrow> validation_error + effective_source" where
  "effective_source_in sources policy_ns pin =
     (let index = unwrap_or (map_option sr_index pin) 0
      in if index < length sources then
           (let s = sources ! index
            in case map_option sr_target pin of
                 Some t \<Rightarrow>
                   (case source_shape s of
                      Inl e \<Rightarrow> Inl e
                    | Inr (ShapeSelector _) \<Rightarrow> Inr (source_common s index (Some t))
                    | Inr (ShapePvc _) \<Rightarrow> Inr (source_common s index (Some t))
                    | Inr (ShapeStream _) \<Rightarrow> Inl (InvalidFieldValue ''spec.source.target.pvc'')
                    | Inr (ShapeNfs _) \<Rightarrow> Inl (InvalidFieldValue ''spec.source.target.pvc''))
               | None \<Rightarrow>
                   Inr (source_common s index
                     (map_option (\<lambda>n. \<lparr>pt_namespace = policy_ns, pt_name = n\<rparr>) (so_pvc s))))
         else Inl (InvalidFieldValue ''spec.source.sourceIndex''))"

definition identity_source_path_in ::
    "source list \<Rightarrow> string \<Rightarrow> source_ref option \<Rightarrow> validation_error + string option" where
  "identity_source_path_in sources policy_ns pin =
     (if sources = [] \<and> pin = None then Inr None
      else case effective_source_in sources policy_ns pin of
             Inl e \<Rightarrow> Inl e
           | Inr eff \<Rightarrow>
               Inr (kopia_source_path eff
                 (if es_index eff < length sources then strategy_for (sources ! es_index eff) else PvcName)))"

definition identity_source_path :: "snapshot_policy \<Rightarrow> source_ref option \<Rightarrow> validation_error + string option" where
  "identity_source_path p pin = identity_source_path_in (po_sources p) (policy_namespace p) pin"

definition source_kopia_path :: "source \<Rightarrow> nat \<Rightarrow> string \<Rightarrow> string option" where
  "source_kopia_path s index policy_ns =
     kopia_source_path
       (source_common s index (map_option (\<lambda>n. \<lparr>pt_namespace = policy_ns, pt_name = n\<rparr>) (so_pvc s)))
       (strategy_for s)"

subsection \<open>The path a restore reads\<close>

datatype restore_source_path =
    RSP_Override string | RSP_PolicySource "string option" | RSP_DerivedFromTarget string

fun rsp_path :: "restore_source_path \<Rightarrow> string option" where
  "rsp_path (RSP_Override p) = Some p"
| "rsp_path (RSP_DerivedFromTarget p) = Some p"
| "rsp_path (RSP_PolicySource p) = p"

datatype restore_shape =
    RS_Pvc string | RS_Selector source_path_strategy "string option" | RS_Nfs | RS_Stream | RS_Invalid

definition restore_shape :: "source \<Rightarrow> restore_shape" where
  "restore_shape s =
     (case source_shape s of
        Inr (ShapeSelector _) \<Rightarrow> RS_Selector (strategy_for s) (so_path_override s)
      | Inr (ShapePvc n) \<Rightarrow> RS_Pvc n
      | Inr (ShapeNfs _) \<Rightarrow> RS_Nfs
      | Inr (ShapeStream _) \<Rightarrow> RS_Stream
      | Inl _ \<Rightarrow> RS_Invalid)"

fun is_selector :: "restore_shape \<Rightarrow> bool" where
  "is_selector (RS_Selector _ _) = True"
| "is_selector _ = False"

text \<open>\<open>Iterator::position\<close>.\<close>

fun position :: "('a \<Rightarrow> bool) \<Rightarrow> 'a list \<Rightarrow> nat option" where
  "position P [] = None"
| "position P (x # xs) = (if P x then Some 0 else map_option Suc (position P xs))"

text \<open>The loop over the selectors: \<open>Inl\<close> when two of them disagree.\<close>

fun agree_loop ::
    "restore_shape list \<Rightarrow> (source_path_strategy \<times> string option) option \<Rightarrow>
     unit + (source_path_strategy \<times> string option) option" where
  "agree_loop [] agreed = Inr agreed"
| "agree_loop (RS_Selector strategy ov # shapes) agreed =
     (case agreed of
        None \<Rightarrow> agree_loop shapes (Some (strategy, ov))
      | Some prev \<Rightarrow> if prev = (strategy, ov) then agree_loop shapes agreed else Inl ())"
| "agree_loop (_ # shapes) agreed = agree_loop shapes agreed"

abbreviation source_path_error :: validation_error where
  "source_path_error \<equiv> InvalidFieldValue ''spec.source.fromPolicy.sourcePath''"

definition restore_source_path ::
    "snapshot_policy \<Rightarrow> string option \<Rightarrow> pvc_target \<Rightarrow> validation_error + restore_source_path" where
  "restore_source_path p ovr tgt =
     (case ovr of Some ov \<Rightarrow> Inr (RSP_Override ov)
      | None \<Rightarrow>
     (let policy_ns = policy_namespace p; shapes = map restore_shape (po_sources p)
      in case (if policy_ns = pt_namespace tgt then position (\<lambda>s. s = RS_Pvc (pt_name tgt)) shapes else None) of
           Some index \<Rightarrow>
             (let s = po_sources p ! index
              in Inr (RSP_PolicySource (kopia_source_path
                   \<lparr>es_index = index, es_pvc = Some tgt, es_nfs_path = None, es_stream = None,
                    es_path_override = so_path_override s, es_read_only = source_read_only s\<rparr> (strategy_for s))))
         | None \<Rightarrow>
             if \<not> list_ex is_selector shapes then
               (case po_sources p of
                  [] \<Rightarrow> Inr (RSP_PolicySource None)
                | first # _ \<Rightarrow>
                    if hd shapes = RS_Invalid then Inl source_path_error
                    else case effective_source_in (po_sources p) policy_ns None of
                           Inl e \<Rightarrow> Inl e
                         | Inr eff \<Rightarrow> Inr (RSP_PolicySource (kopia_source_path eff (strategy_for first))))
             else
               (case agree_loop shapes None of
                  Inl _ \<Rightarrow> Inl source_path_error
                | Inr (Some (strategy, None)) \<Rightarrow>
                    (case kopia_source_path
                        \<lparr>es_index = 0, es_pvc = Some tgt, es_nfs_path = None, es_stream = None,
                         es_path_override = None, es_read_only = True\<rparr> strategy of
                       Some path \<Rightarrow> Inr (RSP_DerivedFromTarget path)
                     | None \<Rightarrow> Inl source_path_error)
                | Inr _ \<Rightarrow> Inl source_path_error)))"

subsection \<open>Label selectors\<close>

definition labels_match_selector :: "string_map \<Rightarrow> label_selector \<Rightarrow> bool" where
  "labels_match_selector labels selector \<longleftrightarrow>
     list_all (\<lambda>(k, v). labels k = Some v) (ls_match_labels selector) \<and>
     list_all (\<lambda>r.
         (let vals = unwrap_or (lr_values r) []; present = labels (lr_key r)
          in if lr_operator r = ''In'' then is_some_and (\<lambda>v. v \<in> set vals) present
             else if lr_operator r = ''NotIn'' then is_none_or (\<lambda>v. v \<notin> set vals) present
             else if lr_operator r = ''Exists'' then present \<noteq> None
             else if lr_operator r = ''DoesNotExist'' then present = None
             else True))
       (ls_match_expressions selector)"

definition label_selector_string :: "label_selector \<Rightarrow> string" where
  "label_selector_string sel =
     join '','' (map (\<lambda>(k, v). k @ ''='' @ v) (ls_match_labels sel) @
       filter_map (\<lambda>r.
           (let vals = join '','' (unwrap_or (lr_values r) [])
            in if lr_operator r = ''In'' then Some (lr_key r @ '' in ('' @ vals @ '')'')
               else if lr_operator r = ''NotIn'' then Some (lr_key r @ '' notin ('' @ vals @ '')'')
               else if lr_operator r = ''Exists'' then Some (lr_key r)
               else if lr_operator r = ''DoesNotExist'' then Some (''!'' @ lr_key r)
               else None))
         (ls_match_expressions sel))"

subsection \<open>Names of fanned-out children\<close>

definition MAX_CHILD_NAME :: nat where "MAX_CHILD_NAME = 63"

definition FANOUT_MARKER :: string where "FANOUT_MARKER = ''-pvc-''"

definition REPO_MARKER :: string where "REPO_MARKER = ''-repo-''"

definition fnv8 :: "string \<Rightarrow> string" where
  "fnv8 input = hex_fixed 8 (unat (fnv1a_bytes FNV_OFFSET (str_bytes input) AND 0xffffffff))"

definition clip :: "string \<Rightarrow> nat \<Rightarrow> string" where
  "clip s keep = take keep s"

definition trim_matches :: "(char \<Rightarrow> bool) \<Rightarrow> string \<Rightarrow> string" where
  "trim_matches p s = trim_end_matches p (dropWhile p s)"

abbreviation dash :: "char \<Rightarrow> bool" where "dash c \<equiv> c = CHR ''-''"

text \<open>\<open>is_ascii_alphanumeric\<close> and \<open>to_ascii_lowercase\<close> on the code point.\<close>

definition dns_char :: "char \<Rightarrow> char" where
  "dns_char c =
     (let n = of_char c :: nat
      in if 48 \<le> n \<and> n \<le> 57 \<or> 97 \<le> n \<and> n \<le> 122 then c
         else if 65 \<le> n \<and> n \<le> 90 then char_of (n + 32)
         else CHR ''-'')"

definition sanitize_dns1123 :: "string \<Rightarrow> string" where
  "sanitize_dns1123 s = map dns_char s"

definition newline :: string where "newline = [CHR 0x0A]"

text \<open>What the tag of a child hashes: the base, then the member, then the repository, one a line.\<close>

definition member_key :: "string \<Rightarrow> string \<Rightarrow> string" where
  "member_key pvc_ns pvc_name = pvc_ns @ ''/'' @ pvc_name"

definition child_slug :: "string \<Rightarrow> string \<Rightarrow> string \<Rightarrow> string" where
  "child_slug policy_ns pvc_ns pvc_name =
     sanitize_dns1123 (if pvc_ns = policy_ns then pvc_name else pvc_ns @ ''-'' @ pvc_name)"

definition member_child_name ::
    "string \<Rightarrow> string \<Rightarrow> string \<Rightarrow> string \<Rightarrow> (string \<times> string) option \<Rightarrow> string" where
  "member_child_name base policy_ns pvc_ns pvc_name repo =
     (let tag = (case repo of
            None \<Rightarrow> fnv8 (base @ newline @ member_key pvc_ns pvc_name)
          | Some (rkey, _) \<Rightarrow> fnv8 (base @ newline @ member_key pvc_ns pvc_name @ newline @ rkey));
          slug = child_slug policy_ns pvc_ns pvc_name
      in case repo of
           None \<Rightarrow>
             (let fixed = length FANOUT_MARKER + 1 + length tag;
                  (base_keep, slug_keep) =
                    (if MAX_CHILD_NAME < fixed + length base + length slug then
                       (let room = MAX_CHILD_NAME - fixed;
                            slug_keep = min (length slug) (room div 3)
                        in (min (length base) (room - slug_keep), slug_keep))
                     else (length base, length slug))
              in trim_matches dash (clip base base_keep @ FANOUT_MARKER @ clip slug slug_keep @ ''-'' @ tag))
         | Some (_, repo_name) \<Rightarrow>
             (let rslug = sanitize_dns1123 repo_name;
                  fixed = length FANOUT_MARKER + length REPO_MARKER + 1 + length tag;
                  (base_keep, pslug_keep, rslug_keep) =
                    (if MAX_CHILD_NAME < fixed + length base + length slug + length rslug then
                       (let room = MAX_CHILD_NAME - fixed;
                            rslug_keep = min (length rslug) (room div 3);
                            pslug_keep = min (length slug) ((room - rslug_keep) div 2)
                        in (min (length base) (room - (rslug_keep + pslug_keep)), pslug_keep, rslug_keep))
                     else (length base, length slug, length rslug))
              in trim_matches dash (clip base base_keep @ FANOUT_MARKER @ clip slug pslug_keep @ REPO_MARKER @
                   clip rslug rslug_keep @ ''-'' @ tag)))"

definition fanout_child_name_for ::
    "string \<Rightarrow> string \<Rightarrow> (string \<times> string) option \<Rightarrow> repository_ref option \<Rightarrow> string" where
  "fanout_child_name_for base policy_ns member repo =
     (let repo = map_option (\<lambda>r. (repo_key r policy_ns, rr_name r)) repo
      in case member of
           Some (pvc_ns, pvc_name) \<Rightarrow> member_child_name base policy_ns pvc_ns pvc_name repo
         | None \<Rightarrow>
             (case repo of
                None \<Rightarrow> trim_matches dash (clip base MAX_CHILD_NAME)
              | Some (rkey, repo_name) \<Rightarrow>
                  (let tag = fnv8 (base @ newline @ rkey);
                       rslug = sanitize_dns1123 repo_name;
                       fixed = length REPO_MARKER + 1 + length tag;
                       (base_keep, rslug_keep) =
                         (if MAX_CHILD_NAME < fixed + length base + length rslug then
                            (let room = MAX_CHILD_NAME - fixed;
                                 rslug_keep = min (length rslug) (room div 3)
                             in (min (length base) (room - rslug_keep), rslug_keep))
                          else (length base, length rslug))
                   in trim_matches dash (clip base base_keep @ REPO_MARKER @ clip rslug rslug_keep @ ''-'' @ tag))))"

definition fanout_child_name :: "string \<Rightarrow> string \<Rightarrow> string \<Rightarrow> string \<Rightarrow> string" where
  "fanout_child_name base policy_ns pvc_ns pvc_name =
     fanout_child_name_for base policy_ns (Some (pvc_ns, pvc_name)) None"

definition group_name :: "string \<Rightarrow> string \<Rightarrow> nat \<Rightarrow> string option \<Rightarrow> string" where
  "group_name base namespace source_index rkey =
     (let tag = fnv8 (namespace @ ''#'' @ dec source_index @ (case rkey of None \<Rightarrow> '''' | Some k \<Rightarrow> ''#'' @ k));
          room = MAX_CHILD_NAME - length ''-grp'' - length tag - 1
      in trim_matches dash (clip base room @ ''-'' @ tag @ ''-grp''))"

definition populate_job_name :: "string \<Rightarrow> string \<Rightarrow> string" where
  "populate_job_name restore consumer_uid =
     (let tag = fnv8 consumer_uid; keep = MAX_CHILD_NAME - (length ''-populate-'' + length tag)
      in trim_matches dash (trim_end_matches dash (clip restore keep) @ ''-populate-'' @ tag))"

definition cache_pvc_name :: "string \<Rightarrow> string \<Rightarrow> repository_ref option \<Rightarrow> string" where
  "cache_pvc_name policy_name policy_ns repo =
     (case repo of
        None \<Rightarrow> ''kopiur-cache-'' @ policy_name
      | Some r \<Rightarrow>
          (let tag = take 6 (fnv8 (repo_key r policy_ns));
               pslug = sanitize_dns1123 policy_name;
               rslug = sanitize_dns1123 (rr_name r);
               fixed = length ''kopiur-cache-'' + 2 + length tag;
               (pslug_keep, rslug_keep) =
                 (if MAX_CHILD_NAME < fixed + length pslug + length rslug then
                    (let room = MAX_CHILD_NAME - fixed;
                         rslug_keep = min (length rslug) (room div 3)
                     in (min (length pslug) (room - rslug_keep), rslug_keep))
                  else (length pslug, length rslug))
           in trim_matches dash (''kopiur-cache-'' @ trim_end_matches dash (clip pslug pslug_keep) @ ''-'' @
                trim_end_matches dash (clip rslug rslug_keep) @ ''-'' @ tag)))"

subsection \<open>Expansion\<close>

record expanded_member =
  em_name :: string
  em_source :: source_ref

type_synonym matched_pvcs = "nat \<rightharpoonup> pvc_target list"

text \<open>The paths produced so far, with the volume and the source that produced each.\<close>

type_synonym path_owners = "string \<rightharpoonup> pvc_target \<times> nat"

definition matched_of :: "matched_pvcs \<Rightarrow> nat \<Rightarrow> pvc_target list" where
  "matched_of matched index = unwrap_or (matched index) []"

text \<open>How many matched volumes of a source lie in a namespace (\<open>per_group\<close>).\<close>

definition group_size :: "matched_pvcs \<Rightarrow> string \<Rightarrow> nat \<Rightarrow> nat" where
  "group_size matched namespace index =
     length (filter (\<lambda>t. pt_namespace t = namespace) (matched_of matched index))"

definition member_of ::
    "snapshot_policy \<Rightarrow> string \<Rightarrow> matched_pvcs \<Rightarrow> nat \<Rightarrow> pvc_target \<Rightarrow> expanded_member" where
  "member_of p base matched index t =
     \<lparr>em_name = fanout_child_name base (policy_namespace p) (pt_namespace t) (pt_name t),
      em_source = \<lparr>sr_index = index, sr_target = t,
        sr_group =
          (if po_group_by p = Some VolumeGroupSnapshot \<and> 1 < group_size matched (pt_namespace t) index
           then Some \<lparr>sg_namespace = pt_namespace t, sg_name = group_name base (pt_namespace t) index None\<rparr>
           else None)\<rparr>\<rparr>"

definition member_path :: "source \<Rightarrow> nat \<Rightarrow> pvc_target \<Rightarrow> string" where
  "member_path s index t =
     unwrap_or (kopia_source_path
       \<lparr>es_index = index, es_pvc = Some t, es_nfs_path = None, es_stream = None,
        es_path_override = so_path_override s, es_read_only = source_read_only s\<rparr> (strategy_for s)) ''/data''"

fun expand_targets ::
    "(pvc_target \<Rightarrow> expanded_member) \<Rightarrow> source \<Rightarrow> nat \<Rightarrow> pvc_target list \<Rightarrow> path_owners \<Rightarrow> expanded_member list \<Rightarrow>
     validation_error + path_owners \<times> expanded_member list" where
  "expand_targets mk s index [] paths members = Inr (paths, members)"
| "expand_targets mk s index (t # ts) paths members =
     (let path = member_path s index t; paths' = paths(path \<mapsto> (t, index))
      in case paths path of
           None \<Rightarrow> expand_targets mk s index ts paths' (members @ [mk t])
         | Some (prev, prev_index) \<Rightarrow>
             if prev = t \<and> prev_index = index then expand_targets mk s index ts paths' members
             else Inl (InvalidFieldValue ''spec.sources[].pvcSelector''))"

fun expand_loop ::
    "(nat \<Rightarrow> pvc_target \<Rightarrow> expanded_member) \<Rightarrow> matched_pvcs \<Rightarrow> nat \<Rightarrow> source list \<Rightarrow> path_owners \<Rightarrow>
     expanded_member list \<Rightarrow> validation_error + expanded_member list" where
  "expand_loop mk matched index [] paths members = Inr members"
| "expand_loop mk matched index (s # ss) paths members =
     (if so_pvc_selector s = None then expand_loop mk matched (Suc index) ss paths members
      else case expand_targets (mk index) s index (matched_of matched index) paths members of
             Inl e \<Rightarrow> Inl e
           | Inr (paths, members) \<Rightarrow> expand_loop mk matched (Suc index) ss paths members)"

definition expand_sources ::
    "snapshot_policy \<Rightarrow> string \<Rightarrow> matched_pvcs \<Rightarrow> validation_error + expanded_member list option" where
  "expand_sources p base matched =
     (if list_all (\<lambda>s. so_pvc_selector s = None) (po_sources p) then Inr None
      else map_sum id Some (expand_loop (member_of p base matched) matched 0 (po_sources p) Map.empty []))"

record mint_cell =
  mc_name :: string
  mc_source :: "source_ref option"
  mc_repository :: "repository_ref option"

definition regroup :: "string \<Rightarrow> string \<Rightarrow> source_ref \<Rightarrow> source_ref" where
  "regroup base rkey s =
     s\<lparr>sr_group := map_option (\<lambda>g. g\<lparr>sg_name := group_name base (sg_namespace g) (sr_index s) (Some rkey)\<rparr>) (sr_group s)\<rparr>"

definition mint_cells :: "snapshot_policy \<Rightarrow> string \<Rightarrow> expanded_member list option \<Rightarrow> mint_cell list" where
  "mint_cells p base members =
     (let policy_ns = policy_namespace p; repos = (if is_multi_repo p then Some (po_repositories p) else None)
      in case (members, repos) of
           (None, None) \<Rightarrow> [\<lparr>mc_name = base, mc_source = None, mc_repository = None\<rparr>]
         | (Some members, None) \<Rightarrow>
             map (\<lambda>m. \<lparr>mc_name = em_name m, mc_source = Some (em_source m), mc_repository = None\<rparr>) members
         | (None, Some repos) \<Rightarrow>
             map (\<lambda>r. \<lparr>mc_name = fanout_child_name_for base policy_ns None (Some r), mc_source = None,
                       mc_repository = Some (normalized_repository_ref r policy_ns)\<rparr>) repos
         | (Some members, Some repos) \<Rightarrow>
             concat (map (\<lambda>m.
                 (let t = sr_target (em_source m)
                  in map (\<lambda>r. \<lparr>mc_name = fanout_child_name_for base policy_ns (Some (pt_namespace t, pt_name t)) (Some r),
                               mc_source = Some (regroup base (repo_key r policy_ns) (em_source m)),
                               mc_repository = Some (normalized_repository_ref r policy_ns)\<rparr>) repos))
               members))"

subsection \<open>What an expansion is\<close>

text \<open>Without its override a PVC source always has a path, so the fallback is never taken.\<close>

lemma member_path_eq:
  "member_path s index t =
     (case so_path_override s of
        Some ov \<Rightarrow> ov
      | None \<Rightarrow>
          (case strategy_for s of
             PvcName \<Rightarrow> ''/pvc/'' @ pt_name t
           | PvcNamespacedName \<Rightarrow> ''/pvc/'' @ pt_namespace t @ ''/'' @ pt_name t))"
  by (simp add: member_path_def kopia_source_path_def split: option.split)

text \<open>
  The members of an expansion, as pairs of source index and volume, and the paths they produce: each
  path of the map is owned by one pair, the members are these pairs without repetition.
\<close>

abbreviation member_pair :: "expanded_member \<Rightarrow> nat \<times> pvc_target" where
  "member_pair m \<equiv> (sr_index (em_source m), sr_target (em_source m))"

definition expansion_inv ::
    "source list \<Rightarrow> path_owners \<Rightarrow> expanded_member list \<Rightarrow> bool" where
  "expansion_inv sources paths members \<longleftrightarrow>
     distinct (map member_pair members) \<and>
     (\<forall>path t i. paths path = Some (t, i) \<longleftrightarrow>
        (i, t) \<in> member_pair ` set members \<and> member_path (sources ! i) i t = path)"

lemma expansion_invD:
  assumes "expansion_inv sources paths members"
  shows "distinct (map member_pair members)"
    "paths path = Some (t, i) \<longleftrightarrow> (i, t) \<in> member_pair ` set members \<and> member_path (sources ! i) i t = path"
  using assms by (auto simp: expansion_inv_def)

lemma expansion_inv_new:
  assumes "expansion_inv sources paths members" "paths (member_path (sources ! i) i t) = None"
  shows "(i, t) \<notin> member_pair ` set members"
  using assms(2) expansion_invD(2) [OF assms(1), of "member_path (sources ! i) i t" t i] by simp

lemma expansion_inv_push:
  assumes "expansion_inv sources paths members" "paths (member_path (sources ! i) i t) = None"
    "member_pair m = (i, t)"
  shows "expansion_inv sources (paths(member_path (sources ! i) i t \<mapsto> (t, i))) (members @ [m])"
proof -
  note new = expansion_inv_new [OF assms(1,2)]
  show ?thesis
    unfolding expansion_inv_def
  proof (intro conjI allI)
    show "distinct (map member_pair (members @ [m]))"
      using new expansion_invD(1) [OF assms(1)] assms(3) by auto
    fix path t' i'
    show "((paths(member_path (sources ! i) i t \<mapsto> (t, i))) path = Some (t', i')) =
        ((i', t') \<in> member_pair ` set (members @ [m]) \<and> member_path (sources ! i') i' t' = path)"
      using assms(2,3) new expansion_invD(2) [OF assms(1), of path t' i']
      by (cases "(i', t') = (i, t)") (auto simp del: image_iff)
  qed
qed

lemma expand_targets_inv:
  assumes "expand_targets mk (sources ! i) i ts paths members = Inr (paths', members')"
    and "expansion_inv sources paths members"
    and "\<And>t. member_pair (mk t) = (i, t)"
  shows "expansion_inv sources paths' members' \<and>
    set members' = set members \<union> mk ` {t \<in> set ts. (i, t) \<notin> member_pair ` set members}"
  using assms(1,2)
proof (induction ts arbitrary: paths members)
  case (Cons t ts)
  let ?path = "member_path (sources ! i) i t"
  show ?case
  proof (cases "paths ?path")
    case None
    have inv: "expansion_inv sources (paths(?path \<mapsto> (t, i))) (members @ [mk t])"
      using Cons.prems(2) None assms(3) by (rule expansion_inv_push)
    have step: "expand_targets mk (sources ! i) i ts (paths(?path \<mapsto> (t, i))) (members @ [mk t]) = Inr (paths', members')"
      using Cons.prems(1) None by (simp add: Let_def)
    note new = expansion_inv_new [OF Cons.prems(2) None]
    from Cons.IH [OF step inv] new assms(3) show ?thesis by auto
  next
    case (Some prev)
    with Cons.prems(1) have same: "prev = (t, i)"
      and step: "expand_targets mk (sources ! i) i ts (paths(?path \<mapsto> (t, i))) members = Inr (paths', members')"
      by (auto simp: Let_def split: prod.splits if_splits)
    have "paths(?path \<mapsto> (t, i)) = paths" using Some same by auto
    moreover have "(i, t) \<in> member_pair ` set members"
      using expansion_invD(2) [OF Cons.prems(2), of ?path t i] Some same by simp
    ultimately show ?thesis using Cons.IH [of paths members] Cons.prems(2) step by auto
  qed
qed simp

text \<open>The path a member records.\<close>

definition path_of :: "source list \<Rightarrow> expanded_member \<Rightarrow> string" where
  "path_of sources m =
     member_path (sources ! sr_index (em_source m)) (sr_index (em_source m)) (sr_target (em_source m))"

lemma expansion_inv_owner:
  assumes "expansion_inv sources paths ms" "m \<in> set ms"
  shows "paths (path_of sources m) = Some (sr_target (em_source m), sr_index (em_source m))"
  unfolding path_of_def
  by (rule expansion_invD(2) [OF assms(1), THEN iffD2]) (use assms(2) in blast)

lemma expansion_inv_inj:
  assumes "expansion_inv sources paths ms"
  shows "inj_on (path_of sources) (set ms)" "distinct ms"
proof -
  have "inj_on member_pair (set ms)" and "distinct ms"
    using expansion_invD(1) [OF assms] by (simp_all add: distinct_map)
  moreover have "member_pair m = member_pair m'"
    if "m \<in> set ms" "m' \<in> set ms" "path_of sources m = path_of sources m'" for m m'
    using expansion_inv_owner [OF assms that(1)] expansion_inv_owner [OF assms that(2)] that(3) by simp
  ultimately show "inj_on (path_of sources) (set ms)" "distinct ms" unfolding inj_on_def by blast+
qed

text \<open>Volume \<open>t\<close> is matched by the selector source at index \<open>i\<close>.\<close>

definition matched_pair :: "source list \<Rightarrow> matched_pvcs \<Rightarrow> nat \<times> pvc_target \<Rightarrow> bool" where
  "matched_pair sources matched = (\<lambda>(i, t).
     i < length sources \<and> so_pvc_selector (sources ! i) \<noteq> None \<and> t \<in> set (matched_of matched i))"

definition paths_collide :: "source list \<Rightarrow> matched_pvcs \<Rightarrow> bool" where
  "paths_collide sources matched \<longleftrightarrow>
     (\<exists>i t j u. matched_pair sources matched (i, t) \<and> matched_pair sources matched (j, u) \<and> (i, t) \<noteq> (j, u) \<and>
        member_path (sources ! i) i t = member_path (sources ! j) j u)"

lemma expand_targets_fails:
  assumes "expand_targets mk (sources ! i) i ts paths members = Inl e"
    and "expansion_inv sources paths members"
    and "\<And>t. member_pair (mk t) = (i, t)"
  shows "\<exists>t \<in> set ts. \<exists>j u. (j, u) \<noteq> (i, t) \<and> member_path (sources ! j) j u = member_path (sources ! i) i t \<and>
    ((j, u) \<in> member_pair ` set members \<or> j = i \<and> u \<in> set ts)"
  using assms(1,2)
proof (induction ts arbitrary: paths members)
  case (Cons t ts)
  let ?path = "member_path (sources ! i) i t"
  show ?case
  proof (cases "paths ?path")
    case None
    have inv: "expansion_inv sources (paths(?path \<mapsto> (t, i))) (members @ [mk t])"
      using Cons.prems(2) None assms(3) by (rule expansion_inv_push)
    have step: "expand_targets mk (sources ! i) i ts (paths(?path \<mapsto> (t, i))) (members @ [mk t]) = Inl e"
      using Cons.prems(1) None by (simp add: Let_def)
    from Cons.IH [OF step inv] assms(3) show ?thesis by (auto simp del: image_iff) blast+
  next
    case (Some prev)
    obtain u j where prev: "prev = (u, j)" by fastforce
    have own: "(j, u) \<in> member_pair ` set members" "member_path (sources ! j) j u = ?path"
      using expansion_invD(2) [OF Cons.prems(2), of ?path u j] Some prev by auto
    show ?thesis
    proof (cases "(j, u) = (i, t)")
      case True
      then have "paths(?path \<mapsto> (t, i)) = paths" using Some prev by auto
      moreover have "expand_targets mk (sources ! i) i ts (paths(?path \<mapsto> (t, i))) members = Inl e"
        using Cons.prems(1) Some prev True by (simp add: Let_def)
      ultimately show ?thesis using Cons.IH [of paths members] Cons.prems(2) by (auto simp del: image_iff) blast+
    next
      case False
      with own show ?thesis by (intro bexI [of _ t] exI [of _ j] exI [of _ u]) auto
    qed
  qed
qed simp

lemma expand_loop_spec:
  assumes "expansion_inv sources paths members"
    and "member_pair ` set members = {(j, t). j < i \<and> matched_pair sources matched (j, t)}"
    and "\<And>j t. member_pair (mk j t) = (j, t)" and "i \<le> length sources"
  shows "case expand_loop mk matched i (drop i sources) paths members of
      Inl e \<Rightarrow> paths_collide sources matched
    | Inr ms \<Rightarrow> (\<exists>paths'. expansion_inv sources paths' ms) \<and>
        member_pair ` set ms = {jt. matched_pair sources matched jt}"
  using assms(1,2,4)
proof (induction "length sources - i" arbitrary: i paths members)
  case 0
  then have "i = length sources" by simp
  moreover from this have "member_pair ` set members = {jt. matched_pair sources matched jt}"
    using 0(3) by (auto simp: matched_pair_def)
  ultimately show ?case using 0(2) by auto
next
  case (Suc n)
  then have i: "i < length sources" and n: "n = length sources - Suc i" by auto
  have drop: "drop i sources = sources ! i # drop (Suc i) sources" using i by (simp add: Cons_nth_drop_Suc)
  show ?case
  proof (cases "so_pvc_selector (sources ! i) = None")
    case True
    have "{(j, t). j < Suc i \<and> matched_pair sources matched (j, t)} =
        {(j, t). j < i \<and> matched_pair sources matched (j, t)}"
      using True by (auto simp: matched_pair_def less_Suc_eq)
    then show ?thesis using Suc.hyps(1) [OF n Suc.prems(1)] Suc.prems(2) i True by (simp add: drop)
  next
    case False
    show ?thesis
    proof (cases "expand_targets (mk i) (sources ! i) i (matched_of matched i) paths members")
      case (Inl e)
      from expand_targets_fails [OF Inl Suc.prems(1) assms(3)] obtain t j u where
        t: "t \<in> set (matched_of matched i)" and ne: "(j, u) \<noteq> (i, t)"
        and path: "member_path (sources ! j) j u = member_path (sources ! i) i t"
        and ju: "(j, u) \<in> member_pair ` set members \<or> j = i \<and> u \<in> set (matched_of matched i)" by blast
      have "matched_pair sources matched (i, t)" "matched_pair sources matched (j, u)"
        using t ju False i Suc.prems(2) by (auto simp: matched_pair_def simp del: image_iff)
      with ne path have "paths_collide sources matched" unfolding paths_collide_def by metis
      with Inl False show ?thesis by (auto simp: drop)
    next
      case (Inr r)
      obtain paths' members' where r: "r = (paths', members')" by fastforce
      from expand_targets_inv [OF Inr [unfolded r] Suc.prems(1) assms(3)]
      have inv: "expansion_inv sources paths' members'"
        and set: "set members' = set members \<union> mk i ` {t \<in> set (matched_of matched i). (i, t) \<notin> member_pair ` set members}"
        by auto
      have "member_pair ` set members' = member_pair ` set members \<union> {(j, t). j = i \<and> t \<in> set (matched_of matched i)}"
        unfolding set using assms(3) by (auto simp: image_Un image_image image_iff)
      also have "\<dots> = {(j, t). j < Suc i \<and> matched_pair sources matched (j, t)}"
        unfolding Suc.prems(2) using i False by (auto simp: matched_pair_def less_Suc_eq)
      finally show ?thesis using Suc.hyps(1) [OF n inv] i False Inr r by (auto simp: drop)
    qed
  qed
qed

text \<open>Every source sets exactly one of its forms, as admission requires.\<close>

definition sources_wf :: "source list \<Rightarrow> bool" where
  "sources_wf sources \<longleftrightarrow> list_all (\<lambda>s. length (set_forms s) = 1) sources"

lemma selector_shape:
  assumes "length (set_forms s) = 1" "so_pvc_selector s = Some sel"
  shows "source_shape s = Inr (ShapeSelector sel)" "so_pvc s = None" "so_nfs s = None" "so_stream s = None"
  using assms
  by (cases "so_pvc s"; cases "so_nfs s"; cases "so_stream s"; simp add: set_forms_def source_shape_def)+

lemma pinned_identity_path:
  assumes "sources_wf (po_sources p)" "matched_pair (po_sources p) matched (i, t)"
    "sr_index pin = i" "sr_target pin = t"
  shows "identity_source_path p (Some pin) = Inr (Some (member_path (po_sources p ! i) i t))"
proof -
  let ?s = "po_sources p ! i"
  from assms(2) obtain sel where i: "i < length (po_sources p)" and sel: "so_pvc_selector ?s = Some sel"
    by (auto simp: matched_pair_def)
  have "length (set_forms ?s) = 1" using assms(1) i by (simp add: sources_wf_def list_all_length)
  note shape = selector_shape [OF this sel]
  show ?thesis
    using i assms(3,4) shape
    by (auto simp: identity_source_path_def identity_source_path_in_def effective_source_in_def Let_def
        source_common_def member_path_eq kopia_source_path_def split: option.splits)
qed

lemma expand_sources_spec:
  assumes "sources_wf (po_sources p)"
  shows "case expand_sources p base matched of
      Inl e \<Rightarrow> paths_collide (po_sources p) matched
    | Inr None \<Rightarrow> (\<nexists>jt. matched_pair (po_sources p) matched jt)
    | Inr (Some ms) \<Rightarrow>
        distinct (map member_pair ms) \<and>
        member_pair ` set ms = {jt. matched_pair (po_sources p) matched jt} \<and>
        distinct (map (\<lambda>m. identity_source_path p (Some (em_source m))) ms) \<and>
        (\<forall>m \<in> set ms. \<exists>path. identity_source_path p (Some (em_source m)) = Inr (Some path))"
proof (cases "list_all (\<lambda>s. so_pvc_selector s = None) (po_sources p)")
  case True
  then show ?thesis by (auto simp: expand_sources_def matched_pair_def list_all_length)
next
  case False
  let ?loop = "expand_loop (member_of p base matched) matched 0 (po_sources p) Map.empty []"
  have expand: "expand_sources p base matched = map_sum id Some ?loop"
    using False unfolding expand_sources_def by (simp only: if_False)
  have "case expand_loop (member_of p base matched) matched 0 (drop 0 (po_sources p)) Map.empty [] of
      Inl e \<Rightarrow> paths_collide (po_sources p) matched
    | Inr ms \<Rightarrow> (\<exists>paths'. expansion_inv (po_sources p) paths' ms) \<and>
        member_pair ` set ms = {jt. matched_pair (po_sources p) matched jt}"
    by (rule expand_loop_spec) (auto simp: expansion_inv_def member_of_def)
  then have spec: "case ?loop of
      Inl e \<Rightarrow> paths_collide (po_sources p) matched
    | Inr ms \<Rightarrow> (\<exists>paths'. expansion_inv (po_sources p) paths' ms) \<and>
        member_pair ` set ms = {jt. matched_pair (po_sources p) matched jt}" by simp
  show ?thesis
  proof (cases ?loop)
    case (Inl e)
    with spec expand show ?thesis by simp
  next
    case (Inr ms)
    with spec obtain paths where inv: "expansion_inv (po_sources p) paths ms"
      and pairs: "member_pair ` set ms = {jt. matched_pair (po_sources p) matched jt}" by auto
    have ident: "identity_source_path p (Some (em_source m)) = Inr (Some (path_of (po_sources p) m))" if "m \<in> set ms" for m
    proof -
      have "matched_pair (po_sources p) matched (member_pair m)" using that pairs by blast
      then show ?thesis unfolding path_of_def by (rule pinned_identity_path [OF assms]) simp_all
    qed
    have "inj_on (\<lambda>m. identity_source_path p (Some (em_source m))) (set ms)"
      using expansion_inv_inj(1) [OF inv] unfolding inj_on_def by (simp add: ident)
    then have "distinct (map (\<lambda>m. identity_source_path p (Some (em_source m))) ms)"
      using expansion_inv_inj(2) [OF inv] by (simp add: distinct_map)
    then show ?thesis
      using pairs ident expansion_invD(1) [OF inv] Inr expand by simp
  qed
qed

lemma expanded_members:
  assumes "sources_wf (po_sources p)" "expand_sources p base matched = Inr (Some ms)"
  shows "member_pair ` set ms = {jt. matched_pair (po_sources p) matched jt}"
  using expand_sources_spec [OF assms(1), where base = base and matched = matched] assms(2) by simp


subsection \<open>A restore reads the path its backup wrote\<close>

lemma position_None: "position P xs = None \<longleftrightarrow> (\<forall>x \<in> set xs. \<not> P x)"
  by (induction xs) auto

text \<open>Whether every selector has this strategy and override.\<close>

definition all_selectors :: "source_path_strategy \<times> string option \<Rightarrow> restore_shape list \<Rightarrow> bool" where
  "all_selectors so shapes \<longleftrightarrow> (\<forall>st ov. RS_Selector st ov \<in> set shapes \<longrightarrow> (st, ov) = so)"

lemma agree_loop_Some:
  "agree_loop shapes (Some so) = (if all_selectors so shapes then Inr (Some so) else Inl ())"
  by (induction shapes "Some so" rule: agree_loop.induct) (auto simp: all_selectors_def)

lemma agree_loop_None:
  "list_ex is_selector shapes \<Longrightarrow>
     agree_loop shapes None = Inr (Some so) \<longleftrightarrow> all_selectors so shapes"
proof (induction shapes)
  case (Cons x shapes)
  then show ?case by (cases x) (auto simp: agree_loop_Some all_selectors_def)
qed simp

lemma agree_loop_Some_result:
  "agree_loop shapes agreed = Inr r \<Longrightarrow> list_ex is_selector shapes \<or> agreed \<noteq> None \<Longrightarrow> \<exists>so. r = Some so"
proof (induction shapes arbitrary: agreed)
  case (Cons x shapes)
  then show ?case by (cases x) (auto split: option.splits if_splits)
qed auto

text \<open>The selectors give each member a path of its own: they share a strategy and none overrides it.\<close>

definition per_pvc_paths :: "source_path_strategy \<Rightarrow> source list \<Rightarrow> bool" where
  "per_pvc_paths st sources \<longleftrightarrow>
     (\<forall>s \<in> set sources. so_pvc_selector s \<noteq> None \<longrightarrow> strategy_for s = st \<and> so_path_override s = None)"

definition named_by_plain_source :: "snapshot_policy \<Rightarrow> pvc_target \<Rightarrow> bool" where
  "named_by_plain_source p t \<longleftrightarrow>
     policy_namespace p = pt_namespace t \<and> (\<exists>s \<in> set (po_sources p). so_pvc s = Some (pt_name t))"

lemma restore_shape_selector:
  assumes "length (set_forms s) = 1"
  shows "restore_shape s = RS_Selector st ov \<longleftrightarrow>
    so_pvc_selector s \<noteq> None \<and> strategy_for s = st \<and> so_path_override s = ov"
  using assms
  by (cases "so_pvc s"; cases "so_pvc_selector s"; cases "so_nfs s"; cases "so_stream s")
     (auto simp: restore_shape_def source_shape_def set_forms_def)

lemma restore_shape_pvc:
  assumes "length (set_forms s) = 1"
  shows "restore_shape s = RS_Pvc n \<longleftrightarrow> so_pvc s = Some n"
  using assms
  by (cases "so_pvc s"; cases "so_pvc_selector s"; cases "so_nfs s"; cases "so_stream s")
     (auto simp: restore_shape_def source_shape_def set_forms_def)

lemma is_selector_iff: "is_selector x \<longleftrightarrow> (\<exists>st ov. x = RS_Selector st ov)"
  by (cases x) auto

lemma all_selectors_sources:
  assumes "sources_wf sources"
  shows "all_selectors (st, ov) (map restore_shape sources) \<longleftrightarrow>
    (\<forall>s \<in> set sources. so_pvc_selector s \<noteq> None \<longrightarrow> strategy_for s = st \<and> so_path_override s = ov)"
proof -
  have "RS_Selector st' ov' \<in> set (map restore_shape sources) \<longleftrightarrow>
      (\<exists>s \<in> set sources. so_pvc_selector s \<noteq> None \<and> strategy_for s = st' \<and> so_path_override s = ov')" for st' ov'
    using assms restore_shape_selector unfolding sources_wf_def list_all_iff set_map image_iff
    by (metis (no_types, lifting))
  then show ?thesis unfolding all_selectors_def prod.inject by (simp only:) metis
qed

lemma restore_source_path_selector:
  assumes wf: "sources_wf (po_sources p)" and plain: "\<not> named_by_plain_source p t"
    and sel: "\<exists>s \<in> set (po_sources p). so_pvc_selector s \<noteq> None"
  shows "restore_source_path p None t =
    (case agree_loop (map restore_shape (po_sources p)) None of
       Inl _ \<Rightarrow> Inl source_path_error
     | Inr (Some (strategy, None)) \<Rightarrow>
         Inr (RSP_DerivedFromTarget (case strategy of
            PvcName \<Rightarrow> ''/pvc/'' @ pt_name t
          | PvcNamespacedName \<Rightarrow> ''/pvc/'' @ pt_namespace t @ ''/'' @ pt_name t))
     | Inr _ \<Rightarrow> Inl source_path_error)"
proof -
  have "position (\<lambda>s. s = RS_Pvc (pt_name t)) (map restore_shape (po_sources p)) = None"
    if "policy_namespace p = pt_namespace t"
    using that plain wf restore_shape_pvc
    by (auto simp: position_None named_by_plain_source_def sources_wf_def list_all_iff)
  moreover have "list_ex is_selector (map restore_shape (po_sources p))"
    using sel wf restore_shape_selector
    by (fastforce simp: list_ex_iff is_selector_iff sources_wf_def list_all_iff)
  ultimately show ?thesis
    by (auto simp: restore_source_path_def Let_def kopia_source_path_def split: sum.splits option.splits prod.splits)
qed


text \<open>Two namespaces' volumes of one name, told apart by their namespaced paths.\<close>

definition selector_ex :: source where
  "selector_ex = \<lparr>so_pvc = None, so_pvc_selector = Some \<lparr>ls_match_labels = [], ls_match_expressions = []\<rparr>,
     so_nfs = None, so_stream = None, so_path_override = None, so_path_strategy = Some PvcNamespacedName,
     so_read_only = None\<rparr>"

definition policy_ex :: "source list \<Rightarrow> snapshot_policy" where
  "policy_ex sources = \<lparr>po_meta = empty_meta\<lparr>m_name := Some ''app'', m_namespace := Some ''db''\<rparr>, po_sources = sources,
     po_repository = None, po_repositories = [], po_group_by = None, po_suspend = False,
     po_default_deletion_policy = None\<rparr>"

definition data_in :: "string \<Rightarrow> pvc_target" where
  "data_in ns = \<lparr>pt_namespace = ns, pt_name = ''data''\<rparr>"

definition matched_ex :: matched_pvcs where
  "matched_ex = [0 \<mapsto> [data_in ''db'', data_in ''web'']]"

definition expanded_ex :: "string \<Rightarrow> expanded_member" where
  "expanded_ex ns = member_of (policy_ex [selector_ex]) ''run'' matched_ex 0 (data_in ns)"

lemma data_in_neq: "data_in ''db'' \<noteq> data_in ''web''"
  by (simp add: data_in_def)

lemma expand_ex:
  "expand_sources (policy_ex [selector_ex]) ''run'' matched_ex = Inr (Some [expanded_ex ''db'', expanded_ex ''web''])"
  by (simp add: expand_sources_def policy_ex_def selector_ex_def matched_ex_def matched_of_def member_path_eq
      strategy_for_def data_in_def expanded_ex_def Let_def)

lemma sources_wf_ex: "sources_wf (po_sources (policy_ex [selector_ex]))"
  by (simp add: sources_wf_def policy_ex_def selector_ex_def set_forms_def)



text \<open>
  The condition on plain sources is needed: a plain source that names a volume the selector also
  matches decides the restored path, while only the selector's member is ever backed up.
\<close>

definition plain_ex :: source where
  "plain_ex = \<lparr>so_pvc = Some ''data'', so_pvc_selector = None, so_nfs = None, so_stream = None,
     so_path_override = None, so_path_strategy = None, so_read_only = None\<rparr>"

theorem plain_source_shadows_the_selected_path:
  "expand_sources (policy_ex [plain_ex, selector_ex]) ''run'' [1 \<mapsto> [data_in ''db'']] =
     Inr (Some [member_of (policy_ex [plain_ex, selector_ex]) ''run'' [1 \<mapsto> [data_in ''db'']] 1 (data_in ''db'')]) \<and>
   identity_source_path (policy_ex [plain_ex, selector_ex])
     (Some (em_source (member_of (policy_ex [plain_ex, selector_ex]) ''run'' [1 \<mapsto> [data_in ''db'']] 1 (data_in ''db'')))) =
     Inr (Some ''/pvc/db/data'') \<and>
   restore_source_path (policy_ex [plain_ex, selector_ex]) None (data_in ''db'') =
     Inr (RSP_PolicySource (Some ''/pvc/data''))"
  by (simp add: expand_sources_def policy_ex_def plain_ex_def selector_ex_def matched_of_def member_path_eq
      strategy_for_def data_in_def member_of_def Let_def identity_source_path_def identity_source_path_in_def
      effective_source_in_def source_common_def kopia_source_path_def source_shape_def set_forms_def
      restore_source_path_def restore_shape_def policy_namespace_def empty_meta_def)

subsection \<open>Names of a slot's children\<close>

lemma expand_targets_mk:
  "expand_targets mk s i ts paths members = Inr (paths', members') \<Longrightarrow> set members' \<subseteq> set members \<union> range mk"
  by (induction ts arbitrary: paths members) (fastforce simp: Let_def split: option.splits prod.splits if_splits)+

lemma expand_loop_mk:
  "expand_loop mk matched i ss paths members = Inr ms \<Longrightarrow> m \<in> set ms \<Longrightarrow> m \<in> set members \<or> (\<exists>j t. m = mk j t)"
proof (induction ss arbitrary: i paths members)
  case (Cons s ss)
  show ?case
  proof (cases "so_pvc_selector s = None")
    case False
    then obtain paths' members' where
      t: "expand_targets (mk i) s i (matched_of matched i) paths members = Inr (paths', members')" and
      l: "expand_loop mk matched (Suc i) ss paths' members' = Inr ms"
      using Cons.prems(1) by (auto split: sum.splits)
    from Cons.IH [OF l Cons.prems(2)] expand_targets_mk [OF t] show ?thesis by blast
  qed (use Cons in auto)
qed simp

lemma expanded_member_name:
  assumes "expand_sources p base matched = Inr (Some ms)" "m \<in> set ms"
  shows "em_name m = fanout_child_name base (policy_namespace p)
    (pt_namespace (sr_target (em_source m))) (pt_name (sr_target (em_source m)))"
proof -
  have "expand_loop (member_of p base matched) matched 0 (po_sources p) Map.empty [] = Inr ms"
    using assms(1) unfolding expand_sources_def
    by (cases "expand_loop (member_of p base matched) matched 0 (po_sources p) Map.empty []") (auto split: if_splits)
  from expand_loop_mk [OF this assms(2)] show ?thesis by (auto simp: member_of_def)
qed

text \<open>What the tag of a cell's name hashes.\<close>

definition cell_key :: "string \<Rightarrow> string \<Rightarrow> (string \<times> string) option \<Rightarrow> repository_ref option \<Rightarrow> string" where
  "cell_key base policy_ns member repo =
     base @ (case member of None \<Rightarrow> [] | Some (ns, n) \<Rightarrow> newline @ member_key ns n) @
       (case repo of None \<Rightarrow> [] | Some r \<Rightarrow> newline @ repo_key r policy_ns)"

lemma length_fnv8 [simp]: "length (fnv8 s) = 8"
  by (simp add: fnv8_def)

lemma digit_char_not_dash: "d < 16 \<Longrightarrow> digit_char d \<noteq> CHR ''-''"
proof -
  assume "d < 16"
  then have "of_char (digit_char d) \<noteq> (45 :: nat)" by (simp add: digit_char_def)
  then show ?thesis by auto
qed

lemma hex_fixed_not_dash: "CHR ''-'' \<notin> set (hex_fixed k n)"
  by (induction k arbitrary: n) (simp_all add: digit_char_not_dash [THEN not_sym])

lemma trim_matches_tag:
  assumes "tag \<noteq> []" "CHR ''-'' \<notin> set tag"
  shows "\<exists>front. trim_matches dash (pre @ tag) = front @ tag \<and> length front \<le> length pre \<and>
    \<not> dash (hd (front @ tag))"
proof -
  let ?front = "dropWhile dash pre"
  have "dropWhile dash tag = tag" using assms by (cases tag) auto
  then have "dropWhile dash (pre @ tag) = ?front @ tag"
    by (cases "\<forall>c \<in> set pre. dash c") (auto simp: dropWhile_append)
  moreover have "dropWhile dash (rev (?front @ tag)) = rev (?front @ tag)"
    using assms by (cases "rev tag") auto
  ultimately have "trim_matches dash (pre @ tag) = ?front @ tag"
    by (simp add: trim_matches_def trim_end_matches_def)
  moreover have "\<not> dash (hd (?front @ tag))"
  proof (cases "?front = []")
    case True
    then show ?thesis using assms by (metis append_Nil hd_in_set)
  next
    case False
    then show ?thesis using hd_dropWhile [of dash pre] by simp
  qed
  ultimately show ?thesis using length_dropWhile_le by blast
qed

text \<open>A generated name: bounded, beginning and ending legally, ended by the tag of its key.\<close>

definition tagged_name :: "string \<Rightarrow> string \<Rightarrow> bool" where
  "tagged_name key n \<longleftrightarrow>
     length n \<le> MAX_CHILD_NAME \<and> \<not> dash (hd n) \<and> \<not> dash (last n) \<and> (\<exists>front. n = front @ fnv8 key)"

lemma tagged_nameI:
  assumes "length pre \<le> 55"
  shows "tagged_name key (trim_matches dash (pre @ fnv8 key))"
proof -
  have tag: "fnv8 key \<noteq> []" "CHR ''-'' \<notin> set (fnv8 key)"
    using length_fnv8 [of key] by (auto simp only: fnv8_def hex_fixed_not_dash) auto
  then have "\<not> dash (last (fnv8 key))" using last_in_set by metis
  with trim_matches_tag [OF tag, of pre] assms tag(1) show ?thesis
    by (auto simp: tagged_name_def MAX_CHILD_NAME_def)
qed

lemma tagged_name_tag: "tagged_name key n \<Longrightarrow> tagged_name key' n \<Longrightarrow> fnv8 key = fnv8 key'"
  by (auto simp: tagged_name_def)

lemma length_clip: "length (clip s k) = min (length s) k"
  by (simp add: clip_def min.commute)

lemmas name_shape_defs = clip_def FANOUT_MARKER_def REPO_MARKER_def MAX_CHILD_NAME_def

lemma keep_budget:
  "x \<le> 14 \<Longrightarrow> min b (43 - (x + min s ((43 - x) div 2))) + (min s ((43 - x) div 2) + x) \<le> (43 :: nat)"
  by linarith

lemma member_name_tagged:
  "tagged_name (cell_key base policy_ns (Some (ns, n)) repo)
     (member_child_name base policy_ns ns n (map_option (\<lambda>r. (repo_key r policy_ns, rr_name r)) repo))"
proof (cases repo)
  case None
  then have "member_child_name base policy_ns ns n (map_option (\<lambda>r. (repo_key r policy_ns, rr_name r)) repo) =
    trim_matches dash ((let slug = child_slug policy_ns ns n;
        long = 63 < 14 + length base + length slug; slug_keep = min (length slug) 16
      in if long then take (min (length base) (49 - slug_keep)) base @ ''-pvc-'' @ take slug_keep slug @ ''-''
         else base @ ''-pvc-'' @ slug @ ''-'') @ fnv8 (cell_key base policy_ns (Some (ns, n)) repo))"
    by (simp add: member_child_name_def cell_key_def Let_def name_shape_defs)
  then show ?thesis by (simp only:, intro tagged_nameI) (auto simp: Let_def)
next
  case (Some r)
  then have "member_child_name base policy_ns ns n (map_option (\<lambda>r. (repo_key r policy_ns, rr_name r)) repo) =
    trim_matches dash ((let slug = child_slug policy_ns ns n; rslug = sanitize_dns1123 (rr_name r);
        long = 63 < 20 + length base + length slug + length rslug; rslug_keep = min (length rslug) 14;
        pslug_keep = min (length slug) ((43 - rslug_keep) div 2)
      in if long
         then take (min (length base) (43 - (rslug_keep + pslug_keep))) base @ ''-pvc-'' @ take pslug_keep slug @
                ''-repo-'' @ take rslug_keep rslug @ ''-''
         else base @ ''-pvc-'' @ slug @ ''-repo-'' @ rslug @ ''-'') @
      fnv8 (cell_key base policy_ns (Some (ns, n)) repo))"
    by (simp add: member_child_name_def cell_key_def Let_def name_shape_defs)
  then show ?thesis by (simp only:, intro tagged_nameI) (auto simp: Let_def keep_budget)
qed

lemma fanout_name_tagged:
  assumes "member \<noteq> None \<or> repo \<noteq> None"
  shows "tagged_name (cell_key base policy_ns member repo) (fanout_child_name_for base policy_ns member repo)"
proof (cases member)
  case (Some m)
  obtain ns n where "m = (ns, n)" by fastforce
  with Some show ?thesis
    using member_name_tagged [of base policy_ns ns n repo] by (simp add: fanout_child_name_for_def Let_def)
next
  case None
  then obtain r where r: "repo = Some r" using assms by auto
  have "fanout_child_name_for base policy_ns member repo =
    trim_matches dash ((let rslug = sanitize_dns1123 (rr_name r);
        long = 63 < 15 + length base + length rslug; rslug_keep = min (length rslug) 16
      in if long then take (min (length base) (48 - rslug_keep)) base @ ''-repo-'' @ take rslug_keep rslug @ ''-''
         else base @ ''-repo-'' @ rslug @ ''-'') @ fnv8 (cell_key base policy_ns member repo))"
    using None r by (simp add: fanout_child_name_for_def cell_key_def Let_def name_shape_defs)
  then show ?thesis by (simp only:, intro tagged_nameI) (auto simp: Let_def)
qed

lemma sep_join_inj:
  assumes "sep \<notin> set a" "sep \<notin> set c" "a @ sep # b = c @ sep # d"
  shows "a = c \<and> b = d"
  using assms
proof (induction a arbitrary: c)
  case Nil
  then show ?case by (cases c) auto
next
  case (Cons x a)
  then show ?case by (cases c) auto
qed

text \<open>Kubernetes names: no slash and no line break.\<close>

definition k8s_name :: "string \<Rightarrow> bool" where
  "k8s_name s \<longleftrightarrow> CHR ''/'' \<notin> set s \<and> CHR 0x0A \<notin> set s"

lemma member_key_inj:
  assumes "k8s_name ns" "k8s_name ns'" "member_key ns n = member_key ns' n'"
  shows "ns = ns' \<and> n = n'"
  using assms sep_join_inj [of "CHR ''/''" ns ns' n n'] by (simp add: member_key_def k8s_name_def)

lemma cell_key_inj:
  assumes "cell_key base policy_ns member repo = cell_key base policy_ns member' repo'"
    and "member = None \<longleftrightarrow> member' = None" "repo = None \<longleftrightarrow> repo' = None"
    and "\<And>ns n. member = Some (ns, n) \<or> member' = Some (ns, n) \<Longrightarrow> k8s_name ns \<and> k8s_name n"
  shows "member = member' \<and> map_option (\<lambda>r. repo_key r policy_ns) repo = map_option (\<lambda>r. repo_key r policy_ns) repo'"
proof (cases member)
  case None
  then show ?thesis using assms(1-3) by (auto simp: cell_key_def newline_def split: option.splits)
next
  case (Some m)
  obtain ns n where m: "member = Some (ns, n)" using Some by (cases m) auto
  obtain ns' n' where m': "member' = Some (ns', n')" using assms(2) m by (cases member') auto
  have names: "k8s_name ns" "k8s_name n" "k8s_name ns'" "k8s_name n'" using assms(4) m m' by blast+
  have line: "CHR 0x0A \<notin> set (member_key ns n)" "CHR 0x0A \<notin> set (member_key ns' n')"
    using names by (auto simp: member_key_def k8s_name_def)
  have "member_key ns n = member_key ns' n' \<and>
      map_option (\<lambda>r. repo_key r policy_ns) repo = map_option (\<lambda>r. repo_key r policy_ns) repo'"
  proof (cases repo)
    case None
    then show ?thesis using assms(1,3) m m' by (simp add: cell_key_def)
  next
    case (Some r)
    then obtain r' where r': "repo' = Some r'" using assms(3) by (cases repo') auto
    then have "member_key ns n @ CHR 0x0A # repo_key r policy_ns = member_key ns' n' @ CHR 0x0A # repo_key r' policy_ns"
      using assms(1) m m' Some by (simp add: cell_key_def newline_def)
    from sep_join_inj [OF line this] Some r' show ?thesis by simp
  qed
  with member_key_inj [OF names(1,3)] m m' show ?thesis by auto
qed

text \<open>The cells of a slot: members, or the policy as a whole, times repositories, or none in particular.\<close>

abbreviation target_pair :: "expanded_member \<Rightarrow> string \<times> string" where
  "target_pair m \<equiv> (pt_namespace (sr_target (em_source m)), pt_name (sr_target (em_source m)))"

definition slot_cells ::
    "snapshot_policy \<Rightarrow> expanded_member list option \<Rightarrow> ((string \<times> string) option \<times> repository_ref option) list" where
  "slot_cells p members = List.product
     (case members of None \<Rightarrow> [None] | Some ms \<Rightarrow> map (Some \<circ> target_pair) ms)
     (if is_multi_repo p then map Some (po_repositories p) else [None])"

definition slot_keys :: "snapshot_policy \<Rightarrow> string \<Rightarrow> expanded_member list option \<Rightarrow> string list" where
  "slot_keys p base members =
     map (\<lambda>(member, repo). cell_key base (policy_namespace p) member repo) (slot_cells p members)"

lemma mint_cells_names:
  assumes "\<And>ms m. members = Some ms \<Longrightarrow> m \<in> set ms \<Longrightarrow>
    em_name m = fanout_child_name_for base (policy_namespace p) (Some (target_pair m)) None"
  shows "map mc_name (mint_cells p base members) =
    map (\<lambda>(member, repo). if member = None \<and> repo = None then base
           else fanout_child_name_for base (policy_namespace p) member repo) (slot_cells p members)"
  using assms
  by (cases members; cases "is_multi_repo p")
     (auto simp: mint_cells_def slot_cells_def Let_def map_concat o_def product_concat_map)

lemma mint_cells_targets:
  "map (\<lambda>c. (map_option sr_target (mc_source c), mc_repository c)) (mint_cells p base members) =
   List.product (case members of None \<Rightarrow> [None] | Some ms \<Rightarrow> map (Some \<circ> sr_target \<circ> em_source) ms)
     (if is_multi_repo p then map (\<lambda>r. Some (normalized_repository_ref r (policy_namespace p))) (po_repositories p)
      else [None])"
  by (cases members; cases "is_multi_repo p")
     (auto simp: mint_cells_def Let_def map_concat o_def product_concat_map regroup_def)

text \<open>No volume is matched by two sources, and the policy's repositories are different ones.\<close>

definition slot_wf :: "snapshot_policy \<Rightarrow> expanded_member list option \<Rightarrow> bool" where
  "slot_wf p members \<longleftrightarrow>
     distinct (map (\<lambda>r. repo_key r (policy_namespace p)) (po_repositories p)) \<and>
     (case members of
        None \<Rightarrow> True
      | Some ms \<Rightarrow> distinct (map target_pair ms) \<and>
          list_all (\<lambda>m. k8s_name (fst (target_pair m)) \<and> k8s_name (snd (target_pair m))) ms)"

lemma distinct_slot_cells: "slot_wf p members \<Longrightarrow> distinct (slot_cells p members)"
  by (auto simp: slot_cells_def slot_wf_def intro!: distinct_product split: option.splits
      simp: distinct_map inj_on_def)

lemma slot_cells_shape:
  assumes "(member, repo) \<in> set (slot_cells p members)" "(member', repo') \<in> set (slot_cells p members)"
  shows "member = None \<longleftrightarrow> member' = None" "repo = None \<longleftrightarrow> repo' = None"
  using assms by (auto simp: slot_cells_def split: option.splits if_splits)

lemma slot_cell_key_inj:
  assumes wf: "slot_wf p members"
    and c: "(member, repo) \<in> set (slot_cells p members)" and c': "(member', repo') \<in> set (slot_cells p members)"
    and eq: "cell_key base (policy_namespace p) member repo = cell_key base (policy_namespace p) member' repo'"
  shows "(member, repo) = (member', repo')"
proof -
  have names: "k8s_name ns \<and> k8s_name n" if "member = Some (ns, n) \<or> member' = Some (ns, n)" for ns n
    using that wf c c' by (auto simp: slot_wf_def slot_cells_def list_all_iff split: option.splits if_splits)
  have keys: "member = member'"
    "map_option (\<lambda>r. repo_key r (policy_namespace p)) repo = map_option (\<lambda>r. repo_key r (policy_namespace p)) repo'"
    using cell_key_inj [OF eq slot_cells_shape [OF c c'] names] by auto
  moreover have "repo = repo'"
    using keys(2) c c' wf
    by (auto simp: slot_cells_def slot_wf_def distinct_map inj_on_def split: if_splits)
  ultimately show ?thesis by simp
qed

lemma slot_names_inj:
  assumes wf: "slot_wf p members" and tags: "inj_on fnv8 (set (slot_keys p base members))"
    and c: "(member, repo) \<in> set (slot_cells p members)" and c': "(member', repo') \<in> set (slot_cells p members)"
    and fan: "member \<noteq> None \<or> repo \<noteq> None"
    and eq: "fanout_child_name_for base (policy_namespace p) member repo =
      fanout_child_name_for base (policy_namespace p) member' repo'"
  shows "(member, repo) = (member', repo')"
proof -
  let ?key = "cell_key base (policy_namespace p)"
  have "member' \<noteq> None \<or> repo' \<noteq> None" using fan slot_cells_shape [OF c c'] by auto
  then have "fnv8 (?key member repo) = fnv8 (?key member' repo')"
    using fanout_name_tagged [OF fan, of base "policy_namespace p"]
      fanout_name_tagged [of member' repo' base "policy_namespace p"] eq tagged_name_tag by metis
  moreover have "?key member repo \<in> set (slot_keys p base members)" "?key member' repo' \<in> set (slot_keys p base members)"
    using c c' by (force simp: slot_keys_def)+
  ultimately have "?key member repo = ?key member' repo'" using tags unfolding inj_on_def by blast
  with slot_cell_key_inj [OF wf c c'] show ?thesis by blast
qed


lemma slot_keys_ex:
  "slot_keys (policy_ex [selector_ex]) ''run'' (Some [expanded_ex ''db'']) = [''run'' @ newline @ ''db/data'']"
  by (simp add: slot_keys_def slot_cells_def policy_ex_def is_multi_repo_def expanded_ex_def member_of_def data_in_def
      cell_key_def member_key_def)

lemma expand_one_ex:
  "expand_sources (policy_ex [selector_ex]) ''run'' [0 \<mapsto> [data_in ''db'']] = Inr (Some [expanded_ex ''db''])"
  by (simp add: expand_sources_def policy_ex_def selector_ex_def matched_ex_def matched_of_def member_path_eq
      strategy_for_def data_in_def expanded_ex_def member_of_def Let_def)


text \<open>
  That no volume is matched by two sources is not checked: the guard compares paths, and two sources
  with different strategies give one volume two paths but one child name.
\<close>

definition by_name_ex :: source where
  "by_name_ex = selector_ex\<lparr>so_path_strategy := Some PvcName\<rparr>"

theorem two_strategies_share_a_child_name:
  "\<exists>ms. expand_sources (policy_ex [by_name_ex, selector_ex]) ''run'' [0 \<mapsto> [data_in ''db''], 1 \<mapsto> [data_in ''db'']] =
       Inr (Some ms) \<and>
     map (sr_index \<circ> em_source) ms = [0, 1] \<and> em_name (ms ! 0) = em_name (ms ! 1)"
  by (simp add: expand_sources_def policy_ex_def by_name_ex_def selector_ex_def matched_of_def member_path_eq
      strategy_for_def data_in_def member_of_def Let_def)

end
