(* ===== verification/Firing.thy ===== *)
theory Firing
  imports Schedule Expansion
begin

text \<open>
  What a schedule's reconcile does to the cluster (\<open>crates/controller/src/snapshot_schedule.rs\<close>): the
  policies it targets and the timing it inherits from their repositories, the Snapshots a fire mints,
  the runs it replaces, the failed history it prunes, the cascade stamps it propagates, and the
  reconcile as a whole on the Snapshots of a namespace. The API server's answers are the fields of
  \<open>schedule_env\<close>: reads that may fail, writes that may fail, and server-side apply.
\<close>

subsection \<open>The schedule and the cluster it sees\<close>

record snapshot_schedule =
  sd_name :: string
  sd_namespace :: string
  sd_uid :: "string option"
  sd_created :: "datetime option"
  sd_policy_ref :: "policy_ref option"
  sd_policy_selector :: "label_selector option"
  sd_schedule :: schedule_spec
  sd_on_schedule_delete :: "schedule_delete_policy option"
  sd_failed_jobs_history_limit :: "nat option"

datatype fire_error = KubeError | PolicyNotFound string | MissingDependency string string | FireValidation validation_error

type_synonym schedule_defaults = "string option \<times> string option"

type_synonym row_store = "string \<rightharpoonup> snapshot"

record schedule_env =
  ev_fetch_policy :: "string \<Rightarrow> string \<Rightarrow> unit + snapshot_policy option"
  ev_list_policies :: "unit + snapshot_policy list"
  ev_match_pvcs :: "snapshot_policy \<Rightarrow> unit + matched_pvcs"
  ev_repo_defaults :: "repository_ref \<Rightarrow> string \<Rightarrow> unit + schedule_defaults"
  ev_fails :: "string \<Rightarrow> bool"
  ev_apply :: "snapshot option \<Rightarrow> snapshot \<Rightarrow> snapshot"
  ev_stamp :: "datetime \<Rightarrow> string"

subsection \<open>Targets and inherited timing\<close>

definition select_policy_targets :: "snapshot_policy list \<Rightarrow> string \<Rightarrow> label_selector \<Rightarrow> policy_ref list" where
  "select_policy_targets policies namespace selector =
     sort_key pr_name
       (map (\<lambda>p. \<lparr>pr_name = unwrap_or (m_name (po_meta p)) '''', pr_namespace = None\<rparr>)
         (filter (\<lambda>p. m_namespace (po_meta p) = Some namespace \<and> \<not> po_suspend p \<and>
              labels_match_selector (m_labels (po_meta p)) selector) policies))"

definition target_policy_refs :: "schedule_env \<Rightarrow> snapshot_schedule \<Rightarrow> unit + policy_ref list" where
  "target_policy_refs env sd =
     (case sd_policy_ref sd of
        Some pref \<Rightarrow> Inr [pref]
      | None \<Rightarrow>
          (case sd_policy_selector sd of
             None \<Rightarrow> Inr []
           | Some selector \<Rightarrow>
               map_sum id (\<lambda>ps. select_policy_targets ps (sd_namespace sd) selector) (ev_list_policies env)))"

definition JITTER_NONE_CANDIDATE :: string where "JITTER_NONE_CANDIDATE = ''(none)''"

datatype jitter_resolution = JAgreed "string option" | JDisagreed "string list"

definition resolve_schedule_jitter :: "string option \<Rightarrow> string option list \<Rightarrow> jitter_resolution" where
  "resolve_schedule_jitter own candidates =
     (case own of
        Some own \<Rightarrow> JAgreed (Some own)
      | None \<Rightarrow>
          (case candidates of
             [] \<Rightarrow> JAgreed None
           | first # _ \<Rightarrow>
               if list_all (\<lambda>c. c = first) candidates then JAgreed first
               else JDisagreed (remdups (sort (map (\<lambda>c. unwrap_or c JITTER_NONE_CANDIDATE) candidates)))))"

definition effective_timezone ::
    "(string \<Rightarrow> string option) \<Rightarrow> string option \<Rightarrow> string option list \<Rightarrow> string \<times> string list option" where
  "effective_timezone parse_tz own defaults =
     (if own \<noteq> None then (resolve_tz parse_tz own, None)
      else if defaults = [] then (UTC, None)
      else
        (let zones = remdups (sort (map (resolve_tz parse_tz) defaults))
         in case zones of [z] \<Rightarrow> (z, None) | _ \<Rightarrow> (UTC, Some zones)))"

definition inherited_timezone ::
    "(string \<Rightarrow> string option) \<Rightarrow> string option \<Rightarrow> schedule_defaults list \<Rightarrow> string \<times> string list option" where
  "inherited_timezone parse_tz own defaults =
     (case own of
        Some own \<Rightarrow> (resolve_tz parse_tz (Some own), None)
      | None \<Rightarrow> effective_timezone parse_tz None (map fst defaults))"

definition inherited_jitter :: "string option \<Rightarrow> schedule_defaults list \<Rightarrow> jitter_resolution" where
  "inherited_jitter own defaults =
     (case own of Some own \<Rightarrow> JAgreed (Some own) | None \<Rightarrow> resolve_schedule_jitter None (map snd defaults))"

text \<open>\<open>Iterator::try_collect\<close> over fallible reads.\<close>

fun collect_reads :: "(unit + 'a) list \<Rightarrow> unit + 'a list" where
  "collect_reads [] = Inr []"
| "collect_reads (Inl e # rs) = Inl e"
| "collect_reads (Inr x # rs) = map_sum id (\<lambda>xs. x # xs) (collect_reads rs)"

definition policy_repo_schedule_defaults ::
    "schedule_env \<Rightarrow> policy_ref \<Rightarrow> string \<Rightarrow> unit + schedule_defaults list" where
  "policy_repo_schedule_defaults env pref schedule_ns =
     (let policy_ns = unwrap_or (pr_namespace pref) schedule_ns
      in case ev_fetch_policy env policy_ns (pr_name pref) of
           Inr (Some policy) \<Rightarrow>
             collect_reads (map (\<lambda>r. ev_repo_defaults env r policy_ns) (repository_refs policy))
         | _ \<Rightarrow> Inl ())"

definition matched_repo_schedule_defaults ::
    "schedule_env \<Rightarrow> snapshot_schedule \<Rightarrow> schedule_defaults list option" where
  "matched_repo_schedule_defaults env sd =
     (case target_policy_refs env sd of
        Inl _ \<Rightarrow> None
      | Inr refs \<Rightarrow>
          (case collect_reads (map (\<lambda>r. policy_repo_schedule_defaults env r (sd_namespace sd)) refs) of
             Inl _ \<Rightarrow> None
           | Inr defaults \<Rightarrow> Some (concat defaults)))"

definition resolve_effective_schedule ::
    "(string \<Rightarrow> string option) \<Rightarrow> schedule_env \<Rightarrow> snapshot_schedule \<Rightarrow> schedule_resolution" where
  "resolve_effective_schedule parse_tz env sd =
     (let own_tz = sc_timezone (sd_schedule sd); own_jitter = sc_jitter (sd_schedule sd)
      in case (own_tz, own_jitter) of
           (Some tz, Some jitter) \<Rightarrow> Resolved (resolve_tz parse_tz (Some tz)) None (Some jitter)
         | _ \<Rightarrow>
             (case matched_repo_schedule_defaults env sd of
                None \<Rightarrow> Degraded (map_option (\<lambda>t. resolve_tz parse_tz (Some t)) own_tz) own_jitter
              | Some defaults \<Rightarrow>
                  (let (tz, ambiguity) = inherited_timezone parse_tz own_tz defaults
                   in Resolved tz ambiguity
                        (case inherited_jitter own_jitter defaults of JAgreed window \<Rightarrow> window | JDisagreed _ \<Rightarrow> None))))"

subsection \<open>Minting\<close>

definition scheduled_backup_name :: "schedule_env \<Rightarrow> string \<Rightarrow> datetime \<Rightarrow> string" where
  "scheduled_backup_name env schedule slot = schedule @ ''-'' @ ev_stamp env slot"

datatype slot_mint_plan = NothingMatched | CapSkipped nat nat | Mint "mint_cell list"

definition slot_mint_plan :: "snapshot_policy \<Rightarrow> string \<Rightarrow> expanded_member list option \<Rightarrow> slot_mint_plan" where
  "slot_mint_plan policy base members =
     (if members = Some [] then NothingMatched
      else
        (let member_count = (case members of None \<Rightarrow> 1 | Some ms \<Rightarrow> length ms);
             repo_count = max (length (po_repositories policy)) 1
         in if fanout_cap_exceeded member_count repo_count then CapSkipped member_count repo_count
            else Mint (mint_cells policy base members)))"

definition policy_usable :: "snapshot_policy \<Rightarrow> bool" where
  "policy_usable p \<longleftrightarrow> m_deletion_timestamp (po_meta p) = None"

definition policy_default_deletion_policy ::
    "schedule_env \<Rightarrow> policy_ref \<Rightarrow> string \<Rightarrow> fire_error + deletion_policy option" where
  "policy_default_deletion_policy env pref schedule_ns =
     (let policy_ns = unwrap_or (pr_namespace pref) schedule_ns
      in case ev_fetch_policy env policy_ns (pr_name pref) of
           Inl _ \<Rightarrow> Inl KubeError
         | Inr None \<Rightarrow> Inl (MissingDependency policy_ns (pr_name pref))
         | Inr (Some policy) \<Rightarrow>
             if policy_usable policy then Inr (po_default_deletion_policy policy)
             else Inl (MissingDependency policy_ns (pr_name pref)))"

definition scheduled_backup_spec ::
    "policy_ref \<Rightarrow> deletion_policy option \<Rightarrow> schedule_delete_policy \<Rightarrow> source_ref option \<Rightarrow> repository_ref option \<Rightarrow>
     snapshot_spec" where
  "scheduled_backup_spec pref default_deletion_policy on_schedule_delete src repo =
     \<lparr>sp_policy_ref = Some pref, sp_repository = repo,
      sp_source_pvc = map_option (\<lambda>s. (pt_namespace (sr_target s), pt_name (sr_target s))) src,
      sp_deletion_policy = default_deletion_policy, sp_on_schedule_delete = Some on_schedule_delete, sp_pin = False\<rparr>"

definition SCHEDULE_LABEL :: string where "SCHEDULE_LABEL = ''kopiur.home-operations.com/schedule''"

definition scheduled_backup ::
    "snapshot_schedule \<Rightarrow> mint_cell \<Rightarrow> policy_ref \<Rightarrow> deletion_policy option \<Rightarrow> snapshot" where
  "scheduled_backup sd cell pref default_deletion_policy =
     \<lparr>s_meta = empty_meta\<lparr>m_name := Some (mc_name cell), m_namespace := Some (sd_namespace sd),
        m_labels := [ORIGIN_LABEL \<mapsto> origin_label_value Scheduled, SCHEDULE_LABEL \<mapsto> sd_name sd,
                     CONFIG_LABEL \<mapsto> pr_name pref],
        m_owner_references := [\<lparr>or_api_version = API_VERSION, or_kind = ''SnapshotSchedule'', or_name = sd_name sd,
                                or_uid = unwrap_or (sd_uid sd) '''',
                                or_controller = Some True\<rparr>]\<rparr>,
      s_spec = scheduled_backup_spec pref default_deletion_policy
        (effective_on_schedule_delete (sd_on_schedule_delete sd)) (mc_source cell) (mc_repository cell),
      s_status = None\<rparr>"

definition create_scheduled_backup ::
    "schedule_env \<Rightarrow> snapshot_schedule \<Rightarrow> mint_cell \<Rightarrow> policy_ref \<Rightarrow> deletion_policy option \<Rightarrow> row_store \<Rightarrow>
     (fire_error + unit) \<times> row_store" where
  "create_scheduled_backup env sd cell pref default_deletion_policy rows =
     (let twin = rows (mc_name cell)
      in if slot_fire_blocked_by_terminating twin then (Inr (), rows)
         else if ev_fails env (mc_name cell) then (Inl KubeError, rows)
         else (Inr (), rows(mc_name cell \<mapsto> ev_apply env twin (scheduled_backup sd cell pref default_deletion_policy))))"

fun create_cells ::
    "schedule_env \<Rightarrow> snapshot_schedule \<Rightarrow> policy_ref \<Rightarrow> deletion_policy option \<Rightarrow> mint_cell list \<Rightarrow> row_store \<Rightarrow>
     (fire_error + unit) \<times> row_store" where
  "create_cells env sd pref ddp [] rows = (Inr (), rows)"
| "create_cells env sd pref ddp (c # cs) rows =
     (case create_scheduled_backup env sd c pref ddp rows of
        (Inl e, rows) \<Rightarrow> (Inl e, rows)
      | (Inr _, rows) \<Rightarrow> create_cells env sd pref ddp cs rows)"

record fire_outcome =
  fo_fanned_out :: bool
  fo_cap_skipped :: "(string \<times> nat \<times> nat) list"

definition base_name :: "schedule_env \<Rightarrow> snapshot_schedule \<Rightarrow> policy_ref \<Rightarrow> datetime \<Rightarrow> string" where
  "base_name env sd pref slot =
     (if sd_policy_ref sd \<noteq> None then scheduled_backup_name env (sd_name sd) slot
      else sd_name sd @ ''-'' @ pr_name pref @ ''-'' @ ev_stamp env slot)"

text \<open>What one target policy's slot mints; the policy is read in the schedule's namespace.\<close>

definition target_mint_plan ::
    "schedule_env \<Rightarrow> snapshot_schedule \<Rightarrow> datetime \<Rightarrow> policy_ref \<Rightarrow> fire_error + slot_mint_plan" where
  "target_mint_plan env sd slot pref =
     (case ev_fetch_policy env (sd_namespace sd) (pr_name pref) of
        Inl _ \<Rightarrow> Inl KubeError
      | Inr None \<Rightarrow> Inl (PolicyNotFound (pr_name pref))
      | Inr (Some policy) \<Rightarrow>
          (case ev_match_pvcs env policy of
             Inl _ \<Rightarrow> Inl KubeError
           | Inr matched \<Rightarrow>
               (case expand_sources policy (base_name env sd pref slot) matched of
                  Inl e \<Rightarrow> Inl (FireValidation e)
                | Inr members \<Rightarrow> Inr (slot_mint_plan policy (base_name env sd pref slot) members))))"

fun fire_loop ::
    "schedule_env \<Rightarrow> snapshot_schedule \<Rightarrow> datetime \<Rightarrow> policy_ref list \<Rightarrow> fire_outcome \<Rightarrow> row_store \<Rightarrow>
     (fire_error + fire_outcome) \<times> row_store" where
  "fire_loop env sd slot [] out rows = (Inr out, rows)"
| "fire_loop env sd slot (pref # prefs) out rows =
     (case target_mint_plan env sd slot pref of
        Inl e \<Rightarrow> (Inl e, rows)
      | Inr NothingMatched \<Rightarrow> fire_loop env sd slot prefs (out\<lparr>fo_fanned_out := True\<rparr>) rows
      | Inr (CapSkipped members repos) \<Rightarrow>
          fire_loop env sd slot prefs
            \<lparr>fo_fanned_out = True, fo_cap_skipped = fo_cap_skipped out @ [(pr_name pref, members, repos)]\<rparr> rows
      | Inr (Mint cells) \<Rightarrow>
          (case policy_default_deletion_policy env pref (sd_namespace sd) of
             Inl e \<Rightarrow> (Inl e, rows)
           | Inr ddp \<Rightarrow>
               (let fanned = (length cells \<noteq> 1 \<or> mc_name (cells ! 0) \<noteq> base_name env sd pref slot);
                    out = (if fanned then out\<lparr>fo_fanned_out := True\<rparr> else out)
                in case create_cells env sd pref ddp cells rows of
                     (Inl e, rows) \<Rightarrow> (Inl e, rows)
                   | (Inr _, rows) \<Rightarrow> fire_loop env sd slot prefs out rows)))"

definition fire_for_targets ::
    "schedule_env \<Rightarrow> snapshot_schedule \<Rightarrow> datetime \<Rightarrow> row_store \<Rightarrow> (fire_error + fire_outcome) \<times> row_store" where
  "fire_for_targets env sd slot rows =
     (case target_policy_refs env sd of
        Inl _ \<Rightarrow> (Inl KubeError, rows)
      | Inr targets \<Rightarrow> fire_loop env sd slot targets \<lparr>fo_fanned_out = False, fo_cap_skipped = []\<rparr> rows)"

subsection \<open>Deletions and stamps\<close>

text \<open>
  The API server's delete: an object with finalizers gets a deletion timestamp (the current second),
  one without is gone; deleting what is gone or already terminating changes nothing.
\<close>

definition api_delete :: "datetime \<Rightarrow> string \<Rightarrow> row_store \<Rightarrow> row_store" where
  "api_delete now n rows =
     (case rows n of
        None \<Rightarrow> rows
      | Some b \<Rightarrow>
          if m_finalizers (s_meta b) = [] then rows(n := None)
          else if s_terminating b then rows
          else rows(n \<mapsto> b\<lparr>s_meta := (s_meta b)\<lparr>m_deletion_timestamp := Some (now div nanos)\<rparr>\<rparr>))"

definition stamp_pruned_by :: "pruned_by \<Rightarrow> string \<Rightarrow> row_store \<Rightarrow> row_store" where
  "stamp_pruned_by pb n rows =
     (case rows n of
        None \<Rightarrow> rows
      | Some b \<Rightarrow> rows(n \<mapsto> b\<lparr>s_meta := (s_meta b)\<lparr>m_annotations :=
          (m_annotations (s_meta b))(PRUNED_BY_ANNOTATION \<mapsto> pruned_by_annotation_value pb)\<rparr>\<rparr>))"

definition annotate_then_delete_snapshot :: "datetime \<Rightarrow> pruned_by \<Rightarrow> string \<Rightarrow> row_store \<Rightarrow> row_store" where
  "annotate_then_delete_snapshot now pb n rows = api_delete now n (stamp_pruned_by pb n rows)"

text \<open>A failing call on one name ends the loop with an error; what was done before stays done.\<close>

fun replace_active_runs ::
    "schedule_env \<Rightarrow> datetime \<Rightarrow> string list \<Rightarrow> row_store \<Rightarrow> (fire_error + unit) \<times> row_store" where
  "replace_active_runs env now [] rows = (Inr (), rows)"
| "replace_active_runs env now (n # victims) rows =
     (if ev_fails env n then (Inl KubeError, rows)
      else if \<not> still_replaceable (rows n) then replace_active_runs env now victims rows
      else replace_active_runs env now victims (annotate_then_delete_snapshot now PB_ReplacedRun n rows))"

definition effective_failed_jobs_history_limit :: "nat option \<Rightarrow> nat" where
  "effective_failed_jobs_history_limit limit = unwrap_or limit 10"

fun prune_rows ::
    "schedule_env \<Rightarrow> datetime \<Rightarrow> string list \<Rightarrow> row_store \<Rightarrow> row_store" where
  "prune_rows env now [] rows = rows"
| "prune_rows env now (n # ns) rows =
     (if ev_fails env n then rows
      else if \<not> live_row_actionable (rows n) then prune_rows env now ns rows
      else prune_rows env now ns (annotate_then_delete_snapshot now PB_FailedHistory n rows))"

definition prune_failed_history ::
    "(string \<Rightarrow> datetime option) \<Rightarrow> schedule_env \<Rightarrow> datetime \<Rightarrow> snapshot list \<Rightarrow> nat option \<Rightarrow> row_store \<Rightarrow> row_store" where
  "prune_failed_history rfc3339 env now children limit rows =
     prune_rows env now
       (failed_snapshots_to_prune rfc3339 children (effective_failed_jobs_history_limit limit)) rows"

definition stamp_cascade :: "schedule_env \<Rightarrow> schedule_delete_policy \<Rightarrow> string \<Rightarrow> row_store \<Rightarrow> row_store" where
  "stamp_cascade env desired n rows =
     (if ev_fails env n then rows
      else case rows n of
             None \<Rightarrow> rows
           | Some b \<Rightarrow> rows(n \<mapsto> b\<lparr>s_spec := (s_spec b)\<lparr>sp_on_schedule_delete := Some desired\<rparr>\<rparr>))"

definition propagate_cascade_stamp ::
    "schedule_env \<Rightarrow> snapshot list \<Rightarrow> schedule_delete_policy \<Rightarrow> row_store \<Rightarrow> row_store" where
  "propagate_cascade_stamp env children desired rows =
     fold (stamp_cascade env desired) (children_needing_cascade_stamp children desired) rows"

subsection \<open>The reconcile on the cluster\<close>

record schedule_status =
  st_pin :: "(datetime \<times> pinned_slot) option"
  st_last :: "datetime option"

text \<open>
  The reconcile reads its children and the namespace's rows through a cache, which may lag behind
  the rows it writes; a failing read of either is \<open>None\<close>. The status patch comes last.
\<close>

definition reconcile_input ::
    "(string \<Rightarrow> string option) \<Rightarrow> schedule_env \<Rightarrow> snapshot_schedule \<Rightarrow> snapshot list option \<Rightarrow> snapshot list option \<Rightarrow>
     schedule_input" where
  "reconcile_input parse_tz env sd children cached =
     \<lparr>in_spec = sd_schedule sd, in_seed = unwrap_or (sd_uid sd) (sd_name sd),
      in_resolution = resolve_effective_schedule parse_tz env sd, in_children = children,
      in_namespace = sd_namespace sd,
      in_targets = (case target_policy_refs env sd of Inl _ \<Rightarrow> None | Inr ts \<Rightarrow> Some ts),
      in_rows = cached, in_created = sd_created sd\<rparr>"

definition housekeeping ::
    "(string \<Rightarrow> datetime option) \<Rightarrow> schedule_env \<Rightarrow> snapshot_schedule \<Rightarrow> datetime \<Rightarrow> snapshot list option \<Rightarrow>
     row_store \<Rightarrow> row_store" where
  "housekeeping rfc3339 env sd now children rows =
     (case children of
        None \<Rightarrow> rows
      | Some items \<Rightarrow>
          propagate_cascade_stamp env items (effective_on_schedule_delete (sd_on_schedule_delete sd))
            (prune_failed_history rfc3339 env now items (sd_failed_jobs_history_limit sd) rows))"

definition fire_slot ::
    "schedule_env \<Rightarrow> snapshot_schedule \<Rightarrow> datetime \<Rightarrow> datetime \<Rightarrow> string list \<Rightarrow> (pinned_slot \<times> datetime) option \<Rightarrow>
     schedule_status \<times> row_store \<Rightarrow> schedule_status \<times> row_store" where
  "fire_slot env sd now slot victims nx = (\<lambda>(status, rows).
     (case replace_active_runs env now victims rows of
        (Inl _, rows) \<Rightarrow> (status, rows)
      | (Inr _, rows) \<Rightarrow>
          (case fire_for_targets env sd slot rows of
             (Inl _, rows) \<Rightarrow> (status, rows)
           | (Inr _, rows) \<Rightarrow>
               (case nx of
                  None \<Rightarrow> (status, rows)
                | Some (p, n) \<Rightarrow> (\<lparr>st_pin = Some (n, p), st_last = Some slot\<rparr>, rows)))))"

definition schedule_reconcile_inner ::
    "cron_oracle \<Rightarrow> (string \<Rightarrow> string option) \<Rightarrow> (string \<Rightarrow> datetime option) \<Rightarrow> schedule_env \<Rightarrow> snapshot_schedule \<Rightarrow>
     snapshot list option \<Rightarrow> snapshot list option \<Rightarrow> datetime \<Rightarrow> schedule_status \<times> row_store \<Rightarrow>
     schedule_status \<times> row_store" where
  "schedule_reconcile_inner cron_next parse_tz rfc3339 env sd children cached now = (\<lambda>(status, rows).
     (let rows = housekeeping rfc3339 env sd now children rows
      in case schedule_reconcile cron_next parse_tz (reconcile_input parse_tz env sd children cached) now
             (st_pin status) (st_last status \<noteq> None) of
           SA_Repin p n \<Rightarrow> (status\<lparr>st_pin := Some (n, p)\<rparr>, rows)
         | SA_Skip p n \<Rightarrow> (status\<lparr>st_pin := Some (n, p)\<rparr>, rows)
         | SA_Fire slot victims nx \<Rightarrow> fire_slot env sd now slot victims nx (status, rows)
         | _ \<Rightarrow> (status, rows)))"

subsection \<open>A fire as a list of writes\<close>

text \<open>The writes a fire plans, up to the first target it cannot read, and how it ends if they all succeed.\<close>

fun fire_plan ::
    "schedule_env \<Rightarrow> snapshot_schedule \<Rightarrow> datetime \<Rightarrow> policy_ref list \<Rightarrow> fire_outcome \<Rightarrow>
     (string \<times> snapshot) list \<times> (fire_error + fire_outcome)" where
  "fire_plan env sd slot [] out = ([], Inr out)"
| "fire_plan env sd slot (pref # prefs) out =
     (case target_mint_plan env sd slot pref of
        Inl e \<Rightarrow> ([], Inl e)
      | Inr NothingMatched \<Rightarrow> fire_plan env sd slot prefs (out\<lparr>fo_fanned_out := True\<rparr>)
      | Inr (CapSkipped members repos) \<Rightarrow>
          fire_plan env sd slot prefs
            \<lparr>fo_fanned_out = True, fo_cap_skipped = fo_cap_skipped out @ [(pr_name pref, members, repos)]\<rparr>
      | Inr (Mint cells) \<Rightarrow>
          (case policy_default_deletion_policy env pref (sd_namespace sd) of
             Inl e \<Rightarrow> ([], Inl e)
           | Inr ddp \<Rightarrow>
               apfst (append (map (\<lambda>c. (mc_name c, scheduled_backup sd c pref ddp)) cells))
                 (fire_plan env sd slot prefs
                   (if length cells \<noteq> 1 \<or> mc_name (cells ! 0) \<noteq> base_name env sd pref slot
                    then out\<lparr>fo_fanned_out := True\<rparr> else out))))"

fun run_writes :: "schedule_env \<Rightarrow> (string \<times> snapshot) list \<Rightarrow> row_store \<Rightarrow> (fire_error + unit) \<times> row_store" where
  "run_writes env [] rows = (Inr (), rows)"
| "run_writes env ((n, b) # ws) rows =
     (if slot_fire_blocked_by_terminating (rows n) then run_writes env ws rows
      else if ev_fails env n then (Inl KubeError, rows)
      else run_writes env ws (rows(n \<mapsto> ev_apply env (rows n) b)))"

definition and_then :: "(fire_error + unit) \<times> row_store \<Rightarrow> (row_store \<Rightarrow> (fire_error + 'a) \<times> row_store) \<Rightarrow>
    (fire_error + 'a) \<times> row_store" where
  "and_then r k = (case r of (Inl e, rows) \<Rightarrow> (Inl e, rows) | (Inr _, rows) \<Rightarrow> k rows)"

lemma run_writes_append:
  "run_writes env (ws @ ws') rows = and_then (run_writes env ws rows) (run_writes env ws')"
proof (induction ws arbitrary: rows)
  case (Cons w ws)
  then show ?case by (cases w) (simp add: and_then_def)
qed (simp add: and_then_def)

lemma and_then_assoc: "and_then (and_then r k) k' = and_then r (\<lambda>rows. and_then (k rows) k')"
  by (auto simp: and_then_def split: prod.splits sum.splits)

lemma create_cells_writes:
  "create_cells env sd pref ddp cells rows =
     run_writes env (map (\<lambda>c. (mc_name c, scheduled_backup sd c pref ddp)) cells) rows"
  by (induction cells arbitrary: rows) (auto simp: create_scheduled_backup_def Let_def)

lemma fire_loop_writes:
  "fire_loop env sd slot prefs out rows =
     (case fire_plan env sd slot prefs out of
        (ws, res) \<Rightarrow> and_then (run_writes env ws rows) (\<lambda>rows. (res, rows)))"
proof (induction prefs arbitrary: out rows)
  case (Cons pref prefs)
  show ?case
  proof (cases "target_mint_plan env sd slot pref")
    case (Inr plan)
    show ?thesis
    proof (cases plan)
      case (Mint cells)
      then show ?thesis
        using Inr Cons
        by (cases "policy_default_deletion_policy env pref (sd_namespace sd)")
           (auto simp: create_cells_writes run_writes_append and_then_assoc Let_def split: prod.splits sum.splits
             simp: and_then_def)
    qed (use Inr Cons in \<open>simp_all add: split_beta\<close>)
  qed (simp add: and_then_def)
qed (simp add: and_then_def)

definition fire_writes :: "schedule_env \<Rightarrow> snapshot_schedule \<Rightarrow> datetime \<Rightarrow> (string \<times> snapshot) list" where
  "fire_writes env sd slot =
     (case target_policy_refs env sd of
        Inl _ \<Rightarrow> []
      | Inr targets \<Rightarrow> fst (fire_plan env sd slot targets \<lparr>fo_fanned_out = False, fo_cap_skipped = []\<rparr>))"

lemma fire_for_targets_writes:
  "\<exists>res. \<forall>rows. fire_for_targets env sd slot rows =
     and_then (run_writes env (fire_writes env sd slot) rows) (\<lambda>rows. (res, rows))"
proof (cases "target_policy_refs env sd")
  case (Inl e)
  then show ?thesis
    by (intro exI [of _ "Inl KubeError"]) (simp add: fire_for_targets_def fire_writes_def and_then_def)
next
  case (Inr targets)
  then show ?thesis
    by (intro exI [of _ "snd (fire_plan env sd slot targets \<lparr>fo_fanned_out = False, fo_cap_skipped = []\<rparr>)"])
       (simp add: fire_for_targets_def fire_writes_def fire_loop_writes split_beta)
qed

subsection \<open>Firing a slot again\<close>

text \<open>
  What the code relies on of server-side apply: applying the same object again changes nothing, and
  an apply neither starts nor cancels a deletion and leaves the status alone.
\<close>

definition apply_lawful :: "(snapshot option \<Rightarrow> snapshot \<Rightarrow> snapshot) \<Rightarrow> bool" where
  "apply_lawful ap \<longleftrightarrow>
     (\<forall>old new. ap (Some (ap old new)) new = ap old new) \<and>
     (\<forall>old new. s_terminating (ap (Some old) new) = s_terminating old \<and> s_status (ap (Some old) new) = s_status old) \<and>
     (\<forall>new. s_terminating (ap None new) = s_terminating new)"

lemma apply_lawfulD:
  assumes "apply_lawful ap"
  shows "ap (Some (ap old new)) new = ap old new"
    "s_terminating (ap (Some b) new) = s_terminating b" "s_status (ap (Some b) new) = s_status b"
    "s_terminating (ap None new) = s_terminating new"
  using assms unfolding apply_lawful_def by blast+

lemma run_writes_other: "n \<notin> fst ` set ws \<Longrightarrow> snd (run_writes env ws rows) n = rows n"
  by (induction env ws rows rule: run_writes.induct) auto

text \<open>What one write leaves behind.\<close>

definition written :: "schedule_env \<Rightarrow> snapshot option \<Rightarrow> snapshot \<Rightarrow> snapshot option" where
  "written env twin b =
     (if slot_fire_blocked_by_terminating twin then twin else Some (ev_apply env twin b))"

lemma run_writes_done:
  assumes "run_writes env ws rows = (Inr u, rows')" "distinct (map fst ws)" "(n, b) \<in> set ws"
  shows "rows' n = written env (rows n) b"
  using assms
proof (induction env ws rows rule: run_writes.induct)
  case (2 env m c ws rows)
  consider (blocked) "slot_fire_blocked_by_terminating (rows m)"
    | (applied) "\<not> slot_fire_blocked_by_terminating (rows m)" "\<not> ev_fails env m"
    using 2(3) by (auto split: if_splits)
  then show ?case
  proof cases
    case blocked
    have "rows' m = rows m" using 2(3,4) blocked run_writes_other [of m ws env rows] by simp
    then show ?thesis using 2 blocked by (cases "(n, b) = (m, c)") (auto simp: written_def)
  next
    case applied
    let ?rows = "rows(m \<mapsto> ev_apply env (rows m) c)"
    have run: "run_writes env ws ?rows = (Inr u, rows')" using 2(3) applied by simp
    have m: "m \<notin> fst ` set ws" using 2(4) by auto
    show ?thesis
    proof (cases "(n, b) = (m, c)")
      case True
      then show ?thesis using run_writes_other [OF m, of env ?rows] run applied by (simp add: written_def)
    next
      case False
      then have "(n, b) \<in> set ws" using 2(5) by auto
      moreover from this m have "n \<noteq> m" by force
      ultimately show ?thesis using 2(2) [OF applied run] 2(4) by simp
    qed
  qed
qed simp

lemma run_writes_again:
  assumes law: "apply_lawful (ev_apply env)"
    and "distinct (map fst ws)" "\<forall>(n, b) \<in> set ws. \<not> s_terminating b"
  shows "run_writes env ws (snd (run_writes env ws rows)) = run_writes env ws rows"
  using assms(2,3)
proof (induction ws arbitrary: rows)
  case (Cons w ws)
  obtain n b where w: "w = (n, b)" by fastforce
  have n: "n \<notin> fst ` set ws" using Cons.prems(1) w by auto
  have IH: "run_writes env ws (snd (run_writes env ws rows)) = run_writes env ws rows" for rows
    using Cons.IH Cons.prems by simp
  consider (blocked) "slot_fire_blocked_by_terminating (rows n)"
    | (fails) "\<not> slot_fire_blocked_by_terminating (rows n)" "ev_fails env n"
    | (applied) "\<not> slot_fire_blocked_by_terminating (rows n)" "\<not> ev_fails env n" by blast
  then show ?case
  proof cases
    case blocked
    then show ?thesis using IH [of rows] run_writes_other [OF n, of env rows] w by simp
  next
    case fails
    then show ?thesis using w by simp
  next
    case applied
    define x where "x = ev_apply env (rows n) b"
    let ?out = "run_writes env ws (rows(n \<mapsto> x))"
    have x: "snd ?out n = Some x" using run_writes_other [OF n, of env "rows(n \<mapsto> x)"] by simp
    have live: "\<not> s_terminating x"
      using applied(1) Cons.prems(2) w apply_lawfulD(2,4) [OF law]
      by (cases "rows n") (auto simp: x_def slot_fire_blocked_by_terminating_def is_some_and_def)
    have same: "ev_apply env (Some x) b = x" by (simp add: x_def apply_lawfulD(1) [OF law])
    have "(snd ?out)(n \<mapsto> x) = snd ?out" using x by (simp add: fun_upd_idem)
    then have "run_writes env (w # ws) (snd ?out) = run_writes env ws (snd ?out)"
      using w x live same applied(2) by (simp add: slot_fire_blocked_by_terminating_def is_some_and_def)
    then show ?thesis using IH [of "rows(n \<mapsto> x)"] w applied by (simp add: x_def)
  qed
qed simp

lemma fire_plan_live: "(n, b) \<in> set (fst (fire_plan env sd slot prefs out)) \<Longrightarrow> \<not> s_terminating b"
proof (induction prefs arbitrary: out)
  case (Cons pref prefs)
  then show ?case
    by (auto simp: scheduled_backup_def empty_meta_def
        split: sum.splits slot_mint_plan.splits prod.splits if_splits)
qed simp

lemma fire_writes_live: "\<forall>(n, b) \<in> set (fire_writes env sd slot). \<not> s_terminating b"
  using fire_plan_live by (fastforce simp: fire_writes_def split: sum.splits)

lemma and_then_result:
  "and_then r (\<lambda>rows. (res, rows)) = (case fst r of Inl e \<Rightarrow> Inl e | Inr _ \<Rightarrow> res, snd r)"
  by (auto simp: and_then_def split: prod.splits sum.splits)

text \<open>
  C31: firing a slot again is harmless. What a fire writes depends on the policies, their volumes and
  the slot, not on the Snapshots already there; a Snapshot that is being deleted is left alone and
  every other one of the slot is applied, nothing else is touched; and a second fire of the slot, after
  a lost status patch or a half-done first attempt, ends the same way with the same Snapshots. It
  assumes the laws of server-side apply and that the names of the slot's Snapshots are different.
\<close>

theorem refire_converges:
  assumes "apply_lawful (ev_apply env)" and "distinct (map fst (fire_writes env sd slot))"
    and "fire_for_targets env sd slot rows = (res, rows')"
  shows "fire_for_targets env sd slot rows' = (res, rows') \<and>
    (\<forall>n. n \<notin> fst ` set (fire_writes env sd slot) \<longrightarrow> rows' n = rows n) \<and>
    (\<forall>out. res = Inr out \<longrightarrow> (\<forall>(n, b) \<in> set (fire_writes env sd slot). rows' n = written env (rows n) b))"
proof -
  let ?ws = "fire_writes env sd slot"
  obtain r where r: "\<And>rows. fire_for_targets env sd slot rows = and_then (run_writes env ?ws rows) (\<lambda>rows. (r, rows))"
    using fire_for_targets_writes by meson
  have res: "res = (case fst (run_writes env ?ws rows) of Inl e \<Rightarrow> Inl e | Inr _ \<Rightarrow> r)"
    and rows': "rows' = snd (run_writes env ?ws rows)"
    using assms(3) unfolding r and_then_result by simp_all
  have again: "run_writes env ?ws rows' = run_writes env ?ws rows"
    unfolding rows' by (rule run_writes_again [OF assms(1,2) fire_writes_live])
  have "fire_for_targets env sd slot rows' = (res, rows')"
    unfolding r and_then_result again using res rows' by simp
  moreover have "rows' n = rows n" if "n \<notin> fst ` set ?ws" for n
    unfolding rows' by (rule run_writes_other [OF that])
  moreover have "rows' n = written env (rows n) b" if ok: "res = Inr out" and w: "(n, b) \<in> set ?ws" for out n b
  proof -
    obtain u where "run_writes env ?ws rows = (Inr u, rows')"
      using res rows' ok by (cases "run_writes env ?ws rows"; cases "fst (run_writes env ?ws rows)") auto
    then show ?thesis using assms(2) w by (rule run_writes_done)
  qed
  ultimately show ?thesis by blast
qed

text \<open>A server whose apply replaces metadata and spec and keeps status and deletion.\<close>

definition apply_ex :: "snapshot option \<Rightarrow> snapshot \<Rightarrow> snapshot" where
  "apply_ex old new =
     (case old of
        None \<Rightarrow> new
      | Some b \<Rightarrow> new\<lparr>s_meta := (s_meta new)\<lparr>m_deletion_timestamp := m_deletion_timestamp (s_meta b)\<rparr>, s_status := s_status b\<rparr>)"

lemma apply_ex_lawful: "apply_lawful apply_ex"
  by (auto simp: apply_lawful_def apply_ex_def split: option.splits)

definition env_of :: "(string \<Rightarrow> string \<Rightarrow> unit + snapshot_policy option) \<Rightarrow> schedule_env" where
  "env_of fetch = \<lparr>ev_fetch_policy = fetch, ev_list_policies = Inr [], ev_match_pvcs = (\<lambda>_. Inr Map.empty),
     ev_repo_defaults = (\<lambda>_ _. Inr (None, None)), ev_fails = (\<lambda>_. False), ev_apply = apply_ex,
     ev_stamp = (\<lambda>_. ''20260101000000'')\<rparr>"

definition schedule_of :: "policy_ref \<Rightarrow> snapshot_schedule" where
  "schedule_of pref = \<lparr>sd_name = ''nightly'', sd_namespace = ''apps'', sd_uid = None, sd_created = None,
     sd_policy_ref = Some pref, sd_policy_selector = None, sd_schedule = nightly, sd_on_schedule_delete = None,
     sd_failed_jobs_history_limit = None\<rparr>"

definition db_ref :: policy_ref where "db_ref = \<lparr>pr_name = ''db'', pr_namespace = None\<rparr>"

definition slot_ex :: "string \<times> snapshot" where
  "slot_ex = (''nightly-20260101000000'', scheduled_backup (schedule_of db_ref)
     \<lparr>mc_name = ''nightly-20260101000000'', mc_source = None, mc_repository = None\<rparr> db_ref None)"

lemma fire_writes_ex:
  "fire_writes (env_of (\<lambda>_ _. Inr (Some (policy_ex [plain_ex])))) (schedule_of db_ref) 0 = [slot_ex]"
  by (simp add: fire_writes_def target_policy_refs_def target_mint_plan_def env_of_def schedule_of_def policy_ex_def
      plain_ex_def expand_sources_def base_name_def scheduled_backup_name_def slot_mint_plan_def fanout_cap_exceeded_def
      FANOUT_CAP_def u64_max_def mint_cells_def is_multi_repo_def policy_default_deletion_policy_def policy_usable_def
      empty_meta_def slot_ex_def db_ref_def)

theorem refire_converges_witness:
  "fire_for_targets (env_of (\<lambda>_ _. Inr (Some (policy_ex [plain_ex])))) (schedule_of db_ref) 0 [fst slot_ex \<mapsto> snd slot_ex] =
     (Inr \<lparr>fo_fanned_out = False, fo_cap_skipped = []\<rparr>, [fst slot_ex \<mapsto> snd slot_ex])"
proof -
  let ?env = "env_of (\<lambda>_ _. Inr (Some (policy_ex [plain_ex])))"
  have law: "apply_lawful (ev_apply ?env)" by (simp add: env_of_def apply_ex_lawful)
  have "fire_for_targets ?env (schedule_of db_ref) 0 Map.empty =
      (Inr \<lparr>fo_fanned_out = False, fo_cap_skipped = []\<rparr>, [fst slot_ex \<mapsto> snd slot_ex])"
    by (simp add: fire_for_targets_def target_policy_refs_def target_mint_plan_def env_of_def schedule_of_def policy_ex_def
        plain_ex_def expand_sources_def base_name_def scheduled_backup_name_def slot_mint_plan_def fanout_cap_exceeded_def
        FANOUT_CAP_def u64_max_def mint_cells_def is_multi_repo_def policy_default_deletion_policy_def policy_usable_def
        empty_meta_def slot_ex_def db_ref_def create_scheduled_backup_def slot_fire_blocked_by_terminating_def
        is_some_and_def apply_ex_def Let_def)
  from refire_converges [OF law _ this] show ?thesis by (simp add: fire_writes_ex)
qed

subsection \<open>What a reconcile deletes\<close>

definition alive :: "row_store \<Rightarrow> string \<Rightarrow> bool" where
  "alive rows n \<longleftrightarrow> (\<exists>b. rows n = Some b \<and> \<not> s_terminating b)"

text \<open>From one store to the next, only rows of a set stop being alive and the others keep their status.\<close>

definition deletes_only :: "string set \<Rightarrow> row_store \<Rightarrow> row_store \<Rightarrow> bool" where
  "deletes_only D rows rows' \<longleftrightarrow>
     (\<forall>n. alive rows n \<and> n \<notin> D \<longrightarrow> alive rows' n \<and> map_option s_status (rows' n) = map_option s_status (rows n))"

lemma deletes_only_refl [simp]: "deletes_only D rows rows"
  by (simp add: deletes_only_def)

lemma deletes_only_trans:
  "deletes_only D rows rows' \<Longrightarrow> deletes_only D' rows' rows'' \<Longrightarrow> deletes_only (D \<union> D') rows rows''"
  by (auto simp: deletes_only_def)

lemma deletes_only_mono: "deletes_only D rows rows' \<Longrightarrow> D \<subseteq> D' \<Longrightarrow> deletes_only D' rows rows'"
  by (auto simp: deletes_only_def)

lemma deletes_only_annotate: "n \<in> D \<Longrightarrow> deletes_only D rows (annotate_then_delete_snapshot now pb n rows)"
  by (auto simp: deletes_only_def alive_def annotate_then_delete_snapshot_def api_delete_def stamp_pruned_by_def
      split: option.splits)

lemma prune_rows_deletes: "deletes_only (set ns) rows (prune_rows env now ns rows)"
proof (induction ns arbitrary: rows)
  case (Cons n ns)
  have "deletes_only (set (n # ns)) rows (prune_rows env now ns rows)"
    using Cons.IH by (rule deletes_only_mono) auto
  moreover have "deletes_only (set (n # ns)) rows
      (prune_rows env now ns (annotate_then_delete_snapshot now PB_FailedHistory n rows))"
    by (rule deletes_only_mono [OF deletes_only_trans [OF deletes_only_annotate [of n "{n}"] Cons.IH]]) auto
  ultimately show ?case by simp
qed simp

lemma stamp_cascade_deletes: "deletes_only {} rows (stamp_cascade env desired n rows)"
  by (auto simp: deletes_only_def alive_def stamp_cascade_def split: option.splits)

lemma fold_stamp_deletes: "deletes_only {} rows (fold (stamp_cascade env desired) ns rows)"
proof (induction ns arbitrary: rows)
  case (Cons n ns)
  from deletes_only_trans [OF stamp_cascade_deletes Cons.IH] show ?case by simp
qed simp

lemma run_writes_deletes:
  assumes "apply_lawful (ev_apply env)"
  shows "deletes_only {} rows (snd (run_writes env ws rows))"
proof (induction ws arbitrary: rows)
  case (Cons w ws)
  obtain n b where w: "w = (n, b)" by fastforce
  have "deletes_only {} rows (rows(n \<mapsto> ev_apply env (rows n) b))"
  proof (cases "rows n")
    case (Some old)
    have "m_deletion_timestamp (s_meta (ev_apply env (Some old) b)) = None" if "m_deletion_timestamp (s_meta old) = None"
      using apply_lawfulD(2) [OF assms, of old b] that by simp
    with Some apply_lawfulD(3) [OF assms, of old b] show ?thesis by (auto simp: deletes_only_def alive_def)
  qed (auto simp: deletes_only_def alive_def)
  from deletes_only_trans [OF this Cons.IH]
  have "deletes_only {} rows (snd (run_writes env ws (rows(n \<mapsto> ev_apply env (rows n) b))))"
    by (simp only: Un_empty_left)
  with Cons.IH w show ?case by (simp del: fun_upd_apply)
qed simp

text \<open>The rows a replacement takes: named by the plan, and unfinished when read before the deletion.\<close>

definition replaced_rows :: "string list \<Rightarrow> row_store \<Rightarrow> string set" where
  "replaced_rows victims rows = {n \<in> set victims. still_replaceable (rows n)}"

lemma still_replaceable_annotate:
  "\<not> still_replaceable (rows m) \<Longrightarrow> \<not> still_replaceable (annotate_then_delete_snapshot now pb n rows m)"
  by (auto simp: still_replaceable_def annotate_then_delete_snapshot_def api_delete_def stamp_pruned_by_def
      split: option.splits if_splits)

lemma replaced_rows_mono:
  "replaced_rows victims (annotate_then_delete_snapshot now pb n rows) \<subseteq> replaced_rows victims rows"
  unfolding replaced_rows_def using still_replaceable_annotate by blast

lemma replace_active_runs_deletes:
  "deletes_only (replaced_rows victims rows) rows (snd (replace_active_runs env now victims rows))"
proof (induction victims arbitrary: rows)
  case (Cons n victims)
  let ?rows = "annotate_then_delete_snapshot now PB_ReplacedRun n rows"
  have skip: "deletes_only (replaced_rows (n # victims) rows) rows (snd (replace_active_runs env now victims rows))"
    using Cons.IH by (rule deletes_only_mono) (auto simp: replaced_rows_def)
  have "deletes_only ({n} \<union> replaced_rows victims ?rows) rows (snd (replace_active_runs env now victims ?rows))"
    by (rule deletes_only_trans [OF deletes_only_annotate Cons.IH]) simp
  moreover have "{n} \<union> replaced_rows victims ?rows \<subseteq> replaced_rows (n # victims) rows" if "still_replaceable (rows n)"
    using that replaced_rows_mono [of victims now PB_ReplacedRun n rows] by (auto simp: replaced_rows_def)
  ultimately show ?case using skip deletes_only_mono by simp
qed simp

lemma fire_slot_deletes:
  assumes "apply_lawful (ev_apply env)"
  shows "deletes_only (replaced_rows victims rows) rows (snd (fire_slot env sd now slot victims nx (status, rows)))"
proof -
  let ?rep = "replace_active_runs env now victims rows"
  obtain r where r: "\<And>rows. fire_for_targets env sd slot rows =
      and_then (run_writes env (fire_writes env sd slot) rows) (\<lambda>rows. (r, rows))"
    using fire_for_targets_writes by meson
  have "deletes_only (replaced_rows victims rows \<union> {}) rows (snd (fire_for_targets env sd slot (snd ?rep)))"
    unfolding r and_then_result using replace_active_runs_deletes run_writes_deletes [OF assms]
    by (intro deletes_only_trans) simp_all
  moreover have "snd (fire_slot env sd now slot victims nx (status, rows)) \<in>
      {snd ?rep, snd (fire_for_targets env sd slot (snd ?rep))}"
    by (auto simp: fire_slot_def split: prod.splits sum.splits option.splits)
  ultimately show ?thesis using replace_active_runs_deletes [of victims rows env now] by auto
qed

lemma housekeeping_deletes:
  "deletes_only (case children of None \<Rightarrow> {} | Some items \<Rightarrow>
       set (failed_snapshots_to_prune rfc3339 items
         (effective_failed_jobs_history_limit (sd_failed_jobs_history_limit sd))))
     rows (housekeeping rfc3339 env sd now children rows)"
proof (cases children)
  case (Some items)
  from deletes_only_trans [OF prune_rows_deletes fold_stamp_deletes] show ?thesis
    by (simp add: Some housekeeping_def propagate_cascade_stamp_def prune_failed_history_def)
qed (simp add: housekeeping_def)

lemma fire_victims:
  assumes "schedule_reconcile cron_next parse_tz inp now pin ar = SA_Fire slot victims nx" "v \<in> set victims"
  shows "sc_concurrency_policy (in_spec inp) = Replace \<and>
    (\<exists>items. in_children inp = Some items \<and> (\<exists>b \<in> set items. name_any b = v \<and> replaceable slot b))"
proof (cases pin)
  case None
  then have "victims = []"
    using assms(1) by (auto simp: schedule_reconcile_def unpinned_reconcile_def Let_def
        split: option.splits sum.splits if_splits)
  with assms(2) show ?thesis by simp
next
  case (Some sp)
  obtain s p where sp: "pin = Some (s, p)" using Some by (cases sp) auto
  from fired_slot_facts [OF assms(1) [unfolded sp]] assms(2) show ?thesis
    by (cases "sc_concurrency_policy (in_spec inp)") auto
qed


text \<open>A due slot of a replacing schedule: its running predecessor goes, the finished one stays.\<close>

definition with_finalizer :: "snapshot \<Rightarrow> snapshot" where
  "with_finalizer b = b\<lparr>s_meta := (s_meta b)\<lparr>m_finalizers := [SNAPSHOT_CLEANUP_FINALIZER]\<rparr>\<rparr>"

definition rows_ex :: row_store where
  "rows_ex = [''db-1'' \<mapsto> with_finalizer (run_at ''db-1'' 100 Running), ''db-0'' \<mapsto> with_finalizer (run_at ''db-0'' 10 Succeeded)]"

definition fire_env_ex :: schedule_env where
  "fire_env_ex = env_of (\<lambda>_ _. Inr (Some (policy_ex [plain_ex])))"

abbreviation cron_daily :: cron_oracle where "cron_daily \<equiv> \<lambda>_ _ a. Some (a + 86400 * nanos)"

definition status_ex :: schedule_status where
  "status_ex = \<lparr>st_pin = Some (200 * nanos, \<lparr>pin_timezone = Some UTC, pin_jitter = None, pin_cron = None\<rparr>), st_last = None\<rparr>"

abbreviation children_ex :: "snapshot list" where
  "children_ex \<equiv> [run_at ''db-1'' 100 Running, run_at ''db-0'' 10 Succeeded]"

lemma input_ex:
  "reconcile_input Some fire_env_ex (schedule_of db_ref) (Some children_ex) (Some children_ex) =
     nightly_input\<lparr>in_seed := ''nightly'', in_rows := Some children_ex\<rparr>"
  by (simp add: reconcile_input_def fire_env_ex_def env_of_def schedule_of_def resolve_effective_schedule_def
      matched_repo_schedule_defaults_def target_policy_refs_def policy_repo_schedule_defaults_def repository_refs_def
      policy_ex_def inherited_timezone_def effective_timezone_def inherited_jitter_def resolve_schedule_jitter_def
      nightly_input_def nightly_def db_ref_def Let_def)

lemma action_ex:
  "schedule_reconcile cron_daily Some (nightly_input\<lparr>in_seed := ''nightly'', in_rows := Some children_ex\<rparr>) (210 * nanos)
     (st_pin status_ex) (st_last status_ex \<noteq> None) =
   SA_Fire (200 * nanos) [''db-1'']
     (Some (\<lparr>pin_timezone = Some UTC, pin_jitter = None, pin_cron = Some ''0 3 * * *''\<rparr>, 86610 * nanos))"
  by (simp add: status_ex_def schedule_reconcile_def pinned_reconcile_def nightly_input_def nightly_def run_at_def
      empty_meta_def empty_spec_def resolve_pinned_slot_def pin_needs_recompute_def is_some_and_def slot_disposition_def
      should_fire_now_def missed_deadline_def num_seconds_def nanos_def classify_active_runs_def classify_run_def
      other_run_check_def slot_blockers_def slot_blocker_def replace_plan_def replace_loop.simps created_before_slot_def
      parked_behind_slot_def REPOSITORY_SLOT_AVAILABLE_CONDITION_def from_timestamp_def next_fire_def ef_window_def
      jitter_window_def from_std_def pin_of_def runs_target_policy_def)

lemma housekeeping_ex:
  "housekeeping (\<lambda>_. None) fire_env_ex (schedule_of db_ref) now (Some children_ex) rows_ex = rows_ex"
  by (simp add: housekeeping_def propagate_cascade_stamp_def children_needing_cascade_stamp_def schedule_of_def
      run_at_def empty_meta_def empty_spec_def effective_on_schedule_delete_def prune_failed_history_def
      failed_snapshots_to_prune_def is_failed_history_def)

lemma gone_ex:
  "\<not> alive (snd (schedule_reconcile_inner cron_daily Some (\<lambda>_. None) fire_env_ex (schedule_of db_ref) (Some children_ex)
       (Some children_ex) (210 * nanos) (status_ex, rows_ex))) ''db-1''"
proof -
  let ?rows = "annotate_then_delete_snapshot (210 * nanos) PB_ReplacedRun ''db-1'' rows_ex"
  have rep: "replace_active_runs fire_env_ex (210 * nanos) [''db-1''] rows_ex = (Inr (), ?rows)"
    by (simp add: fire_env_ex_def env_of_def rows_ex_def still_replaceable_def with_finalizer_def run_at_def empty_meta_def)
  have "\<not> alive ?rows ''db-1''"
    by (simp add: alive_def annotate_then_delete_snapshot_def api_delete_def stamp_pruned_by_def rows_ex_def
        with_finalizer_def run_at_def empty_meta_def)
  moreover have "''db-1'' \<notin> fst ` set (fire_writes fire_env_ex (schedule_of db_ref) (200 * nanos))"
    by (simp add: fire_writes_def target_policy_refs_def target_mint_plan_def fire_env_ex_def env_of_def schedule_of_def policy_ex_def
      plain_ex_def expand_sources_def base_name_def scheduled_backup_name_def slot_mint_plan_def fanout_cap_exceeded_def
      FANOUT_CAP_def u64_max_def mint_cells_def is_multi_repo_def policy_default_deletion_policy_def policy_usable_def
      empty_meta_def db_ref_def)
  moreover obtain r where "\<And>rows. fire_for_targets fire_env_ex (schedule_of db_ref) (200 * nanos) rows =
      and_then (run_writes fire_env_ex (fire_writes fire_env_ex (schedule_of db_ref) (200 * nanos)) rows) (\<lambda>rows. (r, rows))"
    using fire_for_targets_writes by meson
  ultimately have "\<not> alive (snd (fire_for_targets fire_env_ex (schedule_of db_ref) (200 * nanos) ?rows)) ''db-1''"
    by (simp add: and_then_result run_writes_other alive_def)
  then show ?thesis
    unfolding schedule_reconcile_inner_def housekeeping_ex input_ex prod.case Let_def action_ex schedule_action.case
      fire_slot_def rep
    by (auto split: prod.splits sum.splits)
qed


subsection \<open>A policy in another namespace\<close>

text \<open>
  The timing of a schedule is inherited from the policy its \<open>policyRef\<close> names, in the namespace the
  reference gives, and so is the default deletion policy; but a fire reads the policy to expand in the
  schedule's own namespace: a schedule whose policy lives elsewhere resolves its timing and never fires.
\<close>

definition elsewhere_env :: schedule_env where
  "elsewhere_env = env_of (\<lambda>ns n. Inr (if ns = ''db'' then Some (policy_ex [plain_ex]) else None))"

theorem cross_namespace_policy_never_fires:
  "(\<forall>parse_tz. resolve_effective_schedule parse_tz elsewhere_env (schedule_of \<lparr>pr_name = ''app'', pr_namespace = Some ''db''\<rparr>) =
      Resolved UTC None None) \<and>
   fire_for_targets elsewhere_env (schedule_of \<lparr>pr_name = ''app'', pr_namespace = Some ''db''\<rparr>) slot rows =
     (Inl (PolicyNotFound ''app''), rows)"
  by (simp add: resolve_effective_schedule_def matched_repo_schedule_defaults_def target_policy_refs_def
      policy_repo_schedule_defaults_def repository_refs_def elsewhere_env_def env_of_def schedule_of_def policy_ex_def
      inherited_timezone_def effective_timezone_def inherited_jitter_def resolve_schedule_jitter_def nightly_def
      fire_for_targets_def target_mint_plan_def Let_def)

text \<open>A single policy with two repositories can be ambiguous about its time zone.\<close>

theorem single_policy_can_be_ambiguous:
  "effective_timezone Some None [Some ''Europe/Berlin'', Some ''UTC''] = (UTC, Some [''Europe/Berlin'', ''UTC''])"
  by (simp add: effective_timezone_def resolve_tz_def)

end
