(* ===== verification/Digest.thy ===== *)
theory Digest
  imports Naming
begin

text \<open>
  The membership digest a bootstrap mover ships beside a capped listing
  (\<open>crates/mover/src/digest.rs\<close>): building it from the listed ids, the strict decoder, and the
  binary search that answers membership. Base64 is a parameter: \<open>enc\<close> and \<open>dc\<close> of the
  \<open>STANDARD\<close> engine. Bytes are \<open>8 word\<close>; byte strings are ordered lexicographically, as Rust
  orders slices.
\<close>

unbundle bit_operations_syntax

subsection \<open>The wire form\<close>

type_synonym byte = "8 word"

definition DIGEST_BUDGET_BYTES :: nat where
  "DIGEST_BUDGET_BYTES = 448 * 1024"

definition DIGEST_WIDTHS :: "nat list" where
  "DIGEST_WIDTHS = [8, 6, 4]"

datatype digest_algo = Fnv1a64V1 | Unknown_Algo string

record snapshot_id_digest =
  d_algo :: digest_algo
  d_salt :: "64 word"
  d_width :: nat
  d_count :: nat
  d_hashes :: string

datatype digest_error =
    DE_UnknownAlgo string
  | DE_BadWidth nat
  | DE_Base64 string
  | DE_LengthMismatch nat nat nat
  | DE_Unsorted
  | DE_Malformed string

text \<open>The label an algorithm carries on the wire, and how it is read back.\<close>

fun digest_algo_label :: "digest_algo \<Rightarrow> string" where
  "digest_algo_label Fnv1a64V1 = ''fnv1a64-v1''"
| "digest_algo_label (Unknown_Algo raw) = raw"

definition digest_algo_deserialize :: "string \<Rightarrow> digest_algo" where
  "digest_algo_deserialize raw = (if raw = ''fnv1a64-v1'' then Fnv1a64V1 else Unknown_Algo raw)"

subsection \<open>Hashing and building\<close>

text \<open>\<open>u64::to_be_bytes\<close>.\<close>

definition to_be_bytes :: "64 word \<Rightarrow> byte list" where
  "to_be_bytes h = map (\<lambda>i. ucast (drop_bit (8 * (7 - i)) h)) [0..<8]"

definition salted_hash :: "64 word \<Rightarrow> string \<Rightarrow> byte list" where
  "salted_hash salt k =
     to_be_bytes (fnv1a_bytes FNV_OFFSET (to_le_bytes (uint salt) @ str_bytes k))"

definition div_ceil :: "nat \<Rightarrow> nat \<Rightarrow> nat" where
  "div_ceil a b = a div b + (if a mod b = 0 then 0 else 1)"

definition encoded_len :: "nat \<Rightarrow> nat \<Rightarrow> nat" where
  "encoded_len n width = div_ceil (n * width) 3 * 4"

definition digest_build ::
    "(byte list \<Rightarrow> string) \<Rightarrow> string list \<Rightarrow> 64 word \<Rightarrow> nat \<Rightarrow> snapshot_id_digest option" where
  "digest_build enc ids salt budget_bytes =
     (let full = map (salted_hash salt) ids
      in case List.find (\<lambda>w. encoded_len (length full) w \<le> budget_bytes) DIGEST_WIDTHS of
           None \<Rightarrow> None
         | Some width \<Rightarrow>
             (let packed = concat (map (take width) (sort full))
              in Some \<lparr>d_algo = Fnv1a64V1, d_salt = salt, d_width = width, d_count = length full,
                   d_hashes = enc packed\<rparr>))"

subsection \<open>Decoding\<close>

record decoded_digest =
  dd_salt :: "64 word"
  dd_width :: nat
  dd_bytes :: "byte list"

text \<open>\<open>slice::chunks_exact\<close>: the incomplete tail is left out. Widths are never zero.\<close>

function chunks_exact :: "nat \<Rightarrow> 'a list \<Rightarrow> 'a list list" where
  "chunks_exact w xs =
     (if w = 0 \<or> length xs < w then [] else take w xs # chunks_exact w (drop w xs))"
  by pat_completeness auto
termination by (relation "measure (\<lambda>(w, xs). length xs)") auto

declare chunks_exact.simps [simp del]

definition digest_decode ::
    "(string \<Rightarrow> string + byte list) \<Rightarrow> snapshot_id_digest \<Rightarrow> digest_error + decoded_digest" where
  "digest_decode dc d =
     (case d_algo d of
        Unknown_Algo raw \<Rightarrow> Inl (DE_UnknownAlgo raw)
      | Fnv1a64V1 \<Rightarrow>
          if d_width d \<notin> set DIGEST_WIDTHS then Inl (DE_BadWidth (d_width d))
          else (case dc (d_hashes d) of
                  Inl e \<Rightarrow> Inl (DE_Base64 e)
                | Inr bytes \<Rightarrow>
                    if checked_mul_u64 (d_count d) (d_width d) \<noteq> Some (length bytes) then
                      Inl (DE_LengthMismatch (length bytes) (d_count d) (d_width d))
                    else (let cs = chunks_exact (d_width d) bytes
                          in if list_ex (\<lambda>(a, b). b < a) (zip cs (tl cs)) then Inl DE_Unsorted
                             else Inr \<lparr>dd_salt = d_salt d, dd_width = d_width d, dd_bytes = bytes\<rparr>)))"

datatype listed_ids = Digest snapshot_id_digest | Invalid_Ids string

fun listed_ids_decode ::
    "(string \<Rightarrow> string + byte list) \<Rightarrow> listed_ids \<Rightarrow> digest_error + decoded_digest" where
  "listed_ids_decode dc (Digest d) = digest_decode dc d"
| "listed_ids_decode dc (Invalid_Ids reason) = Inl (DE_Malformed reason)"

subsection \<open>Membership\<close>

definition digest_len :: "decoded_digest \<Rightarrow> nat" where
  "digest_len d = length (dd_bytes d) div dd_width d"

definition digest_is_empty :: "decoded_digest \<Rightarrow> bool" where
  "digest_is_empty d \<longleftrightarrow> dd_bytes d = []"

text \<open>The loop of \<open>contains\<close>: the chunk at an index, and the halving of the interval.\<close>

definition chunk_at :: "nat \<Rightarrow> byte list \<Rightarrow> nat \<Rightarrow> byte list" where
  "chunk_at w bytes i = take w (drop (i * w) bytes)"

function digest_search :: "nat \<Rightarrow> byte list \<Rightarrow> byte list \<Rightarrow> nat \<Rightarrow> nat \<Rightarrow> bool" where
  "digest_search w bytes needle lo hi =
     (if lo < hi then
        (let mid = lo + (hi - lo) div 2;
             at = chunk_at w bytes mid
         in if at < needle then digest_search w bytes needle (mid + 1) hi
            else if needle < at then digest_search w bytes needle lo mid
            else True)
      else False)"
  by pat_completeness auto
termination by (relation "measure (\<lambda>(w, bytes, needle, lo, hi). hi - lo)") auto

declare digest_search.simps [simp del]

definition digest_contains :: "decoded_digest \<Rightarrow> string \<Rightarrow> bool" where
  "digest_contains d k =
     (let needle = take (dd_width d) (salted_hash (dd_salt d) k)
      in digest_search (dd_width d) (dd_bytes d) needle 0 (digest_len d))"

subsection \<open>Binary search is membership\<close>

lemma digest_search_iff:
  assumes "\<And>i j. i \<le> j \<Longrightarrow> j < n \<Longrightarrow> chunk_at w bytes i \<le> chunk_at w bytes j" and "hi \<le> n"
  shows "digest_search w bytes needle lo hi \<longleftrightarrow>
    (\<exists>i. lo \<le> i \<and> i < hi \<and> chunk_at w bytes i = needle)"
  using assms(2)
proof (induction "hi - lo" arbitrary: lo hi rule: less_induct)
  case less
  let ?mid = "lo + (hi - lo) div 2"
  consider "\<not> lo < hi" | "lo < hi" "chunk_at w bytes ?mid < needle"
    | "lo < hi" "needle < chunk_at w bytes ?mid" | "lo < hi" "chunk_at w bytes ?mid = needle"
    by fastforce
  then show ?case
  proof cases
    case 1
    then show ?thesis by (subst digest_search.simps) auto
  next
    case 2
    then have mid: "?mid < hi" by auto
    from 2 have "digest_search w bytes needle lo hi = digest_search w bytes needle (?mid + 1) hi"
      by (subst digest_search.simps) (simp add: Let_def)
    also have "\<dots> \<longleftrightarrow> (\<exists>i. ?mid + 1 \<le> i \<and> i < hi \<and> chunk_at w bytes i = needle)"
      using 2 less by simp
    also have "\<dots> \<longleftrightarrow> (\<exists>i. lo \<le> i \<and> i < hi \<and> chunk_at w bytes i = needle)"
    proof -
      have "chunk_at w bytes i \<noteq> needle" if "i \<le> ?mid" for i
        using assms(1) [OF that] 2 less.prems by (metis leD less_le_trans mid)
      then have "?mid + 1 \<le> i \<longleftrightarrow> lo \<le> i" if "chunk_at w bytes i = needle" for i
        using that by (metis Suc_eq_plus1 Suc_leI le_add1 add_leD1 not_le_imp_less order.trans)
      then show ?thesis by blast
    qed
    finally show ?thesis .
  next
    case 3
    then have mid: "?mid < hi" and "\<not> chunk_at w bytes ?mid < needle" by auto
    with 3 have "digest_search w bytes needle lo hi = digest_search w bytes needle lo ?mid"
      by (subst digest_search.simps) (simp add: Let_def)
    also have "\<dots> \<longleftrightarrow> (\<exists>i. lo \<le> i \<and> i < ?mid \<and> chunk_at w bytes i = needle)"
      using 3 less mid by simp
    also have "\<dots> \<longleftrightarrow> (\<exists>i. lo \<le> i \<and> i < hi \<and> chunk_at w bytes i = needle)"
    proof -
      have "chunk_at w bytes i \<noteq> needle" if "?mid \<le> i" "i < hi" for i
        using assms(1) [OF that(1)] that(2) 3(2) less.prems by (metis leD less_le_trans)
      then have "i < ?mid \<longleftrightarrow> i < hi" if "chunk_at w bytes i = needle" for i
        using that mid by (metis leI less_trans)
      then show ?thesis by blast
    qed
    finally show ?thesis .
  next
    case 4
    then have "digest_search w bytes needle lo hi" by (subst digest_search.simps) (simp add: Let_def)
    with 4 show ?thesis by (auto intro!: exI [of _ ?mid])
  qed
qed

text \<open>The chunks of a packed byte string, by index and all of them.\<close>

lemma length_chunks_exact: "0 < w \<Longrightarrow> length (chunks_exact w xs) = length xs div w"
proof (induction w xs rule: chunks_exact.induct)
  case (1 w xs)
  then show ?case by (subst chunks_exact.simps) (simp add: le_div_geq)
qed

lemma chunks_exact_nth:
  "0 < w \<Longrightarrow> i < length xs div w \<Longrightarrow> chunks_exact w xs ! i = take w (drop (i * w) xs)"
proof (induction w xs arbitrary: i rule: chunks_exact.induct)
  case (1 w xs)
  then have long: "\<not> length xs < w" by auto
  show ?case
  proof (cases i)
    case 0
    then show ?thesis using 1 long by (subst chunks_exact.simps) simp
  next
    case (Suc j)
    then have "j < length (drop w xs) div w"
      using 1(2,3) long by (simp add: le_div_geq)
    then have "chunks_exact w (drop w xs) ! j = take w (drop (j * w) (drop w xs))"
      using 1 long by simp
    then show ?thesis using Suc 1(2) long by (subst chunks_exact.simps) (simp add: add.commute)
  qed
qed

lemma chunks_exact_concat:
  assumes "0 < w" and "\<And>x. x \<in> set xs \<Longrightarrow> length x = w"
  shows "chunks_exact w (concat xs) = xs"
  using assms(2)
proof (induction xs)
  case Nil
  then show ?case using assms(1) by (subst chunks_exact.simps) simp
next
  case (Cons x xs)
  then show ?case using assms(1) by (subst chunks_exact.simps) simp
qed

lemma chunk_at_nth:
  "0 < w \<Longrightarrow> i < length bytes div w \<Longrightarrow> chunk_at w bytes i = chunks_exact w bytes ! i"
  by (simp add: chunk_at_def chunks_exact_nth)

text \<open>No adjacent pair out of order is sortedness.\<close>

lemma adjacent_sorted:
  "\<not> list_ex (\<lambda>(a, b). b < a) (zip xs (tl xs)) \<longleftrightarrow> sorted (xs :: 'a::linorder list)"
proof (induction xs rule: induct_list012)
  case (3 x y zs)
  then show ?case by (simp add: not_less sorted2 del: sorted_wrt.simps)
qed simp_all

definition decoded_wf :: "decoded_digest \<Rightarrow> bool" where
  "decoded_wf d \<longleftrightarrow> 0 < dd_width d \<and> sorted (chunks_exact (dd_width d) (dd_bytes d))"

lemma digest_decode_wf:
  assumes "digest_decode dc d = Inr dd"
  shows "decoded_wf dd"
proof -
  have "dd_width dd \<in> set DIGEST_WIDTHS \<and> sorted (chunks_exact (dd_width dd) (dd_bytes dd))"
    using assms
    by (auto simp: digest_decode_def Let_def adjacent_sorted
        split: digest_algo.splits if_splits sum.splits)
  then show ?thesis by (auto simp: decoded_wf_def DIGEST_WIDTHS_def)
qed

lemma digest_contains_iff:
  assumes "decoded_wf d"
  shows "digest_contains d k \<longleftrightarrow>
    take (dd_width d) (salted_hash (dd_salt d) k) \<in> set (chunks_exact (dd_width d) (dd_bytes d))"
proof -
  let ?cs = "chunks_exact (dd_width d) (dd_bytes d)" and ?n = "digest_len d"
  have w: "0 < dd_width d" and sorted: "sorted ?cs" using assms by (simp_all add: decoded_wf_def)
  have n: "length ?cs = ?n" by (simp add: length_chunks_exact w digest_len_def)
  have at: "chunk_at (dd_width d) (dd_bytes d) i = ?cs ! i" if "i < ?n" for i
    using that w by (simp add: chunk_at_nth digest_len_def)
  have "digest_contains d k \<longleftrightarrow>
      (\<exists>i. 0 \<le> i \<and> i < ?n \<and> chunk_at (dd_width d) (dd_bytes d) i =
         take (dd_width d) (salted_hash (dd_salt d) k))"
    unfolding digest_contains_def Let_def
    by (rule digest_search_iff [where n = ?n]) (use sorted n at in \<open>auto intro: sorted_nth_mono\<close>)
  also have "\<dots> \<longleftrightarrow> take (dd_width d) (salted_hash (dd_salt d) k) \<in> set ?cs"
    using at n by (auto simp: in_set_conv_nth)
  finally show ?thesis .
qed

subsection \<open>What a built digest holds\<close>

lemma take_lex_mono:
  fixes xs ys :: "'a::linorder list"
  shows "xs \<le> ys \<Longrightarrow> take w xs \<le> take w ys"
proof (induction xs arbitrary: ys w)
  case (Cons x xs)
  then show ?case by (cases ys; cases w) auto
qed simp

lemma sorted_map_take: "sorted (xs :: 'a::linorder list list) \<Longrightarrow> sorted (map (take w) xs)"
  by (induction xs) (auto intro: take_lex_mono)

lemma length_salted_hash [simp]: "length (salted_hash salt k) = 8"
  by (simp add: salted_hash_def to_be_bytes_def)

definition digest_holds :: "decoded_digest \<Rightarrow> string list \<Rightarrow> bool" where
  "digest_holds d ids \<longleftrightarrow> decoded_wf d \<and> dd_width d \<le> 8 \<and>
     chunks_exact (dd_width d) (dd_bytes d) =
       map (take (dd_width d)) (sort (map (salted_hash (dd_salt d)) ids))"

lemma digest_holds_len: "digest_holds d ids \<Longrightarrow> digest_len d = length ids"
  using length_chunks_exact [of "dd_width d" "dd_bytes d"]
  by (simp add: digest_holds_def decoded_wf_def digest_len_def)

lemma digest_holds_contains:
  assumes "digest_holds d ids"
  shows "digest_contains d k \<longleftrightarrow>
    (\<exists>i \<in> set ids. take (dd_width d) (salted_hash (dd_salt d) i) =
                  take (dd_width d) (salted_hash (dd_salt d) k))"
  using assms by (auto simp: digest_holds_def digest_contains_iff image_iff eq_commute)

lemma encoded_len_bound: "n * w \<le> encoded_len n w"
proof -
  have "n * w \<le> 3 * div_ceil (n * w) 3"
    using div_mult_mod_eq [of "n * w" 3] mod_less_divisor [of 3 "n * w"]
    by (auto simp: div_ceil_def)
  then show ?thesis by (simp add: encoded_len_def)
qed

lemma length_concat_uniform:
  "(\<And>x. x \<in> set xs \<Longrightarrow> length x = w) \<Longrightarrow> length (concat xs) = length xs * w"
  by (induction xs) auto

lemma digest_build_decode:
  assumes built: "digest_build enc ids salt budget = Some d"
    and codec: "\<And>bs. dc (enc bs) = Inr bs" and budget: "budget \<le> u64_max"
  shows "\<exists>dd. digest_decode dc d = Inr dd \<and> digest_holds dd ids"
proof -
  let ?full = "map (salted_hash salt) ids"
  obtain w where find: "List.find (\<lambda>w. encoded_len (length ids) w \<le> budget) DIGEST_WIDTHS = Some w"
    and d: "d = \<lparr>d_algo = Fnv1a64V1, d_salt = salt, d_width = w, d_count = length ids,
              d_hashes = enc (concat (map (take w) (sort ?full)))\<rparr>"
    using built by (auto simp: digest_build_def Let_def split: option.splits)
  have w: "w \<in> set DIGEST_WIDTHS" and fits: "encoded_len (length ids) w \<le> budget"
    using find by (auto simp: find_Some_iff)
  then have w8: "0 < w" "w \<le> 8" by (auto simp: DIGEST_WIDTHS_def)
  let ?cs = "map (take w) (sort ?full)"
  have lens: "length c = w" if "c \<in> set ?cs" for c using that w8 by auto
  have cs: "chunks_exact w (concat ?cs) = ?cs" by (rule chunks_exact_concat [OF w8(1) lens])
  have "length (concat ?cs) = length ids * w"
    using length_concat_uniform [OF lens] by (simp only: length_map length_sort)
  then have len: "checked_mul_u64 (length ids) w = Some (length (concat ?cs))"
    using encoded_len_bound [of "length ids" w] fits budget by (simp add: checked_mul_u64_def)
  have sorted: "sorted ?cs" by (simp add: sorted_map_take)
  let ?dd = "\<lparr>dd_salt = salt, dd_width = w, dd_bytes = concat ?cs\<rparr>"
  have "digest_decode dc d = Inr ?dd"
    using w codec len sorted cs by (simp add: digest_decode_def d Let_def adjacent_sorted)
  moreover have "digest_holds ?dd ids"
    using w8 sorted cs by (simp add: digest_holds_def decoded_wf_def)
  ultimately show ?thesis by blast
qed

text \<open>
  The interface the catalog planner relies on: a set that may answer \<open>True\<close> for an id that was
  not listed, and never answers \<open>False\<close> for one that was.
\<close>

locale one_sided_set =
  fixes member :: "'d \<Rightarrow> 'k \<Rightarrow> bool" and holds :: "'d \<Rightarrow> 'k list \<Rightarrow> bool"
  assumes no_false_negative: "holds d ks \<Longrightarrow> k \<in> set ks \<Longrightarrow> member d k"
begin

lemma refuted_is_absent: "holds d ks \<Longrightarrow> \<not> member d k \<Longrightarrow> k \<notin> set ks"
  using no_false_negative by blast

lemma listing_covered: "holds d ks \<Longrightarrow> set xs \<subseteq> set ks \<Longrightarrow> list_all (member d) xs"
  using no_false_negative by (auto simp: list_all_iff)

end

interpretation id_digest: one_sided_set digest_contains digest_holds
  by unfold_locales (auto simp: digest_holds_contains)

text \<open>
  C32: a digest built over a listing decodes, reports as many ids as were listed, contains every
  listed id, and answers \<open>False\<close> only for ids that were not listed; a \<open>True\<close> for an unlisted id
  means that its truncated hash equals that of a listed one.
\<close>

theorem digest_has_no_false_negatives:
  assumes "digest_build enc ids salt budget = Some d"
    and "\<forall>bs. dc (enc bs) = Inr bs" and "budget \<le> u64_max"
  shows "\<exists>dd. listed_ids_decode dc (Digest d) = Inr dd \<and> digest_len dd = length ids \<and>
    (\<forall>k \<in> set ids. digest_contains dd k) \<and>
    (\<forall>k. \<not> digest_contains dd k \<longrightarrow> k \<notin> set ids) \<and>
    (\<forall>k. digest_contains dd k \<longleftrightarrow> (\<exists>i \<in> set ids.
       take (d_width d) (salted_hash salt i) = take (d_width d) (salted_hash salt k)))"
proof -
  obtain dd where dd: "digest_decode dc d = Inr dd" "digest_holds dd ids"
    using digest_build_decode [OF assms(1) _ assms(3), of dc] assms(2) by blast
  have "dd_salt dd = d_salt d \<and> dd_width dd = d_width d" and "d_salt d = salt"
    using dd(1) assms(1)
    by (auto simp: digest_decode_def digest_build_def Let_def
        split: digest_algo.splits if_splits sum.splits option.splits)
  with dd show ?thesis
    by (intro exI [of _ dd])
       (auto simp: digest_holds_len digest_holds_contains dest: id_digest.no_false_negative)
qed

text \<open>A byte string as a string and back, in the place of base64.\<close>

definition plain_enc :: "byte list \<Rightarrow> string" where
  "plain_enc bs = map (\<lambda>b. char_of (unat b)) bs"

definition plain_dec :: "string \<Rightarrow> string + byte list" where
  "plain_dec s = Inr (map of_char s)"

lemma plain_codec: "plain_dec (plain_enc bs) = Inr bs"
proof -
  have "of_char (char_of (unat b) :: char) = b" for b :: byte
  proof -
    have "unat b < 256" using unsigned_less [of b] by simp
    then have "(of_char (char_of (unat b) :: char) :: nat) = unat b" by simp
    then show ?thesis by (metis of_nat_of_char of_nat_unat ucast_id)
  qed
  then show ?thesis by (simp add: plain_enc_def plain_dec_def comp_def)
qed

lemma digest_build_fits: "encoded_len (length ids) 8 \<le> budget \<Longrightarrow> \<exists>d. digest_build enc ids salt budget = Some d"
  by (simp add: digest_build_def DIGEST_WIDTHS_def Let_def)

theorem digest_has_no_false_negatives_witness:
  "\<exists>d dd. digest_build plain_enc [''k1'', ''k2''] 7 DIGEST_BUDGET_BYTES = Some d \<and>
     listed_ids_decode plain_dec (Digest d) = Inr dd \<and> digest_len dd = 2 \<and>
     digest_contains dd ''k1'' \<and> digest_contains dd ''k2''"
proof -
  obtain d where d: "digest_build plain_enc [''k1'', ''k2''] 7 DIGEST_BUDGET_BYTES = Some d"
    using digest_build_fits [of "[''k1'', ''k2'']"]
    by (fastforce simp: encoded_len_def div_ceil_def DIGEST_BUDGET_BYTES_def)
  show ?thesis
    using digest_has_no_false_negatives [OF d, of plain_dec] plain_codec d
    by (auto simp: DIGEST_BUDGET_BYTES_def u64_max_def)
qed

end
