(* ===== verification/Listing_Window.thy ===== *)
theory Listing_Window
  imports Digest "HOL-Library.AList"
begin

text \<open>
  What a bootstrap mover makes of a repository listing before the controller sees it
  (\<open>crates/mover/src/bootstrap.rs\<close>, the catalog part of \<open>run_bootstrap\<close> in
  \<open>crates/mover/src/main.rs\<close>): the foreign-cluster prefilter, the membership digest, the fairly
  ordered and capped window, slimmed entries, and the size backstop of the result. Hostname
  classification is \<open>crates/api/src/identity.rs\<close>, the recorded-identity tag
  \<open>crates/api/src/recorded.rs\<close>. JSON is a parameter: parsing a tag value, reading its schema and
  its fields, and writing one.
\<close>

subsection \<open>Hostname classes\<close>

datatype host_class = HC_Bare string | HC_OwnCluster string | HC_ForeignCluster string

text \<open>\<open>str::split_once\<close> at the first occurrence of a character.\<close>

definition split_once :: "char \<Rightarrow> string \<Rightarrow> (string \<times> string) option" where
  "split_once c s =
     (if c \<in> set s then Some (takeWhile (\<lambda>x. x \<noteq> c) s, tl (dropWhile (\<lambda>x. x \<noteq> c) s)) else None)"

definition classify_hostname :: "string \<Rightarrow> string option \<Rightarrow> host_class" where
  "classify_hostname hostname my_cluster =
     (case my_cluster of
        None \<Rightarrow> HC_Bare hostname
      | Some c \<Rightarrow>
          if c = [] then HC_Bare hostname
          else (case split_once (CHR ''.'') hostname of
                  None \<Rightarrow> HC_Bare hostname
                | Some (namespace, suffix) \<Rightarrow>
                    if namespace = [] \<or> suffix = [] then HC_Bare hostname
                    else if suffix = c then HC_OwnCluster namespace
                    else HC_ForeignCluster suffix))"

subsection \<open>The recorded-identity tag\<close>

definition KOPIUR_META_TAG :: string where
  "KOPIUR_META_TAG = ''kopiur-meta''"

definition KOPIUR_META_SCHEMA_V1 :: int where
  "KOPIUR_META_SCHEMA_V1 = 1"

datatype meta_tag_decode =
    MT_Absent | MT_Decoded recorded_meta | MT_UnsupportedSchema int | MT_Malformed

text \<open>
  The JSON library: \<open>from_str\<close>, \<open>value.get("schema").as_i64()\<close>, \<open>from_value\<close> and
  \<open>to_string\<close>. The reason carried by \<open>Malformed\<close> is diagnostic text and left out.
\<close>

record 'j json_lib =
  js_from_str :: "string \<Rightarrow> 'j option"
  js_schema :: "'j \<Rightarrow> int option"
  js_from_value :: "'j \<Rightarrow> recorded_meta option"
  js_to_string :: "recorded_meta \<Rightarrow> string"

definition decode_meta_tag :: "'j json_lib \<Rightarrow> string_map \<Rightarrow> meta_tag_decode" where
  "decode_meta_tag js tags =
     (case or_else (tags (''tag:'' @ KOPIUR_META_TAG)) (tags KOPIUR_META_TAG) of
        None \<Rightarrow> MT_Absent
      | Some v \<Rightarrow>
          (case js_from_str js v of
             None \<Rightarrow> MT_Malformed
           | Some parsed \<Rightarrow>
               (case js_schema js parsed of
                  None \<Rightarrow> MT_Malformed
                | Some schema \<Rightarrow>
                    if KOPIUR_META_SCHEMA_V1 < schema then MT_UnsupportedSchema schema
                    else (case js_from_value js parsed of
                            Some m \<Rightarrow> MT_Decoded m
                          | None \<Rightarrow> MT_Malformed))))"

definition encode_meta_tag :: "'j json_lib \<Rightarrow> recorded_meta \<Rightarrow> string" where
  "encode_meta_tag js m = js_to_string js m"

text \<open>\<open>str::is_char_boundary\<close>: the byte at the index does not continue a UTF-8 sequence.\<close>

definition is_char_boundary :: "string \<Rightarrow> nat \<Rightarrow> bool" where
  "is_char_boundary s i \<longleftrightarrow>
     i = 0 \<or> i = length s \<or> (i < length s \<and> \<not> (128 \<le> (of_char (s ! i) :: nat) \<and> (of_char (s ! i) :: nat) < 192))"

fun floor_char_boundary :: "string \<Rightarrow> nat \<Rightarrow> nat" where
  "floor_char_boundary s 0 = 0"
| "floor_char_boundary s (Suc e) =
     (if is_char_boundary s (Suc e) then Suc e else floor_char_boundary s e)"

definition truncate_utf8 :: "string \<Rightarrow> nat \<Rightarrow> string" where
  "truncate_utf8 s max_bytes =
     (if length s \<le> max_bytes then s else take (floor_char_boundary s max_bytes) s)"

subsection \<open>Preparing the listing\<close>

definition MAX_RETURNED_SNAPSHOTS :: nat where
  "MAX_RETURNED_SNAPSHOTS = 1000"

definition window_cap :: "nat option \<Rightarrow> nat" where
  "window_cap max_returned_snapshots =
     (case max_returned_snapshots of Some n \<Rightarrow> max n 1 | None \<Rightarrow> MAX_RETURNED_SNAPSHOTS)"

fun prefilter_loop ::
    "string \<Rightarrow> snapshot_list_entry list \<Rightarrow> snapshot_list_entry list \<Rightarrow> int \<Rightarrow>
     snapshot_list_entry list \<times> int" where
  "prefilter_loop cluster [] kept dropped = (kept, dropped)"
| "prefilter_loop cluster (e # es) kept dropped =
     (case classify_hostname (le_host e) (Some cluster) of
        HC_ForeignCluster _ \<Rightarrow> prefilter_loop cluster es kept (dropped + 1)
      | HC_Bare _ \<Rightarrow> prefilter_loop cluster es (kept @ [e]) dropped
      | HC_OwnCluster _ \<Rightarrow> prefilter_loop cluster es (kept @ [e]) dropped)"

definition apply_foreign_prefilter ::
    "snapshot_list_entry list \<Rightarrow> string option \<Rightarrow> snapshot_list_entry list \<times> int" where
  "apply_foreign_prefilter listing prefilter_cluster =
     (case prefilter_cluster of
        None \<Rightarrow> (listing, 0)
      | Some cluster \<Rightarrow> prefilter_loop cluster listing [] 0)"

text \<open>
  \<open>order_for_window\<close>: ranks within each identity, newest first, then the whole listing by rank.
  \<open>Reverse(end_time)\<close> is the negated instant.
\<close>

definition entry_identity :: "snapshot_list_entry \<Rightarrow> string \<times> string \<times> string" where
  "entry_identity e = (le_user_name e, le_host e, le_path e)"

definition newest_first :: "snapshot_list_entry \<Rightarrow> int \<times> string" where
  "newest_first e = (- le_end_time e, le_id e)"

fun rank_loop :: "snapshot_list_entry list \<Rightarrow> nat list \<Rightarrow> nat list \<Rightarrow> nat list" where
  "rank_loop listing (prev # cur # rest) rank =
     rank_loop listing (cur # rest)
       (if entry_identity (listing ! prev) = entry_identity (listing ! cur)
        then rank[cur := rank ! prev + 1] else rank)"
| "rank_loop listing _ rank = rank"

definition window_ranks :: "snapshot_list_entry list \<Rightarrow> nat list" where
  "window_ranks listing =
     (let by_identity = sort_key (\<lambda>i. (entry_identity (listing ! i), newest_first (listing ! i)))
            [0..<length listing]
      in rank_loop listing by_identity (replicate (length listing) 0))"

definition order_for_window :: "snapshot_list_entry list \<Rightarrow> snapshot_list_entry list" where
  "order_for_window listing =
     map snd (sort_key (\<lambda>(r, e). (r, newest_first e)) (zip (window_ranks listing) listing))"

text \<open>
  Logical bytes: per source path the newest entry, the first listed on a tie; sizes and their sum
  saturate at \<open>i64::MAX\<close>. The sum does not depend on the map's iteration order.
\<close>

definition i64_max :: int where
  "i64_max = 2 ^ 63 - 1"

definition saturating_add_i64 :: "int \<Rightarrow> int \<Rightarrow> int" where
  "saturating_add_i64 a b = max (- (2 ^ 63)) (min i64_max (a + b))"

fun newest_per_path ::
    "snapshot_list_entry list \<Rightarrow> (string \<times> snapshot_list_entry) list \<Rightarrow>
     (string \<times> snapshot_list_entry) list" where
  "newest_per_path [] m = m"
| "newest_per_path (e # es) m =
     (case map_of m (le_path e) of
        Some prev \<Rightarrow>
          if le_end_time e \<le> le_end_time prev then newest_per_path es m
          else newest_per_path es (AList.update (le_path e) e m)
      | None \<Rightarrow> newest_per_path es (AList.update (le_path e) e m))"

definition logical_bytes_under_management :: "snapshot_list_entry list \<Rightarrow> int" where
  "logical_bytes_under_management listing =
     foldl saturating_add_i64 0
       (map (\<lambda>(_, e). min (int (le_total_size e)) i64_max) (newest_per_path listing []))"

definition DESCRIPTION_WIRE_CAP_BYTES :: nat where
  "DESCRIPTION_WIRE_CAP_BYTES = 1024"

definition META_TAG_WIRE_CAP_BYTES :: nat where
  "META_TAG_WIRE_CAP_BYTES = 4096"

definition normalize_meta_tags :: "'j json_lib \<Rightarrow> string_map \<Rightarrow> string_map" where
  "normalize_meta_tags js tags =
     (case decode_meta_tag js tags of
        MT_Absent \<Rightarrow> Map.empty
      | MT_Decoded m \<Rightarrow> [KOPIUR_META_TAG \<mapsto> encode_meta_tag js m]
      | _ \<Rightarrow>
          (let raw = unwrap_or (or_else (tags (''tag:'' @ KOPIUR_META_TAG)) (tags KOPIUR_META_TAG)) []
           in [KOPIUR_META_TAG \<mapsto> truncate_utf8 raw META_TAG_WIRE_CAP_BYTES]))"

definition slim_catalog_entry :: "'j json_lib \<Rightarrow> snapshot_list_entry \<Rightarrow> snapshot_list_entry" where
  "slim_catalog_entry js e =
     (let e = (if DESCRIPTION_WIRE_CAP_BYTES < length (le_description e)
               then e\<lparr>le_description := truncate_utf8 (le_description e) DESCRIPTION_WIRE_CAP_BYTES\<rparr>
               else e)
      in e\<lparr>le_summ_incomplete := None, le_retention_reason := [],
           le_tags := normalize_meta_tags js (le_tags e)\<rparr>)"

record prepared_catalog =
  pc_entries :: "snapshot_list_entry list"
  pc_truncated :: bool
  pc_foreign_suffix_dropped :: int
  pc_listed_ids :: "listed_ids option"
  pc_logical_bytes :: int

definition prepare_catalog_entries ::
    "'j json_lib \<Rightarrow> (byte list \<Rightarrow> string) \<Rightarrow> snapshot_list_entry list \<Rightarrow> string option \<Rightarrow> nat \<Rightarrow>
     64 word \<Rightarrow> prepared_catalog" where
  "prepare_catalog_entries js enc listing prefilter_cluster cap salt =
     (let (listing, dropped) = apply_foreign_prefilter listing prefilter_cluster;
          listed = map_option Digest (digest_build enc (map le_id listing) salt DIGEST_BUDGET_BYTES);
          bytes = logical_bytes_under_management listing;
          listing = order_for_window listing;
          truncated = (cap < length listing);
          listing = (if truncated then take cap listing else listing)
      in \<lparr>pc_entries = map (slim_catalog_entry js) listing, pc_truncated = truncated,
          pc_foreign_suffix_dropped = dropped, pc_listed_ids = listed, pc_logical_bytes = bytes\<rparr>)"

subsection \<open>The bootstrap result\<close>

text \<open>
  \<open>BootstrapResult\<close>, the fields the catalog reads. \<open>run_bootstrap\<close> fills them: no count when the
  listing was skipped, no window and no membership when the catalog was not scanned.
\<close>

record bootstrap_result =
  br_snapshot_count :: "int option"
  br_snapshots :: "snapshot_list_entry list"
  br_snapshots_truncated :: bool
  br_foreign_suffix_dropped :: int
  br_listed_ids :: "listed_ids option"
  br_logical_bytes :: "int option"

record bootstrap_op =
  bo_scan_catalog :: bool
  bo_max_returned_snapshots :: "nat option"
  bo_catalog_foreign_prefilter_cluster :: "string option"

definition bootstrap_catalog_result ::
    "'j json_lib \<Rightarrow> (byte list \<Rightarrow> string) \<Rightarrow> bootstrap_op \<Rightarrow> snapshot_list_entry list option \<Rightarrow>
     64 word \<Rightarrow> bootstrap_result" where
  "bootstrap_catalog_result js enc op listing salt =
     (let n = map_option (\<lambda>l. int (length l)) listing;
          catalog = (case (bo_scan_catalog op, listing) of
             (True, Some listing) \<Rightarrow>
               Some (prepare_catalog_entries js enc listing (bo_catalog_foreign_prefilter_cluster op)
                 (window_cap (bo_max_returned_snapshots op)) salt)
           | _ \<Rightarrow> None)
      in case catalog of
           Some p \<Rightarrow> \<lparr>br_snapshot_count = n, br_snapshots = pc_entries p,
             br_snapshots_truncated = pc_truncated p,
             br_foreign_suffix_dropped = pc_foreign_suffix_dropped p,
             br_listed_ids = pc_listed_ids p, br_logical_bytes = Some (pc_logical_bytes p)\<rparr>
         | None \<Rightarrow> \<lparr>br_snapshot_count = n, br_snapshots = [], br_snapshots_truncated = False,
             br_foreign_suffix_dropped = 0, br_listed_ids = None, br_logical_bytes = None\<rparr>)"

definition RESULT_SIZE_BUDGET_BYTES :: nat where
  "RESULT_SIZE_BUDGET_BYTES = 900 * 1024"

text \<open>The backstop's loop; \<open>serialized_len\<close> is the length of the JSON rendering.\<close>

function enforce_result_size_budget ::
    "(bootstrap_result \<Rightarrow> nat) \<Rightarrow> nat \<Rightarrow> bootstrap_result \<Rightarrow> bootstrap_result" where
  "enforce_result_size_budget serialized_len budget_bytes result =
     (if br_snapshots result \<noteq> [] \<and> budget_bytes < serialized_len result then
        (let len = length (br_snapshots result);
             drp = max (len div 8) 1
         in enforce_result_size_budget serialized_len budget_bytes
              (result\<lparr>br_snapshots := take (len - drp) (br_snapshots result),
                      br_snapshots_truncated := True\<rparr>))
      else result)"
  by pat_completeness auto
termination
  by (relation "measure (\<lambda>(f, b, r). length (br_snapshots r))") (auto simp: Let_def)

declare enforce_result_size_budget.simps [simp del]

definition size_guarded_result :: "(bootstrap_result \<Rightarrow> nat) \<Rightarrow> bootstrap_result \<Rightarrow> bootstrap_result" where
  "size_guarded_result serialized_len result =
     enforce_result_size_budget serialized_len RESULT_SIZE_BUDGET_BYTES result"

subsection \<open>Ranks and the fair order\<close>

lemma length_rank_loop [simp]: "length (rank_loop listing bs rank) = length rank"
  by (induction listing bs rank rule: rank_loop.induct) auto

lemma rank_loop_untouched:
  "x \<notin> set (tl bs) \<Longrightarrow> rank_loop listing bs rank ! x = rank ! x"
  by (induction listing bs rank rule: rank_loop.induct) auto

lemma rank_loop_step:
  assumes "distinct bs" and "\<forall>b \<in> set bs. b < length rank" and "Suc j < length bs"
  shows "rank_loop listing bs rank ! (bs ! Suc j) =
    (if entry_identity (listing ! (bs ! j)) = entry_identity (listing ! (bs ! Suc j))
     then rank_loop listing bs rank ! (bs ! j) + 1 else rank ! (bs ! Suc j))"
  using assms
proof (induction listing bs rank arbitrary: j rule: rank_loop.induct)
  case (1 listing prev cur rest rank)
  let ?rank = "if entry_identity (listing ! prev) = entry_identity (listing ! cur)
     then rank[cur := rank ! prev + 1] else rank"
  have cur: "rank_loop listing (cur # rest) ?rank ! cur = ?rank ! cur"
    and prev: "rank_loop listing (cur # rest) ?rank ! prev = rank ! prev"
    using 1(2) by (auto simp: rank_loop_untouched)
  show ?case
  proof (cases j)
    case 0
    then show ?thesis using cur prev 1(3) by (simp split: if_splits)
  next
    case (Suc i)
    have "(cur # rest) ! Suc i \<noteq> cur" using 1(2,4) Suc by auto
    with 1(1) [of i] 1(2-4) Suc show ?thesis by auto
  qed
qed auto

lemma rank_loop_increasing:
  assumes bs: "distinct bs" "\<forall>b \<in> set bs. b < length rank"
    and block: "\<And>i. j \<le> i \<Longrightarrow> i \<le> k \<Longrightarrow> entry_identity (listing ! (bs ! i)) = w"
    and k: "j < k" "k < length bs"
  shows "rank_loop listing bs rank ! (bs ! j) < rank_loop listing bs rank ! (bs ! k)"
  using k block
proof (induction k)
  case (Suc k)
  have step: "rank_loop listing bs rank ! (bs ! Suc k) = rank_loop listing bs rank ! (bs ! k) + 1"
    using rank_loop_step [OF bs, of k listing] Suc.prems by simp
  show ?case
  proof (cases "j = k")
    case False
    then have "rank_loop listing bs rank ! (bs ! j) < rank_loop listing bs rank ! (bs ! k)"
      using Suc by simp
    with step show ?thesis by simp
  qed (use step in simp)
qed simp

lemma lex_le_fst:
  fixes a c :: "'a::linorder" and b d :: "'b::linorder"
  shows "(a, b) \<le> (c, d) \<Longrightarrow> a \<le> c"
  by (simp add: less_eq_prod_simp) (meson order.strict_implies_order)

lemma window_ranks_order:
  assumes "a < length listing" "b < length listing"
    and same: "entry_identity (listing ! a) = entry_identity (listing ! b)"
    and newer: "newest_first (listing ! a) < newest_first (listing ! b)"
  shows "window_ranks listing ! a < window_ranks listing ! b"
proof -
  define key where "key = (\<lambda>i. (entry_identity (listing ! i), newest_first (listing ! i)))"
  define bs where "bs = sort_key key [0..<length listing]"
  have set: "set bs = {..<length listing}" and dist: "distinct bs" by (auto simp: bs_def)
  have le: "key (bs ! i) \<le> key (bs ! j)" if "i \<le> j" "j < length bs" for i j
    using that sorted_nth_mono [OF sorted_sort_key [of key "[0..<length listing]"], of i j]
    by (simp add: bs_def)
  obtain j where j: "j < length bs" "bs ! j = a" using assms(1) set in_set_conv_nth [of a bs] by auto
  obtain k where k: "k < length bs" "bs ! k = b" using assms(2) set in_set_conv_nth [of b bs] by auto
  have "j < k"
  proof (rule ccontr)
    assume "\<not> j < k"
    then have "key b \<le> key a" using le [of k j] j k by simp
    with same newer show False by (simp add: key_def)
  qed
  have "entry_identity (listing ! (bs ! i)) = entry_identity (listing ! a)" if "j \<le> i" "i \<le> k" for i
  proof -
    have "key a \<le> key (bs ! i)" "key (bs ! i) \<le> key b"
      using le [of j i] le [of i k] j k that by auto
    then have "entry_identity (listing ! a) \<le> entry_identity (listing ! (bs ! i))"
      "entry_identity (listing ! (bs ! i)) \<le> entry_identity (listing ! b)"
      unfolding key_def by (auto dest: lex_le_fst)
    with same show ?thesis by simp
  qed
  then have "rank_loop listing bs (replicate (length listing) 0) ! (bs ! j) <
      rank_loop listing bs (replicate (length listing) 0) ! (bs ! k)"
    using dist set \<open>j < k\<close> k(1) by (intro rank_loop_increasing) auto
  with j k show ?thesis by (simp add: window_ranks_def bs_def key_def)
qed

lemma length_window_ranks [simp]: "length (window_ranks listing) = length listing"
  by (simp add: window_ranks_def Let_def)

lemma mset_order_for_window [simp]: "mset (order_for_window listing) = mset listing"
proof -
  have "mset (order_for_window listing) = image_mset snd (mset (zip (window_ranks listing) listing))"
    by (simp add: order_for_window_def)
  also have "\<dots> = mset (map snd (zip (window_ranks listing) listing))" by (simp only: mset_map)
  finally show ?thesis by simp
qed

lemma set_order_for_window [simp]: "set (order_for_window listing) = set listing"
  by (metis mset_order_for_window set_mset_mset)

lemma length_order_for_window [simp]: "length (order_for_window listing) = length listing"
  by (metis mset_order_for_window size_mset)

text \<open>Each identity's entries come newest first, so every prefix holds each identity's newest.\<close>

definition fair_listing :: "snapshot_list_entry list \<Rightarrow> bool" where
  "fair_listing es \<longleftrightarrow>
     sorted_wrt (\<lambda>a b. entry_identity a = entry_identity b \<longrightarrow> newest_first a \<le> newest_first b) es"

lemma order_for_window_fair: "fair_listing (order_for_window listing)"
proof -
  let ?zs = "zip (window_ranks listing) listing"
  let ?key = "\<lambda>(r, e). (r, newest_first e)"
  have "entry_identity (snd x) = entry_identity (snd y) \<longrightarrow> newest_first (snd x) \<le> newest_first (snd y)"
    if mem: "x \<in> set ?zs" "y \<in> set ?zs" and le: "?key x \<le> ?key y" for x y
  proof (rule impI, rule ccontr)
    assume same: "entry_identity (snd x) = entry_identity (snd y)"
      and "\<not> newest_first (snd x) \<le> newest_first (snd y)"
    then have newer: "newest_first (snd y) < newest_first (snd x)" by simp
    obtain i j where i: "i < length listing" "x = (window_ranks listing ! i, listing ! i)"
      and j: "j < length listing" "y = (window_ranks listing ! j, listing ! j)"
      using mem by (auto simp: set_zip)
    have "window_ranks listing ! j < window_ranks listing ! i"
      using window_ranks_order [of j listing i] i j same newer by simp
    with le i j show False by (simp add: less_eq_prod_def)
  qed
  then show ?thesis
    unfolding fair_listing_def order_for_window_def sorted_wrt_map
    by (intro sorted_wrt_mono_rel [OF _ sorted_wrt_sort_key]) auto
qed

lemma fair_listing_take: "fair_listing es \<Longrightarrow> fair_listing (take k es)"
  by (simp add: fair_listing_def sorted_wrt_take)

subsection \<open>The size backstop\<close>

text \<open>A result whose window is cut to its first entries; cutting nothing changes nothing.\<close>

definition window_cut :: "bootstrap_result \<Rightarrow> nat \<Rightarrow> bootstrap_result" where
  "window_cut r k =
     (if length (br_snapshots r) \<le> k then r
      else r\<lparr>br_snapshots := take k (br_snapshots r), br_snapshots_truncated := True\<rparr>)"

lemma window_cut_simps [simp]:
  "br_snapshots (window_cut r k) = take k (br_snapshots r)"
  "br_snapshot_count (window_cut r k) = br_snapshot_count r"
  "br_foreign_suffix_dropped (window_cut r k) = br_foreign_suffix_dropped r"
  "br_listed_ids (window_cut r k) = br_listed_ids r"
  "br_logical_bytes (window_cut r k) = br_logical_bytes r"
  "br_snapshots_truncated (window_cut r k) \<longleftrightarrow>
     br_snapshots_truncated r \<or> k < length (br_snapshots r)"
  by (simp_all add: window_cut_def)

lemma window_cut_cut: "k \<le> j \<Longrightarrow> window_cut (window_cut r j) k = window_cut r k"
  by (auto simp: window_cut_def min_def)

lemma enforce_result_size_budget_cut:
  fixes r :: bootstrap_result
  defines "len \<equiv> length (br_snapshots r)"
  shows "\<exists>k \<le> len. enforce_result_size_budget f budget r = window_cut r k \<and>
    (k = 0 \<or> f (window_cut r k) \<le> budget) \<and>
    (k = len \<or> (\<exists>m. k = m - max (m div 8) 1 \<and> k < m \<and> m \<le> len \<and> budget < f (window_cut r m)))"
  unfolding len_def
proof (induction f budget r rule: enforce_result_size_budget.induct)
  case (1 f budget r)
  let ?len = "length (br_snapshots r)"
  show ?case
  proof (cases "br_snapshots r \<noteq> [] \<and> budget < f r")
    case False
    then have "enforce_result_size_budget f budget r = window_cut r ?len"
      by (subst enforce_result_size_budget.simps) (auto simp: window_cut_def)
    moreover have "?len = 0 \<or> f (window_cut r ?len) \<le> budget"
      using False by (auto simp: window_cut_def)
    ultimately show ?thesis by blast
  next
    case True
    define j where "j = ?len - max (?len div 8) 1"
    have j: "j < ?len" using True by (cases "br_snapshots r") (auto simp: j_def)
    have cut: "r\<lparr>br_snapshots := take j (br_snapshots r), br_snapshots_truncated := True\<rparr> = window_cut r j"
      using j by (simp add: window_cut_def)
    have lenj: "length (br_snapshots (window_cut r j)) = j" using j by simp
    from 1 [OF True refl refl, folded j_def, unfolded cut lenj] obtain k where k: "k \<le> j"
      "enforce_result_size_budget f budget (window_cut r j) = window_cut (window_cut r j) k"
      "k = 0 \<or> f (window_cut (window_cut r j) k) \<le> budget"
      "k = j \<or> (\<exists>m. k = m - max (m div 8) 1 \<and> k < m \<and> m \<le> j \<and>
         budget < f (window_cut (window_cut r j) m))"
      by blast
    have "enforce_result_size_budget f budget r = window_cut r k"
      using True cut k(1,2)
      by (subst enforce_result_size_budget.simps)
         (simp only: Let_def window_cut_cut if_True simp_thms flip: j_def)
    moreover have "\<exists>m. k = m - max (m div 8) 1 \<and> k < m \<and> m \<le> ?len \<and> budget < f (window_cut r m)"
    proof (cases "k = j")
      case eq: True
      show ?thesis using True j eq by (intro exI [of _ ?len]) (simp add: j_def window_cut_def)
    next
      case False
      then obtain m where "k = m - max (m div 8) 1" "k < m" "m \<le> j" "budget < f (window_cut r m)"
        using k(4) by (auto simp: window_cut_cut)
      then show ?thesis using j by (intro exI [of _ m]) auto
    qed
    moreover have "k \<le> ?len" and "k = 0 \<or> f (window_cut r k) \<le> budget"
      using k(1,3) j by (auto simp: window_cut_cut)
    ultimately show ?thesis by blast
  qed
qed


subsection \<open>What the controller receives\<close>

lemma slim_catalog_entry_simps [simp]:
  "le_id (slim_catalog_entry js e) = le_id e"
  "le_user_name (slim_catalog_entry js e) = le_user_name e"
  "le_host (slim_catalog_entry js e) = le_host e"
  "le_path (slim_catalog_entry js e) = le_path e"
  "le_start_time (slim_catalog_entry js e) = le_start_time e"
  "le_end_time (slim_catalog_entry js e) = le_end_time e"
  "le_total_size (slim_catalog_entry js e) = le_total_size e"
  by (simp_all add: slim_catalog_entry_def Let_def)

lemma slim_same_order [simp]:
  "entry_identity (slim_catalog_entry js e) = entry_identity e"
  "newest_first (slim_catalog_entry js e) = newest_first e"
  by (simp_all add: entry_identity_def newest_first_def)

lemma prefilter_loop_eq:
  "prefilter_loop c es kept d =
     (kept @ filter (\<lambda>e. \<nexists>s. classify_hostname (le_host e) (Some c) = HC_ForeignCluster s) es,
      d + int (length (filter (\<lambda>e. \<exists>s. classify_hostname (le_host e) (Some c) = HC_ForeignCluster s) es)))"
  by (induction es arbitrary: kept d) (auto split: host_class.split)

lemma prefilter_accounts:
  "int (length (fst (apply_foreign_prefilter l c))) = int (length l) - snd (apply_foreign_prefilter l c)"
proof (cases c)
  case (Some cl)
  have "length (filter (\<lambda>e. \<nexists>s. classify_hostname (le_host e) (Some cl) = HC_ForeignCluster s) l) +
      length (filter (\<lambda>e. \<exists>s. classify_hostname (le_host e) (Some cl) = HC_ForeignCluster s) l) = length l"
    using sum_length_filter_compl [of "\<lambda>e. \<exists>s. classify_hostname (le_host e) (Some cl) = HC_ForeignCluster s" l]
    by simp
  with Some show ?thesis by (simp add: apply_foreign_prefilter_def prefilter_loop_eq)
qed (simp add: apply_foreign_prefilter_def)

lemma prefilter_subset: "set (fst (apply_foreign_prefilter l c)) \<subseteq> set l"
  by (cases c) (auto simp: apply_foreign_prefilter_def prefilter_loop_eq)

text \<open>
  A scanning run's result after the backstop: a prefix of the fair listing, flagged exactly when
  something is missing, with the counts and the digest of the whole prefiltered listing.
\<close>

definition fair_window :: "'j json_lib \<Rightarrow> bootstrap_op \<Rightarrow> snapshot_list_entry list \<Rightarrow> snapshot_list_entry list" where
  "fair_window js op l =
     map (slim_catalog_entry js)
       (order_for_window (fst (apply_foreign_prefilter l (bo_catalog_foreign_prefilter_cluster op))))"

lemma fair_window_fair: "fair_listing (fair_window js op l)"
  using order_for_window_fair by (simp add: fair_listing_def fair_window_def sorted_wrt_map)

lemma mset_fair_window_ids:
  "mset (map le_id (fair_window js op l)) =
     mset (map le_id (fst (apply_foreign_prefilter l (bo_catalog_foreign_prefilter_cluster op))))"
  by (simp add: fair_window_def comp_def)

lemma length_fair_window:
  "length (fair_window js op l) =
     length (fst (apply_foreign_prefilter l (bo_catalog_foreign_prefilter_cluster op)))"
  by (simp add: fair_window_def)

lemma mover_result_shape:
  assumes scan: "bo_scan_catalog op"
    and r: "r = size_guarded_result f (bootstrap_catalog_result js enc op (Some l) salt)"
  defines "pre \<equiv> apply_foreign_prefilter l (bo_catalog_foreign_prefilter_cluster op)"
  shows "\<exists>k \<le> length (fair_window js op l).
      br_snapshots r = take k (fair_window js op l) \<and>
      (br_snapshots_truncated r \<longleftrightarrow> k < length (fair_window js op l))"
    and "br_snapshot_count r = Some (int (length l))"
    and "br_foreign_suffix_dropped r = snd pre"
    and "br_listed_ids r = map_option Digest (digest_build enc (map le_id (fst pre)) salt DIGEST_BUDGET_BYTES)"
    and "br_logical_bytes r = Some (logical_bytes_under_management (fst pre))"
proof -
  let ?r0 = "bootstrap_catalog_result js enc op (Some l) salt"
  let ?F = "fair_window js op l" and ?cap = "window_cap (bo_max_returned_snapshots op)"
  obtain j where j: "j \<le> length (br_snapshots ?r0)" "r = window_cut ?r0 j"
    using enforce_result_size_budget_cut [of ?r0 f RESULT_SIZE_BUDGET_BYTES] r
    by (auto simp: size_guarded_result_def)
  have snaps: "br_snapshots ?r0 = take ?cap ?F"
    and trunc: "br_snapshots_truncated ?r0 \<longleftrightarrow> ?cap < length ?F"
    using scan
    by (auto simp: bootstrap_catalog_result_def prepare_catalog_entries_def Let_def fair_window_def
        take_map split: prod.split)
  show "\<exists>k \<le> length ?F. br_snapshots r = take k ?F \<and> (br_snapshots_truncated r \<longleftrightarrow> k < length ?F)"
    using j snaps trunc by (intro exI [of _ "min j (min ?cap (length ?F))"]) auto
  show "br_snapshot_count r = Some (int (length l))" "br_foreign_suffix_dropped r = snd pre"
    "br_listed_ids r = map_option Digest (digest_build enc (map le_id (fst pre)) salt DIGEST_BUDGET_BYTES)"
    "br_logical_bytes r = Some (logical_bytes_under_management (fst pre))"
    using scan
    by (simp_all add: j(2) pre_def bootstrap_catalog_result_def prepare_catalog_entries_def Let_def
        split: prod.split)
qed

end
