(* ===== verification/Tenancy.thy ===== *)
theory Tenancy
  imports Kopiur_Api
begin

text \<open>
  Who may use a ClusterRepository: the tenancy gate as the API crate states it
  (\<open>crates/api/src/validate/repository.rs\<close>) and as the admission webhook enforces it
  (\<open>crates/webhook/src/tenancy.rs\<close>), the credential Secrets a repository needs
  (\<open>crates/api/src/creds.rs\<close>), and the gates a browse session passes before the operator copies
  those Secrets into its namespace (\<open>crates/controller/src/browse_session.rs\<close>). Reads of the API
  server are arguments: a lookup, or the failure of one.
\<close>

subsection \<open>The two tenancy gates\<close>

datatype allowed_namespaces = AN_List "string list" | AN_Selector label_selector | AN_All bool

datatype tenancy_validation = TV_Ok | TV_ConsumerNamespaceNotAllowed | TV_SelectorLabelsUnavailable

definition validate_consumer_against_cluster_repo ::
    "string \<Rightarrow> allowed_namespaces \<Rightarrow> string_map option \<Rightarrow> tenancy_validation" where
  "validate_consumer_against_cluster_repo consumer_namespace allowed labels =
     (case allowed of
        AN_All b \<Rightarrow> if b then TV_Ok else TV_ConsumerNamespaceNotAllowed
      | AN_List names \<Rightarrow>
          if list_ex (\<lambda>n. n = consumer_namespace) names then TV_Ok else TV_ConsumerNamespaceNotAllowed
      | AN_Selector sel \<Rightarrow>
          (case labels of
             None \<Rightarrow> TV_SelectorLabelsUnavailable
           | Some labels \<Rightarrow>
               if list_all (\<lambda>(k, v). labels k = Some v) (ls_match_labels sel) then TV_Ok
               else TV_ConsumerNamespaceNotAllowed))"

datatype tenancy_denial =
    TD_NotAllowed | TD_SelectorLabelsUnresolved | TD_NoClient | TD_RepoUnresolvable
  | TD_NamespaceLabelsUnresolvable | TD_NoConsumerNamespace

datatype tenancy_decision = Allow_Tenant | Deny_Tenant tenancy_denial

definition expression_satisfied :: "label_selector_requirement \<Rightarrow> string_map \<Rightarrow> bool" where
  "expression_satisfied expr labels =
     (let vals = unwrap_or (lr_values expr) []
      in if lr_operator expr = ''In'' then is_some_and (\<lambda>got. list_ex (\<lambda>v. v = got) vals) (labels (lr_key expr))
         else if lr_operator expr = ''NotIn'' then
           is_none_or (\<lambda>got. \<not> list_ex (\<lambda>v. v = got) vals) (labels (lr_key expr))
         else if lr_operator expr = ''Exists'' then labels (lr_key expr) \<noteq> None
         else if lr_operator expr = ''DoesNotExist'' then labels (lr_key expr) = None
         else False)"

definition evaluate_tenancy ::
    "string \<Rightarrow> allowed_namespaces \<Rightarrow> string_map option \<Rightarrow> tenancy_decision" where
  "evaluate_tenancy consumer_namespace allowed labels =
     (case allowed of
        AN_All b \<Rightarrow> if b then Allow_Tenant else Deny_Tenant TD_NotAllowed
      | AN_List names \<Rightarrow>
          if list_ex (\<lambda>n. n = consumer_namespace) names then Allow_Tenant else Deny_Tenant TD_NotAllowed
      | AN_Selector sel \<Rightarrow>
          (case labels of
             None \<Rightarrow> Deny_Tenant TD_SelectorLabelsUnresolved
           | Some labels \<Rightarrow>
               if \<not> list_all (\<lambda>(k, v). labels k = Some v) (ls_match_labels sel) then
                 Deny_Tenant TD_NotAllowed
               else if list_ex (\<lambda>expr. \<not> expression_satisfied expr labels) (ls_match_expressions sel)
               then Deny_Tenant TD_NotAllowed
               else Allow_Tenant))"

text \<open>
  The webhook's reads: no client, the ClusterRepository's gate (\<open>None\<close> when the read failed), and
  the namespace's labels (\<open>None\<close> when the read failed; an absent map reads as the empty one).
\<close>

definition resolve_tenancy_inputs ::
    "bool \<Rightarrow> allowed_namespaces option \<Rightarrow> (string \<Rightarrow> string_map option) \<Rightarrow> string \<Rightarrow> tenancy_decision" where
  "resolve_tenancy_inputs has_client crepo get_namespace consumer_namespace =
     (if \<not> has_client then Deny_Tenant TD_NoClient
      else case crepo of
             None \<Rightarrow> Deny_Tenant TD_RepoUnresolvable
           | Some allowed \<Rightarrow>
               (case allowed of
                  AN_Selector _ \<Rightarrow>
                    (case get_namespace consumer_namespace of
                       None \<Rightarrow> Deny_Tenant TD_NamespaceLabelsUnresolvable
                     | Some labels \<Rightarrow> evaluate_tenancy consumer_namespace allowed (Some labels))
                | _ \<Rightarrow> evaluate_tenancy consumer_namespace allowed None))"

subsection \<open>Credential Secrets\<close>

record secret_ref =
  sr_name :: string
  sr_namespace :: "string option"

record creds_secret_ref =
  cr_name :: string
  cr_namespace :: "string option"

text \<open>
  A backend, by the credential Secret it references: the object stores through \<open>auth.secretRef\<close>,
  Rclone through \<open>configSecretRef\<close>, Google Drive through \<open>credentialsSecretRef\<close>.
\<close>

datatype backend =
    B_S3 "secret_ref option" | B_Azure "secret_ref option" | B_Gcs "secret_ref option"
  | B_B2 "secret_ref option" | B_Sftp "secret_ref option" | B_WebDav "secret_ref option"
  | B_Rclone "secret_ref option" | B_Gdrive "secret_ref option" | B_Filesystem

fun backend_auth_secret_ref :: "backend \<Rightarrow> secret_ref option" where
  "backend_auth_secret_ref (B_S3 r) = r"
| "backend_auth_secret_ref (B_Azure r) = r"
| "backend_auth_secret_ref (B_Gcs r) = r"
| "backend_auth_secret_ref (B_B2 r) = r"
| "backend_auth_secret_ref (B_Sftp r) = r"
| "backend_auth_secret_ref (B_WebDav r) = r"
| "backend_auth_secret_ref (B_Rclone r) = r"
| "backend_auth_secret_ref (B_Gdrive r) = r"
| "backend_auth_secret_ref B_Filesystem = None"

definition mover_creds_secret_refs ::
    "backend \<Rightarrow> secret_ref \<Rightarrow> string option \<Rightarrow> creds_secret_ref list" where
  "mover_creds_secret_refs bk password_secret_ref repo_namespace =
     (let source_ns = (\<lambda>ns. or_else ns repo_namespace);
          refs = [\<lparr>cr_name = sr_name password_secret_ref,
                   cr_namespace = source_ns (sr_namespace password_secret_ref)\<rparr>]
      in case backend_auth_secret_ref bk of
           Some auth \<Rightarrow>
             if \<not> list_ex (\<lambda>r. cr_name r = sr_name auth) refs
             then refs @ [\<lparr>cr_name = sr_name auth, cr_namespace = source_ns (sr_namespace auth)\<rparr>]
             else refs
         | None \<Rightarrow> refs)"

definition mover_creds_secrets :: "backend \<Rightarrow> secret_ref \<Rightarrow> string list" where
  "mover_creds_secrets bk password_secret_ref =
     map cr_name (mover_creds_secret_refs bk password_secret_ref None)"

subsection \<open>Browse sessions\<close>

definition SESSION_SNAPSHOT_ANNOTATION :: string where
  "SESSION_SNAPSHOT_ANNOTATION = ''kopiur.home-operations.com/session-snapshot''"

definition SESSION_CREDS_REFUSED_ANNOTATION :: string where
  "SESSION_CREDS_REFUSED_ANNOTATION = ''kopiur.home-operations.com/session-creds-refused''"

definition SESSION_CREDS_RECHECK_SECS :: nat where
  "SESSION_CREDS_RECHECK_SECS = 15"

text \<open>The ClusterRepository's spec, as far as the session gates read it.\<close>

record cluster_repository =
  crp_name :: string
  crp_uid :: "string option"
  crp_allowed_namespaces :: allowed_namespaces
  crp_projection_allowed :: "bool option"
  crp_backend :: backend
  crp_password_secret_ref :: secret_ref

text \<open>A session Job: its metadata and its conditions (type, status).\<close>

record session_job =
  sj_meta :: object_meta
  sj_conditions :: "(string \<times> string) list option"

text \<open>A Snapshot with the projection flag its run pinned under \<open>status.resolved\<close>.\<close>

record session_snapshot =
  sn_snapshot :: snapshot
  sn_projection_enabled :: "bool option"

definition repository_ref_for :: "snapshot \<Rightarrow> repository_ref option" where
  "repository_ref_for snap =
     (case Option.bind (s_status snap) ss_resolved_repository of
        Some rref \<Rightarrow> Some rref
      | None \<Rightarrow>
          (case sp_repository (s_spec snap) of
             Some rref \<Rightarrow> Some rref
           | None \<Rightarrow>
               (case filter_map (\<lambda>w.
                    if or_api_version w \<noteq> API_VERSION then None
                    else if or_kind w = ''Repository'' then
                      Some \<lparr>rr_kind = Repository, rr_name = or_name w, rr_namespace = None\<rparr>
                    else if or_kind w = ''ClusterRepository'' then
                      Some \<lparr>rr_kind = ClusterRepository, rr_name = or_name w, rr_namespace = None\<rparr>
                    else None) (m_owner_references (s_meta snap)) of
                  [] \<Rightarrow> None
                | r # _ \<Rightarrow> Some r)))"

datatype refusal =
    NoSnapshot | SnapshotNotFound string | NotAClusterRepository string | NotThisRepository string
  | RepositoryNotFound string | OwnerNotAllowed string | ConsumerNotOptedIn string
  | NamespaceNotAllowed string string

definition name_any :: "object_meta \<Rightarrow> string" where
  "name_any m = unwrap_or (m_name m) ''''"

definition session_repository :: "session_job \<Rightarrow> snapshot \<Rightarrow> refusal + string" where
  "session_repository job snap =
     (case repository_ref_for snap of
        None \<Rightarrow> Inl (NotAClusterRepository (name_any (s_meta snap)))
      | Some rref \<Rightarrow>
          if rr_kind rref \<noteq> ClusterRepository then Inl (NotAClusterRepository (name_any (s_meta snap)))
          else if list_ex (\<lambda>w. or_controller w = Some True \<and> or_kind w = ''ClusterRepository'' \<and>
                    or_name w = rr_name rref) (m_owner_references (sj_meta job))
          then Inr (rr_name rref)
          else Inl (NotThisRepository (rr_name rref)))"

definition session_gates ::
    "session_job \<Rightarrow> string \<Rightarrow> session_snapshot \<Rightarrow> cluster_repository \<Rightarrow> string_map option \<Rightarrow>
     refusal + creds_secret_ref list" where
  "session_gates job namespace snap repo namespace_labels =
     (let repository = crp_name repo; uid = unwrap_or (crp_uid repo) ''''
      in if \<not> list_ex (\<lambda>w. or_controller w = Some True \<and> or_kind w = ''ClusterRepository'' \<and>
                 or_uid w = uid) (m_owner_references (sj_meta job))
         then Inl (NotThisRepository repository)
         else if \<not> is_some_and (\<lambda>a. a) (crp_projection_allowed repo) then Inl (OwnerNotAllowed repository)
         else if \<not> is_some_and (\<lambda>e. e) (sn_projection_enabled snap) then
           Inl (ConsumerNotOptedIn (name_any (s_meta (sn_snapshot snap))))
         else if validate_consumer_against_cluster_repo namespace (crp_allowed_namespaces repo)
                   namespace_labels \<noteq> TV_Ok
         then Inl (NamespaceNotAllowed namespace repository)
         else Inr (mover_creds_secret_refs (crp_backend repo) (crp_password_secret_ref repo) None))"

definition job_is_done :: "session_job \<Rightarrow> bool" where
  "job_is_done job \<longleftrightarrow>
     m_deletion_timestamp (sj_meta job) \<noteq> None \<or>
     is_some_and (list_ex (\<lambda>(t, st). (t = ''Complete'' \<or> t = ''Failed'') \<and> st = ''True''))
       (sj_conditions job)"

text \<open>
  \<open>plan\<close>: the reads of the API server are the world's, each of them may fail (\<open>Inl\<close>), and a
  missing object is \<open>None\<close>.
\<close>

datatype kube_error = Kube_Error

record session_world =
  sw_snapshot :: "string \<Rightarrow> string \<Rightarrow> kube_error + session_snapshot option"
  sw_repository :: "string \<Rightarrow> kube_error + cluster_repository option"
  sw_namespace_labels :: "string \<Rightarrow> kube_error + string_map option"

definition session_plan ::
    "session_world \<Rightarrow> session_job \<Rightarrow> string \<Rightarrow>
     kube_error + (refusal + string \<times> creds_secret_ref list)" where
  "session_plan w job namespace =
     (case m_annotations (sj_meta job) SESSION_SNAPSHOT_ANNOTATION of
        None \<Rightarrow> Inr (Inl NoSnapshot)
      | Some snapshot_name \<Rightarrow>
          (case sw_snapshot w namespace snapshot_name of
             Inl e \<Rightarrow> Inl e
           | Inr None \<Rightarrow> Inr (Inl (SnapshotNotFound snapshot_name))
           | Inr (Some snap) \<Rightarrow>
               (case session_repository job (sn_snapshot snap) of
                  Inl refusal \<Rightarrow> Inr (Inl refusal)
                | Inr repository \<Rightarrow>
                    (case sw_repository w repository of
                       Inl e \<Rightarrow> Inl e
                     | Inr None \<Rightarrow> Inr (Inl (RepositoryNotFound repository))
                     | Inr (Some repo) \<Rightarrow>
                         (case sw_namespace_labels w namespace of
                            Inl e \<Rightarrow> Inl e
                          | Inr labels \<Rightarrow>
                              (case session_gates job namespace snap repo labels of
                                 Inl refusal \<Rightarrow> Inr (Inl refusal)
                               | Inr refs \<Rightarrow> Inr (Inr (repository, refs))))))))"

text \<open>
  \<open>reconcile_inner\<close>: what one pass does about the Secrets and the refusal annotation. The copying
  itself (\<open>resolve_mover_creds\<close>) is the argument \<open>project\<close>: done, refused for a reason the user
  must change, or failed; the outcome records what was handed to it.
\<close>

datatype project_result = Projected | MissingDependency string | Project_Failed

datatype session_action =
    SA_AwaitChange | SA_Requeue nat | SA_MissingDependency string | SA_Failed | SA_KubeError

record session_outcome =
  so_handed :: "(string \<times> creds_secret_ref list) option"
  so_refusal_annotation :: "string option option"
  so_action :: session_action

definition refusal_patch :: "session_job \<Rightarrow> string option \<Rightarrow> string option option" where
  "refusal_patch job want =
     (if m_annotations (sj_meta job) SESSION_CREDS_REFUSED_ANNOTATION \<noteq> want then Some want else None)"

definition session_reconcile ::
    "session_world \<Rightarrow> (string \<Rightarrow> creds_secret_ref list \<Rightarrow> project_result) \<Rightarrow> (refusal \<Rightarrow> string) \<Rightarrow>
     session_job \<Rightarrow> session_outcome" where
  "session_reconcile w project message job =
     (if job_is_done job then
        \<lparr>so_handed = None, so_refusal_annotation = None, so_action = SA_AwaitChange\<rparr>
      else
        (let namespace = unwrap_or (m_namespace (sj_meta job)) ''''
         in case session_plan w job namespace of
              Inl _ \<Rightarrow> \<lparr>so_handed = None, so_refusal_annotation = None, so_action = SA_KubeError\<rparr>
            | Inr (Inl refusal) \<Rightarrow>
                \<lparr>so_handed = None, so_refusal_annotation = refusal_patch job (Some (message refusal)),
                 so_action = SA_Requeue SESSION_CREDS_RECHECK_SECS\<rparr>
            | Inr (Inr (repository, refs)) \<Rightarrow>
                (case project repository refs of
                   Projected \<Rightarrow>
                     \<lparr>so_handed = Some (repository, refs), so_refusal_annotation = refusal_patch job None,
                      so_action = SA_AwaitChange\<rparr>
                 | MissingDependency why \<Rightarrow>
                     \<lparr>so_handed = Some (repository, refs), so_refusal_annotation = refusal_patch job (Some why),
                      so_action = SA_MissingDependency why\<rparr>
                 | Project_Failed \<Rightarrow>
                     \<lparr>so_handed = Some (repository, refs), so_refusal_annotation = None, so_action = SA_Failed\<rparr>)))"

subsection \<open>The gates compared\<close>

text \<open>
  The webhook's gate is the validator's, and in addition every expression of a selector must hold.
\<close>

lemma evaluate_tenancy_iff:
  "evaluate_tenancy ns allowed labels = Allow_Tenant \<longleftrightarrow>
     validate_consumer_against_cluster_repo ns allowed labels = TV_Ok \<and>
     (case (allowed, labels) of
        (AN_Selector sel, Some ls) \<Rightarrow> list_all (\<lambda>e. expression_satisfied e ls) (ls_match_expressions sel)
      | _ \<Rightarrow> True)"
  by (cases allowed; cases labels)
     (auto simp: evaluate_tenancy_def validate_consumer_against_cluster_repo_def list_all_iff list_ex_iff)

lemma webhook_allows_only_what_the_validator_admits:
  "evaluate_tenancy ns allowed labels = Allow_Tenant \<Longrightarrow>
     validate_consumer_against_cluster_repo ns allowed labels = TV_Ok"
  by (simp add: evaluate_tenancy_iff)

lemma resolve_tenancy_fails_closed:
  "resolve_tenancy_inputs c r g ns = Allow_Tenant \<Longrightarrow>
     c \<and> (\<exists>allowed. r = Some allowed \<and> (\<exists>labels. evaluate_tenancy ns allowed labels = Allow_Tenant))"
  by (auto simp: resolve_tenancy_inputs_def split: if_splits option.splits allowed_namespaces.splits)

text \<open>
  A selector of expressions only admits every namespace at the validator: the controller's own
  checks (discovered rows, browse sessions) let in a namespace the webhook turns away.
\<close>

theorem expressions_ignored_by_the_controller:
  fixes sel :: label_selector
  assumes "sel = \<lparr>ls_match_labels = [], ls_match_expressions =
      [\<lparr>lr_key = ''tier'', lr_operator = ''In'', lr_values = Some [''prod'']\<rparr>]\<rparr>"
  shows "validate_consumer_against_cluster_repo ns (AN_Selector sel) (Some Map.empty) = TV_Ok"
    and "evaluate_tenancy ns (AN_Selector sel) (Some Map.empty) = Deny_Tenant TD_NotAllowed"
  by (simp_all add: assms validate_consumer_against_cluster_repo_def evaluate_tenancy_def
      expression_satisfied_def)

text \<open>
  The Secrets are told apart by name alone: a password Secret and a backend Secret of one name in
  two namespaces come out as the password Secret only.
\<close>

theorem same_named_secrets_collapse:
  "mover_creds_secret_refs (B_S3 (Some \<lparr>sr_name = ''creds'', sr_namespace = Some ''storage''\<rparr>))
     \<lparr>sr_name = ''creds'', sr_namespace = Some ''backup''\<rparr> None =
   [\<lparr>cr_name = ''creds'', cr_namespace = Some ''backup''\<rparr>]"
  by (simp add: mover_creds_secret_refs_def)

lemma distinct_creds_names: "distinct (mover_creds_secrets bk pw)"
  by (auto simp: mover_creds_secrets_def mover_creds_secret_refs_def Let_def split: option.split)

subsection \<open>When a session gets credentials\<close>

lemma session_repository_Inr:
  "session_repository job snap = Inr r \<longleftrightarrow>
     (\<exists>rref. repository_ref_for snap = Some rref \<and> rr_kind rref = ClusterRepository \<and> r = rr_name rref \<and>
        (\<exists>w \<in> set (m_owner_references (sj_meta job)).
           or_controller w = Some True \<and> or_kind w = ''ClusterRepository'' \<and> or_name w = r))"
  by (auto simp: session_repository_def list_ex_iff split: option.splits)

lemma session_gates_Inr:
  "session_gates job ns snap repo labels = Inr refs \<longleftrightarrow>
     (\<exists>w \<in> set (m_owner_references (sj_meta job)). or_controller w = Some True \<and>
        or_kind w = ''ClusterRepository'' \<and> or_uid w = unwrap_or (crp_uid repo) '''') \<and>
     crp_projection_allowed repo = Some True \<and> sn_projection_enabled snap = Some True \<and>
     validate_consumer_against_cluster_repo ns (crp_allowed_namespaces repo) labels = TV_Ok \<and>
     refs = mover_creds_secret_refs (crp_backend repo) (crp_password_secret_ref repo) None"
  by (auto simp: session_gates_def Let_def list_ex_iff is_some_and_iff)

lemma session_plan_Inr:
  "session_plan w job ns = Inr (Inr (r, refs)) \<longleftrightarrow>
     (\<exists>n snap repo labels. m_annotations (sj_meta job) SESSION_SNAPSHOT_ANNOTATION = Some n \<and>
        sw_snapshot w ns n = Inr (Some snap) \<and> session_repository job (sn_snapshot snap) = Inr r \<and>
        sw_repository w r = Inr (Some repo) \<and> sw_namespace_labels w ns = Inr labels \<and>
        session_gates job ns snap repo labels = Inr refs)"
  by (auto simp: session_plan_def split: option.splits sum.splits)

text \<open>
  C34: a browse session's credentials are handed to the projection exactly when the Job is still
  running, its annotation names a Snapshot of its own namespace, that Snapshot lives in a
  ClusterRepository, the Job is controlled by that ClusterRepository by name and by the uid of the
  live object, the repository allows projection, the run that took the Snapshot opted in, and the
  namespace passes the repository's gate; and then they are that repository's own Secrets.
\<close>

theorem session_credentials_exact:
  "so_handed (session_reconcile w project message job) = Some (r, refs) \<longleftrightarrow>
     \<not> job_is_done job \<and>
     (\<exists>n snap rref repo labels.
        m_annotations (sj_meta job) SESSION_SNAPSHOT_ANNOTATION = Some n \<and>
        sw_snapshot w (unwrap_or (m_namespace (sj_meta job)) '''') n = Inr (Some snap) \<and>
        repository_ref_for (sn_snapshot snap) = Some rref \<and> rr_kind rref = ClusterRepository \<and>
        r = rr_name rref \<and> sw_repository w r = Inr (Some repo) \<and>
        sw_namespace_labels w (unwrap_or (m_namespace (sj_meta job)) '''') = Inr labels \<and>
        (\<exists>o' \<in> set (m_owner_references (sj_meta job)).
           or_controller o' = Some True \<and> or_kind o' = ''ClusterRepository'' \<and> or_name o' = r) \<and>
        (\<exists>o' \<in> set (m_owner_references (sj_meta job)).
           or_controller o' = Some True \<and> or_kind o' = ''ClusterRepository'' \<and>
           or_uid o' = unwrap_or (crp_uid repo) '''') \<and>
        crp_projection_allowed repo = Some True \<and> sn_projection_enabled snap = Some True \<and>
        validate_consumer_against_cluster_repo (unwrap_or (m_namespace (sj_meta job)) '''')
          (crp_allowed_namespaces repo) labels = TV_Ok \<and>
        refs = mover_creds_secret_refs (crp_backend repo) (crp_password_secret_ref repo) None)"
proof -
  have "so_handed (session_reconcile w project message job) = Some (r, refs) \<longleftrightarrow>
      \<not> job_is_done job \<and>
      session_plan w job (unwrap_or (m_namespace (sj_meta job)) '''') = Inr (Inr (r, refs))"
    by (auto simp: session_reconcile_def Let_def split: sum.splits project_result.splits)
  then show ?thesis
    unfolding session_plan_Inr session_repository_Inr session_gates_Inr by blast
qed

end
