(* ===== verification/Catalog.thy ===== *)
theory Catalog
  imports Listing_Window Tenancy Deletion "HOL-Library.Option_ord"
begin

text \<open>
  The discovered-Snapshot catalog of a repository (\<open>crates/controller/src/catalog.rs\<close>): what a
  bootstrap result's listing speaks for, when a scan or a bootstrap Job is due, where a discovered
  row is placed, and the plan of rows to create and to expire. Reads and writes of the API server
  are in the theory of the scan.
\<close>

subsection \<open>Coverage of a listing\<close>

definition identity_key_parts :: "string \<Rightarrow> string \<Rightarrow> string \<Rightarrow> string" where
  "identity_key_parts user host path = user @ ''@'' @ host @ '':'' @ path"

definition identity_key :: "snapshot_list_entry \<Rightarrow> string" where
  "identity_key e = identity_key_parts (le_user_name e) (le_host e) (le_path e)"

datatype partial_reason = MoverTooOld | OverDigestBudget | Invalid_Digest

datatype listing_coverage = LC_Complete | LC_Capped decoded_digest | LC_Partial partial_reason

datatype catalog_coverage = CC_Complete | CC_Capped | CC_Partial

fun coverage_as_status :: "listing_coverage \<Rightarrow> catalog_coverage" where
  "coverage_as_status LC_Complete = CC_Complete"
| "coverage_as_status (LC_Capped _) = CC_Capped"
| "coverage_as_status (LC_Partial _) = CC_Partial"

text \<open>\<open>verified_digest\<close>; its error is diagnostic text, left out.\<close>

definition verified_digest ::
    "(string \<Rightarrow> string + byte list) \<Rightarrow> listed_ids \<Rightarrow> bootstrap_result \<Rightarrow> decoded_digest option" where
  "verified_digest dc listed result =
     (case listed_ids_decode dc listed of
        Inl _ \<Rightarrow> None
      | Inr decoded \<Rightarrow>
          (let expected = unwrap_or (br_snapshot_count result) (- 1) - br_foreign_suffix_dropped result;
               held = (if int (digest_len decoded) \<le> i64_max then int (digest_len decoded) else i64_max)
           in if held \<noteq> expected then None
              else if list_ex (\<lambda>e. \<not> digest_contains decoded (le_id e)) (br_snapshots result) then None
              else Some decoded))"

definition coverage_for ::
    "(string \<Rightarrow> string + byte list) \<Rightarrow> bootstrap_result \<Rightarrow> listing_coverage" where
  "coverage_for dc result =
     (if \<not> br_snapshots_truncated result then LC_Complete
      else case br_listed_ids result of
             None \<Rightarrow>
               (case br_logical_bytes result of
                  Some _ \<Rightarrow> LC_Partial OverDigestBudget
                | None \<Rightarrow> LC_Partial MoverTooOld)
           | Some listed \<Rightarrow>
               (case verified_digest dc listed result of
                  Some present \<Rightarrow> LC_Capped present
                | None \<Rightarrow> LC_Partial Invalid_Digest))"

subsection \<open>Bounds of the catalog\<close>

record catalog_retain =
  ct_per_identity :: "int option"
  ct_max_age_days :: "int option"

datatype foreign_snapshots = FS_Ignore | FS_Fallback

datatype snapshot_adoption = Adopt | Ignore

record catalog_bounds =
  cb_retain :: "catalog_retain option"
  cb_periodic_refresh :: bool
  cb_refresh_interval :: "string option"
  cb_fallback_namespace :: "string option"
  cb_foreign_snapshots :: "foreign_snapshots option"
  cb_adoption :: "snapshot_adoption option"

definition DEFAULT_CATALOG_REFRESH_INTERVAL :: duration where
  "DEFAULT_CATALOG_REFRESH_INTERVAL = duration_from_secs 3600"

definition periodic_refresh_enabled :: "catalog_bounds option \<Rightarrow> bool" where
  "periodic_refresh_enabled catalog = is_some_and cb_periodic_refresh catalog"

definition effective_refresh_interval :: "catalog_bounds option \<Rightarrow> duration" where
  "effective_refresh_interval catalog =
     unwrap_or (Option.bind (Option.bind catalog cb_refresh_interval) parse_go_duration)
       DEFAULT_CATALOG_REFRESH_INTERVAL"

definition effective_foreign_snapshots :: "catalog_bounds option \<Rightarrow> foreign_snapshots" where
  "effective_foreign_snapshots catalog =
     unwrap_or (Option.bind catalog cb_foreign_snapshots) FS_Ignore"

definition reconcile_interval :: "catalog_bounds option \<Rightarrow> duration" where
  "reconcile_interval catalog =
     (let base = duration_from_secs 300
      in if periodic_refresh_enabled catalog then min base (effective_refresh_interval catalog) else base)"

subsection \<open>When a scan or a bootstrap Job is due\<close>

text \<open>
  Stamps are RFC 3339 strings; the parser is the parameter \<open>rfc3339\<close>. \<open>chrono::Duration::from_std\<close>
  fails only past \<open>i64::MAX\<close> milliseconds.
\<close>

definition chrono_from_std :: "duration \<Rightarrow> int option" where
  "chrono_from_std d = (if int d \<le> i64_max * 1000000 then Some (int d) else None)"

definition refresh_due ::
    "(string \<Rightarrow> datetime option) \<Rightarrow> string option \<Rightarrow> duration \<Rightarrow> datetime \<Rightarrow> bool" where
  "refresh_due rfc3339 last_refresh_at interval now =
     (case last_refresh_at of
        None \<Rightarrow> True
      | Some raw \<Rightarrow>
          (case rfc3339 raw of
             None \<Rightarrow> True
           | Some last' \<Rightarrow>
               (case chrono_from_std interval of None \<Rightarrow> True | Some interval \<Rightarrow> last' + interval \<le> now)))"

definition reverify_due :: "string option \<Rightarrow> string option \<Rightarrow> bool \<Rightarrow> bool" where
  "reverify_due token honored phase_ready \<longleftrightarrow> phase_ready \<and> token \<noteq> None \<and> token \<noteq> honored"

definition scan_requested_pending :: "string option \<Rightarrow> string option \<Rightarrow> bool" where
  "scan_requested_pending token honored =
     (case token of None \<Rightarrow> False | Some t \<Rightarrow> if t = [] then False else Some t \<noteq> honored)"

definition rescan_token_after_failed_scan ::
    "(datetime \<Rightarrow> string) \<Rightarrow> string option \<Rightarrow> string option \<Rightarrow> datetime \<Rightarrow> string option" where
  "rescan_token_after_failed_scan to_rfc3339 token honored now =
     (if \<not> scan_requested_pending token honored then Some (to_rfc3339 now) else None)"

definition scan_requested_due ::
    "(string \<Rightarrow> datetime option) \<Rightarrow> string option \<Rightarrow> string option \<Rightarrow> string option \<Rightarrow> duration \<Rightarrow>
     datetime \<Rightarrow> bool" where
  "scan_requested_due rfc3339 token honored attempt_at retry_interval now =
     (if \<not> scan_requested_pending token honored then False
      else
        (let token = unwrap_or token []
         in case attempt_at of
              None \<Rightarrow> True
            | Some attempt_at \<Rightarrow>
                if attempt_at < token then True
                else (case rfc3339 attempt_at of
                        None \<Rightarrow> True
                      | Some attempt \<Rightarrow>
                          (case chrono_from_std retry_interval of
                             None \<Rightarrow> True
                           | Some interval \<Rightarrow> attempt + interval \<le> now))))"

definition should_request_reverify ::
    "(string \<Rightarrow> datetime option) \<Rightarrow> string option \<Rightarrow> datetime \<Rightarrow> duration \<Rightarrow> bool" where
  "should_request_reverify rfc3339 existing now min_interval =
     (case existing of
        None \<Rightarrow> True
      | Some raw \<Rightarrow>
          (case rfc3339 raw of
             None \<Rightarrow> True
           | Some last' \<Rightarrow>
               (case chrono_from_std min_interval of
                  None \<Rightarrow> True
                | Some min_interval \<Rightarrow> last' + min_interval \<le> now)))"

definition result_already_consumed ::
    "(string \<Rightarrow> datetime option) \<Rightarrow> string option \<Rightarrow> string option \<Rightarrow> bool" where
  "result_already_consumed rfc3339 last_refresh_at job_completed_at =
     (case job_completed_at of
        None \<Rightarrow> True
      | Some completed \<Rightarrow>
          (case rfc3339 completed of
             None \<Rightarrow> True
           | Some completed \<Rightarrow>
               (case last_refresh_at of
                  None \<Rightarrow> False
                | Some refreshed \<Rightarrow>
                    (case rfc3339 refreshed of Some refreshed \<Rightarrow> completed \<le> refreshed | None \<Rightarrow> False))))"

text \<open>What the due predicates read of a repository.\<close>

record scan_clock =
  sk_generation :: "int option"
  sk_observed_generation :: "int option"
  sk_last_refresh_at :: "string option"
  sk_interval :: duration
  sk_periodic_enabled :: bool
  sk_token :: "string option"
  sk_honored :: "string option"
  sk_attempt_at :: "string option"
  sk_retry_interval :: duration

definition bootstrap_recycle_due ::
    "(string \<Rightarrow> datetime option) \<Rightarrow> bool \<Rightarrow> scan_clock \<Rightarrow> string option \<Rightarrow> datetime \<Rightarrow> bool" where
  "bootstrap_recycle_due rfc3339 phase_is_ready k job_completed_at now =
     (if \<not> phase_is_ready then False
      else if sk_generation k \<noteq> sk_observed_generation k then True
      else
        (sk_periodic_enabled k \<and>
         refresh_due rfc3339 (sk_last_refresh_at k) (sk_interval k) now \<and>
         result_already_consumed rfc3339 (sk_last_refresh_at k) job_completed_at) \<or>
        (scan_requested_due rfc3339 (sk_token k) (sk_honored k) (sk_attempt_at k) (sk_retry_interval k) now \<and>
         result_already_consumed rfc3339 (sk_last_refresh_at k) job_completed_at))"

definition scan_due :: "(string \<Rightarrow> datetime option) \<Rightarrow> scan_clock \<Rightarrow> datetime \<Rightarrow> bool" where
  "scan_due rfc3339 k now =
     (if sk_generation k \<noteq> sk_observed_generation k then True
      else (sk_periodic_enabled k \<and> refresh_due rfc3339 (sk_last_refresh_at k) (sk_interval k) now) \<or>
           scan_requested_pending (sk_token k) (sk_honored k))"

definition bootstrap_create_due ::
    "(string \<Rightarrow> datetime option) \<Rightarrow> bool \<Rightarrow> scan_clock \<Rightarrow> datetime \<Rightarrow> bool" where
  "bootstrap_create_due rfc3339 phase_is_ready k now =
     (if \<not> phase_is_ready then True else bootstrap_recycle_due rfc3339 True k None now)"

subsection \<open>The plan\<close>

record catalog_row =
  cw_namespace :: string
  cw_name :: string
  cw_snapshot_id :: string
  cw_end_time :: "datetime option"
  cw_identity :: "string option"
  cw_host :: "string option"

record catalog_plan =
  cp_create :: "snapshot_list_entry list"
  cp_expire :: "(string \<times> string) list"

text \<open>
  The age is an unbounded integer; \<open>chrono::Duration::days\<close> panics for ages chrono cannot represent.
\<close>

record retain_bounds =
  rb_max_age :: "int option"
  rb_per_identity :: "nat option"
  rb_now :: datetime

definition retain_bounds_new :: "catalog_retain option \<Rightarrow> datetime \<Rightarrow> retain_bounds" where
  "retain_bounds_new retain now =
     \<lparr>rb_max_age = (case Option.bind retain ct_max_age_days of
         Some d \<Rightarrow> if 1 \<le> d then Some (d * 86400 * nanos) else None | None \<Rightarrow> None),
      rb_per_identity = (case Option.bind retain ct_per_identity of
         Some n \<Rightarrow> if 0 \<le> n then Some (nat n) else None | None \<Rightarrow> None),
      rb_now = now\<rparr>"

definition within_age :: "retain_bounds \<Rightarrow> datetime \<Rightarrow> bool" where
  "within_age b end_time = is_none_or (\<lambda>a. rb_now b < end_time + a) (rb_max_age b)"

definition window_keep ::
    "snapshot_list_entry list \<Rightarrow> string set \<Rightarrow> string set \<Rightarrow> retain_bounds \<Rightarrow>
     (string \<times> snapshot_list_entry list) list" where
  "window_keep listing produced_ids foreign_ignored_ids bounds =
     (let by_identity = bt_group (\<lambda>e. Some (identity_key e, e))
            (filter (\<lambda>e. within_age bounds (le_end_time e))
              (filter (\<lambda>e. le_id e \<notin> foreign_ignored_ids)
                (filter (\<lambda>e. le_id e \<notin> produced_ids) listing))) []
      in map (\<lambda>(k, es).
           (let sorted_es = sort_key (\<lambda>e. - le_end_time e) es
            in (k, take (unwrap_or (rb_per_identity bounds) (length sorted_es)) sorted_es))) by_identity)"

fun presence_unrefuted :: "listing_coverage \<Rightarrow> string \<Rightarrow> bool" where
  "presence_unrefuted LC_Complete k = False"
| "presence_unrefuted (LC_Capped present) k = digest_contains present k"
| "presence_unrefuted (LC_Partial _) k = True"

definition row_admits ::
    "string set \<Rightarrow> string set \<Rightarrow> string set \<Rightarrow> listing_coverage \<Rightarrow> retain_bounds \<Rightarrow> catalog_row \<Rightarrow> bool" where
  "row_admits produced_ids foreign_ignored_ids row_foreign_ignored_ids coverage bounds row \<longleftrightarrow>
     cw_snapshot_id row \<notin> produced_ids \<and> cw_snapshot_id row \<notin> foreign_ignored_ids \<and>
     cw_snapshot_id row \<notin> row_foreign_ignored_ids \<and>
     is_none_or (\<lambda>t. within_age bounds t) (cw_end_time row) \<and>
     presence_unrefuted coverage (cw_snapshot_id row)"

text \<open>\<open>BTreeMap::insert\<close> on an association list sorted by key.\<close>

fun bt_insert :: "'k::linorder \<Rightarrow> 'v \<Rightarrow> ('k \<times> 'v) list \<Rightarrow> ('k \<times> 'v) list" where
  "bt_insert k v [] = [(k, v)]"
| "bt_insert k v ((k', v') # m) =
     (if k < k' then (k, v) # (k', v') # m
      else if k = k' then (k', v) # m
      else (k', v') # bt_insert k v m)"

text \<open>The newest row of each id outside the listing; on a tie the first of them.\<close>

fun newest_rows :: "catalog_row list \<Rightarrow> (string \<times> catalog_row) list \<Rightarrow> (string \<times> catalog_row) list" where
  "newest_rows [] m = m"
| "newest_rows (r # rs) m =
     newest_rows rs
       (case map_of m (cw_snapshot_id r) of
          None \<Rightarrow> bt_insert (cw_snapshot_id r) r m
        | Some slot \<Rightarrow>
            if cw_end_time slot < cw_end_time r then bt_insert (cw_snapshot_id r) r m else m)"

definition out_of_window_candidates ::
    "catalog_row list \<Rightarrow> string set \<Rightarrow> (catalog_row \<Rightarrow> bool) \<Rightarrow> catalog_row list" where
  "out_of_window_candidates rows listed admits =
     filter admits (map snd (newest_rows (filter (\<lambda>r. cw_snapshot_id r \<notin> listed) rows) []))"

fun row_rank_cap :: "listing_coverage \<Rightarrow> retain_bounds \<Rightarrow> nat option" where
  "row_rank_cap LC_Complete bounds = rb_per_identity bounds"
| "row_rank_cap (LC_Capped _) bounds = rb_per_identity bounds"
| "row_rank_cap (LC_Partial _) bounds = None"

text \<open>Newest end time first, rows without one last, ties by id.\<close>

definition row_order :: "catalog_row \<Rightarrow> (int \<times> int) \<times> string" where
  "row_order r =
     ((case cw_end_time r of Some t \<Rightarrow> (0, - t) | None \<Rightarrow> (1, 0)), cw_snapshot_id r)"

text \<open>The slots left for an identity; \<open>None\<close> is \<open>usize::MAX\<close>.\<close>

definition free_slots ::
    "(string \<times> snapshot_list_entry list) list \<Rightarrow> nat option \<Rightarrow> string option \<Rightarrow> nat option" where
  "free_slots window per_identity i =
     (case i of
        None \<Rightarrow> None
      | Some key \<Rightarrow>
          (let used = (case map_of window key of None \<Rightarrow> 0 | Some es \<Rightarrow> length es)
           in map_option (\<lambda>n. n - used) per_identity))"

definition take_slots :: "nat option \<Rightarrow> 'a list \<Rightarrow> 'a list" where
  "take_slots free xs = (case free of None \<Rightarrow> xs | Some n \<Rightarrow> take n xs)"

definition fill_row_slots ::
    "catalog_row list \<Rightarrow> (string \<times> snapshot_list_entry list) list \<Rightarrow> nat option \<Rightarrow> string list" where
  "fill_row_slots candidates window per_identity =
     concat (map (\<lambda>(i, rows).
         map cw_snapshot_id (take_slots (free_slots window per_identity i) (sort_key row_order rows)))
       (bt_group (\<lambda>r. Some (cw_identity r, r)) candidates []))"

datatype kept = Kept_Entry snapshot_list_entry | Kept_Row

definition plan_catalog ::
    "catalog_row list \<Rightarrow> string set \<Rightarrow> string set \<Rightarrow> string set \<Rightarrow> snapshot_list_entry list \<Rightarrow>
     listing_coverage \<Rightarrow> catalog_retain option \<Rightarrow> datetime \<Rightarrow> catalog_plan" where
  "plan_catalog rows produced_ids foreign_ignored_ids row_foreign_ignored_ids listing coverage retain now =
     (let bounds = retain_bounds_new retain now;
          window = window_keep listing produced_ids foreign_ignored_ids bounds;
          keep = fold (\<lambda>e. bt_insert (le_id e) (Kept_Entry e)) (concat (map snd window)) [];
          listed = set (map le_id listing);
          candidates = out_of_window_candidates rows listed
            (row_admits produced_ids foreign_ignored_ids row_foreign_ignored_ids coverage bounds);
          keep = fold (\<lambda>k. bt_insert k Kept_Row)
            (fill_row_slots candidates window (row_rank_cap coverage bounds)) keep;
          have_ids = set (map cw_snapshot_id rows);
          create = filter_map (\<lambda>k. case k of
              Kept_Entry e \<Rightarrow> if le_id e \<in> have_ids then None else Some e
            | Kept_Row \<Rightarrow> None) (map snd keep)
      in \<lparr>cp_create = sort_key (\<lambda>e. - le_end_time e) create,
          cp_expire = map (\<lambda>r. (cw_namespace r, cw_name r))
            (filter (\<lambda>r. cw_snapshot_id r \<notin> set (map fst keep)) rows)\<rparr>)"

subsection \<open>Placement\<close>

datatype placement = PL_Namespace string | PL_Cluster allowed_namespaces "string option"

datatype placement_decision = Place string | Unplaced | ForeignIgnored

definition fallback_or_unplaced :: "string option \<Rightarrow> placement_decision" where
  "fallback_or_unplaced fallback = (case fallback of Some f \<Rightarrow> Place f | None \<Rightarrow> Unplaced)"

fun decide_cluster_placement ::
    "host_class \<Rightarrow> bool \<Rightarrow> bool \<Rightarrow> foreign_snapshots \<Rightarrow> string option \<Rightarrow> placement_decision" where
  "decide_cluster_placement (HC_Bare namespace) ns_allowed cluster_mode foreign fallback =
     (if ns_allowed then Place namespace
      else if cluster_mode \<and> foreign = FS_Ignore then ForeignIgnored
      else fallback_or_unplaced fallback)"
| "decide_cluster_placement (HC_OwnCluster namespace) ns_allowed cluster_mode foreign fallback =
     (if ns_allowed then Place namespace else fallback_or_unplaced fallback)"
| "decide_cluster_placement (HC_ForeignCluster _) ns_allowed cluster_mode foreign fallback =
     (case foreign of FS_Ignore \<Rightarrow> ForeignIgnored | FS_Fallback \<Rightarrow> fallback_or_unplaced fallback)"

fun decide_namespace_placement :: "host_class \<Rightarrow> string \<Rightarrow> placement_decision" where
  "decide_namespace_placement (HC_Bare _) namespace = Place namespace"
| "decide_namespace_placement (HC_OwnCluster _) namespace = Place namespace"
| "decide_namespace_placement (HC_ForeignCluster _) namespace = ForeignIgnored"

text \<open>The candidate namespace a host class names.\<close>

fun host_candidate :: "host_class \<Rightarrow> string option" where
  "host_candidate (HC_Bare namespace) = Some namespace"
| "host_candidate (HC_OwnCluster namespace) = Some namespace"
| "host_candidate (HC_ForeignCluster _) = None"

definition out_of_window_row_hosts ::
    "snapshot_list_entry list \<Rightarrow> catalog_row list \<Rightarrow> (string \<times> string) list" where
  "out_of_window_row_hosts listing rows =
     filter_map (\<lambda>r. case cw_host r of
         None \<Rightarrow> None
       | Some host \<Rightarrow>
           if cw_snapshot_id r \<notin> set (map le_id listing) then Some (cw_snapshot_id r, host) else None) rows"

definition candidate_namespaces ::
    "snapshot_list_entry list \<Rightarrow> catalog_row list \<Rightarrow> string option \<Rightarrow> string list" where
  "candidate_namespaces listing rows cluster =
     sort (remdups (filter_map (\<lambda>host. host_candidate (classify_hostname host cluster))
       (map le_host listing @ map snd (out_of_window_row_hosts listing rows))))"

record placement_rules =
  pl_cluster :: "string option"
  pl_cluster_mode :: bool
  pl_foreign :: foreign_snapshots
  pl_placement :: placement
  pl_ns_allowed :: "string \<rightharpoonup> bool"

definition rules_decide :: "placement_rules \<Rightarrow> string \<Rightarrow> placement_decision" where
  "rules_decide r host =
     (let cls = classify_hostname host (pl_cluster r)
      in case pl_placement r of
           PL_Namespace ns \<Rightarrow> decide_namespace_placement cls ns
         | PL_Cluster _ fallback \<Rightarrow>
             (let candidate_allowed = (case host_candidate cls of
                  Some namespace \<Rightarrow> unwrap_or (pl_ns_allowed r namespace) False | None \<Rightarrow> False)
              in decide_cluster_placement cls candidate_allowed (pl_cluster_mode r) (pl_foreign r) fallback))"

definition rules_foreign_suffix :: "placement_rules \<Rightarrow> string \<Rightarrow> string option" where
  "rules_foreign_suffix r host =
     (case classify_hostname host (pl_cluster r) of HC_ForeignCluster suffix \<Rightarrow> Some suffix | _ \<Rightarrow> None)"

record placement_pass =
  pp_decisions :: "string \<rightharpoonup> placement_decision"
  pp_foreign_ignored_ids :: "string set"
  pp_foreign_count :: int
  pp_foreign_suffix_counts :: "string \<rightharpoonup> int"
  pp_row_foreign_ignored_ids :: "string set"

text \<open>Pass 1: one decision and one suffix per distinct hostname.\<close>

fun decide_hosts ::
    "placement_rules \<Rightarrow> snapshot_list_entry list \<Rightarrow> (string \<rightharpoonup> placement_decision) \<times> (string \<rightharpoonup> string option) \<Rightarrow>
     (string \<rightharpoonup> placement_decision) \<times> (string \<rightharpoonup> string option)" where
  "decide_hosts r [] (decisions, suffixes) = (decisions, suffixes)"
| "decide_hosts r (e # es) (decisions, suffixes) =
     (let host = le_host e
      in if decisions host \<noteq> None then decide_hosts r es (decisions, suffixes)
         else decide_hosts r es
                (decisions(host \<mapsto> rules_decide r host), suffixes(host \<mapsto> rules_foreign_suffix r host)))"

text \<open>Pass 2: per-entry accounting.\<close>

fun account_entries ::
    "(string \<rightharpoonup> placement_decision) \<Rightarrow> (string \<rightharpoonup> string option) \<Rightarrow> snapshot_list_entry list \<Rightarrow>
     string set \<times> int \<times> (string \<rightharpoonup> int) \<Rightarrow> string set \<times> int \<times> (string \<rightharpoonup> int)" where
  "account_entries decisions suffixes [] acc = acc"
| "account_entries decisions suffixes (e # es) (ignored, n, counts) =
     (case decisions (le_host e) of
        None \<Rightarrow> account_entries decisions suffixes es (ignored, n, counts)
      | Some decision \<Rightarrow>
          (let suffix = unwrap_or (suffixes (le_host e)) None;
               is_foreign = suffix \<noteq> None \<or> decision = ForeignIgnored;
               key = unwrap_or suffix (le_host e);
               (n, counts) = (if is_foreign then (n + 1, counts(key \<mapsto> unwrap_or (counts key) 0 + 1))
                              else (n, counts));
               ignored = (if decision = ForeignIgnored then insert (le_id e) ignored else ignored)
           in account_entries decisions suffixes es (ignored, n, counts)))"

definition plan_placements ::
    "snapshot_list_entry list \<Rightarrow> catalog_row list \<Rightarrow> string option \<Rightarrow> foreign_snapshots \<Rightarrow> placement \<Rightarrow>
     (string \<rightharpoonup> bool) \<Rightarrow> placement_pass" where
  "plan_placements listing rows cluster foreign placement ns_allowed =
     (let rules = \<lparr>pl_cluster = cluster, pl_cluster_mode = is_some_and (\<lambda>c. c \<noteq> []) cluster,
            pl_foreign = foreign, pl_placement = placement, pl_ns_allowed = ns_allowed\<rparr>;
          (decisions, suffixes) = decide_hosts rules listing (Map.empty, Map.empty);
          row_ignored = set (map fst (filter (\<lambda>(_, host). case decisions host of
              Some decided \<Rightarrow> decided = ForeignIgnored
            | None \<Rightarrow> rules_decide rules host = ForeignIgnored) (out_of_window_row_hosts listing rows)));
          (ignored, n, counts) = account_entries decisions suffixes listing ({}, 0, Map.empty)
      in \<lparr>pp_decisions = decisions, pp_foreign_ignored_ids = ignored, pp_foreign_count = n,
          pp_foreign_suffix_counts = counts, pp_row_foreign_ignored_ids = row_ignored\<rparr>)"

definition placement_rows :: "listing_coverage \<Rightarrow> catalog_row list \<Rightarrow> catalog_row list" where
  "placement_rows coverage rows = (case coverage of LC_Complete \<Rightarrow> [] | _ \<Rightarrow> rows)"

subsection \<open>What a plan keeps\<close>

text \<open>An entry that may be kept, and the rows' counterpart of the listing order.\<close>

definition eligible :: "string set \<Rightarrow> string set \<Rightarrow> retain_bounds \<Rightarrow> snapshot_list_entry \<Rightarrow> bool" where
  "eligible P FI b e \<longleftrightarrow> le_id e \<notin> P \<and> le_id e \<notin> FI \<and> within_age b (le_end_time e)"

definition kept_of_identity ::
    "snapshot_list_entry list \<Rightarrow> string set \<Rightarrow> string set \<Rightarrow> retain_bounds \<Rightarrow> string \<Rightarrow> snapshot_list_entry list" where
  "kept_of_identity L P FI b k =
     take_slots (rb_per_identity b)
       (sort_key (\<lambda>e. - le_end_time e) (filter (\<lambda>e. eligible P FI b e \<and> identity_key e = k) L))"

lemma filter_map_in_group [simp]:
  "filter_map (in_group (\<lambda>e. Some (g e, e)) k) xs = filter (\<lambda>e. g e = k) xs"
  by (induction xs) (auto simp: in_group_def)

lemma map_of_bt_group:
  "map_of (bt_group (\<lambda>e. Some (g e, e)) xs []) k =
     (if filter (\<lambda>e. g e = k) xs = [] then None else Some (filter (\<lambda>e. g e = k) xs))"
  by (simp add: bt_group_lookup)

lemma set_bt_group:
  "(k, vs) \<in> set (bt_group (\<lambda>e. Some (g e, e)) xs []) \<longleftrightarrow> vs = filter (\<lambda>e. g e = k) xs \<and> vs \<noteq> []"
proof
  assume "(k, vs) \<in> set (bt_group (\<lambda>e. Some (g e, e)) xs [])"
  from bt_group_entry [OF this] show "vs = filter (\<lambda>e. g e = k) xs \<and> vs \<noteq> []" by simp
next
  assume "vs = filter (\<lambda>e. g e = k) xs \<and> vs \<noteq> []"
  then show "(k, vs) \<in> set (bt_group (\<lambda>e. Some (g e, e)) xs [])"
    by (intro map_of_SomeD) (auto simp: map_of_bt_group)
qed

lemma take_slots_unwrap: "take (unwrap_or n (length xs)) xs = take_slots n xs"
  by (cases n) (simp_all add: take_slots_def)

lemma window_keep_entry:
  "window_keep L P FI b = map (\<lambda>(k, es). (k, kept_of_identity L P FI b k))
     (bt_group (\<lambda>e. Some (identity_key e, e)) (filter (eligible P FI b) L) [])"
proof -
  have elig: "filter (\<lambda>e. within_age b (le_end_time e)) (filter (\<lambda>e. le_id e \<notin> FI) (filter (\<lambda>e. le_id e \<notin> P) L)) =
      filter (eligible P FI b) L"
    by (auto simp: eligible_def intro!: filter_cong)
  show ?thesis
    unfolding window_keep_def Let_def elig take_slots_unwrap
    by (intro map_cong refl) (auto simp: set_bt_group kept_of_identity_def filter_filter eligible_def conj_ac
        intro!: arg_cong [where f = "\<lambda>xs. take_slots _ (sort_key _ xs)"] filter_cong)
qed

lemma map_of_map_keyed: "map_of (map (\<lambda>(k, v). (k, h k)) m) k = map_option (\<lambda>_. h k) (map_of m k)"
  by (induction m) auto

lemma map_of_window_keep:
  "map_of (window_keep L P FI b) k =
     (if filter (\<lambda>e. eligible P FI b e \<and> identity_key e = k) L = [] then None
      else Some (kept_of_identity L P FI b k))"
  unfolding window_keep_entry
  by (simp add: map_of_map_keyed map_of_bt_group filter_filter conj_commute)

lemma kept_of_identity_subset:
  "e \<in> set (kept_of_identity L P FI b k) \<Longrightarrow> e \<in> set L \<and> eligible P FI b e \<and> identity_key e = k"
  by (auto simp: kept_of_identity_def take_slots_def split: option.splits dest: in_set_takeD)

lemma set_window_keep:
  "e \<in> set (concat (map snd (window_keep L P FI b))) \<longleftrightarrow>
     e \<in> set (kept_of_identity L P FI b (identity_key e))"
proof
  assume "e \<in> set (concat (map snd (window_keep L P FI b)))"
  then obtain k where "e \<in> set (kept_of_identity L P FI b k)"
    by (auto simp: window_keep_entry)
  with kept_of_identity_subset [OF this] show "e \<in> set (kept_of_identity L P FI b (identity_key e))" by simp
next
  assume e: "e \<in> set (kept_of_identity L P FI b (identity_key e))"
  then have "filter (\<lambda>x. eligible P FI b x \<and> identity_key x = identity_key e) L \<noteq> []"
    using kept_of_identity_subset [OF e] by (auto simp: filter_empty_conv)
  then have "map_of (window_keep L P FI b) (identity_key e) = Some (kept_of_identity L P FI b (identity_key e))"
    by (simp add: map_of_window_keep)
  then show "e \<in> set (concat (map snd (window_keep L P FI b)))"
    using e by (force dest: map_of_SomeD)
qed

lemma fst_set_bt_insert: "fst ` set (bt_insert k v m) = insert k (fst ` set m)"
  by (induction k v m rule: bt_insert.induct) auto

lemma fst_set_fold_bt_insert:
  "fst ` set (fold (\<lambda>x. bt_insert (f x) (g x)) xs m) = f ` set xs \<union> fst ` set m"
  by (induction xs arbitrary: m) (auto simp: fst_set_bt_insert)

definition keep_ids ::
    "catalog_row list \<Rightarrow> string set \<Rightarrow> string set \<Rightarrow> string set \<Rightarrow> snapshot_list_entry list \<Rightarrow>
     listing_coverage \<Rightarrow> retain_bounds \<Rightarrow> string set" where
  "keep_ids rows P FI RFI L cov b =
     {le_id e | e. e \<in> set (kept_of_identity L P FI b (identity_key e))} \<union>
     set (fill_row_slots (out_of_window_candidates rows (set (map le_id L)) (row_admits P FI RFI cov b))
       (window_keep L P FI b) (row_rank_cap cov b))"

lemma plan_expire_iff:
  "x \<in> set (cp_expire (plan_catalog rows P FI RFI L cov retain now)) \<longleftrightarrow>
     (\<exists>r \<in> set rows. x = (cw_namespace r, cw_name r) \<and>
        cw_snapshot_id r \<notin> keep_ids rows P FI RFI L cov (retain_bounds_new retain now))"
proof -
  let ?b = "retain_bounds_new retain now"
  have keys: "set (map fst (fold (\<lambda>k. bt_insert k Kept_Row) xs
        (fold (\<lambda>e. bt_insert (le_id e) (Kept_Entry e)) es []))) = set xs \<union> le_id ` set es" for xs es
    using fst_set_fold_bt_insert [of "\<lambda>k. k" "\<lambda>_. Kept_Row" xs]
      fst_set_fold_bt_insert [of le_id Kept_Entry es "[]"] by auto
  have window: "le_id ` set (concat (map snd (window_keep L P FI ?b))) =
      {le_id e | e. e \<in> set (kept_of_identity L P FI ?b (identity_key e))}"
    using set_window_keep [of _ L P FI ?b] by (auto simp del: set_concat set_map)
  show ?thesis
    unfolding plan_catalog_def Let_def keep_ids_def keys window by auto
qed

subsection \<open>Rows outside the window\<close>

lemma bt_insert_wf: "bt_wf m \<Longrightarrow> bt_wf (bt_insert k v m)"
proof (induction k v m rule: bt_insert.induct)
  case (2 k v k' v' m)
  then show ?case using fst_set_bt_insert [of k v m] by (force simp: image_iff)
qed simp

lemma set_bt_insert:
  "bt_wf m \<Longrightarrow> set (bt_insert k v m) = insert (k, v) {x \<in> set m. fst x \<noteq> k}"
proof (induction k v m rule: bt_insert.induct)
  case (2 k v k' v' m)
  have "k < k' \<Longrightarrow> \<forall>x \<in> set m. fst x \<noteq> k" using 2(2) by force
  moreover have "\<forall>x \<in> set m. fst x \<noteq> k'" using 2(2) by force
  ultimately show ?case using 2 by auto
qed simp

lemma newest_rows_props:
  assumes "bt_wf m" and "\<forall>(k, r) \<in> set m. cw_snapshot_id r = k"
  shows "bt_wf (newest_rows rs m)"
    and "\<forall>(k, r) \<in> set (newest_rows rs m). cw_snapshot_id r = k"
    and "snd ` set (newest_rows rs m) \<subseteq> set rs \<union> snd ` set m"
    and "fst ` set (newest_rows rs m) = cw_snapshot_id ` set rs \<union> fst ` set m"
proof -
  let ?inv = "\<lambda>m :: (string \<times> catalog_row) list. bt_wf m \<and> (\<forall>(k, r) \<in> set m. cw_snapshot_id r = k)"
  have "?inv (newest_rows rs m) \<and> snd ` set (newest_rows rs m) \<subseteq> set rs \<union> snd ` set m \<and>
      fst ` set (newest_rows rs m) = cw_snapshot_id ` set rs \<union> fst ` set m"
    using assms
  proof (induction rs arbitrary: m)
    case (Cons r rs)
    let ?id = "cw_snapshot_id r"
    define m' where "m' = (case map_of m ?id of None \<Rightarrow> bt_insert ?id r m
      | Some slot \<Rightarrow> if cw_end_time slot < cw_end_time r then bt_insert ?id r m else m)"
    have m': "m' = bt_insert ?id r m \<or> m' = m \<and> ?id \<in> fst ` set m"
      by (cases "map_of m ?id") (auto simp: m'_def dest: map_of_SomeD intro: rev_image_eqI)
    have inv: "bt_wf m'" "\<forall>(k, r) \<in> set m'. cw_snapshot_id r = k"
      using m' Cons.prems by (auto simp: bt_insert_wf set_bt_insert)
    have snds: "snd ` set m' \<subseteq> insert r (snd ` set m)" using m' Cons.prems by (auto simp: set_bt_insert)
    have fsts: "fst ` set m' = insert ?id (fst ` set m)"
      using m' fst_set_bt_insert [of ?id r m] by (metis insert_absorb)
    have "newest_rows (r # rs) m = newest_rows rs m'" by (simp add: m'_def)
    then show ?case using Cons.IH [OF inv] snds fsts by (simp only: list.set image_insert) blast
  qed simp
  then show "bt_wf (newest_rows rs m)" "\<forall>(k, r) \<in> set (newest_rows rs m). cw_snapshot_id r = k"
    "snd ` set (newest_rows rs m) \<subseteq> set rs \<union> snd ` set m"
    "fst ` set (newest_rows rs m) = cw_snapshot_id ` set rs \<union> fst ` set m" by auto
qed

lemma candidates_props:
  fixes rows :: "catalog_row list" and listed :: "string set" and admits :: "catalog_row \<Rightarrow> bool"
  defines "C \<equiv> out_of_window_candidates rows listed admits"
  shows "set C \<subseteq> {r \<in> set rows. cw_snapshot_id r \<notin> listed \<and> admits r}"
    and "distinct (map cw_snapshot_id C)"
    and "\<lbrakk>k \<in> cw_snapshot_id ` set rows; k \<notin> listed; \<forall>r \<in> set rows. cw_snapshot_id r = k \<longrightarrow> admits r\<rbrakk>
          \<Longrightarrow> \<exists>r \<in> set C. cw_snapshot_id r = k"
proof -
  let ?out = "filter (\<lambda>r. cw_snapshot_id r \<notin> listed) rows"
  define N where "N = newest_rows ?out []"
  note props = newest_rows_props [of "[]" ?out, folded N_def, simplified]
  have C: "C = filter admits (map snd N)" by (simp add: C_def out_of_window_candidates_def N_def)
  show "set C \<subseteq> {r \<in> set rows. cw_snapshot_id r \<notin> listed \<and> admits r}"
    using props(3) by (auto simp: C)
  have "map cw_snapshot_id (map snd N) = map fst N"
    using props(2) by (auto simp: comp_def split_beta intro!: map_cong)
  moreover have "distinct (map fst N)" using props(1) by (simp add: strict_sorted_iff)
  ultimately have "distinct (map cw_snapshot_id (map snd N))" by (simp only:)
  then show "distinct (map cw_snapshot_id C)" unfolding C by (rule distinct_map_filter)
  assume k: "k \<in> cw_snapshot_id ` set rows" "k \<notin> listed"
    and adm: "\<forall>r \<in> set rows. cw_snapshot_id r = k \<longrightarrow> admits r"
  then have "k \<in> fst ` set N" using props(4) by auto
  then obtain r where "(k, r) \<in> set N" by auto
  then have "cw_snapshot_id r = k" "r \<in> set rows" "r \<in> set (map snd N)"
    using props(2,3) by (auto intro: rev_image_eqI)
  with adm show "\<exists>r \<in> set C. cw_snapshot_id r = k" unfolding C by auto
qed

lemma set_fill_row_slots:
  "k \<in> set (fill_row_slots C window pi) \<longleftrightarrow>
     (\<exists>r. cw_snapshot_id r = k \<and>
        r \<in> set (take_slots (free_slots window pi (cw_identity r))
               (sort_key row_order (filter (\<lambda>x. cw_identity x = cw_identity r) C))))"
    (is "_ \<longleftrightarrow> ?rhs")
proof
  assume "k \<in> set (fill_row_slots C window pi)"
  then obtain i rs r where g: "(i, rs) \<in> set (bt_group (\<lambda>r. Some (cw_identity r, r)) C [])"
    and r: "r \<in> set (take_slots (free_slots window pi i) (sort_key row_order rs))" "k = cw_snapshot_id r"
    by (auto simp: fill_row_slots_def)
  have rs: "rs = filter (\<lambda>x. cw_identity x = i) C" using g by (simp add: set_bt_group)
  have "r \<in> set rs" using r(1) by (auto simp: take_slots_def split: option.splits dest: in_set_takeD)
  then have "cw_identity r = i" by (simp add: rs)
  with r rs show ?rhs by auto
next
  assume ?rhs
  then obtain r where r: "cw_snapshot_id r = k"
    "r \<in> set (take_slots (free_slots window pi (cw_identity r))
           (sort_key row_order (filter (\<lambda>x. cw_identity x = cw_identity r) C)))" by blast
  let ?rs = "filter (\<lambda>x. cw_identity x = cw_identity r) C"
  have "r \<in> set ?rs" using r(2) by (auto simp: take_slots_def split: option.splits dest: in_set_takeD)
  then have "?rs \<noteq> []" using length_pos_if_in_set by fastforce
  then have "(cw_identity r, ?rs) \<in> set (bt_group (\<lambda>r. Some (cw_identity r, r)) C [])"
    by (simp add: set_bt_group)
  with r show "k \<in> set (fill_row_slots C window pi)" by (force simp: fill_row_slots_def)
qed

lemma fill_row_slots_subset: "set (fill_row_slots C window pi) \<subseteq> cw_snapshot_id ` set C"
  by (auto simp: set_fill_row_slots take_slots_def split: option.splits dest!: in_set_takeD)

subsection \<open>Placement, declaratively\<close>

abbreviation placement_rules_of ::
    "string option \<Rightarrow> foreign_snapshots \<Rightarrow> placement \<Rightarrow> (string \<rightharpoonup> bool) \<Rightarrow> placement_rules" where
  "placement_rules_of cluster foreign pl allowed \<equiv>
     \<lparr>pl_cluster = cluster, pl_cluster_mode = is_some_and (\<lambda>c. c \<noteq> []) cluster, pl_foreign = foreign,
      pl_placement = pl, pl_ns_allowed = allowed\<rparr>"

lemma decide_hosts_eq:
  assumes "\<forall>h d. decisions h = Some d \<longrightarrow> d = rules_decide r h"
  shows "fst (decide_hosts r es (decisions, suffixes)) =
    (\<lambda>h. if h \<in> le_host ` set es then Some (rules_decide r h) else decisions h)"
  using assms
proof (induction es arbitrary: decisions suffixes)
  case (Cons e es)
  let ?h = "le_host e"
  show ?case
  proof (cases "decisions ?h")
    case None
    have "fst (decide_hosts r es (decisions(?h \<mapsto> rules_decide r ?h), suffixes(?h \<mapsto> rules_foreign_suffix r ?h))) =
        (\<lambda>h. if h \<in> le_host ` set es then Some (rules_decide r h) else (decisions(?h \<mapsto> rules_decide r ?h)) h)"
      using Cons.prems by (intro Cons.IH) auto
    then show ?thesis using None by (auto simp: Let_def fun_eq_iff)
  next
    case (Some d)
    then have "d = rules_decide r ?h" using Cons.prems by blast
    then show ?thesis using Some Cons.IH [OF Cons.prems, of suffixes] by (auto simp: Let_def fun_eq_iff)
  qed
qed simp

lemma account_entries_ignored:
  "fst (account_entries decisions suffixes es (ignored, n, counts)) =
     ignored \<union> {le_id e | e. e \<in> set es \<and> decisions (le_host e) = Some ForeignIgnored}"
proof (induction es arbitrary: ignored n counts)
  case (Cons e es)
  have rest: "fst (account_entries decisions suffixes es (S, X)) =
      S \<union> {le_id e | e. e \<in> set es \<and> decisions (le_host e) = Some ForeignIgnored}" for S X
    using Cons [of S "fst X" "snd X"] by simp
  show ?case by (cases "decisions (le_host e)") (auto simp: Let_def split_beta rest)
qed simp

lemma set_row_hosts:
  "(i, h) \<in> set (out_of_window_row_hosts L rows) \<longleftrightarrow>
     (\<exists>r \<in> set rows. cw_snapshot_id r = i \<and> cw_host r = Some h \<and> i \<notin> le_id ` set L)"
  unfolding out_of_window_row_hosts_def in_set_filter_map
  by (intro bex_cong refl) (auto split: option.split)

lemma plan_placements_sets:
  fixes L rows cluster foreign pl allowed
  defines "pass \<equiv> plan_placements L rows cluster foreign pl allowed"
    and "D \<equiv> \<lambda>h. rules_decide (placement_rules_of cluster foreign pl allowed) h"
  shows "pp_foreign_ignored_ids pass = {le_id e | e. e \<in> set L \<and> D (le_host e) = ForeignIgnored}"
    and "pp_row_foreign_ignored_ids pass = {cw_snapshot_id r | r h. r \<in> set rows \<and> cw_host r = Some h \<and>
      cw_snapshot_id r \<notin> le_id ` set L \<and> D h = ForeignIgnored}"
    and "pp_decisions pass = (\<lambda>h. if h \<in> le_host ` set L then Some (D h) else None)"
proof -
  let ?r = "placement_rules_of cluster foreign pl allowed"
  obtain decisions suffixes where dh: "decide_hosts ?r L (Map.empty, Map.empty) = (decisions, suffixes)"
    by fastforce
  have dec: "decisions = (\<lambda>h. if h \<in> le_host ` set L then Some (D h) else None)"
    unfolding D_def using decide_hosts_eq [of Map.empty ?r L Map.empty] dh by simp
  have ign: "fst (account_entries decisions suffixes L ({}, 0, Map.empty)) =
      {le_id e | e. e \<in> set L \<and> D (le_host e) = ForeignIgnored}"
    by (auto simp: account_entries_ignored dec)
  show "pp_foreign_ignored_ids pass = {le_id e | e. e \<in> set L \<and> D (le_host e) = ForeignIgnored}"
    using ign by (simp add: pass_def plan_placements_def Let_def dh split_beta)
  show "pp_decisions pass = (\<lambda>h. if h \<in> le_host ` set L then Some (D h) else None)"
    by (simp add: pass_def plan_placements_def Let_def dh dec split_beta)
  have cond: "(case decisions h of Some d \<Rightarrow> d = ForeignIgnored | None \<Rightarrow> rules_decide ?r h = ForeignIgnored) \<longleftrightarrow>
      D h = ForeignIgnored" for h
    unfolding dec D_def by simp
  have "pp_row_foreign_ignored_ids pass =
      fst ` {p \<in> set (out_of_window_row_hosts L rows). D (snd p) = ForeignIgnored}"
    unfolding pass_def plan_placements_def Let_def dh by (simp add: split_beta cond)
  also have "\<dots> = {i. \<exists>h. (i, h) \<in> set (out_of_window_row_hosts L rows) \<and> D h = ForeignIgnored}"
    by force
  also have "\<dots> = {cw_snapshot_id r | r h. r \<in> set rows \<and> cw_host r = Some h \<and>
      cw_snapshot_id r \<notin> le_id ` set L \<and> D h = ForeignIgnored}"
    by (auto simp: set_row_hosts)
  finally show "pp_row_foreign_ignored_ids pass = {cw_snapshot_id r | r h. r \<in> set rows \<and>
      cw_host r = Some h \<and> cw_snapshot_id r \<notin> le_id ` set L \<and> D h = ForeignIgnored}" .
qed

subsection \<open>What a plan creates\<close>

lemma fold_bt_insert_wf: "bt_wf m \<Longrightarrow> bt_wf (fold (\<lambda>x. bt_insert (f x) (g x)) xs m)"
  by (induction xs arbitrary: m) (auto simp: bt_insert_wf)

lemma fold_bt_insert_values:
  "bt_wf m \<Longrightarrow> snd ` set (fold (\<lambda>x. bt_insert (f x) (g x)) xs m) \<subseteq> g ` set xs \<union> snd ` set m"
proof (induction xs arbitrary: m)
  case (Cons x xs)
  have "snd ` set (bt_insert (f x) (g x) m) \<subseteq> insert (g x) (snd ` set m)"
    using Cons.prems by (auto simp: set_bt_insert)
  with Cons.IH [OF bt_insert_wf [OF Cons.prems], of "f x" "g x"] show ?case by auto
qed simp

lemma fold_bt_insert_keeps:
  "\<lbrakk>bt_wf m; (k, v) \<in> set m; k \<notin> f ` set xs\<rbrakk> \<Longrightarrow> (k, v) \<in> set (fold (\<lambda>x. bt_insert (f x) (g x)) xs m)"
  by (induction xs arbitrary: m) (auto simp: bt_insert_wf set_bt_insert)

lemma fold_bt_insert_mem:
  "\<lbrakk>bt_wf m; x \<in> set xs; inj_on f (set xs)\<rbrakk> \<Longrightarrow> (f x, g x) \<in> set (fold (\<lambda>x. bt_insert (f x) (g x)) xs m)"
proof (induction xs arbitrary: m)
  case (Cons y ys)
  have wf: "bt_wf (bt_insert (f y) (g y) m)" using Cons.prems(1) by (rule bt_insert_wf)
  show ?case
  proof (cases "x \<in> set ys")
    case True
    with Cons.IH [OF wf] Cons.prems(3) show ?thesis by simp
  next
    case False
    then have "x = y" "f x \<notin> f ` set ys" using Cons.prems(2,3) by (auto simp: inj_on_def)
    moreover have "(f y, g y) \<in> set (bt_insert (f y) (g y) m)" using Cons.prems(1) by (simp add: set_bt_insert)
    ultimately show ?thesis using fold_bt_insert_keeps [OF wf] by simp
  qed
qed simp

lemma created_of_kept:
  "e \<in> set (filter_map (\<lambda>k. case k of Kept_Entry e \<Rightarrow> if le_id e \<in> H then None else Some e | Kept_Row \<Rightarrow> None) ks) \<longleftrightarrow>
     Kept_Entry e \<in> set ks \<and> le_id e \<notin> H"
  by (induction ks) (auto split: kept.split)

lemma plan_create_sound:
  assumes "e \<in> set (cp_create (plan_catalog rows P FI RFI L cov retain now))"
  shows "e \<in> set (kept_of_identity L P FI (retain_bounds_new retain now) (identity_key e))"
    and "le_id e \<notin> cw_snapshot_id ` set rows"
proof -
  let ?b = "retain_bounds_new retain now"
  let ?ks = "fold (\<lambda>e. bt_insert (le_id e) (Kept_Entry e)) (concat (map snd (window_keep L P FI ?b))) []"
  let ?fill = "fill_row_slots (out_of_window_candidates rows (set (map le_id L)) (row_admits P FI RFI cov ?b))
    (window_keep L P FI ?b) (row_rank_cap cov ?b)"
  have "Kept_Entry e \<in> snd ` set (fold (\<lambda>k. bt_insert k Kept_Row) ?fill ?ks)" and absent: "le_id e \<notin> cw_snapshot_id ` set rows"
    using assms unfolding plan_catalog_def Let_def by (simp_all add: created_of_kept)
  then have "Kept_Entry e \<in> snd ` set ?ks"
    using fold_bt_insert_values [of ?ks "\<lambda>k. k" "\<lambda>_. Kept_Row" ?fill] fold_bt_insert_wf [of "[]" le_id Kept_Entry]
    by auto
  then have "e \<in> set (concat (map snd (window_keep L P FI ?b)))"
    using fold_bt_insert_values [of "[]" le_id Kept_Entry "concat (map snd (window_keep L P FI ?b))"]
    by (auto simp del: set_concat)
  then show "e \<in> set (kept_of_identity L P FI ?b (identity_key e))" by (simp only: set_window_keep)
  show "le_id e \<notin> cw_snapshot_id ` set rows" by (rule absent)
qed

lemma plan_create_complete:
  assumes ids: "distinct (map le_id L)"
    and kept: "e \<in> set (kept_of_identity L P FI (retain_bounds_new retain now) (identity_key e))"
    and absent: "le_id e \<notin> cw_snapshot_id ` set rows"
  shows "e \<in> set (cp_create (plan_catalog rows P FI RFI L cov retain now))"
proof -
  let ?b = "retain_bounds_new retain now"
  let ?es = "concat (map snd (window_keep L P FI ?b))"
  let ?ks = "fold (\<lambda>e. bt_insert (le_id e) (Kept_Entry e)) ?es []"
  let ?fill = "fill_row_slots (out_of_window_candidates rows (set (map le_id L)) (row_admits P FI RFI cov ?b))
    (window_keep L P FI ?b) (row_rank_cap cov ?b)"
  have "set ?es \<subseteq> set L" using kept_of_identity_subset by (auto simp: set_window_keep simp del: set_concat)
  then have "inj_on le_id (set ?es)" using ids by (auto simp: distinct_map intro: inj_on_subset)
  then have "(le_id e, Kept_Entry e) \<in> set ?ks"
    using fold_bt_insert_mem [of "[]" e ?es le_id Kept_Entry] kept by (simp only: set_window_keep) simp
  moreover have "le_id e \<notin> set ?fill"
  proof
    assume "le_id e \<in> set ?fill"
    from subsetD [OF fill_row_slots_subset this]
    obtain r where "r \<in> set (out_of_window_candidates rows (set (map le_id L)) (row_admits P FI RFI cov ?b))"
      "le_id e = cw_snapshot_id r" by (elim imageE)
    then have "le_id e \<notin> set (map le_id L)"
      using candidates_props(1) [of rows "set (map le_id L)" "row_admits P FI RFI cov ?b"] by auto
    then show False using kept_of_identity_subset [OF kept] by simp
  qed
  ultimately have "(le_id e, Kept_Entry e) \<in> set (fold (\<lambda>k. bt_insert k Kept_Row) ?fill ?ks)"
    using fold_bt_insert_keeps [of ?ks _ _ "\<lambda>k. k" ?fill "\<lambda>_. Kept_Row"] fold_bt_insert_wf [of "[]" le_id Kept_Entry]
    by simp
  then have "Kept_Entry e \<in> snd ` set (fold (\<lambda>k. bt_insert k Kept_Row) ?fill ?ks)"
    by (rule image_eqI [rotated]) simp
  then show ?thesis
    using absent unfolding plan_catalog_def Let_def by (simp add: created_of_kept)
qed

subsection \<open>A truncated listing against the whole one\<close>

lemma sort_key_id: "sorted (map f xs) \<Longrightarrow> sort_key f xs = xs"
  by (induction xs) (auto simp: insort_is_Cons)

lemma take_filter_mem: "x \<in> set (take n xs) \<Longrightarrow> Q x \<Longrightarrow> x \<in> set (take n (filter Q xs))"
proof (induction xs arbitrary: n)
  case (Cons y xs)
  then obtain m where n: "n = Suc m" by (cases n) auto
  have "set (take m zs) \<subseteq> set (take (Suc m) zs)" for zs :: "'a list"
    by (rule set_take_subset_set_take) simp
  with Cons n show ?case by (auto split: if_splits)
qed simp

text \<open>
  What the mover's window guarantees of a listing: ids are unique, every identity's entries come
  newest first, and the identity string tells identities apart.
\<close>

definition catalog_listing :: "snapshot_list_entry list \<Rightarrow> bool" where
  "catalog_listing F \<longleftrightarrow> distinct (map le_id F) \<and> fair_listing F \<and>
     (\<forall>e \<in> set F. \<forall>e' \<in> set F. identity_key e = identity_key e' \<longrightarrow> entry_identity e = entry_identity e')"

text \<open>Rows carry what their entry says, as the scan wrote them.\<close>

definition rows_recorded :: "catalog_row list \<Rightarrow> snapshot_list_entry list \<Rightarrow> bool" where
  "rows_recorded rows F \<longleftrightarrow>
     (\<forall>r \<in> set rows. \<forall>e \<in> set F. cw_snapshot_id r = le_id e \<longrightarrow>
        cw_end_time r = Some (le_end_time e) \<and> cw_identity r = Some (identity_key e) \<and>
        cw_host r = Some (le_host e))"

abbreviation identity_group ::
    "snapshot_list_entry list \<Rightarrow> string set \<Rightarrow> string set \<Rightarrow> retain_bounds \<Rightarrow> string \<Rightarrow> snapshot_list_entry list" where
  "identity_group F P FI b k \<equiv> filter (\<lambda>e. eligible P FI b e \<and> identity_key e = k) F"

lemma identity_group_sorted:
  assumes "catalog_listing F"
  shows "sorted_wrt (\<lambda>a c. newest_first a \<le> newest_first c) (identity_group F P FI b k)"
proof -
  have "sorted_wrt (\<lambda>a c. entry_identity a = entry_identity c \<longrightarrow> newest_first a \<le> newest_first c)
      (identity_group F P FI b k)"
    using assms by (intro sorted_wrt_sublist_filter) (simp add: catalog_listing_def fair_listing_def)
  then show ?thesis
    by (rule sorted_wrt_mono_rel [rotated])
       (use assms in \<open>auto simp: catalog_listing_def\<close>)
qed

lemma kept_of_identity_prefix:
  assumes "catalog_listing F"
  shows "kept_of_identity F P FI b k = take_slots (rb_per_identity b) (identity_group F P FI b k)"
proof -
  have "sorted_wrt (\<lambda>a c. - le_end_time a \<le> - le_end_time c) (identity_group F P FI b k)"
    by (rule sorted_wrt_mono_rel [OF _ identity_group_sorted [OF assms]])
       (auto simp: newest_first_def less_eq_prod_simp)
  then have "sorted (map (\<lambda>e. - le_end_time e) (identity_group F P FI b k))" by (simp add: sorted_map)
  then show ?thesis by (simp add: kept_of_identity_def sort_key_id)
qed

lemma catalog_listing_take: "catalog_listing F \<Longrightarrow> catalog_listing (take k F)"
  by (auto simp: catalog_listing_def fair_listing_take take_map [symmetric]
      dest: in_set_takeD simp del: take_map)

text \<open>The listing's order on an entry, as \<^const>\<open>row_order\<close> has it on the entry's row.\<close>

definition entry_order :: "snapshot_list_entry \<Rightarrow> (int \<times> int) \<times> string" where
  "entry_order e = ((0, - le_end_time e), le_id e)"

lemma entry_order_mono: "newest_first a \<le> newest_first c \<Longrightarrow> entry_order a \<le> entry_order c"
  by (auto simp: newest_first_def entry_order_def less_eq_prod_simp less_prod_simp)

text \<open>
  Rows drawn from a part of the listing, in row order, are that part filtered: so a row is among
  the first slots of the rows when its entry is among the first of the listing.
\<close>

lemma rows_are_filtered_entries:
  assumes rec: "rows_recorded C F"
    and sub: "\<And>r. r \<in> set C \<Longrightarrow> \<exists>e \<in> set G. le_id e = cw_snapshot_id r"
    and G: "set G \<subseteq> set F" "distinct (map le_id G)" "sorted_wrt (\<lambda>a c. newest_first a \<le> newest_first c) G"
    and C: "distinct (map cw_snapshot_id C)"
  shows "map cw_snapshot_id (sort_key row_order C) =
    map le_id (filter (\<lambda>e. le_id e \<in> cw_snapshot_id ` set C) G)" (is "_ = map le_id ?G")
proof -
  have order: "row_order r = entry_order e" if "r \<in> set C" "e \<in> set G" "le_id e = cw_snapshot_id r" for r e
    using rec G(1) that by (auto simp: rows_recorded_def row_order_def entry_order_def)
  have inj: "distinct (map row_order xs)" if "distinct (map cw_snapshot_id xs)" for xs
    using that by (auto simp: row_order_def distinct_map inj_on_def)
  have "map row_order (sort_key row_order C) = map entry_order ?G"
  proof (rule sorted_distinct_set_unique)
    show "sorted (map row_order (sort_key row_order C))" by simp
    show "distinct (map row_order (sort_key row_order C))"
      using inj [OF C] by (metis distinct_map distinct_sort set_sort)
    show "sorted (map entry_order ?G)"
      unfolding sorted_map
      by (rule sorted_wrt_mono_rel [OF _ sorted_wrt_sublist_filter [OF G(3)]]) (rule entry_order_mono)
    show "distinct (map entry_order ?G)"
      using G(2) by (auto simp: entry_order_def distinct_map inj_on_def)
    show "set (map row_order (sort_key row_order C)) = set (map entry_order ?G)"
      using order sub by (auto simp: image_iff) (metis+)
  qed
  then have "map snd (map row_order (sort_key row_order C)) = map snd (map entry_order ?G)" by simp
  then show ?thesis by (simp add: comp_def row_order_def entry_order_def)
qed

lemma row_in_slots:
  assumes "rows_recorded C F" and "\<And>r. r \<in> set C \<Longrightarrow> \<exists>e \<in> set G. le_id e = cw_snapshot_id r"
    and "set G \<subseteq> set F" "distinct (map le_id G)" "sorted_wrt (\<lambda>a c. newest_first a \<le> newest_first c) G"
    and "distinct (map cw_snapshot_id C)"
    and e: "e \<in> set (take m G)" and r: "le_id e \<in> cw_snapshot_id ` set C"
  shows "\<exists>r \<in> set (take m (sort_key row_order C)). cw_snapshot_id r = le_id e"
proof -
  let ?G = "filter (\<lambda>e. le_id e \<in> cw_snapshot_id ` set C) G"
  have "e \<in> set (take m ?G)" using take_filter_mem [OF e, of "\<lambda>e. le_id e \<in> cw_snapshot_id ` set C"] r by simp
  then have "le_id e \<in> set (take m (map le_id ?G))" by (auto simp: take_map)
  then have "le_id e \<in> set (take m (map cw_snapshot_id (sort_key row_order C)))"
    using rows_are_filtered_entries [OF assms(1-6)] by simp
  then show ?thesis by (auto simp: take_map)
qed

text \<open>What a coverage must know of the whole listing, given the rows that exist.\<close>

fun coverage_sound :: "listing_coverage \<Rightarrow> catalog_row list \<Rightarrow> snapshot_list_entry list \<Rightarrow> bool" where
  "coverage_sound LC_Complete rows F = False"
| "coverage_sound (LC_Capped d) rows F \<longleftrightarrow>
     (\<forall>e \<in> set F. digest_contains d (le_id e)) \<and>
     (\<forall>r \<in> set rows. digest_contains d (cw_snapshot_id r) \<longrightarrow> cw_snapshot_id r \<in> le_id ` set F)"
| "coverage_sound (LC_Partial _) rows F = True"

lemma coverage_sound_unrefuted: "coverage_sound cov rows F \<Longrightarrow> e \<in> set F \<Longrightarrow> presence_unrefuted cov (le_id e)"
  by (cases cov) auto

text \<open>The hosts that are foreign decide the ignored ids, of entries and of rows outside the window.\<close>

definition ignored_entries :: "(string \<Rightarrow> bool) \<Rightarrow> snapshot_list_entry list \<Rightarrow> string set" where
  "ignored_entries D L = {le_id e | e. e \<in> set L \<and> D (le_host e)}"

definition ignored_rows :: "(string \<Rightarrow> bool) \<Rightarrow> catalog_row list \<Rightarrow> snapshot_list_entry list \<Rightarrow> string set" where
  "ignored_rows D rows L =
     {cw_snapshot_id r | r h. r \<in> set rows \<and> cw_host r = Some h \<and> cw_snapshot_id r \<notin> le_id ` set L \<and> D h}"

lemma complete_keep_ids:
  "keep_ids rows P FI RFI L LC_Complete b =
     {le_id e | e. e \<in> set (kept_of_identity L P FI b (identity_key e))}"
proof -
  have "out_of_window_candidates rows (set (map le_id L)) (row_admits P FI RFI LC_Complete b) = []"
    by (simp add: out_of_window_candidates_def row_admits_def)
  then show ?thesis by (simp add: keep_ids_def fill_row_slots_def)
qed

lemma eligible_in_window:
  assumes "catalog_listing F" and "e \<in> set (take k F)"
  shows "eligible P (ignored_entries D (take k F)) b e \<longleftrightarrow> eligible P (ignored_entries D F) b e"
proof -
  have "le_id x = le_id y \<Longrightarrow> x = y" if "x \<in> set F" "y \<in> set F" for x y
    using assms(1) that by (auto simp: catalog_listing_def distinct_map inj_on_def)
  then have "le_id e \<in> ignored_entries D (take k F) \<longleftrightarrow> le_id e \<in> ignored_entries D F"
    using assms(2) in_set_takeD [of _ k F] unfolding ignored_entries_def by blast
  then show ?thesis by (simp add: eligible_def)
qed

lemma identity_group_split:
  assumes "catalog_listing F"
  shows "identity_group F P (ignored_entries D F) b i =
    identity_group (take k F) P (ignored_entries D (take k F)) b i @
    identity_group (drop k F) P (ignored_entries D F) b i"
proof -
  have "identity_group (take k F) P (ignored_entries D F) b i =
      identity_group (take k F) P (ignored_entries D (take k F)) b i"
    using eligible_in_window [OF assms] by (auto intro!: filter_cong)
  then show ?thesis using filter_append [of _ "take k F" "drop k F"] by (metis append_take_drop_id)
qed

lemma kept_in_window:
  assumes F: "catalog_listing F" and W: "e \<in> set (take k F)"
    and kept: "e \<in> set (kept_of_identity F P (ignored_entries D F) b (identity_key e))"
  shows "e \<in> set (kept_of_identity (take k F) P (ignored_entries D (take k F)) b (identity_key e))"
proof -
  have "distinct F" using F by (simp add: catalog_listing_def distinct_map)
  then have "e \<notin> set (drop k F)" using W by (metis disjoint_iff append_take_drop_id distinct_append)
  then show ?thesis
    using kept unfolding kept_of_identity_prefix [OF F] kept_of_identity_prefix [OF catalog_listing_take [OF F]]
      identity_group_split [OF F, of P D b "identity_key e" k]
    by (auto simp: take_slots_def split: option.splits dest: in_set_takeD)
qed

text \<open>A row whose entry lies beyond the window and is kept by the whole listing gets a slot.\<close>

lemma listing_ids_unique:
  "catalog_listing F \<Longrightarrow> x \<in> set F \<Longrightarrow> y \<in> set F \<Longrightarrow> le_id x = le_id y \<Longrightarrow> x = y"
  by (auto simp: catalog_listing_def distinct_map inj_on_def)

lemma row_of_kept_entry_admitted:
  assumes rec: "rows_recorded rows F" and cov: "coverage_sound cov rows F" and e: "e \<in> set F"
    and elig: "eligible P (ignored_entries D F) b e" and out: "le_id e \<notin> le_id ` set W"
    and r: "r \<in> set rows" "cw_snapshot_id r = le_id e"
  shows "row_admits P (ignored_entries D W) (ignored_rows D rows W) cov b r"
proof -
  have host: "cw_host x = Some (le_host e)" if "x \<in> set rows" "cw_snapshot_id x = le_id e" for x
    using rec that e by (auto simp: rows_recorded_def)
  have "le_id e \<notin> ignored_entries D W" using out by (auto simp: ignored_entries_def)
  moreover have "le_id e \<notin> ignored_rows D rows W"
    using host elig e by (force simp: ignored_rows_def eligible_def ignored_entries_def)
  moreover have "cw_end_time r = Some (le_end_time e)" using rec r e by (auto simp: rows_recorded_def)
  ultimately show ?thesis
    using elig r coverage_sound_unrefuted [OF cov e] by (simp add: row_admits_def eligible_def)
qed

lemma admitted_row_has_entry:
  assumes F: "catalog_listing F" and rec: "rows_recorded rows F" and cov: "coverage_sound (LC_Capped d) rows F"
    and y: "y \<in> set rows" "cw_snapshot_id y \<notin> le_id ` set (take k F)" "cw_identity y = Some i"
      "row_admits P FI (ignored_rows D rows (take k F)) (LC_Capped d) b y"
  shows "\<exists>x \<in> set (identity_group (drop k F) P (ignored_entries D F) b i). le_id x = cw_snapshot_id y"
proof -
  have "digest_contains d (cw_snapshot_id y)" using y(4) by (simp add: row_admits_def)
  then obtain x where x: "x \<in> set F" "le_id x = cw_snapshot_id y" using cov y(1) by auto
  have rx: "cw_end_time y = Some (le_end_time x)" "identity_key x = i" "cw_host y = Some (le_host x)"
    using rec y(1,3) x by (auto simp: rows_recorded_def)
  have "cw_snapshot_id y \<notin> ignored_entries D F"
  proof
    assume "cw_snapshot_id y \<in> ignored_entries D F"
    then obtain z where "z \<in> set F" "le_id z = cw_snapshot_id y" "D (le_host z)"
      by (auto simp: ignored_entries_def)
    then have "D (le_host x)" using listing_ids_unique [OF F, of z x] x by simp
    then have "cw_snapshot_id y \<in> ignored_rows D rows (take k F)"
      using y(1,2) rx(3) by (auto simp: ignored_rows_def)
    with y(4) show False by (simp add: row_admits_def)
  qed
  then have "eligible P (ignored_entries D F) b x" using y(4) rx x by (simp add: eligible_def row_admits_def)
  moreover have "x \<in> set (drop k F)"
    using x y(2) by (metis (no_types, lifting) Un_iff append_take_drop_id image_eqI set_append)
  ultimately show ?thesis using x rx(2) by auto
qed

text \<open>
  The slots of one identity: rows \<open>Ci\<close> that each have an entry beyond the window get the slots the
  window leaves, so the row of a kept entry is among them.
\<close>

lemma row_gets_free_slot:
  assumes F: "catalog_listing F" and Ci: "rows_recorded Ci F" "distinct (map cw_snapshot_id Ci)"
    and sub: "\<And>y. y \<in> set Ci \<Longrightarrow>
      \<exists>x \<in> set (identity_group (drop k F) P (ignored_entries D F) b i). le_id x = cw_snapshot_id y"
    and n: "rb_per_identity b = Some n" and beyond: "e \<notin> set (take k F)"
    and kept: "e \<in> set (kept_of_identity F P (ignored_entries D F) b i)"
    and row: "le_id e \<in> cw_snapshot_id ` set Ci"
  shows "\<exists>r \<in> set (take_slots (free_slots (window_keep (take k F) P (ignored_entries D (take k F)) b) (Some n) (Some i))
      (sort_key row_order Ci)). cw_snapshot_id r = le_id e"
proof -
  let ?FI = "ignored_entries D F" and ?FW = "ignored_entries D (take k F)"
  let ?GW = "identity_group (take k F) P ?FW b i" and ?GR = "identity_group (drop k F) P ?FI b i"
  note split = identity_group_split [OF F, of P D b i k]
  have eR: "e \<in> set (take (n - length ?GW) ?GR)"
    using kept beyond unfolding kept_of_identity_prefix [OF F] split
    by (auto simp: take_slots_def n dest: in_set_takeD)
  have "map_of (window_keep (take k F) P ?FW b) i = (if ?GW = [] then None else Some (take n ?GW))"
    using kept_of_identity_prefix [OF catalog_listing_take [OF F], of k P ?FW b i]
    by (simp add: map_of_window_keep take_slots_def n)
  then have free: "free_slots (window_keep (take k F) P ?FW b) (Some n) (Some i) = Some (n - length ?GW)"
    by (auto simp: free_slots_def Let_def)
  have "sorted_wrt (\<lambda>a c. newest_first a \<le> newest_first c) ?GR"
    using identity_group_sorted [OF F, of P ?FI b i] unfolding split sorted_wrt_append by simp
  moreover have "distinct (map le_id ?GR)"
    using F unfolding catalog_listing_def by (intro distinct_map_filter) (metis distinct_drop drop_map)
  moreover have "set ?GR \<subseteq> set F" by (auto dest: in_set_dropD)
  ultimately obtain r where "r \<in> set (take (n - length ?GW) (sort_key row_order Ci))" "cw_snapshot_id r = le_id e"
    using row_in_slots [OF Ci(1) sub _ _ _ Ci(2) eR row] by auto
  then show ?thesis unfolding free by (auto simp: take_slots_def)
qed

lemma kept_beyond_window:
  assumes F: "catalog_listing F" and rec: "rows_recorded rows F" and cov: "coverage_sound cov rows F"
    and beyond: "e \<in> set F" "e \<notin> set (take k F)"
    and kept: "e \<in> set (kept_of_identity F P (ignored_entries D F) b (identity_key e))"
    and row: "le_id e \<in> cw_snapshot_id ` set rows"
  defines "W \<equiv> take k F"
  shows "le_id e \<in> set (fill_row_slots
     (out_of_window_candidates rows (set (map le_id W))
        (row_admits P (ignored_entries D W) (ignored_rows D rows W) cov b))
     (window_keep W P (ignored_entries D W) b) (row_rank_cap cov b))"
proof -
  let ?adm = "row_admits P (ignored_entries D W) (ignored_rows D rows W) cov b" and ?i = "identity_key e"
  define C where "C = out_of_window_candidates rows (set (map le_id W)) ?adm"
  define Ci where "Ci = filter (\<lambda>r. cw_identity r = Some ?i) C"
  have out: "le_id e \<notin> le_id ` set W"
    using beyond listing_ids_unique [OF F] by (auto simp: W_def dest: in_set_takeD)
  have elig: "eligible P (ignored_entries D F) b e" using kept_of_identity_subset [OF kept] by simp
  obtain r where r: "r \<in> set C" "cw_snapshot_id r = le_id e"
    using candidates_props(3) [of "le_id e" rows "set (map le_id W)" ?adm] row out
      row_of_kept_entry_admitted [OF rec cov beyond(1) elig out] unfolding C_def by fastforce
  have Cs: "y \<in> set rows \<and> cw_snapshot_id y \<notin> le_id ` set W \<and> ?adm y" if "y \<in> set C" for y
    using candidates_props(1) [of rows "set (map le_id W)" ?adm] that by (auto simp: C_def)
  have rCi: "r \<in> set Ci" using rec r Cs beyond(1) by (auto simp: rows_recorded_def Ci_def)
  have goal: ?thesis if "r' \<in> set (take_slots (free_slots (window_keep W P (ignored_entries D W) b) (row_rank_cap cov b)
      (Some ?i)) (sort_key row_order Ci))" "cw_snapshot_id r' = le_id e" for r'
  proof -
    have "cw_identity r' = Some ?i"
      using that(1) by (auto simp: Ci_def take_slots_def split: option.splits dest: in_set_takeD)
    then show ?thesis using that unfolding set_fill_row_slots C_def [symmetric]
      by (intro exI [of _ r']) (simp add: Ci_def)
  qed
  show ?thesis
  proof (cases "row_rank_cap cov b")
    case None
    then show ?thesis using goal [of r] rCi r(2) by (simp add: free_slots_def take_slots_def)
  next
    case (Some n)
    then obtain d where d: "cov = LC_Capped d" "rb_per_identity b = Some n" using cov by (cases cov) auto
    have "\<exists>x \<in> set (identity_group (drop k F) P (ignored_entries D F) b ?i). le_id x = cw_snapshot_id y"
      if "y \<in> set Ci" for y
      using Cs [of y] that cov admitted_row_has_entry [OF F rec, of d y k ?i P "ignored_entries D W" D b]
      by (simp add: Ci_def W_def d)
    moreover have "rows_recorded Ci F" using rec Cs by (auto simp: rows_recorded_def Ci_def)
    moreover have "distinct (map cw_snapshot_id Ci)"
      unfolding Ci_def C_def by (intro distinct_map_filter candidates_props(2))
    moreover have "le_id e \<in> cw_snapshot_id ` set Ci" using rCi r(2) by (metis imageI)
    ultimately obtain r' where "cw_snapshot_id r' = le_id e"
      "r' \<in> set (take_slots (free_slots (window_keep W P (ignored_entries D W) b) (Some n) (Some ?i))
         (sort_key row_order Ci))"
      using row_gets_free_slot [OF F, where Ci = Ci and k = k and P = P and D = D and b = b and i = ?i and n = n and e = e]
        d(2) beyond(2) kept unfolding W_def by blast
    then show ?thesis using goal [of r'] Some by simp
  qed
qed

lemma truncated_keeps:
  assumes "catalog_listing F" "rows_recorded rows F" "coverage_sound cov rows F"
    and kept: "x \<in> keep_ids rows P (ignored_entries D F) RFI F LC_Complete b"
    and row: "x \<in> cw_snapshot_id ` set rows"
  shows "x \<in> keep_ids rows P (ignored_entries D (take k F)) (ignored_rows D rows (take k F)) (take k F) cov b"
proof -
  obtain e where x: "x = le_id e" and e: "e \<in> set (kept_of_identity F P (ignored_entries D F) b (identity_key e))"
    using kept by (auto simp: complete_keep_ids)
  then have eF: "e \<in> set F" using kept_of_identity_subset [OF e] by simp
  show ?thesis
  proof (cases "e \<in> set (take k F)")
    case True
    then show ?thesis using kept_in_window [OF assms(1) _ e] unfolding x keep_ids_def by blast
  next
    case False
    from kept_beyond_window [OF assms(1-3) eF False e] row show ?thesis
      unfolding x keep_ids_def by blast
  qed
qed

lemma gone_rows_not_kept:
  assumes "coverage_sound (LC_Capped d) rows F" and "x \<notin> le_id ` set F"
  shows "x \<notin> keep_ids rows P FI RFI (take k F) (LC_Capped d) b"
proof
  assume "x \<in> keep_ids rows P FI RFI (take k F) (LC_Capped d) b"
  then consider e where "x = le_id e" "e \<in> set (take k F)"
    | r where "r \<in> set rows" "x = cw_snapshot_id r" "row_admits P FI RFI (LC_Capped d) b r"
    using fill_row_slots_subset candidates_props(1) kept_of_identity_subset
    unfolding keep_ids_def by blast
  then show False
    using assms by cases (auto simp: row_admits_def dest: in_set_takeD)
qed

subsection \<open>A carried-out plan leaves nothing to do\<close>

lemma set_candidates_distinct:
  assumes "distinct (map cw_snapshot_id rows)"
  shows "set (out_of_window_candidates rows listed admits) =
    {r \<in> set rows. cw_snapshot_id r \<notin> listed \<and> admits r}"
proof
  show "{r \<in> set rows. cw_snapshot_id r \<notin> listed \<and> admits r} \<subseteq> set (out_of_window_candidates rows listed admits)"
  proof
    fix r assume r: "r \<in> {r \<in> set rows. cw_snapshot_id r \<notin> listed \<and> admits r}"
    have same: "x = r" if "x \<in> set rows" "cw_snapshot_id x = cw_snapshot_id r" for x
      using assms r that by (auto simp: distinct_map inj_on_def)
    then obtain x where "x \<in> set (out_of_window_candidates rows listed admits)" "cw_snapshot_id x = cw_snapshot_id r"
      using candidates_props(3) [of "cw_snapshot_id r" rows listed admits] r by auto
    then show "r \<in> set (out_of_window_candidates rows listed admits)"
      using same candidates_props(1) [of rows listed admits] by auto
  qed
qed (rule candidates_props(1))

lemma sort_rows_filter:
  assumes "distinct (map cw_snapshot_id C)" "distinct (map cw_snapshot_id C')" and "set C' = {r \<in> set C. Q r}"
  shows "sort_key row_order C' = filter Q (sort_key row_order C)"
proof -
  have inj: "inj_on row_order (set C)"
    using assms(1) by (auto simp: inj_on_def row_order_def distinct_map)
  have dist: "distinct C" "distinct C'" using assms(1,2) by (simp_all add: distinct_map)
  have "map row_order (sort_key row_order C') = map row_order (filter Q (sort_key row_order C))"
  proof (rule sorted_distinct_set_unique)
    show "sorted (map row_order (filter Q (sort_key row_order C)))"
      by (rule sorted_filter [OF sorted_sort_key])
    show "distinct (map row_order (sort_key row_order C'))"
      using dist inj assms(3) by (auto simp: distinct_map intro: inj_on_subset)
    show "distinct (map row_order (filter Q (sort_key row_order C)))"
      using dist inj by (auto simp: distinct_map intro: inj_on_subset)
  qed (use assms(3) in auto)
  then show ?thesis
    by (rule map_inj_on) (use inj assms(3) in \<open>auto intro: inj_on_subset\<close>)
qed

lemma ignored_rows_iff:
  assumes "distinct (map cw_snapshot_id rows)" and x: "x \<in> set rows" "cw_snapshot_id x \<notin> le_id ` set L"
  shows "cw_snapshot_id x \<in> ignored_rows D (placement_rows cov rows) L \<longleftrightarrow>
    cov \<noteq> LC_Complete \<and> (\<exists>h. cw_host x = Some h \<and> D h)"
proof -
  have "r = x" if "r \<in> set rows" "cw_snapshot_id r = cw_snapshot_id x" for r
    using assms(1) x(1) that by (auto simp: distinct_map inj_on_def)
  moreover have "set (placement_rows cov rows) = (if cov = LC_Complete then {} else set rows)"
    by (cases cov) (simp_all add: placement_rows_def)
  ultimately show ?thesis unfolding ignored_rows_def using x by (simp) metis
qed

lemma settled_rows_kept:
  fixes rows :: "catalog_row list" and D :: "string \<Rightarrow> bool" and L :: "snapshot_list_entry list" and cov
  defines "RFI \<equiv> \<lambda>rs. ignored_rows D (placement_rows cov rs) L"
  assumes rows: "distinct (map cw_snapshot_id rows)" and rows1: "distinct (map cw_snapshot_id rows1)"
    and old: "\<And>r. r \<in> set rows1 \<Longrightarrow> cw_snapshot_id r \<notin> le_id ` set L \<Longrightarrow> r \<in> set rows"
    and kept: "r \<in> set rows" "r \<in> set rows1" "cw_snapshot_id r \<in> keep_ids rows P FI (RFI rows) L cov b"
  shows "cw_snapshot_id r \<in> keep_ids rows1 P FI (RFI rows1) L cov b"
proof -
  let ?C = "\<lambda>rs. out_of_window_candidates rs (set (map le_id L)) (row_admits P FI (RFI rs) cov b)"
  let ?free = "free_slots (window_keep L P FI b) (row_rank_cap cov b)"
  have unique: "x = y" if "x \<in> set rows" "y \<in> set rows" "cw_snapshot_id x = cw_snapshot_id y" for x y
    using rows that by (auto simp: distinct_map inj_on_def)
  have "cw_snapshot_id x \<in> RFI rows1 \<longleftrightarrow> cw_snapshot_id x \<in> RFI rows"
    if "x \<in> set rows1" "cw_snapshot_id x \<notin> le_id ` set L" for x
    unfolding RFI_def using ignored_rows_iff [OF rows old [OF that] that(2)] ignored_rows_iff [OF rows1 that]
    by (simp only:)
  then have "set (?C rows1) = {x \<in> set (?C rows). x \<in> set rows1}"
    unfolding set_candidates_distinct [OF rows] set_candidates_distinct [OF rows1]
    using old by (auto simp: row_admits_def)
  then have sort: "sort_key row_order (filter (\<lambda>x. cw_identity x = i) (?C rows1)) =
      filter (\<lambda>x. x \<in> set rows1) (sort_key row_order (filter (\<lambda>x. cw_identity x = i) (?C rows)))" for i
    by (intro sort_rows_filter distinct_map_filter candidates_props(2)) auto
  show ?thesis
  proof (cases "cw_snapshot_id r \<in> {le_id e | e. e \<in> set (kept_of_identity L P FI b (identity_key e))}")
    case True
    then show ?thesis by (simp add: keep_ids_def)
  next
    case False
    then have "cw_snapshot_id r \<in> set (fill_row_slots (?C rows) (window_keep L P FI b) (row_rank_cap cov b))"
      using kept(3) unfolding keep_ids_def by (metis (no_types, lifting) UnE)
    then obtain x where x: "cw_snapshot_id x = cw_snapshot_id r" "x \<in> set (take_slots (?free (cw_identity x))
        (sort_key row_order (filter (\<lambda>y. cw_identity y = cw_identity x) (?C rows))))"
      unfolding set_fill_row_slots by (elim exE conjE)
    then have "x \<in> set (?C rows)" by (auto simp: take_slots_def split: option.splits dest: in_set_takeD)
    then have "x = r" using unique x(1) kept(1) by (simp add: set_candidates_distinct [OF rows])
    then have "r \<in> set (take_slots (?free (cw_identity r))
        (sort_key row_order (filter (\<lambda>y. cw_identity y = cw_identity r) (?C rows1))))"
      using x(2) take_filter_mem [of r _ _ "\<lambda>x. x \<in> set rows1", OF _ kept(2)] kept(2)
      unfolding sort by (cases "?free (cw_identity r)") (simp_all add: take_slots_def)
    then show ?thesis unfolding keep_ids_def by (intro UnI2) (simp only: set_fill_row_slots, rule exI [of _ r], simp)
  qed
qed

subsection \<open>What the mover's result tells the controller\<close>

lemma digest_build_length:
  assumes "digest_build enc ids salt budget = Some d"
  shows "length ids \<le> budget"
proof -
  obtain w where "List.find (\<lambda>w. encoded_len (length ids) w \<le> budget) DIGEST_WIDTHS = Some w"
    using assms by (auto simp: digest_build_def Let_def split: option.splits)
  then have "w \<in> set DIGEST_WIDTHS" "encoded_len (length ids) w \<le> budget"
    by (auto simp: find_Some_iff)
  then have "0 < w" and "length ids * w \<le> budget"
    using encoded_len_bound [of "length ids" w] by (auto simp: DIGEST_WIDTHS_def)
  then show ?thesis by (cases w) auto
qed

text \<open>A digest over a listing: membership is equality of truncated hashes with a listed id.\<close>

definition capped_exactly :: "64 word \<Rightarrow> decoded_digest \<Rightarrow> snapshot_list_entry list \<Rightarrow> bool" where
  "capped_exactly salt d F \<longleftrightarrow> dd_width d \<in> set DIGEST_WIDTHS \<and>
     (\<forall>x. digest_contains d x \<longleftrightarrow>
        (\<exists>e \<in> set F. take (dd_width d) (salted_hash salt (le_id e)) = take (dd_width d) (salted_hash salt x)))"

lemma capped_exactly_contains: "capped_exactly salt d F \<Longrightarrow> e \<in> set F \<Longrightarrow> digest_contains d (le_id e)"
  by (auto simp: capped_exactly_def)

text \<open>The narrowest width is four bytes: without a collision there, membership is exact.\<close>

definition no_hash_collision :: "64 word \<Rightarrow> catalog_row list \<Rightarrow> snapshot_list_entry list \<Rightarrow> bool" where
  "no_hash_collision salt rows F \<longleftrightarrow>
     (\<forall>w \<in> set rows. \<forall>e \<in> set F. take 4 (salted_hash salt (cw_snapshot_id w)) = take 4 (salted_hash salt (le_id e)) \<longrightarrow>
        cw_snapshot_id w = le_id e)"

lemma capped_exactly_sound:
  assumes d: "capped_exactly salt d F" and no: "no_hash_collision salt rows F"
  shows "coverage_sound (LC_Capped d) rows F"
proof -
  have "4 \<le> dd_width d" using d by (auto simp: capped_exactly_def DIGEST_WIDTHS_def)
  then have "take 4 (salted_hash salt x) = take 4 (salted_hash salt y)"
    if "take (dd_width d) (salted_hash salt x) = take (dd_width d) (salted_hash salt y)" for x y
    using arg_cong [OF that, of "take 4"] by (simp add: min_def)
  then have "cw_snapshot_id w \<in> le_id ` set F" if "w \<in> set rows" "digest_contains d (cw_snapshot_id w)" for w
    using d no that unfolding capped_exactly_def no_hash_collision_def by (metis image_eqI)
  then show ?thesis using capped_exactly_contains [OF d] by simp
qed

lemma mover_coverage:
  assumes scan: "bo_scan_catalog op"
    and r: "r = size_guarded_result f (bootstrap_catalog_result js enc op (Some l) salt)"
    and codec: "\<And>bs. dc (enc bs) = Inr bs"
  defines "F \<equiv> fair_window js op l"
  obtains k where "k \<le> length F" "br_snapshots r = take k F"
    "coverage_for dc r = LC_Complete \<and> k = length F \<or>
     (\<exists>d. coverage_for dc r = LC_Capped d \<and> capped_exactly salt d F) \<or>
     coverage_for dc r = LC_Partial OverDigestBudget"
proof -
  note shape = mover_result_shape [OF scan r]
  let ?pre = "apply_foreign_prefilter l (bo_catalog_foreign_prefilter_cluster op)"
  obtain k where k: "k \<le> length F" "br_snapshots r = take k F" "br_snapshots_truncated r \<longleftrightarrow> k < length F"
    using shape(1) by (auto simp: F_def)
  have ids: "set (map le_id F) = set (map le_id (fst ?pre))"
    using mset_eq_setD [OF mset_fair_window_ids [of js op l]] by (simp only: F_def)
  have "(\<exists>d. coverage_for dc r = LC_Capped d \<and> capped_exactly salt d F) \<or>
      coverage_for dc r = LC_Partial OverDigestBudget" if "k < length F"
  proof (cases "digest_build enc (map le_id (fst ?pre)) salt DIGEST_BUDGET_BYTES")
    case None
    then show ?thesis using that k(3) shape by (simp add: coverage_for_def)
  next
    case (Some d)
    obtain dd where dd: "digest_decode dc d = Inr dd" "digest_holds dd (map le_id (fst ?pre))"
      using digest_build_decode [OF Some, of dc] codec by (auto simp: DIGEST_BUDGET_BYTES_def u64_max_def)
    have "dd_salt dd = salt \<and> dd_width dd \<in> set DIGEST_WIDTHS"
      using dd(1) Some by (auto simp: digest_decode_def digest_build_def Let_def
          split: digest_algo.splits if_splits sum.splits option.splits)
    then have all: "capped_exactly salt dd F"
      using digest_holds_contains [OF dd(2)] ids
      by (simp add: capped_exactly_def) (metis (no_types, lifting) image_iff)
    have len: "digest_len dd = length (fst ?pre)" using digest_holds_len [OF dd(2)] by simp
    have "int (length (fst ?pre)) \<le> i64_max"
      using digest_build_length [OF Some] by (simp add: DIGEST_BUDGET_BYTES_def i64_max_def)
    moreover have "\<not> list_ex (\<lambda>e. \<not> digest_contains dd (le_id e)) (br_snapshots r)"
      using capped_exactly_contains [OF all] k(2) by (auto simp: list_ex_iff dest: in_set_takeD)
    moreover have "br_listed_ids r = Some (Digest d)" using shape(4) Some by simp
    ultimately have "verified_digest dc (Digest d) r = Some dd"
      using dd(1) shape(2,3) prefilter_accounts [of l "bo_catalog_foreign_prefilter_cluster op"] len
      by (simp add: verified_digest_def Let_def)
    then show ?thesis
      using that k(3) all shape(4) Some by (simp add: coverage_for_def)
  qed
  moreover have "coverage_for dc r = LC_Complete" if "\<not> k < length F" using that k(3) by (simp add: coverage_for_def)
  ultimately have "coverage_for dc r = LC_Complete \<and> k = length F \<or>
      (\<exists>d. coverage_for dc r = LC_Capped d \<and> capped_exactly salt d F) \<or>
      coverage_for dc r = LC_Partial OverDigestBudget"
    using k(1) by (cases "k < length F") auto
  then show thesis using that k(1,2) by blast
qed

lemma fair_window_entry:
  "e \<in> set (fair_window js op l) \<Longrightarrow> \<exists>e0 \<in> set l. e = slim_catalog_entry js e0"
  using prefilter_subset [of l "bo_catalog_foreign_prefilter_cluster op"] by (auto simp: fair_window_def)

lemma fair_window_catalog_listing:
  assumes "distinct (map le_id l)"
    and "\<forall>e \<in> set l. \<forall>e' \<in> set l. identity_key e = identity_key e' \<longrightarrow> entry_identity e = entry_identity e'"
  shows "catalog_listing (fair_window js op l)"
proof -
  let ?pre = "fst (apply_foreign_prefilter l (bo_catalog_foreign_prefilter_cluster op))"
  have "distinct (map le_id ?pre)"
    using assms(1) by (cases "bo_catalog_foreign_prefilter_cluster op")
      (auto simp: apply_foreign_prefilter_def prefilter_loop_eq intro: distinct_map_filter)
  then have "distinct (map le_id (fair_window js op l))"
    using mset_fair_window_ids [of js op l] by (metis mset_eq_imp_distinct_iff)
  moreover have "identity_key (slim_catalog_entry js e) = identity_key e" for e
    by (simp add: identity_key_def)
  ultimately show ?thesis
    using assms(2) fair_window_fair [of js op l] fair_window_entry [of _ js op l]
    unfolding catalog_listing_def by (metis slim_same_order(1))
qed

lemma rows_recorded_window: "rows_recorded rows l \<Longrightarrow> rows_recorded rows (fair_window js op l)"
  using fair_window_entry [of _ js op l] unfolding rows_recorded_def
  by (metis identity_key_def slim_catalog_entry_simps(1-4,6))

text \<open>The plan a scan makes of a listing, placement included.\<close>

definition scan_plan ::
    "catalog_row list \<Rightarrow> string set \<Rightarrow> snapshot_list_entry list \<Rightarrow> listing_coverage \<Rightarrow> string option \<Rightarrow>
     foreign_snapshots \<Rightarrow> placement \<Rightarrow> (string \<rightharpoonup> bool) \<Rightarrow> catalog_retain option \<Rightarrow> datetime \<Rightarrow> catalog_plan" where
  "scan_plan rows produced listing coverage cluster foreign pl ns_allowed retain now =
     (let pass = plan_placements listing (placement_rows coverage rows) cluster foreign pl ns_allowed
      in plan_catalog rows produced (pp_foreign_ignored_ids pass) (pp_row_foreign_ignored_ids pass)
           listing coverage retain now)"

lemma scan_plan_expire:
  fixes cluster foreign pl allowed
  defines "D \<equiv> \<lambda>h. rules_decide (placement_rules_of cluster foreign pl allowed) h = ForeignIgnored"
  shows "x \<in> set (cp_expire (scan_plan rows P L cov cluster foreign pl allowed retain now)) \<longleftrightarrow>
    (\<exists>r \<in> set rows. x = (cw_namespace r, cw_name r) \<and>
       cw_snapshot_id r \<notin> keep_ids rows P (ignored_entries D L) (ignored_rows D (placement_rows cov rows) L)
         L cov (retain_bounds_new retain now))"
  by (simp add: scan_plan_def Let_def plan_expire_iff plan_placements_sets ignored_entries_def
      ignored_rows_def D_def)

lemma scan_plan_truncated:
  assumes F: "catalog_listing F" "rows_recorded rows F" and cov: "coverage_sound cov rows F"
  shows "set (cp_expire (scan_plan rows P (take k F) cov cluster foreign pl allowed retain now)) \<subseteq>
    set (cp_expire (scan_plan rows P F LC_Complete cluster foreign pl allowed retain now))"
proof
  fix x assume x: "x \<in> set (cp_expire (scan_plan rows P (take k F) cov cluster foreign pl allowed retain now))"
  define D where "D = (\<lambda>h. rules_decide (placement_rules_of cluster foreign pl allowed) h = ForeignIgnored)"
  have "placement_rows cov rows = rows" using cov by (cases cov) (auto simp: placement_rows_def)
  with x obtain w where w: "w \<in> set rows" "x = (cw_namespace w, cw_name w)"
    "cw_snapshot_id w \<notin> keep_ids rows P (ignored_entries D (take k F)) (ignored_rows D rows (take k F)) (take k F) cov
       (retain_bounds_new retain now)"
    unfolding scan_plan_expire D_def by auto
  have "cw_snapshot_id w \<notin> keep_ids rows P (ignored_entries D F) (ignored_rows D (placement_rows LC_Complete rows) F)
      F LC_Complete (retain_bounds_new retain now)"
    using truncated_keeps [OF F cov] w(1,3) by blast
  then show "x \<in> set (cp_expire (scan_plan rows P F LC_Complete cluster foreign pl allowed retain now))"
    unfolding scan_plan_expire using w(1,2) D_def by blast
qed

lemma scan_plan_gone:
  assumes "coverage_sound (LC_Capped d) rows F" and "w \<in> set rows" and "cw_snapshot_id w \<notin> le_id ` set F"
  shows "(cw_namespace w, cw_name w) \<in>
    set (cp_expire (scan_plan rows P (take k F) (LC_Capped d) cluster foreign pl allowed retain now))"
  unfolding scan_plan_expire using assms(2) gone_rows_not_kept [OF assms(1,3)] by blast

text \<open>
  C15: capping the listing never makes a scan expire a row that the whole listing would keep. For
  the result a mover produces from a repository listing, with its window cut by the count cap and
  the size backstop, every row the controller expires would also be expired had the whole listing
  been returned; and unless the digest did not fit, every row whose snapshot is gone from the
  repository is expired all the same.
\<close>

theorem truncated_listing_refines_the_whole:
  assumes scan: "bo_scan_catalog op"
    and r: "r = size_guarded_result f (bootstrap_catalog_result js enc op (Some l) salt)"
    and codec: "\<forall>bs. dc (enc bs) = Inr bs"
    and ids: "distinct (map le_id l)"
    and keys: "\<forall>e \<in> set l. \<forall>e' \<in> set l. identity_key e = identity_key e' \<longrightarrow> entry_identity e = entry_identity e'"
    and rec: "rows_recorded rows l"
    and exact: "no_hash_collision salt rows (fair_window js op l)"
  shows "set (cp_expire (scan_plan rows P (br_snapshots r) (coverage_for dc r) cluster foreign pl allowed retain now)) \<subseteq>
      set (cp_expire (scan_plan rows P (fair_window js op l) LC_Complete cluster foreign pl allowed retain now)) \<and>
    (coverage_for dc r = LC_Partial OverDigestBudget \<or>
     (\<forall>w \<in> set rows. cw_snapshot_id w \<notin> le_id ` set (fair_window js op l) \<longrightarrow>
        (cw_namespace w, cw_name w) \<in>
          set (cp_expire (scan_plan rows P (br_snapshots r) (coverage_for dc r) cluster foreign pl allowed retain now))))"
proof -
  let ?F = "fair_window js op l" and ?cov = "coverage_for dc r"
  note F = fair_window_catalog_listing [OF ids keys, of js op]
  note recF = rows_recorded_window [OF rec, of js op]
  obtain k where k: "br_snapshots r = take k ?F" "?cov = LC_Complete \<and> k = length ?F \<or>
      (\<exists>d. ?cov = LC_Capped d \<and> capped_exactly salt d ?F) \<or> ?cov = LC_Partial OverDigestBudget"
    by (rule mover_coverage [OF scan r, of dc]) (use codec in \<open>auto\<close>)
  consider (complete) "?cov = LC_Complete" "br_snapshots r = ?F"
    | (capped) d where "?cov = LC_Capped d" "coverage_sound (LC_Capped d) rows ?F"
    | (part) "?cov = LC_Partial OverDigestBudget" "coverage_sound ?cov rows ?F"
    using k(2)
  proof (elim disjE exE conjE)
    fix d assume d: "?cov = LC_Capped d" "capped_exactly salt d ?F"
    then show thesis using capped capped_exactly_sound [OF _ exact] by blast
  qed (use k(1) complete part in simp_all)
  then show ?thesis
  proof cases
    case complete
    then show ?thesis by (auto simp: scan_plan_expire complete_keep_ids dest!: kept_of_identity_subset)
  next
    case capped
    then show ?thesis
      using scan_plan_truncated [OF F recF] scan_plan_gone [OF capped(2)] unfolding k(1) capped(1) by blast
  next
    case part
    then show ?thesis using scan_plan_truncated [OF F recF part(2)] unfolding k(1) by blast
  qed
qed

subsection \<open>A capped listing, concretely\<close>

definition listed_ex :: "string \<Rightarrow> datetime \<Rightarrow> snapshot_list_entry" where
  "listed_ex i t = \<lparr>le_id = i, le_path = ''/pvc/db'', le_user_name = ''mydb'', le_host = ''prod'',
     le_description = [], le_start_time = t, le_end_time = t, le_total_size = 1, le_retention_reason = [],
     le_tags = Map.empty, le_incomplete = None, le_summ_incomplete = None\<rparr>"

definition json_ex :: "unit json_lib" where
  "json_ex = \<lparr>js_from_str = (\<lambda>_. None), js_schema = (\<lambda>_. None), js_from_value = (\<lambda>_. None),
     js_to_string = (\<lambda>_. [])\<rparr>"

definition op_ex :: bootstrap_op where
  "op_ex = \<lparr>bo_scan_catalog = True, bo_max_returned_snapshots = Some 1,
     bo_catalog_foreign_prefilter_cluster = None\<rparr>"

definition listing_ex :: "snapshot_list_entry list" where
  "listing_ex = [listed_ex ''k1'' 10, listed_ex ''k2'' 20]"

definition result_ex :: bootstrap_result where
  "result_ex =
     size_guarded_result (\<lambda>_. 0) (bootstrap_catalog_result json_ex plain_enc op_ex (Some listing_ex) 7)"

definition crow_ex :: "string \<Rightarrow> string \<Rightarrow> datetime \<Rightarrow> catalog_row" where
  "crow_ex n i t = \<lparr>cw_namespace = ''apps'', cw_name = n, cw_snapshot_id = i, cw_end_time = Some t,
     cw_identity = Some ''mydb@prod:/pvc/db'', cw_host = Some ''prod''\<rparr>"

definition rows_ex :: "catalog_row list" where
  "rows_ex = [crow_ex ''row-1'' ''k1'' 10, crow_ex ''row-2'' ''k2'' 20, crow_ex ''row-gone'' ''k0'' 5]"

lemma fair_window_ex_ids: "le_id ` set (fair_window json_ex op_ex listing_ex) = {''k1'', ''k2''}"
proof -
  have "set (map le_id (fair_window json_ex op_ex listing_ex)) = {''k1'', ''k2''}"
    using mset_eq_setD [OF mset_fair_window_ids [of json_ex op_ex listing_ex]]
    by (simp add: op_ex_def listing_ex_def listed_ex_def apply_foreign_prefilter_def)
  then show ?thesis by simp
qed

lemma hashes_ex:
  "take 4 (salted_hash 7 ''k0'') \<noteq> take 4 (salted_hash 7 ''k1'')"
  "take 4 (salted_hash 7 ''k0'') \<noteq> take 4 (salted_hash 7 ''k2'')"
  "take 4 (salted_hash 7 ''k1'') \<noteq> take 4 (salted_hash 7 ''k2'')"
  by code_simp+

lemma no_hash_collision_ex: "no_hash_collision 7 rows_ex (fair_window json_ex op_ex listing_ex)"
  unfolding no_hash_collision_def
proof (intro ballI impI)
  fix w e
  assume w: "w \<in> set rows_ex" and e: "e \<in> set (fair_window json_ex op_ex listing_ex)"
    and eq: "take 4 (salted_hash 7 (cw_snapshot_id w)) = take 4 (salted_hash 7 (le_id e))"
  have "le_id e = ''k1'' \<or> le_id e = ''k2''" using e fair_window_ex_ids by blast
  moreover have "cw_snapshot_id w = ''k1'' \<or> cw_snapshot_id w = ''k2'' \<or> cw_snapshot_id w = ''k0''"
    using w by (auto simp: rows_ex_def crow_ex_def)
  ultimately show "cw_snapshot_id w = le_id e" using eq hashes_ex by metis
qed

theorem truncated_listing_refines_the_whole_witness:
  "set (cp_expire (scan_plan rows_ex {} (br_snapshots result_ex) (coverage_for plain_dec result_ex) None
       FS_Ignore (PL_Namespace ''apps'') Map.empty None 100)) \<subseteq>
     set (cp_expire (scan_plan rows_ex {} (fair_window json_ex op_ex listing_ex) LC_Complete None
       FS_Ignore (PL_Namespace ''apps'') Map.empty None 100)) \<and>
   (coverage_for plain_dec result_ex = LC_Partial OverDigestBudget \<or>
    (''apps'', ''row-gone'') \<in> set (cp_expire (scan_plan rows_ex {} (br_snapshots result_ex)
      (coverage_for plain_dec result_ex) None FS_Ignore (PL_Namespace ''apps'') Map.empty None 100)))"
proof -
  have scan: "bo_scan_catalog op_ex" and ids: "distinct (map le_id listing_ex)"
    and rec: "rows_recorded rows_ex listing_ex"
    by (simp_all add: op_ex_def listing_ex_def listed_ex_def rows_recorded_def rows_ex_def crow_ex_def
        identity_key_def identity_key_parts_def)
  have keys: "\<forall>e \<in> set listing_ex. \<forall>e' \<in> set listing_ex.
      identity_key e = identity_key e' \<longrightarrow> entry_identity e = entry_identity e'"
    by (simp add: listing_ex_def listed_ex_def entry_identity_def)
  have "crow_ex ''row-gone'' ''k0'' 5 \<in> set rows_ex" by (simp add: rows_ex_def)
  then show ?thesis
    using truncated_listing_refines_the_whole [OF scan result_ex_def _ ids keys rec no_hash_collision_ex,
        of plain_dec "{}" None FS_Ignore "PL_Namespace ''apps''" Map.empty None 100] plain_codec
    by (force simp: fair_window_ex_ids crow_ex_def)
qed

end
