(* ===== verification/Catalog_Scan.thy ===== *)
theory Catalog_Scan
  imports Catalog
begin

text \<open>
  A catalog scan on the Snapshots of the install scope (\<open>scan\<close> and its parts in
  \<open>crates/controller/src/catalog.rs\<close>): the rows and the produced ids read off a LIST, the
  discovered Snapshot written for an entry, and the loops that create, backfill and expire. The
  store is the list of Snapshots as LIST returns it; what the API server answers to each request is
  the world's, and so is the merge of an applied object into an existing one.
\<close>

subsection \<open>Reading the LIST\<close>

definition meta_namespace :: "object_meta \<Rightarrow> string" where
  "meta_namespace m = unwrap_or (m_namespace m) ''''"

definition catalog_row_of ::
    "(string \<Rightarrow> datetime option) \<Rightarrow> string \<Rightarrow> snapshot \<Rightarrow> catalog_row option" where
  "catalog_row_of rfc3339 repo_uid s =
     (let labels = m_labels (s_meta s)
      in if labels ORIGIN_LABEL \<noteq> Some ''discovered'' then None
         else if labels REPOSITORY_UID_LABEL \<noteq> Some repo_uid then None
         else case labels SNAPSHOT_ID_LABEL of
                None \<Rightarrow> None
              | Some i \<Rightarrow>
                  (let end_time = Option.bind (Option.bind (Option.bind (s_status s) ss_timing) st_end_time) rfc3339;
                       recorded = map_option si_identity (Option.bind (s_status s) ss_snapshot);
                       row_identity = Option.bind recorded (\<lambda>w.
                         map_option (identity_key_parts (ri_username w) (ri_hostname w)) (ri_source_path w))
                   in Some \<lparr>cw_namespace = meta_namespace (s_meta s), cw_name = name_any (s_meta s),
                        cw_snapshot_id = i, cw_end_time = end_time, cw_identity = row_identity,
                        cw_host = map_option ri_hostname recorded\<rparr>))"

definition rows_for :: "(string \<Rightarrow> datetime option) \<Rightarrow> string \<Rightarrow> snapshot list \<Rightarrow> catalog_row list" where
  "rows_for rfc3339 repo_uid snapshots = filter_map (catalog_row_of rfc3339 repo_uid) snapshots"

datatype scan_owner = SO_Repository string string | SO_ClusterRepository string

fun scan_owner_kind :: "scan_owner \<Rightarrow> repository_kind" where
  "scan_owner_kind (SO_Repository _ _) = Repository"
| "scan_owner_kind (SO_ClusterRepository _) = ClusterRepository"

fun scan_owner_name :: "scan_owner \<Rightarrow> string" where
  "scan_owner_name (SO_Repository name _) = name"
| "scan_owner_name (SO_ClusterRepository name) = name"

definition produced_id_of :: "scan_owner \<Rightarrow> string \<Rightarrow> snapshot \<Rightarrow> string option" where
  "produced_id_of owner repo_uid s =
     (let status_arm =
            (case repository_ref_for s of
               None \<Rightarrow> None
             | Some rref \<Rightarrow>
                 if rr_kind rref \<noteq> scan_owner_kind owner then None
                 else
                   (let matched = (case owner of
                        SO_Repository name namespace \<Rightarrow>
                          rr_name rref = name \<and>
                          unwrap_or (or_else (rr_namespace rref) (m_namespace (s_meta s))) '''' = namespace
                      | SO_ClusterRepository name \<Rightarrow> rr_name rref = name)
                    in if \<not> matched then None
                       else map_option si_kopia_snapshot_id (Option.bind (s_status s) ss_snapshot)));
          label_arm =
            (if m_labels (s_meta s) REPOSITORY_UID_LABEL \<noteq> Some repo_uid then None
             else case m_labels (s_meta s) SNAPSHOT_ID_LABEL of
                    None \<Rightarrow> None | Some i \<Rightarrow> if i = [] then None else Some i)
      in or_else status_arm label_arm)"

definition produced_ids_for :: "scan_owner \<Rightarrow> string \<Rightarrow> snapshot list \<Rightarrow> string set" where
  "produced_ids_for owner repo_uid snapshots =
     set (filter_map (produced_id_of owner repo_uid)
       (filter (\<lambda>s. resolve_origin s \<noteq> Some Discovered_Origin) snapshots))"

subsection \<open>The discovered Snapshot of an entry\<close>

definition child_meta ::
    "string \<Rightarrow> string \<Rightarrow> string_map \<Rightarrow> owner_reference option \<Rightarrow> object_meta" where
  "child_meta name namespace labels owner =
     empty_meta\<lparr>m_name := Some name, m_namespace := Some namespace, m_labels := labels,
       m_owner_references := (case owner of None \<Rightarrow> [] | Some w \<Rightarrow> [w])\<rparr>"

definition DESCRIPTION_CAP_BYTES :: nat where
  "DESCRIPTION_CAP_BYTES = 1024"

definition entry_description :: "snapshot_list_entry \<Rightarrow> string option" where
  "entry_description e =
     (if le_description e \<noteq> [] then Some (truncate_utf8 (le_description e) DESCRIPTION_CAP_BYTES) else None)"

definition discovered_name :: "string \<Rightarrow> snapshot_list_entry \<Rightarrow> string" where
  "discovered_name repo_name e = repo_name @ ''-disc-'' @ take 16 (le_id e)"

definition discovered_snapshot ::
    "(datetime \<Rightarrow> string) \<Rightarrow> owner_reference \<Rightarrow> string \<Rightarrow> string \<Rightarrow> string \<Rightarrow> snapshot_list_entry \<Rightarrow>
     recorded_meta option \<Rightarrow> snapshot" where
  "discovered_snapshot to_rfc3339 owner namespace repo_name repo_uid entry recorded =
     \<lparr>s_meta = child_meta (discovered_name repo_name entry) namespace
        [ORIGIN_LABEL \<mapsto> ''discovered'', REPOSITORY_UID_LABEL \<mapsto> repo_uid, SNAPSHOT_ID_LABEL \<mapsto> le_id entry]
        (Some owner),
      s_spec = empty_spec\<lparr>sp_deletion_policy := Some DP_Retain\<rparr>,
      s_status = Some
        \<lparr>ss_phase = Some Discovered, ss_origin = Some Discovered_Origin,
         ss_snapshot = Some \<lparr>si_kopia_snapshot_id = le_id entry,
           si_identity = \<lparr>ri_username = le_user_name entry, ri_hostname = le_host entry,
             ri_source_path = Some (le_path entry)\<rparr>,
           si_description = entry_description entry\<rparr>,
         ss_timing = Some \<lparr>st_start_time = Some (to_rfc3339 (le_start_time entry)),
           st_end_time = Some (to_rfc3339 (le_end_time entry)),
           st_duration_seconds = Some (num_seconds (le_end_time entry - le_start_time entry))\<rparr>,
         ss_resolved_repository = None, ss_conditions = [],
         ss_size_bytes = (if int (le_total_size entry) \<le> i64_max then Some (int (le_total_size entry)) else None),
         ss_recorded = recorded\<rparr>\<rparr>"

subsection \<open>The API server\<close>

datatype api_reply = Reply_Ok | Reply_Api nat | Reply_Err

record 'j scan_world =
  w_json :: "'j json_lib"
  w_rfc3339 :: "string \<Rightarrow> datetime option"
  w_to_rfc3339 :: "datetime \<Rightarrow> string"
  w_now :: datetime
  w_list_ok :: bool
  w_namespace :: "string \<Rightarrow> kube_error + string_map option"
  w_apply :: "string \<times> string \<Rightarrow> api_reply"
  w_patch :: "string \<times> string \<Rightarrow> api_reply"
  w_delete :: "string \<times> string \<Rightarrow> api_reply"
  w_merge :: "snapshot \<Rightarrow> snapshot \<Rightarrow> snapshot"

definition obj_key :: "snapshot \<Rightarrow> string \<times> string" where
  "obj_key s = (meta_namespace (s_meta s), name_any (s_meta s))"

text \<open>Server-side apply of an object without its status subresource.\<close>

definition store_apply :: "(snapshot \<Rightarrow> snapshot \<Rightarrow> snapshot) \<Rightarrow> snapshot \<Rightarrow> snapshot list \<Rightarrow> snapshot list" where
  "store_apply merge b store =
     (if list_ex (\<lambda>s. obj_key s = obj_key b) store
      then map (\<lambda>s. if obj_key s = obj_key b then merge s b else s) store
      else store @ [b\<lparr>s_status := None\<rparr>])"

text \<open>A JSON merge patch of the status: fields the patch does not carry stay.\<close>

definition merge_info :: "snapshot_info option \<Rightarrow> snapshot_info option \<Rightarrow> snapshot_info option" where
  "merge_info old new =
     (case (old, new) of
        (Some i, Some n) \<Rightarrow> Some
          \<lparr>si_kopia_snapshot_id = si_kopia_snapshot_id n,
           si_identity = \<lparr>ri_username = ri_username (si_identity n), ri_hostname = ri_hostname (si_identity n),
             ri_source_path = or_else (ri_source_path (si_identity n)) (ri_source_path (si_identity i))\<rparr>,
           si_description = or_else (si_description n) (si_description i)\<rparr>
      | _ \<Rightarrow> or_else new old)"

definition merge_timing :: "snapshot_timing option \<Rightarrow> snapshot_timing option \<Rightarrow> snapshot_timing option" where
  "merge_timing old new =
     (case (old, new) of
        (Some i, Some n) \<Rightarrow> Some
          \<lparr>st_start_time = or_else (st_start_time n) (st_start_time i),
           st_end_time = or_else (st_end_time n) (st_end_time i),
           st_duration_seconds = or_else (st_duration_seconds n) (st_duration_seconds i)\<rparr>
      | _ \<Rightarrow> or_else new old)"

definition merge_status :: "snapshot_status option \<Rightarrow> snapshot_status \<Rightarrow> snapshot_status" where
  "merge_status old new =
     (case old of
        None \<Rightarrow> new
      | Some st \<Rightarrow>
          \<lparr>ss_phase = or_else (ss_phase new) (ss_phase st), ss_origin = or_else (ss_origin new) (ss_origin st),
           ss_snapshot = merge_info (ss_snapshot st) (ss_snapshot new),
           ss_timing = merge_timing (ss_timing st) (ss_timing new),
           ss_resolved_repository = or_else (ss_resolved_repository new) (ss_resolved_repository st),
           ss_conditions = (if ss_conditions new = [] then ss_conditions st else ss_conditions new),
           ss_size_bytes = or_else (ss_size_bytes new) (ss_size_bytes st),
           ss_recorded = or_else (ss_recorded new) (ss_recorded st)\<rparr>)"

definition store_patch_status ::
    "string \<times> string \<Rightarrow> (snapshot_status option \<Rightarrow> snapshot_status option) \<Rightarrow> snapshot list \<Rightarrow> snapshot list" where
  "store_patch_status k f store = map (\<lambda>s. if obj_key s = k then s\<lparr>s_status := f (s_status s)\<rparr> else s) store"

text \<open>A delete: the object goes, or is marked for its finalizers to release.\<close>

definition store_delete :: "datetime \<Rightarrow> string \<times> string \<Rightarrow> snapshot list \<Rightarrow> snapshot list" where
  "store_delete now k store =
     filter_map (\<lambda>s.
         if obj_key s \<noteq> k then Some s
         else if m_finalizers (s_meta s) = [] then None
         else Some (s\<lparr>s_meta := (s_meta s)\<lparr>m_deletion_timestamp :=
           Some (unwrap_or (m_deletion_timestamp (s_meta s)) (now div nanos))\<rparr>\<rparr>)) store"

subsection \<open>The three loops\<close>

record scan_outcome =
  oc_coverage :: catalog_coverage
  oc_expire_failed :: nat
  oc_created :: nat
  oc_expired :: nat
  oc_discovered :: int
  oc_unplaced_hosts :: "string set"
  oc_foreign :: int
  oc_meta_unsupported :: nat
  oc_meta_malformed :: nat
  oc_create_failed :: nat
  oc_backfilled :: nat

definition decode_recorded_counted ::
    "'j json_lib \<Rightarrow> snapshot_list_entry \<Rightarrow> scan_outcome \<Rightarrow> recorded_meta option \<times> scan_outcome" where
  "decode_recorded_counted js entry oc =
     (case decode_meta_tag js (le_tags entry) of
        MT_Decoded m \<Rightarrow> (Some m, oc)
      | MT_Absent \<Rightarrow> (None, oc)
      | MT_UnsupportedSchema _ \<Rightarrow> (None, oc\<lparr>oc_meta_unsupported := oc_meta_unsupported oc + 1\<rparr>)
      | MT_Malformed \<Rightarrow> (None, oc\<lparr>oc_meta_malformed := oc_meta_malformed oc + 1\<rparr>))"

text \<open>\<open>materialize_discovered\<close>: apply the object, then patch its status; a conflict is done.\<close>

definition materialize_discovered ::
    "'j scan_world \<Rightarrow> snapshot \<Rightarrow> snapshot list \<Rightarrow> api_reply \<times> snapshot list" where
  "materialize_discovered w b store =
     (case w_apply w (obj_key b) of
        Reply_Ok \<Rightarrow>
          (let store = store_apply (w_merge w) b store
           in case w_patch w (obj_key b) of
                Reply_Ok \<Rightarrow>
                  (Reply_Ok,
                   store_patch_status (obj_key b)
                     (\<lambda>old. case s_status b of None \<Rightarrow> old | Some new \<Rightarrow> Some (merge_status old new)) store)
              | e \<Rightarrow> (e, store))
      | Reply_Api c \<Rightarrow> if c = 409 then (Reply_Ok, store) else (Reply_Api c, store)
      | Reply_Err \<Rightarrow> (Reply_Err, store))"

datatype scan_error = SE_Kube | SE_CatalogExpiryIncomplete nat nat

record scan_ctx =
  cx_owner :: scan_owner
  cx_owner_ref :: owner_reference
  cx_repo_uid :: string
  cx_placement :: placement
  cx_cluster :: "string option"
  cx_catalog :: "catalog_bounds option"

fun create_discovered_rows ::
    "'j scan_world \<Rightarrow> scan_ctx \<Rightarrow> (string \<rightharpoonup> placement_decision) \<Rightarrow> snapshot_list_entry list \<Rightarrow>
     scan_outcome \<Rightarrow> snapshot list \<Rightarrow> (scan_error + scan_outcome) \<times> snapshot list" where
  "create_discovered_rows w cx decisions [] oc store = (Inr oc, store)"
| "create_discovered_rows w cx decisions (e # es) oc store =
     (case decisions (le_host e) of
        Some (Place ns) \<Rightarrow>
          (let (recorded, oc) = decode_recorded_counted (w_json w) e oc;
               b = discovered_snapshot (w_to_rfc3339 w) (cx_owner_ref cx) ns (scan_owner_name (cx_owner cx)) (cx_repo_uid cx)
                     e recorded
           in case materialize_discovered w b store of
                (Reply_Ok, store) \<Rightarrow>
                  create_discovered_rows w cx decisions es (oc\<lparr>oc_created := oc_created oc + 1\<rparr>) store
              | (Reply_Api c, store) \<Rightarrow>
                  if 400 \<le> c \<and> c < 500 then
                    create_discovered_rows w cx decisions es (oc\<lparr>oc_create_failed := oc_create_failed oc + 1\<rparr>) store
                  else (Inl SE_Kube, store)
              | (Reply_Err, store) \<Rightarrow> (Inl SE_Kube, store))
      | Some ForeignIgnored \<Rightarrow> create_discovered_rows w cx decisions es oc store
      | _ \<Rightarrow>
          create_discovered_rows w cx decisions es
            (oc\<lparr>oc_unplaced_hosts := insert (le_host e) (oc_unplaced_hosts oc)\<rparr>) store)"

text \<open>The targeted patch: the recorded identity, and the description where the row has none.\<close>

definition backfill_patch ::
    "'j json_lib \<Rightarrow> snapshot_list_entry \<Rightarrow> snapshot \<Rightarrow> (recorded_meta \<times> string option) option" where
  "backfill_patch js entry cr =
     (case s_status cr of
        None \<Rightarrow> None
      | Some st \<Rightarrow>
          (case ss_snapshot st of
             None \<Rightarrow> None
           | Some info \<Rightarrow>
               if si_kopia_snapshot_id info \<noteq> le_id entry then None
               else if ss_recorded st \<noteq> None then None
               else (case decode_meta_tag js (le_tags entry) of
                       MT_Decoded m \<Rightarrow>
                         Some (m, if si_description info = None then entry_description entry else None)
                     | _ \<Rightarrow> None)))"

definition apply_backfill :: "recorded_meta \<times> string option \<Rightarrow> snapshot_status option \<Rightarrow> snapshot_status option" where
  "apply_backfill p old =
     map_option (\<lambda>st. st\<lparr>ss_recorded := Some (fst p),
       ss_snapshot := map_option (\<lambda>i. i\<lparr>si_description := or_else (snd p) (si_description i)\<rparr>) (ss_snapshot st)\<rparr>) old"

fun backfill_crs ::
    "'j scan_world \<Rightarrow> snapshot_list_entry \<Rightarrow> snapshot list \<Rightarrow> scan_outcome \<Rightarrow> snapshot list \<Rightarrow>
     scan_outcome \<times> snapshot list" where
  "backfill_crs w entry [] oc store = (oc, store)"
| "backfill_crs w entry (cr # crs) oc store =
     (case backfill_patch (w_json w) entry cr of
        None \<Rightarrow> backfill_crs w entry crs oc store
      | Some p \<Rightarrow>
          (case w_patch w (obj_key cr) of
             Reply_Ok \<Rightarrow>
               backfill_crs w entry crs (oc\<lparr>oc_backfilled := oc_backfilled oc + 1\<rparr>)
                 (store_patch_status (obj_key cr) (apply_backfill p) store)
           | _ \<Rightarrow> backfill_crs w entry crs oc store))"

definition backfill_targets :: "snapshot list \<Rightarrow> string \<Rightarrow> snapshot list" where
  "backfill_targets all_snapshots i =
     filter (\<lambda>s. m_deletion_timestamp (s_meta s) = None \<and> i \<noteq> [] \<and>
       map_option si_kopia_snapshot_id (Option.bind (s_status s) ss_snapshot) = Some i) all_snapshots"

fun backfill_recorded_meta ::
    "'j scan_world \<Rightarrow> snapshot list \<Rightarrow> snapshot_list_entry list \<Rightarrow> scan_outcome \<Rightarrow> snapshot list \<Rightarrow>
     scan_outcome \<times> snapshot list" where
  "backfill_recorded_meta w all_snapshots [] oc store = (oc, store)"
| "backfill_recorded_meta w all_snapshots (e # es) oc store =
     (let crs = backfill_targets all_snapshots (le_id e)
      in if list_all (\<lambda>s. is_none_or (\<lambda>st. ss_recorded st \<noteq> None) (s_status s)) crs
         then backfill_recorded_meta w all_snapshots es oc store
         else (case decode_recorded_counted (w_json w) e oc of
                 (None, oc) \<Rightarrow> backfill_recorded_meta w all_snapshots es oc store
               | (Some _, oc) \<Rightarrow>
                   (let (oc, store) = backfill_crs w e crs oc store
                    in backfill_recorded_meta w all_snapshots es oc store)))"

datatype expiry_delete = ED_Deleted | ED_AlreadyGone | ED_Failed

fun classify_expiry_delete :: "api_reply \<Rightarrow> expiry_delete" where
  "classify_expiry_delete Reply_Ok = ED_Deleted"
| "classify_expiry_delete (Reply_Api c) = (if c = 404 then ED_AlreadyGone else ED_Failed)"
| "classify_expiry_delete Reply_Err = ED_Failed"

record expiry_tally =
  et_expired :: nat
  et_failed :: nat

fun tally_record :: "expiry_delete \<Rightarrow> expiry_tally \<Rightarrow> expiry_tally" where
  "tally_record ED_Deleted t = t\<lparr>et_expired := et_expired t + 1\<rparr>"
| "tally_record ED_AlreadyGone t = t"
| "tally_record ED_Failed t = t\<lparr>et_failed := et_failed t + 1\<rparr>"

definition tally_check :: "expiry_tally \<Rightarrow> nat \<Rightarrow> scan_error + unit" where
  "tally_check t attempted =
     (if et_failed t = 0 then Inr () else Inl (SE_CatalogExpiryIncomplete (et_failed t) attempted))"

text \<open>
  Deletes run at most sixteen at a time and in no fixed order; they concern distinct objects and
  the tally is a count, so the order does not show.
\<close>

fun expire_rows ::
    "'j scan_world \<Rightarrow> (string \<times> string) list \<Rightarrow> expiry_tally \<Rightarrow> snapshot list \<Rightarrow> expiry_tally \<times> snapshot list" where
  "expire_rows w [] t store = (t, store)"
| "expire_rows w (k # ks) t store =
     (let d = classify_expiry_delete (w_delete w k);
          store = (if d = ED_Deleted then store_delete (w_now w) k store else store)
      in expire_rows w ks (tally_record d t) store)"

subsection \<open>The scan\<close>

fun resolve_ns_allowed ::
    "'j scan_world \<Rightarrow> allowed_namespaces \<Rightarrow> string list \<Rightarrow> (string \<rightharpoonup> bool) \<Rightarrow> scan_error + (string \<rightharpoonup> bool)" where
  "resolve_ns_allowed w allowed [] m = Inr m"
| "resolve_ns_allowed w allowed (c # cs) m =
     (case w_namespace w c of
        Inl _ \<Rightarrow> Inl SE_Kube
      | Inr labels \<Rightarrow>
          resolve_ns_allowed w allowed cs
            (m(c \<mapsto> is_some_and (\<lambda>l. validate_consumer_against_cluster_repo c allowed (Some l) = TV_Ok) labels)))"

definition scan_ns_allowed ::
    "'j scan_world \<Rightarrow> scan_ctx \<Rightarrow> snapshot_list_entry list \<Rightarrow> catalog_row list \<Rightarrow> scan_error + (string \<rightharpoonup> bool)" where
  "scan_ns_allowed w cx listing rows =
     (case cx_placement cx of
        PL_Cluster allowed _ \<Rightarrow>
          resolve_ns_allowed w allowed (candidate_namespaces listing rows (cx_cluster cx)) Map.empty
      | PL_Namespace _ \<Rightarrow> Inr Map.empty)"

definition scan_start :: "listing_coverage \<Rightarrow> placement_pass \<Rightarrow> scan_outcome" where
  "scan_start coverage pass =
     \<lparr>oc_coverage = coverage_as_status coverage, oc_expire_failed = 0, oc_created = 0, oc_expired = 0,
      oc_discovered = 0, oc_unplaced_hosts = {}, oc_foreign = pp_foreign_count pass, oc_meta_unsupported = 0,
      oc_meta_malformed = 0, oc_create_failed = 0, oc_backfilled = 0\<rparr>"

definition catalog_scan ::
    "'j scan_world \<Rightarrow> scan_ctx \<Rightarrow> snapshot_list_entry list \<Rightarrow> listing_coverage \<Rightarrow> snapshot list \<Rightarrow>
     (scan_error + scan_outcome) \<times> snapshot list" where
  "catalog_scan w cx listing coverage store =
     (if \<not> w_list_ok w then (Inl SE_Kube, store)
      else
        (let rows = rows_for (w_rfc3339 w) (cx_repo_uid cx) store;
             produced = produced_ids_for (cx_owner cx) (cx_repo_uid cx) store
         in case scan_ns_allowed w cx listing (placement_rows coverage rows) of
              Inl e \<Rightarrow> (Inl e, store)
            | Inr ns_allowed \<Rightarrow>
                (let pass = plan_placements listing (placement_rows coverage rows) (cx_cluster cx)
                       (effective_foreign_snapshots (cx_catalog cx)) (cx_placement cx) ns_allowed;
                     plan = plan_catalog rows produced (pp_foreign_ignored_ids pass)
                       (pp_row_foreign_ignored_ids pass) listing coverage
                       (Option.bind (cx_catalog cx) cb_retain) (w_now w)
                 in case create_discovered_rows w cx (pp_decisions pass) (cp_create plan) (scan_start coverage pass) store of
                      (Inl e, store1) \<Rightarrow> (Inl e, store1)
                    | (Inr oc, store1) \<Rightarrow>
                        (let (oc, store2) = backfill_recorded_meta w store listing oc store1;
                             (t, store3) = expire_rows w (cp_expire plan) \<lparr>et_expired = 0, et_failed = 0\<rparr> store2;
                             oc = oc\<lparr>oc_expired := et_expired t, oc_expire_failed := et_failed t\<rparr>;
                             oc = oc\<lparr>oc_discovered :=
                               max 0 (int (length rows) - int (oc_expired oc)) + int (oc_created oc)\<rparr>
                         in case tally_check t (length (cp_expire plan)) of
                              Inl e \<Rightarrow> (Inl e, store3)
                            | Inr _ \<Rightarrow> (Inr oc, store3)))))"

subsection \<open>A carried-out plan leaves nothing to do\<close>

text \<open>The row read back off a written discovered Snapshot.\<close>

lemma discovered_row:
  assumes "\<forall>t. rfc3339 (to_rfc3339 t) = Some t"
  shows "catalog_row_of rfc3339 uid (discovered_snapshot to_rfc3339 owner ns name uid e rec) =
    Some \<lparr>cw_namespace = ns, cw_name = discovered_name name e, cw_snapshot_id = le_id e,
      cw_end_time = Some (le_end_time e), cw_identity = Some (identity_key e), cw_host = Some (le_host e)\<rparr>"
  using assms by (simp add: catalog_row_of_def discovered_snapshot_def child_meta_def meta_namespace_def name_any_def
      identity_key_def ORIGIN_LABEL_def REPOSITORY_UID_LABEL_def SNAPSHOT_ID_LABEL_def)

lemma discovered_not_produced:
  "produced_ids_for owner uid (store @ map (\<lambda>e. discovered_snapshot f w (ns e) name u e (rec e)) W) =
   produced_ids_for owner uid store"
proof -
  have "resolve_origin (discovered_snapshot f w (ns e) name u e (rec e)) = Some Discovered_Origin" for e
    by (simp add: resolve_origin_def discovered_snapshot_def)
  then have "filter (\<lambda>s. resolve_origin s \<noteq> Some Discovered_Origin)
      (map (\<lambda>e. discovered_snapshot f w (ns e) name u e (rec e)) W) = []"
    by (simp add: filter_empty_conv)
  then show ?thesis by (simp add: produced_ids_for_def)
qed

definition rows_after ::
    "catalog_plan \<Rightarrow> catalog_row list \<Rightarrow> catalog_row list \<Rightarrow> catalog_row list" where
  "rows_after plan rows new =
     filter (\<lambda>r. (cw_namespace r, cw_name r) \<notin> set (cp_expire plan)) rows @ new"

lemma plan_create_scan:
  "cp_create (scan_plan rows P L cov cluster foreign pl allowed retain now) =
   cp_create (plan_catalog rows P
     (pp_foreign_ignored_ids (plan_placements L (placement_rows cov rows) cluster foreign pl allowed))
     (pp_row_foreign_ignored_ids (plan_placements L (placement_rows cov rows) cluster foreign pl allowed))
     L cov retain now)"
  by (simp add: scan_plan_def Let_def)

lemma scan_plan_create:
  fixes cluster foreign pl allowed
  defines "D \<equiv> \<lambda>h. rules_decide (placement_rules_of cluster foreign pl allowed) h = ForeignIgnored"
  assumes "distinct (map le_id L)"
  shows "e \<in> set (cp_create (scan_plan rows P L cov cluster foreign pl allowed retain now)) \<longleftrightarrow>
    e \<in> set (kept_of_identity L P (ignored_entries D L) (retain_bounds_new retain now) (identity_key e)) \<and>
    le_id e \<notin> cw_snapshot_id ` set rows"
proof -
  have FI: "pp_foreign_ignored_ids (plan_placements L (placement_rows cov rows) cluster foreign pl allowed) =
      ignored_entries D L"
    by (simp add: plan_placements_sets ignored_entries_def D_def)
  show ?thesis unfolding plan_create_scan FI
    by (intro iffI conjI plan_create_complete [OF assms(2)]) (auto dest: plan_create_sound)
qed

lemma rows_after_settle:
  fixes cluster foreign pl allowed rows P L cov retain now
  defines "plan \<equiv> \<lambda>rs. scan_plan rs P L cov cluster foreign pl allowed retain now"
  assumes ids: "distinct (map cw_snapshot_id rows)" "distinct (map le_id L)"
    and keys: "distinct (map (\<lambda>r. (cw_namespace r, cw_name r)) rows)"
    and W: "set W \<subseteq> set (cp_create (plan rows))" "distinct W"
    and new: "map cw_snapshot_id new = map le_id W"
  defines "rows1 \<equiv> rows_after (plan rows) rows new"
  shows "cp_expire (plan rows1) = []"
    and "set (cp_create (plan rows1)) = set (cp_create (plan rows)) - set W"
proof -
  define D where "D = (\<lambda>h. rules_decide (placement_rules_of cluster foreign pl allowed) h = ForeignIgnored)"
  define K where "K = (\<lambda>rs. keep_ids rs P (ignored_entries D L) (ignored_rows D (placement_rows cov rs) L) L cov
    (retain_bounds_new retain now))"
  note create = scan_plan_create [OF ids(2), where cluster = cluster and foreign = foreign and pl = pl
      and allowed = allowed, folded D_def]
  have WC: "e \<in> set (kept_of_identity L P (ignored_entries D L) (retain_bounds_new retain now) (identity_key e)) \<and>
      le_id e \<notin> cw_snapshot_id ` set rows" if "e \<in> set W" for e
    using subsetD [OF W(1) that] unfolding plan_def create .
  then have WL: "set W \<subseteq> set L" using kept_of_identity_subset by blast
  have newids: "cw_snapshot_id ` set new = le_id ` set W" using new by (metis set_map)
  have fresh: "cw_snapshot_id ` set rows \<inter> le_id ` set W = {}"
  proof (rule equals0I)
    fix y assume y: "y \<in> cw_snapshot_id ` set rows \<inter> le_id ` set W"
    then obtain e where e: "e \<in> set W" "y = le_id e" by (elim IntE imageE)
    show False using WC [OF e(1)] y e(2) by (elim conjE IntE) simp
  qed
  have "distinct (map le_id W)"
    using W(2) WL ids(2) by (auto simp: distinct_map intro: inj_on_subset)
  then have d1: "distinct (map cw_snapshot_id rows1)"
    using ids(1) new fresh newids
    by (auto simp: rows1_def rows_after_def distinct_map_filter simp del: set_map) auto
  have old: "r \<in> set rows" if "r \<in> set rows1" "cw_snapshot_id r \<notin> le_id ` set L" for r
    using that newids WL by (auto simp: rows1_def rows_after_def)
  have "cw_snapshot_id r \<in> K rows1" if r: "r \<in> set rows1" for r
  proof (cases "r \<in> set new")
    case True
    then obtain e where "e \<in> set W" "cw_snapshot_id r = le_id e" using newids by blast
    moreover then have "e \<in> set (kept_of_identity L P (ignored_entries D L) (retain_bounds_new retain now) (identity_key e))"
      using WC by blast
    ultimately show ?thesis unfolding K_def keep_ids_def by auto
  next
    case False
    then have "r \<in> set rows" "(cw_namespace r, cw_name r) \<notin> set (cp_expire (plan rows))"
      using r by (auto simp: rows1_def rows_after_def)
    then have "cw_snapshot_id r \<in> K rows"
      unfolding plan_def scan_plan_expire K_def D_def by blast
    then show ?thesis unfolding K_def
      using settled_rows_kept [OF ids(1) d1 old \<open>r \<in> set rows\<close> r] by blast
  qed
  then have "x \<notin> set (cp_expire (plan rows1))" for x
    unfolding plan_def scan_plan_expire K_def D_def by blast
  then show "cp_expire (plan rows1) = []" by (metis list.set_intros(1) neq_Nil_conv)
  have kept_row: "le_id e \<in> cw_snapshot_id ` set rows1 \<longleftrightarrow> le_id e \<in> cw_snapshot_id ` set rows \<or> e \<in> set W"
    if e: "e \<in> set (kept_of_identity L P (ignored_entries D L) (retain_bounds_new retain now) (identity_key e))" for e
  proof -
    have "le_id e \<in> K rows" using e unfolding K_def keep_ids_def by blast
    then have "(cw_namespace r, cw_name r) \<notin> set (cp_expire (plan rows))"
      if "r \<in> set rows" "cw_snapshot_id r = le_id e" for r
      using that keys unfolding plan_def scan_plan_expire K_def D_def
      by (auto simp: distinct_map inj_on_def)
    moreover have "e \<in> set L" using e kept_of_identity_subset by blast
    then have "le_id e \<in> le_id ` set W \<longleftrightarrow> e \<in> set W"
      using WL ids(2) by (auto simp: distinct_map inj_on_def)
    ultimately show ?thesis using newids by (auto simp: rows1_def rows_after_def image_Un)
  qed
  show "set (cp_create (plan rows1)) = set (cp_create (plan rows)) - set W"
    unfolding plan_def by (rule set_eqI, simp only: Diff_iff create) (use kept_row in blast)
qed


definition stamp_ex :: "datetime \<Rightarrow> string" where
  "stamp_ex t = (if 0 \<le> t then replicate (nat t) (CHR ''+'') else replicate (nat (- t)) (CHR ''-''))"

definition unstamp_ex :: "string \<Rightarrow> datetime option" where
  "unstamp_ex s = Some (if s \<noteq> [] \<and> hd s = CHR ''-'' then - int (length s) else int (length s))"

lemma unstamp_stamp_ex: "unstamp_ex (stamp_ex t) = Some t"
  by (auto simp: unstamp_ex_def stamp_ex_def)

definition owner_ref_ex :: owner_reference where
  "owner_ref_ex = \<lparr>or_api_version = API_VERSION, or_kind = ''Repository'', or_name = ''nas'', or_uid = ''u1'', or_controller = Some True\<rparr>"

definition rescan_rows_ex :: "catalog_row list" where
  "rescan_rows_ex = rows_after
     (scan_plan rows_ex {} (listed_ex ''k3'' 30 # listing_ex) LC_Complete None FS_Ignore (PL_Namespace ''apps'')
        Map.empty None 100) rows_ex
     (rows_for unstamp_ex ''u1'' [discovered_snapshot stamp_ex owner_ref_ex ''apps'' ''nas'' ''u1'' (listed_ex ''k3'' 30) None])"


subsection \<open>What a scan may touch\<close>

text \<open>
  A Snapshot as a scan may leave it: the same object, with at most its recorded identity filled in
  where there was none, and a description where there was none.
\<close>

definition backfilled :: "snapshot \<Rightarrow> snapshot \<Rightarrow> bool" where
  "backfilled s s' \<longleftrightarrow> s_meta s' = s_meta s \<and> s_spec s' = s_spec s \<and>
     (s_status s' = s_status s \<or>
      (\<exists>st i m d. s_status s = Some st \<and> ss_recorded st = None \<and> ss_snapshot st = Some i \<and>
         s_status s' = Some (st\<lparr>ss_recorded := Some m,
           ss_snapshot := Some (i\<lparr>si_description := or_else (si_description i) d\<rparr>)\<rparr>)))"

lemma backfilled_refl [simp]: "backfilled s s"
  by (simp add: backfilled_def)

lemma backfilled_key: "backfilled s s' \<Longrightarrow> obj_key s' = obj_key s"
  by (simp add: backfilled_def obj_key_def)

lemma backfilled_patch:
  assumes "backfill_patch js e s = Some p" and "backfilled s s'"
  shows "backfilled s (s'\<lparr>s_status := apply_backfill p (s_status s')\<rparr>)"
proof -
  obtain st i where st: "s_status s = Some st" "ss_snapshot st = Some i" "ss_recorded st = None"
    and p: "snd p = (if si_description i = None then entry_description e else None)"
    using assms(1) by (auto simp: backfill_patch_def split: option.splits if_splits meta_tag_decode.splits)
  have "\<exists>d. apply_backfill p (s_status s') = Some (st\<lparr>ss_recorded := Some (fst p),
      ss_snapshot := Some (i\<lparr>si_description := or_else (si_description i) d\<rparr>)\<rparr>)"
    using assms(2) st p
    by (cases st; cases i; cases "si_description i"; cases "entry_description e")
      (auto simp: backfilled_def apply_backfill_def)
  then show ?thesis using assms(2) st by (auto simp: backfilled_def)
qed

text \<open>The write operations keep objects under other keys.\<close>

lemma store_apply_keeps: "s \<in> set store \<Longrightarrow> obj_key s \<noteq> obj_key b \<Longrightarrow> s \<in> set (store_apply f b store)"
  by (force simp: store_apply_def)

lemma store_patch_status_keeps: "s \<in> set store \<Longrightarrow> obj_key s \<noteq> k \<Longrightarrow> s \<in> set (store_patch_status k f store)"
  by (force simp: store_patch_status_def)

lemma store_delete_keeps: "s \<in> set store \<Longrightarrow> obj_key s \<noteq> k \<Longrightarrow> s \<in> set (store_delete now k store)"
  by (force simp: store_delete_def set_filter_map)

lemmas store_keeps = store_apply_keeps store_patch_status_keeps store_delete_keeps

definition survives :: "snapshot \<Rightarrow> snapshot list \<Rightarrow> bool" where
  "survives s store \<longleftrightarrow> (\<exists>s' \<in> set store. backfilled s s')"

lemma survives_write:
  assumes "survives s store" and "\<And>s'. s' \<in> set store \<Longrightarrow> obj_key s' = obj_key s \<Longrightarrow> s' \<in> set store'"
  shows "survives s store'"
  using assms backfilled_key unfolding survives_def by blast

lemma materialize_survives:
  assumes "survives s store" and "obj_key s \<noteq> obj_key b"
  shows "survives s (snd (materialize_discovered w b store))"
  using assms unfolding materialize_discovered_def
  by (auto simp: Let_def split: api_reply.splits intro!: survives_write [OF assms(1)] store_keeps)

lemma discovered_key: "obj_key (discovered_snapshot f w ns name uid e rec) = (ns, discovered_name name e)"
  by (simp add: obj_key_def discovered_snapshot_def child_meta_def meta_namespace_def name_any_def)

lemma create_survives:
  assumes "survives s store" and "name_any (s_meta s) \<notin> discovered_name (scan_owner_name (cx_owner cx)) ` set es"
  shows "survives s (snd (create_discovered_rows w cx decisions es oc store))"
  using assms
proof (induction w cx decisions es oc store rule: create_discovered_rows.induct)
  case (2 w cx decisions e es oc store)
  have "survives s (snd (materialize_discovered w (discovered_snapshot (w_to_rfc3339 w) (cx_owner_ref cx) ns
      (scan_owner_name (cx_owner cx)) (cx_repo_uid cx) e rec) store))" for ns rec
    using 2(6,7) by (intro materialize_survives) (simp_all add: discovered_key, simp add: obj_key_def)
  then show ?case using 2
    by (auto simp: Let_def split: option.splits placement_decision.splits prod.splits api_reply.splits) (metis snd_conv)+
qed simp

lemma patch_survives:
  assumes "survives s store"
    and "\<And>s'. k = obj_key s \<Longrightarrow> backfilled s s' \<Longrightarrow> backfilled s (s'\<lparr>s_status := f (s_status s')\<rparr>)"
  shows "survives s (store_patch_status k f store)"
proof (cases "k = obj_key s")
  case True
  obtain s' where s': "s' \<in> set store" "backfilled s s'" using assms(1) by (auto simp: survives_def)
  then have "s'\<lparr>s_status := f (s_status s')\<rparr> \<in> set (store_patch_status k f store)"
    using True backfilled_key [OF s'(2)] by (force simp: store_patch_status_def)
  then show ?thesis using assms(2) [OF True s'(2)] by (auto simp: survives_def)
qed (use assms(1) in \<open>auto intro: survives_write store_keeps\<close>)

lemma backfill_crs_survives:
  assumes "survives s store" and "\<forall>cr \<in> set crs. obj_key cr = obj_key s \<longrightarrow> cr = s"
  shows "survives s (snd (backfill_crs w e crs oc store))"
  using assms
proof (induction w e crs oc store rule: backfill_crs.induct)
  case (2 w e cr crs oc store)
  have "survives s (store_patch_status (obj_key cr) (apply_backfill p) store)" if "backfill_patch (w_json w) e cr = Some p" for p
    using 2(5,6) that by (intro patch_survives) (auto intro: backfilled_patch)
  then show ?case using 2 by (auto split: option.splits api_reply.splits)
qed simp

lemma backfill_survives:
  assumes "survives s store" and "\<forall>cr \<in> set all_snapshots. obj_key cr = obj_key s \<longrightarrow> cr = s"
  shows "survives s (snd (backfill_recorded_meta w all_snapshots es oc store))"
  using assms
proof (induction w all_snapshots es oc store rule: backfill_recorded_meta.induct)
  case (2 w all_snapshots e es oc store)
  have "survives s (snd (backfill_crs w e (backfill_targets all_snapshots (le_id e)) oc' store))" for oc'
    using 2(4,5) by (intro backfill_crs_survives) (auto simp: backfill_targets_def)
  then show ?case using 2 by (auto simp: Let_def split: prod.splits option.splits) (metis snd_conv)
qed simp

lemma expire_survives:
  assumes "survives s store" and "obj_key s \<notin> set ks"
  shows "survives s (snd (expire_rows w ks t store))"
  using assms
proof (induction w ks t store rule: expire_rows.induct)
  case (2 w k ks t store)
  have "survives s (store_delete (w_now w) k store)"
    by (rule survives_write [OF 2(2)]) (use 2(3) in \<open>auto intro: store_keeps\<close>)
  then show ?case using 2 by (simp add: Let_def)
qed simp

lemma catalog_row_key:
  "catalog_row_of rfc3339 uid s = Some r \<Longrightarrow> (cw_namespace r, cw_name r) = obj_key s"
  by (auto simp: catalog_row_of_def obj_key_def Let_def split: if_splits option.splits)

lemma planned_keys:
  assumes "k \<in> set (cp_expire (plan_catalog (rows_for rfc3339 uid store) P FI RFI L cov retain now))"
  obtains s r where "s \<in> set store" "catalog_row_of rfc3339 uid s = Some r" "obj_key s = k"
  using assms catalog_row_key unfolding plan_expire_iff rows_for_def set_filter_map by fastforce

lemma planned_creates:
  "set (cp_create (plan_catalog rows P FI RFI L cov retain now)) \<subseteq> set L"
  using plan_create_sound(1) kept_of_identity_subset by blast

lemma catalog_scan_ends:
  assumes "w_list_ok w" and "rows = rows_for (w_rfc3339 w) (cx_repo_uid cx) store"
    and "scan_ns_allowed w cx L (placement_rows cov rows) = Inr allowed"
    and "pass = plan_placements L (placement_rows cov rows) (cx_cluster cx)
      (effective_foreign_snapshots (cx_catalog cx)) (cx_placement cx) allowed"
    and "plan = scan_plan rows (produced_ids_for (cx_owner cx) (cx_repo_uid cx) store) L cov (cx_cluster cx)
      (effective_foreign_snapshots (cx_catalog cx)) (cx_placement cx) allowed
      (Option.bind (cx_catalog cx) cb_retain) (w_now w)"
  defines "created \<equiv> create_discovered_rows w cx (pp_decisions pass) (cp_create plan) (scan_start cov pass) store"
  defines "expired \<equiv> \<lambda>oc1 store1. expire_rows w (cp_expire plan) \<lparr>et_expired = 0, et_failed = 0\<rparr>
    (snd (backfill_recorded_meta w store L oc1 store1))"
  shows "created = (Inl e, store1) \<Longrightarrow> catalog_scan w cx L cov store = (Inl e, store1)"
    and "created = (Inr oc1, store1) \<Longrightarrow>
      \<exists>oc. oc_expired oc = et_expired (fst (expired oc1 store1)) \<and>
        catalog_scan w cx L cov store =
          (case tally_check (fst (expired oc1 store1)) (length (cp_expire plan)) of Inl e \<Rightarrow> Inl e | Inr _ \<Rightarrow> Inr oc,
           snd (expired oc1 store1))"
proof -
  have plan: "plan = plan_catalog rows (produced_ids_for (cx_owner cx) (cx_repo_uid cx) store)
      (pp_foreign_ignored_ids pass) (pp_row_foreign_ignored_ids pass) L cov
      (Option.bind (cx_catalog cx) cb_retain) (w_now w)"
    unfolding assms(4,5) scan_plan_def Let_def ..
  note eqs = assms(1) assms(2,4) [symmetric] plan [symmetric] assms(3)
  show "created = (Inl e, store1) \<Longrightarrow> catalog_scan w cx L cov store = (Inl e, store1)"
    unfolding catalog_scan_def Let_def eqs by (simp add: eqs created_def)
  assume "created = (Inr oc1, store1)"
  then show "\<exists>oc. oc_expired oc = et_expired (fst (expired oc1 store1)) \<and>
      catalog_scan w cx L cov store =
        (case tally_check (fst (expired oc1 store1)) (length (cp_expire plan)) of Inl e \<Rightarrow> Inl e | Inr _ \<Rightarrow> Inr oc,
         snd (expired oc1 store1))"
    unfolding catalog_scan_def Let_def eqs created_def expired_def
    apply (auto simp: eqs split: sum.splits prod.splits)
    subgoal for oc2 _ t
      by (rule exI [of _ "oc2\<lparr>oc_expired := et_expired t, oc_expire_failed := et_failed t,
            oc_discovered := max 0 (int (length rows) - int (et_expired t)) + int (oc_created oc2)\<rparr>"]) simp
    done
qed

lemma catalog_scan_stops:
  "\<not> w_list_ok w \<or>
   scan_ns_allowed w cx L (placement_rows cov (rows_for (w_rfc3339 w) (cx_repo_uid cx) store)) = Inl e \<Longrightarrow>
   snd (catalog_scan w cx L cov store) = store"
  by (auto simp: catalog_scan_def Let_def)

text \<open>
  C16: a scan spares every Snapshot that is not one of its repository's discovered rows. Whatever
  the listing, the coverage and the API server's answers, and also when the scan fails half way, a
  Snapshot that does not carry this repository's discovered labels, and whose name is not the one a
  listed entry would be given, is still there with the same metadata, spec and status, except that
  a missing recorded identity (and a missing description) may have been filled in.
\<close>

theorem scan_spares_other_snapshots:
  assumes keys: "distinct (map obj_key store)" and s: "s \<in> set store"
    and other: "catalog_row_of (w_rfc3339 w) (cx_repo_uid cx) s = None"
    and name: "name_any (s_meta s) \<notin> discovered_name (scan_owner_name (cx_owner cx)) ` set L"
  shows "\<exists>s' \<in> set (snd (catalog_scan w cx L cov store)). backfilled s s'"
proof -
  let ?rows = "rows_for (w_rfc3339 w) (cx_repo_uid cx) store"
  have unique: "\<forall>cr \<in> set store. obj_key cr = obj_key s \<longrightarrow> cr = s"
    using keys s by (auto simp: distinct_map inj_on_def)
  have start: "survives s store" using s by (auto simp: survives_def intro: bexI [of _ s])
  consider (stops) e where "\<not> w_list_ok w \<or> scan_ns_allowed w cx L (placement_rows cov ?rows) = Inl e"
    | (runs) allowed where "w_list_ok w" "scan_ns_allowed w cx L (placement_rows cov ?rows) = Inr allowed"
    by (cases "scan_ns_allowed w cx L (placement_rows cov ?rows)") auto
  then have "survives s (snd (catalog_scan w cx L cov store))"
  proof cases
    case stops
    then show ?thesis using catalog_scan_stops start by metis
  next
    case runs
    define pass where "pass = plan_placements L (placement_rows cov ?rows) (cx_cluster cx)
      (effective_foreign_snapshots (cx_catalog cx)) (cx_placement cx) allowed"
    define plan where "plan = scan_plan ?rows (produced_ids_for (cx_owner cx) (cx_repo_uid cx) store) L cov
      (cx_cluster cx) (effective_foreign_snapshots (cx_catalog cx)) (cx_placement cx) allowed
      (Option.bind (cx_catalog cx) cb_retain) (w_now w)"
    have not_expired: "obj_key s \<notin> set (cp_expire plan)"
    proof
      assume "obj_key s \<in> set (cp_expire plan)"
      then obtain t r where "t \<in> set store" "catalog_row_of (w_rfc3339 w) (cx_repo_uid cx) t = Some r" "obj_key t = obj_key s"
        unfolding plan_def scan_plan_def Let_def by (rule planned_keys)
      then show False using unique other by (metis option.distinct(1))
    qed
    have "set (cp_create plan) \<subseteq> set L"
      unfolding plan_def scan_plan_def Let_def by (rule planned_creates)
    then have created: "survives s (snd (create_discovered_rows w cx (pp_decisions pass) (cp_create plan)
        (scan_start cov pass) store))"
      using name by (intro create_survives [OF start]) blast
    note ends = catalog_scan_ends [OF runs(1) refl runs(2) pass_def plan_def]
    obtain c store1 where c: "create_discovered_rows w cx (pp_decisions pass) (cp_create plan) (scan_start cov pass) store =
        (c, store1)" by fastforce
    show ?thesis
    proof (cases c)
      case (Inl e)
      then show ?thesis using ends(1) [OF c [unfolded Inl]] created c by simp
    next
      case (Inr oc1)
      have "survives s store1" using created c by simp
      then show ?thesis
        using ends(2) [OF c [unfolded Inr]] expire_survives [OF backfill_survives [OF _ unique] not_expired] by auto
    qed
  qed
  then show ?thesis by (simp add: survives_def)
qed

definition world_ex :: "(string \<times> string \<Rightarrow> api_reply) \<Rightarrow> (string \<times> string \<Rightarrow> api_reply) \<Rightarrow> unit scan_world" where
  "world_ex patch del = \<lparr>w_json = json_ex, w_rfc3339 = unstamp_ex, w_to_rfc3339 = stamp_ex, w_now = 100, w_list_ok = True,
     w_namespace = (\<lambda>_. Inr None), w_apply = (\<lambda>_. Reply_Ok), w_patch = patch, w_delete = del,
     w_merge = (\<lambda>old new. old\<lparr>s_spec := s_spec new\<rparr>)\<rparr>"

definition ctx_ex :: scan_ctx where
  "ctx_ex = \<lparr>cx_owner = SO_Repository ''nas'' ''apps'', cx_owner_ref = owner_ref_ex, cx_repo_uid = ''u1'',
     cx_placement = PL_Namespace ''apps'', cx_cluster = None, cx_catalog = None\<rparr>"

definition disc_ex :: "string \<Rightarrow> datetime \<Rightarrow> snapshot" where
  "disc_ex i t = discovered_snapshot stamp_ex owner_ref_ex ''apps'' ''nas'' ''u1'' (listed_ex i t) None"

definition manual_ex :: snapshot where
  "manual_ex = \<lparr>s_meta = empty_meta\<lparr>m_name := Some ''before-upgrade'', m_namespace := Some ''apps''\<rparr>,
     s_spec = empty_spec, s_status = None\<rparr>"

theorem scan_spares_other_snapshots_witness:
  "\<exists>s' \<in> set (snd (catalog_scan (world_ex (\<lambda>_. Reply_Err) (\<lambda>_. Reply_Ok)) ctx_ex listing_ex LC_Complete
     [manual_ex, disc_ex ''k0'' 5])). backfilled manual_ex s'"
proof (rule scan_spares_other_snapshots)
  show "distinct (map obj_key [manual_ex, disc_ex ''k0'' 5])"
    by (simp add: disc_ex_def discovered_key) (simp add: obj_key_def manual_ex_def name_any_def discovered_name_def)
  show "catalog_row_of (w_rfc3339 (world_ex (\<lambda>_. Reply_Err) (\<lambda>_. Reply_Ok))) (cx_repo_uid ctx_ex) manual_ex = None"
    by (simp add: catalog_row_of_def manual_ex_def empty_meta_def)
qed (auto simp: manual_ex_def name_any_def discovered_name_def ctx_ex_def)

subsection \<open>How a scan fails\<close>

text \<open>The API server's answer to the write of a row, and the answers that end the scan.\<close>

definition write_reply :: "'j scan_world \<Rightarrow> string \<times> string \<Rightarrow> api_reply" where
  "write_reply w k =
     (case w_apply w k of
        Reply_Ok \<Rightarrow> w_patch w k
      | Reply_Api c \<Rightarrow> if c = 409 then Reply_Ok else Reply_Api c
      | Reply_Err \<Rightarrow> Reply_Err)"

fun fatal_reply :: "api_reply \<Rightarrow> bool" where
  "fatal_reply Reply_Ok = False"
| "fatal_reply (Reply_Api c) = (\<not> (400 \<le> c \<and> c < 500))"
| "fatal_reply Reply_Err = True"

lemma fst_materialize: "fst (materialize_discovered w b store) = write_reply w (obj_key b)"
  by (auto simp: materialize_discovered_def write_reply_def Let_def split: api_reply.splits)

lemma create_fails_iff:
  "(\<exists>oc1. fst (create_discovered_rows w cx decisions es oc store) = Inr oc1) \<and>
     \<not> (\<exists>e \<in> set es. \<exists>ns. decisions (le_host e) = Some (Place ns) \<and>
       fatal_reply (write_reply w (ns, discovered_name (scan_owner_name (cx_owner cx)) e))) \<or>
   fst (create_discovered_rows w cx decisions es oc store) = Inl SE_Kube \<and>
     (\<exists>e \<in> set es. \<exists>ns. decisions (le_host e) = Some (Place ns) \<and>
       fatal_reply (write_reply w (ns, discovered_name (scan_owner_name (cx_owner cx)) e)))"
proof (induction es arbitrary: oc store)
  case (Cons e es)
  show ?case
  proof (cases "decisions (le_host e)")
    case (Some d)
    show ?thesis
    proof (cases d)
      case (Place ns)
      obtain rec oc' where d: "decode_recorded_counted (w_json w) e oc = (rec, oc')" by fastforce
      define b where "b = discovered_snapshot (w_to_rfc3339 w) (cx_owner_ref cx) ns (scan_owner_name (cx_owner cx))
        (cx_repo_uid cx) e rec"
      obtain r store' where m: "materialize_discovered w b store = (r, store')" by fastforce
      have r: "write_reply w (ns, discovered_name (scan_owner_name (cx_owner cx)) e) = r"
        using fst_materialize [of w b store] m by (simp add: b_def discovered_key)
      show ?thesis
      proof (cases r)
        case Reply_Ok
        with m r Some Place d Cons.IH [of "oc'\<lparr>oc_created := oc_created oc' + 1\<rparr>" store'] show ?thesis
          by (simp add: b_def)
      next
        case (Reply_Api c)
        with m r Some Place d Cons.IH [of "oc'\<lparr>oc_create_failed := oc_create_failed oc' + 1\<rparr>" store'] show ?thesis
          by (simp add: b_def)
      next
        case Reply_Err
        with m r Some Place d show ?thesis by (auto simp: b_def)
      qed
    qed (use Cons.IH Some in simp_all)
  qed (use Cons.IH in simp)
qed simp

lemma fst_expire_rows:
  "fst (expire_rows w ks t store) =
     \<lparr>et_expired = et_expired t + length (filter (\<lambda>k. w_delete w k = Reply_Ok) ks),
      et_failed = et_failed t + length (filter (\<lambda>k. w_delete w k \<noteq> Reply_Ok \<and> w_delete w k \<noteq> Reply_Api 404) ks)\<rparr>"
proof (induction w ks t store rule: expire_rows.induct)
  case (2 w k ks t store)
  then show ?case by (cases "w_delete w k") (simp_all add: Let_def)
qed simp

definition gone :: "string \<times> string \<Rightarrow> snapshot list \<Rightarrow> bool" where
  "gone k store \<longleftrightarrow> (\<forall>s \<in> set store. obj_key s = k \<longrightarrow> m_deletion_timestamp (s_meta s) \<noteq> None)"

lemma store_delete_gone:
  assumes "gone k store \<or> k' = k"
  shows "gone k (store_delete now k' store)"
  unfolding gone_def
proof (intro ballI impI)
  fix s assume "s \<in> set (store_delete now k' store)" and k: "obj_key s = k"
  then obtain t where t: "t \<in> set store" "(if obj_key t \<noteq> k' then Some t
      else if m_finalizers (s_meta t) = [] then None
      else Some (t\<lparr>s_meta := (s_meta t)\<lparr>m_deletion_timestamp :=
        Some (unwrap_or (m_deletion_timestamp (s_meta t)) (now div nanos))\<rparr>\<rparr>)) = Some s"
    by (auto simp: store_delete_def set_filter_map)
  show "m_deletion_timestamp (s_meta s) \<noteq> None"
  proof (cases "obj_key t = k'")
    case True
    then show ?thesis using t(2) by (cases "m_finalizers (s_meta t)") auto
  next
    case False
    then show ?thesis using t k assms by (auto simp: gone_def)
  qed
qed

lemma expire_rows_gone:
  "gone k store \<or> k \<in> set ks \<and> w_delete w k = Reply_Ok \<Longrightarrow> gone k (snd (expire_rows w ks t store))"
proof (induction w ks t store rule: expire_rows.induct)
  case (2 w k' ks t store)
  then show ?case using store_delete_gone [of k store k' "w_now w"] by (auto simp: Let_def)
qed simp

text \<open>
  C36: the exact failures of a scan. Once the LIST and the namespaces could be read, the scan fails
  with an API error exactly when the write of some placed entry is answered with something other
  than success, a conflict or a client error; otherwise every planned deletion is attempted, no
  object is left unmarked under a key whose delete was accepted, and the scan fails, naming how
  many of how many deletions failed, exactly when one was answered with neither success nor 404.
\<close>

theorem scan_failures_exact:
  assumes "w_list_ok w" and "rows = rows_for (w_rfc3339 w) (cx_repo_uid cx) store"
    and "scan_ns_allowed w cx L (placement_rows cov rows) = Inr allowed"
    and "pass = plan_placements L (placement_rows cov rows) (cx_cluster cx)
      (effective_foreign_snapshots (cx_catalog cx)) (cx_placement cx) allowed"
    and "plan = scan_plan rows (produced_ids_for (cx_owner cx) (cx_repo_uid cx) store) L cov (cx_cluster cx)
      (effective_foreign_snapshots (cx_catalog cx)) (cx_placement cx) allowed
      (Option.bind (cx_catalog cx) cb_retain) (w_now w)"
    and "failed = filter (\<lambda>k. w_delete w k \<noteq> Reply_Ok \<and> w_delete w k \<noteq> Reply_Api 404) (cp_expire plan)"
    and res: "catalog_scan w cx L cov store = (res, store')"
  shows "(res = Inl SE_Kube \<longleftrightarrow>
      (\<exists>e \<in> set (cp_create plan). \<exists>ns. pp_decisions pass (le_host e) = Some (Place ns) \<and>
         fatal_reply (write_reply w (ns, discovered_name (scan_owner_name (cx_owner cx)) e)))) \<and>
    (res \<noteq> Inl SE_Kube \<longrightarrow>
      (if failed = [] then \<exists>oc. res = Inr oc \<and>
           oc_expired oc = length (filter (\<lambda>k. w_delete w k = Reply_Ok) (cp_expire plan))
       else res = Inl (SE_CatalogExpiryIncomplete (length failed) (length (cp_expire plan)))) \<and>
      (\<forall>k \<in> set (cp_expire plan). w_delete w k = Reply_Ok \<longrightarrow> gone k store'))"
proof -
  note ends = catalog_scan_ends [OF assms(1-5)]
  obtain c store1 where c: "create_discovered_rows w cx (pp_decisions pass) (cp_create plan) (scan_start cov pass) store =
      (c, store1)" by fastforce
  note fails = create_fails_iff [of w cx "pp_decisions pass" "cp_create plan" "scan_start cov pass" store]
  show ?thesis
  proof (cases c)
    case (Inl e)
    then have "res = Inl SE_Kube" using ends(1) [OF c [unfolded Inl]] fails c res by auto
    then show ?thesis using fails c Inl by auto
  next
    case (Inr oc1)
    let ?x = "expire_rows w (cp_expire plan) \<lparr>et_expired = 0, et_failed = 0\<rparr>
      (snd (backfill_recorded_meta w store L oc1 store1))"
    obtain oc where oc: "oc_expired oc = et_expired (fst ?x)" "store' = snd ?x"
      "res = (case tally_check (fst ?x) (length (cp_expire plan)) of Inl e \<Rightarrow> Inl e | Inr _ \<Rightarrow> Inr oc)"
      using ends(2) [OF c [unfolded Inr]] res by auto
    have "res = (if failed = [] then Inr oc else Inl (SE_CatalogExpiryIncomplete (length failed) (length (cp_expire plan))))"
      using oc(3) by (simp add: fst_expire_rows tally_check_def assms(6))
    moreover have "gone k store'" if "k \<in> set (cp_expire plan)" "w_delete w k = Reply_Ok" for k
      unfolding oc(2) by (rule expire_rows_gone) (use that in simp)
    ultimately show ?thesis using fails c Inr oc(1) by (auto simp: fst_expire_rows)
  qed
qed

theorem scan_failures_exact_witness:
  "fst (catalog_scan (world_ex (\<lambda>_. Reply_Ok) (\<lambda>k. if snd k = ''nas-disc-k9'' then Reply_Api 500 else Reply_Ok)) ctx_ex []
     LC_Complete [disc_ex ''k0'' 5, disc_ex ''k9'' 7]) = Inl (SE_CatalogExpiryIncomplete 1 2) \<and>
   gone (''apps'', ''nas-disc-k0'') (snd (catalog_scan (world_ex (\<lambda>_. Reply_Ok)
     (\<lambda>k. if snd k = ''nas-disc-k9'' then Reply_Api 500 else Reply_Ok)) ctx_ex [] LC_Complete
     [disc_ex ''k0'' 5, disc_ex ''k9'' 7]))"
proof -
  let ?w = "world_ex (\<lambda>_. Reply_Ok) (\<lambda>k. if snd k = ''nas-disc-k9'' then Reply_Api 500 else Reply_Ok)"
  let ?store = "[disc_ex ''k0'' 5, disc_ex ''k9'' 7]"
  let ?rows = "rows_for (w_rfc3339 ?w) (cx_repo_uid ctx_ex) ?store"
  let ?plan = "scan_plan ?rows (produced_ids_for (cx_owner ctx_ex) (cx_repo_uid ctx_ex) ?store) [] LC_Complete
    (cx_cluster ctx_ex) (effective_foreign_snapshots (cx_catalog ctx_ex)) (cx_placement ctx_ex) Map.empty
    (Option.bind (cx_catalog ctx_ex) cb_retain) (w_now ?w)"
  have rows: "?rows = [\<lparr>cw_namespace = ''apps'', cw_name = ''nas-disc-k0'', cw_snapshot_id = ''k0'', cw_end_time = Some 5,
        cw_identity = Some (identity_key (listed_ex ''k0'' 5)), cw_host = Some ''prod''\<rparr>,
      \<lparr>cw_namespace = ''apps'', cw_name = ''nas-disc-k9'', cw_snapshot_id = ''k9'', cw_end_time = Some 7,
        cw_identity = Some (identity_key (listed_ex ''k9'' 7)), cw_host = Some ''prod''\<rparr>]"
    by (simp add: rows_for_def disc_ex_def world_ex_def ctx_ex_def discovered_row unstamp_stamp_ex)
      (simp add: discovered_name_def listed_ex_def)
  have plan: "cp_expire ?plan = [(''apps'', ''nas-disc-k0''), (''apps'', ''nas-disc-k9'')]" "cp_create ?plan = []"
    unfolding rows by (simp_all add: scan_plan_def plan_catalog_def Let_def window_keep_def out_of_window_candidates_def
        row_admits_def fill_row_slots_def)
  have "scan_ns_allowed ?w ctx_ex [] (placement_rows LC_Complete ?rows) = Inr Map.empty"
    by (simp add: scan_ns_allowed_def ctx_ex_def)
  from scan_failures_exact [OF _ refl this refl refl refl prod.collapse [symmetric]] show ?thesis
    unfolding plan by (simp add: world_ex_def numeral_2_eq_2)
qed

subsection \<open>A row whose status was not written\<close>

text \<open>
  The object of a row is applied before its status. When the status patch fails, the labelled object
  stays: no later scan plans the entry again, and the backfill skips the object, so its status is
  never written.
\<close>

theorem half_written_row_is_never_completed:
  fixes to_rfc3339 owner ns name uid e rec
  defines "b \<equiv> discovered_snapshot to_rfc3339 owner ns name uid e rec"
  assumes "w_apply w (obj_key b) = Reply_Ok" and "w_patch w (obj_key b) \<noteq> Reply_Ok"
    and "obj_key b \<notin> obj_key ` set store"
  shows "snd (materialize_discovered w b store) = store @ [b\<lparr>s_status := None\<rparr>]"
    and "e \<notin> set (cp_create (scan_plan (rows_for rfc3339 uid (snd (materialize_discovered w b store)))
      P L cov cluster foreign pl allowed retain now))"
    and "backfill_patch js e (b\<lparr>s_status := None\<rparr>) = None"
proof -
  show eq: "snd (materialize_discovered w b store) = store @ [b\<lparr>s_status := None\<rparr>]"
  proof -
    have "\<not> list_ex (\<lambda>s. obj_key s = obj_key b) store"
      using assms(4) by (metis (mono_tags, lifting) imageI list_ex_iff)
    then have "store_apply (w_merge w) b store = store @ [b\<lparr>s_status := None\<rparr>]"
      by (simp add: store_apply_def)
    then show ?thesis
      using assms(2,3) by (cases "w_patch w (obj_key b)") (simp_all add: materialize_discovered_def Let_def)
  qed
  have "catalog_row_of rfc3339 uid (b\<lparr>s_status := None\<rparr>) = Some \<lparr>cw_namespace = ns, cw_name = discovered_name name e,
      cw_snapshot_id = le_id e, cw_end_time = None, cw_identity = None, cw_host = None\<rparr>"
    by (simp add: b_def catalog_row_of_def discovered_snapshot_def child_meta_def meta_namespace_def name_any_def
        ORIGIN_LABEL_def REPOSITORY_UID_LABEL_def SNAPSHOT_ID_LABEL_def)
  then have "le_id e \<in> cw_snapshot_id ` set (rows_for rfc3339 uid (store @ [b\<lparr>s_status := None\<rparr>]))"
    by (simp add: rows_for_def)
  then show "e \<notin> set (cp_create (scan_plan (rows_for rfc3339 uid (snd (materialize_discovered w b store)))
      P L cov cluster foreign pl allowed retain now))"
    unfolding eq plan_create_scan using plan_create_sound(2) by blast
  show "backfill_patch js e (b\<lparr>s_status := None\<rparr>) = None" by (simp add: backfill_patch_def)
qed

end
