(* ===== verification/Adoption.thy ===== *)
theory Adoption
  imports Catalog_Scan Retention Expansion
begin

text \<open>
  Adoption of discovered Snapshots by the policy whose identity they carry: the decision layer of
  \<open>crates/controller/src/adoption.rs\<close> and the pass of the policy reconciler that carries it out
  (\<open>crates/controller/src/snapshot_policy.rs\<close>, \<open>run_adoption\<close> and below). The Snapshots of the
  install scope are a list, as in the theory of the catalog scan; which requests the API server
  refuses is the world's. Event and log texts, the frozen credential-projection opt-in and the
  per-volume statistics other than the size are left out.
\<close>

subsection \<open>Candidates\<close>

record adoption_candidate =
  ac_namespace :: string
  ac_name :: string
  ac_snapshot_id :: string
  ac_identity :: resolved_identity
  ac_timing :: "snapshot_timing option"
  ac_size_bytes :: "int option"
  ac_pinned :: bool
  ac_recorded :: "recorded_meta option"
  ac_description :: "string option"

definition adoption_candidate_of :: "string \<Rightarrow> snapshot \<Rightarrow> adoption_candidate option" where
  "adoption_candidate_of repo_uid s =
     (let labels = m_labels (s_meta s)
      in if labels ORIGIN_LABEL \<noteq> Some (origin_label_value Discovered_Origin) then None
         else if labels REPOSITORY_UID_LABEL \<noteq> Some repo_uid then None
         else if m_deletion_timestamp (s_meta s) \<noteq> None then None
         else case s_status s of
                None \<Rightarrow> None
              | Some status \<Rightarrow>
                  (case ss_snapshot status of
                     None \<Rightarrow> None
                   | Some info \<Rightarrow>
                       if si_kopia_snapshot_id info = [] then None
                       else Some \<lparr>ac_namespace = meta_namespace (s_meta s), ac_name = name_any (s_meta s),
                         ac_snapshot_id = si_kopia_snapshot_id info, ac_identity = si_identity info,
                         ac_timing = ss_timing status, ac_size_bytes = ss_size_bytes status,
                         ac_pinned = sp_pin (s_spec s), ac_recorded = ss_recorded status,
                         ac_description = si_description info\<rparr>))"

definition adoption_candidates :: "string \<Rightarrow> snapshot list \<Rightarrow> adoption_candidate list" where
  "adoption_candidates repo_uid rows = filter_map (adoption_candidate_of repo_uid) rows"

subsection \<open>The plan\<close>

definition POLICY_ADOPTION_BATCH :: nat where
  "POLICY_ADOPTION_BATCH = 50"

record adoption_plan =
  ap_adopt :: "adoption_candidate list"
  ap_request_scan :: bool
  ap_skipped_by_retention :: nat
  ap_identity_matched :: nat
  ap_unmatched :: nat

record adoption_history =
  ah_own_snapshot_ids :: "string set"
  ah_has_history :: bool
  ah_scan_requested_identity :: "string option"

record adoption_retention_gate =
  ag_retention :: "retention option"
  ag_deletion_policy :: deletion_policy
  ag_own_views :: "snapshot_retention_view list"
  ag_policy_name :: string

definition identity_string :: "resolved_identity \<Rightarrow> string" where
  "identity_string i =
     (case ri_source_path i of
        Some p \<Rightarrow> ri_username i @ ''@'' @ ri_hostname i @ '':'' @ p
      | None \<Rightarrow> ri_username i @ ''@'' @ ri_hostname i)"

definition identities_match :: "resolved_identity \<Rightarrow> resolved_identity \<Rightarrow> bool" where
  "identities_match policy candidate \<longleftrightarrow>
     ri_username policy = ri_username candidate \<and> ri_hostname policy = ri_hostname candidate \<and>
     ri_source_path policy = ri_source_path candidate"

definition is_foreign_cluster :: "string \<Rightarrow> string option \<Rightarrow> bool" where
  "is_foreign_cluster hostname cluster =
     (case classify_hostname hostname cluster of HC_ForeignCluster _ \<Rightarrow> True | _ \<Rightarrow> False)"

definition adopted_cr_name :: "string \<Rightarrow> string \<Rightarrow> string" where
  "adopted_cr_name policy_name snapshot_id =
     capped_name (policy_name @ ''-adopted-'' @ take 16 snapshot_id @ ''-'' @ short_hash snapshot_id)"

definition candidate_view ::
    "(string \<Rightarrow> datetime option) \<Rightarrow> string \<Rightarrow> adoption_candidate \<Rightarrow> snapshot_retention_view option" where
  "candidate_view rfc3339 policy_name c =
     (case Option.bind (Option.bind (ac_timing c) st_end_time) rfc3339 of
        None \<Rightarrow> None
      | Some end_time \<Rightarrow>
          Some \<lparr>v_name = adopted_cr_name policy_name (ac_snapshot_id c), v_end_time = end_time,
            v_pinned = ac_pinned c\<rparr>)"

text \<open>The retention gate; the count withheld is the second component.\<close>

definition apply_retention_gate ::
    "(string \<Rightarrow> datetime option) \<Rightarrow> calendar \<Rightarrow> adoption_candidate list \<Rightarrow> adoption_retention_gate \<Rightarrow>
     adoption_candidate list \<times> nat" where
  "apply_retention_gate rfc3339 cal matched gate =
     (case (ag_deletion_policy gate, ag_retention gate) of
        (DP_Delete, _) \<Rightarrow> (matched, 0)
      | (_, None) \<Rightarrow> (matched, 0)
      | (_, Some retention) \<Rightarrow>
          (let views = ag_own_views gate @ filter_map (candidate_view rfc3339 (ag_policy_name gate)) matched;
               kept = set (ks_keep (select_kept cal views retention));
               retained = filter (\<lambda>c. adopted_cr_name (ag_policy_name gate) (ac_snapshot_id c) \<in> kept) matched
           in (retained, length matched - length retained)))"

definition u32_or_max :: "nat \<Rightarrow> nat" where
  "u32_or_max n = (if n < 2 ^ 32 then n else 2 ^ 32 - 1)"

definition plan_adoption ::
    "(string \<Rightarrow> datetime option) \<Rightarrow> calendar \<Rightarrow> snapshot_adoption \<Rightarrow> resolved_identity \<Rightarrow> string option \<Rightarrow>
     adoption_candidate list \<Rightarrow> adoption_history \<Rightarrow> adoption_retention_gate \<Rightarrow> adoption_plan" where
  "plan_adoption rfc3339 cal mode policy_identity repo_cluster candidates history gate =
     (case mode of
        Ignore \<Rightarrow> \<lparr>ap_adopt = [], ap_request_scan = False, ap_skipped_by_retention = 0,
          ap_identity_matched = 0, ap_unmatched = 0\<rparr>
      | Adopt \<Rightarrow>
          (let matched = filter (\<lambda>c. identities_match policy_identity (ac_identity c) \<and>
                 \<not> is_foreign_cluster (ri_hostname (ac_identity c)) repo_cluster) candidates;
               matched_any = (matched \<noteq> []);
               identity_matched = u32_or_max (length matched);
               unmatched = u32_or_max (length candidates - length matched);
               fresh = filter (\<lambda>c. ac_snapshot_id c \<notin> ah_own_snapshot_ids history) matched;
               (retained, skipped) = apply_retention_gate rfc3339 cal fresh gate;
               adopt = take POLICY_ADOPTION_BATCH (sort_key ac_snapshot_id retained);
               already_requested =
                 (ah_scan_requested_identity history = Some (identity_string policy_identity));
               no_match_first_time = (\<not> matched_any \<and> \<not> ah_has_history history \<and> \<not> already_requested)
           in \<lparr>ap_adopt = adopt, ap_request_scan = (adopt \<noteq> [] \<or> no_match_first_time),
               ap_skipped_by_retention = skipped, ap_identity_matched = identity_matched,
               ap_unmatched = unmatched\<rparr>))"

definition effective_adoption :: "snapshot_adoption option \<Rightarrow> catalog_bounds option \<Rightarrow> snapshot_adoption" where
  "effective_adoption policy repo_catalog =
     unwrap_or (or_else policy (Option.bind repo_catalog cb_adoption)) Adopt"

subsection \<open>The adopted Snapshot\<close>

text \<open>\<open>effective_deletion_policy\<close> of the adoption module.\<close>

definition policy_deletion_policy :: "snapshot_policy \<Rightarrow> deletion_policy" where
  "policy_deletion_policy policy = unwrap_or (po_default_deletion_policy policy) DP_Delete"

definition pinned_repository_ref :: "repository_ref \<Rightarrow> string \<Rightarrow> repository_ref" where
  "pinned_repository_ref r config_ns = normalized_repository_ref r config_ns"

definition build_adopted_snapshot ::
    "snapshot_policy \<Rightarrow> string \<Rightarrow> adoption_candidate \<Rightarrow> repository_ref \<Rightarrow> snapshot \<times> snapshot_status" where
  "build_adopted_snapshot policy repo_uid c repo_ref =
     (let policy_name = name_any (po_meta policy);
          namespace = policy_namespace policy;
          cr_name = adopted_cr_name policy_name (ac_snapshot_id c);
          pinned_repo = pinned_repository_ref repo_ref namespace;
          spec_pin = (if is_multi_repo policy then Some pinned_repo else None)
      in (\<lparr>s_meta = child_meta cr_name namespace
             [ORIGIN_LABEL \<mapsto> origin_label_value Adopted, CONFIG_LABEL \<mapsto> policy_name,
              SNAPSHOT_ID_LABEL \<mapsto> ac_snapshot_id c, REPOSITORY_UID_LABEL \<mapsto> repo_uid] None,
           s_spec = \<lparr>sp_policy_ref = Some \<lparr>pr_name = policy_name, pr_namespace = None\<rparr>,
             sp_repository = spec_pin, sp_source_pvc = None,
             sp_deletion_policy = Some (policy_deletion_policy policy), sp_on_schedule_delete = None,
             sp_pin = ac_pinned c\<rparr>,
           s_status = None\<rparr>,
          \<lparr>ss_phase = Some Succeeded, ss_origin = Some Adopted,
           ss_snapshot = Some \<lparr>si_kopia_snapshot_id = ac_snapshot_id c, si_identity = ac_identity c,
             si_description = ac_description c\<rparr>,
           ss_timing = ac_timing c, ss_resolved_repository = Some pinned_repo, ss_conditions = [],
           ss_size_bytes = ac_size_bytes c, ss_recorded = ac_recorded c\<rparr>))"

subsection \<open>Carrying the plan out\<close>

text \<open>
  What the API server refuses, by object key; \<open>aw_vanished\<close> is an occupant of the adopted name that
  a concurrent client removed between the conflict and the read, and \<open>aw_cache\<close> the reflector store,
  when it is synced, which may lag behind.
\<close>

record adoption_world =
  aw_now :: datetime
  aw_get_fails :: "string \<times> string \<Rightarrow> bool"
  aw_create_fails :: "string \<times> string \<Rightarrow> bool"
  aw_vanished :: "string \<times> string \<Rightarrow> bool"
  aw_patch_fails :: "string \<times> string \<Rightarrow> bool"
  aw_delete_fails :: "string \<times> string \<Rightarrow> bool"
  aw_cache :: "snapshot list option"
  aw_list_fails :: "string \<Rightarrow> bool"
  aw_scan_request_fails :: "repository_ref \<Rightarrow> bool"
  aw_status_patch_fails :: bool

definition live_row :: "string \<times> string \<Rightarrow> snapshot list \<Rightarrow> snapshot option" where
  "live_row k store = List.find (\<lambda>s. obj_key s = k) store"

definition confirm_row_live ::
    "adoption_world \<Rightarrow> string \<times> string \<Rightarrow> snapshot list \<Rightarrow> kube_error + bool" where
  "confirm_row_live w k store =
     (if aw_get_fails w k then Inl Kube_Error else Inr (live_row_actionable (live_row k store)))"

definition adopted_row_matches_candidate :: "snapshot \<Rightarrow> string \<Rightarrow> bool" where
  "adopted_row_matches_candidate existing snapshot_id \<longleftrightarrow>
     m_labels (s_meta existing) SNAPSHOT_ID_LABEL = Some snapshot_id \<and>
     (m_labels (s_meta existing) ORIGIN_LABEL = Some (origin_label_value Adopted) \<or>
      m_labels (s_meta existing) ORIGIN_LABEL = Some (origin_label_value Discovered_Origin))"

text \<open>The two writes after the adopted row exists: its status, then the discovered row's delete.\<close>

definition settle_adoption ::
    "adoption_world \<Rightarrow> adoption_candidate \<Rightarrow> string \<times> string \<Rightarrow> snapshot_status \<Rightarrow> snapshot list \<Rightarrow>
     (kube_error + unit) \<times> snapshot list" where
  "settle_adoption w c k status store =
     (if aw_patch_fails w k then (Inl Kube_Error, store)
      else
        (let store = store_patch_status k (\<lambda>old. Some (merge_status old status)) store;
             discovered = (ac_namespace c, ac_name c)
         in if aw_delete_fails w discovered then (Inl Kube_Error, store)
            else (Inr (), store_delete (aw_now w) discovered store)))"

definition adopt_one ::
    "adoption_world \<Rightarrow> snapshot_policy \<Rightarrow> string \<Rightarrow> repository_ref \<Rightarrow> adoption_candidate \<Rightarrow> snapshot list \<Rightarrow>
     (kube_error + unit) \<times> snapshot list" where
  "adopt_one w policy repo_uid repo_ref c store =
     (let (adopted, status) = build_adopted_snapshot policy repo_uid c repo_ref;
          k = obj_key adopted
      in if aw_create_fails w k then (Inl Kube_Error, store)
         else case live_row k store of
                None \<Rightarrow> settle_adoption w c k status (store @ [adopted])
              | Some existing \<Rightarrow>
                  if aw_get_fails w k then (Inl Kube_Error, store)
                  else if aw_vanished w k then (Inr (), store)
                  else if adopted_row_matches_candidate existing (ac_snapshot_id c)
                  then settle_adoption w c k status store
                  else (Inr (), store))"

fun execute_adoptions ::
    "adoption_world \<Rightarrow> snapshot_policy \<Rightarrow> string \<Rightarrow> repository_ref \<Rightarrow> adoption_candidate list \<Rightarrow> nat \<Rightarrow>
     snapshot list \<Rightarrow> (kube_error + nat) \<times> snapshot list" where
  "execute_adoptions w policy repo_uid repo_ref [] cnt store = (Inr cnt, store)"
| "execute_adoptions w policy repo_uid repo_ref (c # cs) cnt store =
     (case confirm_row_live w (ac_namespace c, ac_name c) store of
        Inl e \<Rightarrow> (Inl e, store)
      | Inr False \<Rightarrow> execute_adoptions w policy repo_uid repo_ref cs cnt store
      | Inr True \<Rightarrow>
          (case adopt_one w policy repo_uid repo_ref c store of
             (Inl e, store) \<Rightarrow> (Inl e, store)
           | (Inr _, store) \<Rightarrow> execute_adoptions w policy repo_uid repo_ref cs (cnt + 1) store))"

subsection \<open>One pass of the policy reconciler\<close>

text \<open>A SnapshotPolicy with the two fields only adoption and retention read.\<close>

record governed_policy = snapshot_policy +
  po_adoption :: "snapshot_adoption option"
  po_retention :: "retention option"

record policy_repo_target =
  rt_rref :: repository_ref
  rt_repo_uid :: string
  rt_catalog :: "catalog_bounds option"
  rt_cluster :: "string option"
  rt_identity :: "resolved_identity option"

record adoption_outcome =
  ao_adopted :: nat
  ao_requested_scan :: bool
  ao_skipped_by_retention :: nat
  ao_identity_matched :: nat
  ao_unmatched :: nat
  ao_identity :: string

record adoption_summary =
  as_last_adoption_at :: "string option"
  as_last_adopted_count :: "nat option"
  as_total_adopted :: "nat option"
  as_skipped_by_retention :: "nat option"
  as_last_scan_matched :: "nat option"
  as_last_scan_unmatched :: "nat option"
  as_scan_requested_at :: "string option"
  as_scan_requested_identity :: "string option"

definition list_adoption_candidates ::
    "adoption_world \<Rightarrow> string \<Rightarrow> snapshot list \<Rightarrow> kube_error + adoption_candidate list" where
  "list_adoption_candidates w repo_uid store =
     (case aw_cache w of
        Some rows \<Rightarrow> Inr (adoption_candidates repo_uid rows)
      | None \<Rightarrow> if aw_list_fails w repo_uid then Inl Kube_Error else Inr (adoption_candidates repo_uid store))"

definition own_snapshot_ids_and_history ::
    "(string \<Rightarrow> datetime option) \<Rightarrow> snapshot list \<Rightarrow> string set \<times> bool" where
  "own_snapshot_ids_and_history rfc3339 backups =
     (set (filter (\<lambda>i. i \<noteq> []) (filter_map (\<lambda>b. map_option si_kopia_snapshot_id (s_snapshot_info b)) backups)),
      list_ex (\<lambda>b. retention_view rfc3339 b \<noteq> None \<or>
        resolve_origin b = Some Adopted \<and> s_snapshot_info b \<noteq> None) backups)"

text \<open>
  One repository's slice. The state is the Snapshots and the repositories whose catalog scan was
  requested.
\<close>

definition adoption_pass_for_target ::
    "adoption_world \<Rightarrow> (string \<Rightarrow> datetime option) \<Rightarrow> calendar \<Rightarrow> governed_policy \<Rightarrow> policy_repo_target \<Rightarrow>
     adoption_history \<Rightarrow> adoption_retention_gate \<Rightarrow> bool \<Rightarrow> snapshot list \<times> repository_ref list \<Rightarrow>
     (kube_error + adoption_outcome option) \<times> snapshot list \<times> repository_ref list" where
  "adoption_pass_for_target w rfc3339 cal policy t history gate multi st =
     (let (store, scans) = st
      in if effective_adoption (po_adoption policy) (rt_catalog t) \<noteq> Adopt then (Inr None, st)
         else case rt_identity t of
                None \<Rightarrow> (Inr None, st)
              | Some policy_identity \<Rightarrow>
                  (case list_adoption_candidates w (rt_repo_uid t) store of
                     Inl e \<Rightarrow> (Inl e, st)
                   | Inr candidates \<Rightarrow>
                       (let plan = plan_adoption rfc3339 cal Adopt policy_identity (rt_cluster t) candidates history gate
                        in case execute_adoptions w (snapshot_policy.truncate policy) (rt_repo_uid t) (rt_rref t)
                                  (ap_adopt plan) 0 store of
                             (Inl e, store) \<Rightarrow> (Inl e, store, scans)
                           | (Inr adopted, store) \<Rightarrow>
                               (let request_scan = (if multi then ap_adopt plan \<noteq> [] else ap_request_scan plan)
                                in if request_scan \<and> aw_scan_request_fails w (rt_rref t)
                                   then (Inl Kube_Error, store, scans)
                                   else (Inr (Some \<lparr>ao_adopted = adopted, ao_requested_scan = request_scan,
                                           ao_skipped_by_retention = ap_skipped_by_retention plan,
                                           ao_identity_matched = ap_identity_matched plan,
                                           ao_unmatched = ap_unmatched plan,
                                           ao_identity = identity_string policy_identity\<rparr>),
                                         store, if request_scan then scans @ [rt_rref t] else scans)))))"

fun adoption_targets ::
    "adoption_world \<Rightarrow> (string \<Rightarrow> datetime option) \<Rightarrow> calendar \<Rightarrow> governed_policy \<Rightarrow> policy_repo_target list \<Rightarrow>
     adoption_history \<Rightarrow> adoption_retention_gate \<Rightarrow> bool \<Rightarrow> adoption_outcome list \<Rightarrow>
     snapshot list \<times> repository_ref list \<Rightarrow>
     (kube_error + adoption_outcome list) \<times> snapshot list \<times> repository_ref list" where
  "adoption_targets w rfc3339 cal policy [] history gate multi outcomes st = (Inr outcomes, st)"
| "adoption_targets w rfc3339 cal policy (t # ts) history gate multi outcomes st =
     (case adoption_pass_for_target w rfc3339 cal policy t history gate multi st of
        (Inl e, st) \<Rightarrow> (Inl e, st)
      | (Inr None, st) \<Rightarrow> adoption_targets w rfc3339 cal policy ts history gate multi outcomes st
      | (Inr (Some oc), st) \<Rightarrow> adoption_targets w rfc3339 cal policy ts history gate multi (outcomes @ [oc]) st)"

definition saturating_sum :: "nat list \<Rightarrow> nat" where
  "saturating_sum xs = foldl (\<lambda>acc x. u32_or_max (acc + x)) 0 xs"

definition write_adoption_status ::
    "adoption_summary option \<Rightarrow> string \<Rightarrow> nat \<Rightarrow> bool \<Rightarrow> nat \<Rightarrow> nat \<Rightarrow> nat \<Rightarrow> string \<Rightarrow> adoption_summary" where
  "write_adoption_status prior now adopted request_scan skipped scan_matched scan_unmatched identity =
     \<lparr>as_last_adoption_at = (if 0 < adopted then Some now else Option.bind prior as_last_adoption_at),
      as_last_adopted_count =
        (if 0 < adopted then Some (adopted mod 2 ^ 32) else Option.bind prior as_last_adopted_count),
      as_total_adopted = Some (unwrap_or (Option.bind prior as_total_adopted) 0 + adopted),
      as_skipped_by_retention = Some (u32_or_max skipped),
      as_last_scan_matched = Some scan_matched, as_last_scan_unmatched = Some scan_unmatched,
      as_scan_requested_at = (if request_scan then Some now else Option.bind prior as_scan_requested_at),
      as_scan_requested_identity =
        (if request_scan then Some identity else Option.bind prior as_scan_requested_identity)\<rparr>"

record adoption_result =
  ar_requeue_secs :: "nat option"
  ar_summary :: "adoption_summary option"

definition run_adoption ::
    "adoption_world \<Rightarrow> (string \<Rightarrow> datetime option) \<Rightarrow> calendar \<Rightarrow> string \<Rightarrow> governed_policy \<Rightarrow>
     adoption_summary option \<Rightarrow> policy_repo_target list \<Rightarrow> bool \<Rightarrow> snapshot list \<Rightarrow> snapshot list \<times> repository_ref list \<Rightarrow>
     (kube_error + adoption_result) \<times> snapshot list \<times> repository_ref list" where
  "run_adoption w rfc3339 cal now policy prior targets policy_is_multi backups st =
     (let (own_ids, has_history) = own_snapshot_ids_and_history rfc3339 backups;
          history = \<lparr>ah_own_snapshot_ids = own_ids, ah_has_history = has_history,
            ah_scan_requested_identity = Option.bind prior as_scan_requested_identity\<rparr>;
          gate = \<lparr>ag_retention = po_retention policy,
            ag_deletion_policy = policy_deletion_policy (snapshot_policy.truncate policy),
            ag_own_views = filter_map (retention_view rfc3339) backups,
            ag_policy_name = name_any (po_meta policy)\<rparr>
      in case adoption_targets w rfc3339 cal policy targets history gate policy_is_multi [] st of
           (Inl e, st) \<Rightarrow> (Inl e, st)
         | (Inr outcomes, st) \<Rightarrow>
             if outcomes = [] then (Inr \<lparr>ar_requeue_secs = None, ar_summary = prior\<rparr>, st)
             else
               (let adopted = sum_list (map ao_adopted outcomes);
                    any_scan = list_ex ao_requested_scan outcomes;
                    identity = (case List.find ao_requested_scan (rev outcomes) of
                        Some oc \<Rightarrow> ao_identity oc | None \<Rightarrow> ao_identity (last outcomes));
                    skipped = sum_list (map ao_skipped_by_retention outcomes);
                    scan_matched = saturating_sum (map ao_identity_matched outcomes);
                    scan_unmatched = saturating_sum (map ao_unmatched outcomes);
                    prior_skipped = unwrap_or (Option.bind prior as_skipped_by_retention) 0;
                    scan_counts_changed =
                      (Option.bind prior as_last_scan_matched \<noteq> Some scan_matched \<or>
                       Option.bind prior as_last_scan_unmatched \<noteq> Some scan_unmatched)
                in if 0 < adopted \<or> any_scan \<or> skipped \<noteq> prior_skipped \<or> scan_counts_changed
                   then if aw_status_patch_fails w then (Inl Kube_Error, st)
                        else (Inr \<lparr>ar_requeue_secs = Some 30,
                               ar_summary = Some (write_adoption_status prior now adopted any_scan skipped scan_matched
                                 scan_unmatched identity)\<rparr>, st)
                   else (Inr \<lparr>ar_requeue_secs = None, ar_summary = prior\<rparr>, st)))"

subsection \<open>What a plan adopts\<close>

definition adoption_matched ::
    "resolved_identity \<Rightarrow> string option \<Rightarrow> adoption_history \<Rightarrow> adoption_candidate list \<Rightarrow> adoption_candidate list" where
  "adoption_matched ident cluster history cands =
     filter (\<lambda>c. identities_match ident (ac_identity c) \<and>
       \<not> is_foreign_cluster (ri_hostname (ac_identity c)) cluster \<and>
       ac_snapshot_id c \<notin> ah_own_snapshot_ids history) cands"

lemma plan_adopt_eq:
  "ap_adopt (plan_adoption rfc3339 cal Adopt ident cluster cands history gate) =
     take POLICY_ADOPTION_BATCH (sort_key ac_snapshot_id
       (fst (apply_retention_gate rfc3339 cal (adoption_matched ident cluster history cands) gate)))"
proof -
  have "filter (\<lambda>c. ac_snapshot_id c \<notin> ah_own_snapshot_ids history)
      (filter (\<lambda>c. identities_match ident (ac_identity c) \<and>
         \<not> is_foreign_cluster (ri_hostname (ac_identity c)) cluster) cands) =
      adoption_matched ident cluster history cands"
    by (auto simp: adoption_matched_def conj_ac intro: filter_cong)
  then show ?thesis
    by (simp add: plan_adoption_def Let_def split: prod.splits)
qed

definition gate_views ::
    "(string \<Rightarrow> datetime option) \<Rightarrow> adoption_retention_gate \<Rightarrow> adoption_candidate list \<Rightarrow> snapshot_retention_view list" where
  "gate_views rfc3339 gate matched =
     ag_own_views gate @ filter_map (candidate_view rfc3339 (ag_policy_name gate)) matched"

text \<open>The gate: closed for \<open>Delete\<close> and without a retention, otherwise what the selection keeps.\<close>

lemma gate_retained:
  "c \<in> set (fst (apply_retention_gate rfc3339 cal matched gate)) \<longleftrightarrow>
     c \<in> set matched \<and>
     (ag_deletion_policy gate = DP_Delete \<or> ag_retention gate = None \<or>
      (\<exists>r. ag_retention gate = Some r \<and>
        adopted_cr_name (ag_policy_name gate) (ac_snapshot_id c) \<in>
          set (ks_keep (select_kept cal (gate_views rfc3339 gate matched) r))))"
  by (cases "ag_deletion_policy gate"; cases "ag_retention gate")
    (auto simp: apply_retention_gate_def gate_views_def Let_def)

lemma plan_adopt_subset:
  assumes "c \<in> set (ap_adopt (plan_adoption rfc3339 cal mode ident cluster cands history gate))"
  shows "c \<in> set (adoption_matched ident cluster history cands)"
    and "ag_deletion_policy gate \<noteq> DP_Delete \<Longrightarrow> ag_retention gate = Some r \<Longrightarrow>
      adopted_cr_name (ag_policy_name gate) (ac_snapshot_id c) \<in>
        set (ks_keep (select_kept cal (gate_views rfc3339 gate (adoption_matched ident cluster history cands)) r))"
proof -
  have "mode = Adopt" using assms by (cases mode) (auto simp: plan_adoption_def)
  then have "c \<in> set (fst (apply_retention_gate rfc3339 cal (adoption_matched ident cluster history cands) gate))"
    using assms unfolding plan_adopt_eq [symmetric]
    by (auto simp: plan_adopt_eq dest: in_set_takeD)
  then show "c \<in> set (adoption_matched ident cluster history cands)"
    and "ag_deletion_policy gate \<noteq> DP_Delete \<Longrightarrow> ag_retention gate = Some r \<Longrightarrow>
      adopted_cr_name (ag_policy_name gate) (ac_snapshot_id c) \<in>
        set (ks_keep (select_kept cal (gate_views rfc3339 gate (adoption_matched ident cluster history cands)) r))"
    unfolding gate_retained by auto
qed

lemma candidate_view_name: "candidate_view rfc3339 pn c = Some v \<Longrightarrow> v_name v = adopted_cr_name pn (ac_snapshot_id c)"
  by (auto simp: candidate_view_def split: option.splits)

lemma gate_views_distinct:
  assumes "distinct (map row_name children @ map (\<lambda>c. adopted_cr_name (ag_policy_name gate) (ac_snapshot_id c)) matched)"
    and "ag_own_views gate = filter_map (retention_view rfc3339) children"
  shows "distinct (map v_name (gate_views rfc3339 gate matched))"
proof -
  have "distinct (map v_name (ag_own_views gate))"
    unfolding assms(2) using assms(1) retention_viewD(3) by (intro distinct_filter_map_names) auto
  moreover have "distinct (map v_name (filter_map (candidate_view rfc3339 (ag_policy_name gate)) matched))"
    using assms(1) candidate_view_name
    by (intro distinct_filter_map_names [of "\<lambda>c. adopted_cr_name (ag_policy_name gate) (ac_snapshot_id c)"]) auto
  moreover have "v_name ` set (ag_own_views gate) \<subseteq> row_name ` set children"
    unfolding assms(2) using retention_viewD(3) by (force simp: set_filter_map)
  moreover have "v_name ` set (filter_map (candidate_view rfc3339 (ag_policy_name gate)) matched) \<subseteq>
      (\<lambda>c. adopted_cr_name (ag_policy_name gate) (ac_snapshot_id c)) ` set matched"
    using candidate_view_name by (force simp: set_filter_map)
  ultimately show ?thesis using assms(1) by (auto simp: gate_views_def)
qed

lemma adopted_has_view:
  assumes names: "distinct (map row_name children @ map (\<lambda>c. adopted_cr_name (ag_policy_name gate) (ac_snapshot_id c)) matched)"
    and own: "ag_own_views gate = filter_map (retention_view rfc3339) children"
    and c: "c \<in> set matched"
    and kept: "adopted_cr_name (ag_policy_name gate) (ac_snapshot_id c) \<in>
      set (ks_keep (select_kept cal (gate_views rfc3339 gate matched) r))"
  obtains v where "candidate_view rfc3339 (ag_policy_name gate) c = Some v"
    and "view_kept cal r (set (gate_views rfc3339 gate matched)) v"
proof -
  let ?n = "adopted_cr_name (ag_policy_name gate) (ac_snapshot_id c)"
  obtain p where p: "p < length (gate_views rfc3339 gate matched)"
    "v_name (gate_views rfc3339 gate matched ! (retention_order (gate_views rfc3339 gate matched) ! p)) = ?n"
    using kept by (auto simp: select_kept_positions)
  then obtain v where v: "v \<in> set (gate_views rfc3339 gate matched)" "v_name v = ?n"
    by (meson nth_mem retention_order_nth_lt)
  have "v \<notin> set (ag_own_views gate)"
    using v(2) names c retention_viewD(3) unfolding own by (fastforce simp: set_filter_map)
  then obtain c' where c': "c' \<in> set matched" "candidate_view rfc3339 (ag_policy_name gate) c' = Some v"
    using v(1) by (auto simp: gate_views_def set_filter_map)
  then have "c' = c" using names c v(2) candidate_view_name [OF c'(2)] by (auto simp: distinct_map inj_on_def)
  then show ?thesis
    using that c'(2) select_kept_view [OF gate_views_distinct [OF names own] v(1)] kept v(2) by simp
qed

subsection \<open>Adoption and retention agree\<close>

text \<open>
  A row adopted for a candidate, as later passes find it: named and specified as built, its status
  written over whatever was there.
\<close>

definition adopted_row_of ::
    "snapshot_policy \<Rightarrow> string \<Rightarrow> repository_ref \<Rightarrow> adoption_candidate \<Rightarrow> snapshot \<Rightarrow> bool" where
  "adopted_row_of policy repo_uid repo_ref c s \<longleftrightarrow>
     (let (b, status) = build_adopted_snapshot policy repo_uid c repo_ref
      in m_name (s_meta s) = m_name (s_meta b) \<and> s_spec s = s_spec b \<and>
         (\<exists>old. s_status s = Some (merge_status old status)))"

lemma merge_status_fields:
  "ss_phase (merge_status old new) = or_else (ss_phase new) (Option.bind old ss_phase)"
  "ss_origin (merge_status old new) = or_else (ss_origin new) (Option.bind old ss_origin)"
  "ss_snapshot (merge_status old new) = merge_info (Option.bind old ss_snapshot) (ss_snapshot new)"
  "ss_timing (merge_status old new) = merge_timing (Option.bind old ss_timing) (ss_timing new)"
  "ss_resolved_repository (merge_status old new) =
     or_else (ss_resolved_repository new) (Option.bind old ss_resolved_repository)"
  by (cases old; cases "ss_snapshot new"; cases "ss_timing new"; cases "ss_phase new"; cases "ss_origin new";
      cases "ss_resolved_repository new"; simp add: merge_status_def merge_info_def merge_timing_def)+

lemma merged_end_time:
  "Option.bind new st_end_time = Some t \<Longrightarrow> Option.bind (merge_timing old new) st_end_time = Some t"
  by (cases old; cases new) (auto simp: merge_timing_def)

lemma merged_snapshot_id:
  "map_option si_kopia_snapshot_id (merge_info old (Some i)) = Some (si_kopia_snapshot_id i)"
  by (cases old) (auto simp: merge_info_def)

lemma adopted_row_view:
  assumes "adopted_row_of policy repo_uid repo_ref c s"
    and "candidate_view rfc3339 (name_any (po_meta policy)) c = Some v"
  shows "retention_view rfc3339 s = Some v"
proof -
  obtain t e where t: "Option.bind (ac_timing c) st_end_time = Some t" "rfc3339 t = Some e"
    and v: "v = \<lparr>v_name = adopted_cr_name (name_any (po_meta policy)) (ac_snapshot_id c), v_end_time = e, v_pinned = ac_pinned c\<rparr>"
    using assms(2) by (auto simp: candidate_view_def bind_eq_Some_conv split: option.splits)
  obtain old where st: "s_status s = Some (merge_status old (snd (build_adopted_snapshot policy repo_uid c repo_ref)))"
    and m: "m_name (s_meta s) = Some (adopted_cr_name (name_any (po_meta policy)) (ac_snapshot_id c))"
    and sp: "sp_pin (s_spec s) = ac_pinned c"
    using assms(1) by (auto simp: adopted_row_of_def build_adopted_snapshot_def child_meta_def Let_def)
  let ?st = "merge_status old (snd (build_adopted_snapshot policy repo_uid c repo_ref))"
  have "ss_phase ?st = Some Succeeded" "ss_snapshot ?st \<noteq> None" "Option.bind (ss_timing ?st) st_end_time = Some t"
    unfolding merge_status_fields
    using merged_end_time [OF t(1), of "Option.bind old ss_timing"]
      merged_snapshot_id [of "Option.bind old ss_snapshot"]
    by (auto simp: build_adopted_snapshot_def Let_def)
  then show ?thesis
    using st m sp t(2) by (simp add: retention_view_def v)
qed

text \<open>
  C37: adoption never feeds the retention prune. Under a deletion policy that keeps kopia's data,
  a row adopted by a plan made against the policy's children is not selected by any later retention
  pass over rows that were children then or were adopted with it, however many of them have been
  pruned meanwhile and however the retention buckets split them: no row is adopted, pruned,
  discovered and adopted again.
\<close>

theorem adopted_rows_survive_retention:
  assumes plan: "c \<in> set (ap_adopt (plan_adoption rfc3339 cal mode ident cluster cands history gate))"
    and gate: "ag_deletion_policy gate \<noteq> DP_Delete" "ag_retention gate = Some r"
      "ag_own_views gate = filter_map (retention_view rfc3339) children"
      "ag_policy_name gate = name_any (po_meta policy)"
    and names: "distinct (map row_name children @ map (\<lambda>c. adopted_cr_name (ag_policy_name gate) (ac_snapshot_id c)) cands)"
    and later: "distinct (map row_name later)"
      "\<forall>s \<in> set later. s \<in> set children \<or>
         (\<exists>c' \<in> set (ap_adopt (plan_adoption rfc3339 cal mode ident cluster cands history gate)).
            adopted_row_of policy repo_uid repo_ref c' s)"
    and s: "s \<in> set later" "adopted_row_of policy repo_uid repo_ref c s"
  shows "row_name s \<notin> set (backups_to_delete rfc3339 cal later r multi)"
proof
  let ?matched = "adoption_matched ident cluster history cands"
  let ?views = "gate_views rfc3339 gate ?matched"
  have matched_names: "distinct (map row_name children @ map (\<lambda>c. adopted_cr_name (ag_policy_name gate) (ac_snapshot_id c)) ?matched)"
    using names by (auto simp: adoption_matched_def distinct_map_filter)
  have has_view: "\<exists>v. candidate_view rfc3339 (name_any (po_meta policy)) x = Some v \<and> v \<in> set ?views \<and>
      view_kept cal r (set ?views) v"
    if x: "x \<in> set (ap_adopt (plan_adoption rfc3339 cal mode ident cluster cands history gate))" for x
  proof -
    obtain v where "candidate_view rfc3339 (ag_policy_name gate) x = Some v" "view_kept cal r (set ?views) v"
      using adopted_has_view [OF matched_names gate(3) plan_adopt_subset(1) [OF x]
          plan_adopt_subset(2) [OF x gate(1,2)]] .
    then show ?thesis
      using plan_adopt_subset(1) [OF x] gate(4) by (auto simp: gate_views_def set_filter_map)
  qed
  obtain v where v: "candidate_view rfc3339 (name_any (po_meta policy)) c = Some v" "view_kept cal r (set ?views) v"
    using has_view [OF plan] by blast
  note sv = adopted_row_view [OF s(2) v(1)]
  assume "row_name s \<in> set (backups_to_delete rfc3339 cal later r multi)"
  then obtain k vs where kv: "(k, vs) \<in> set (retention_buckets rfc3339 later multi [])"
    and del: "row_name s \<in> set (ks_delete (select_kept cal vs r))"
    by (auto simp: backups_to_delete_iff)
  obtain u where u: "u \<in> set vs" "v_name u = row_name s" by (rule select_kept_deleted [OF del])
  obtain b where b: "b \<in> set later" "retention_view rfc3339 b = Some u" by (rule bucket_view_obtain [OF kv u(1)])
  have "b = s"
    using bucket_of_name_unique [OF later(1) b(1) s(1)] retention_viewD(3) [OF b(2)] u(2) by simp
  then have uv: "u = v" using b(2) sv by simp
  have "set vs \<subseteq> set ?views"
  proof
    fix x assume "x \<in> set vs"
    then obtain t where t: "t \<in> set later" "retention_view rfc3339 t = Some x" by (rule bucket_view_obtain [OF kv])
    show "x \<in> set ?views"
    proof (cases "t \<in> set children")
      case True
      then show ?thesis using t(2) gate(3) by (auto simp: gate_views_def set_filter_map)
    next
      case False
      then obtain c' where c': "c' \<in> set (ap_adopt (plan_adoption rfc3339 cal mode ident cluster cands history gate))"
        "adopted_row_of policy repo_uid repo_ref c' t" using later(2) t(1) by blast
      then show ?thesis using has_view [OF c'(1)] adopted_row_view [OF c'(2)] t(2) by auto
    qed
  qed
  then have "view_kept cal r (set vs) v" using view_kept_fewer [OF v(2)] by simp
  then have "row_name s \<in> set (ks_keep (select_kept cal vs r))"
    using select_kept_view [OF bucket_names_distinct [OF kv later(1)] u(1)] u(2) uv by simp
  then show False using keep_delete_disjoint [OF bucket_names_distinct [OF kv later(1)]] del by blast
qed

definition cand_ex :: adoption_candidate where
  "cand_ex = \<lparr>ac_namespace = ''apps'', ac_name = ''nas-disc-k1'', ac_snapshot_id = ''k1'',
     ac_identity = \<lparr>ri_username = ''mydb'', ri_hostname = ''prod'', ri_source_path = Some ''/pvc/db''\<rparr>,
     ac_timing = Some \<lparr>st_start_time = None, st_end_time = Some ''++++++++++'', st_duration_seconds = None\<rparr>,
     ac_size_bytes = None, ac_pinned = False, ac_recorded = None, ac_description = None\<rparr>"

definition gate_ex :: adoption_retention_gate where
  "gate_ex = \<lparr>ag_retention = Some daily_ex, ag_deletion_policy = DP_Retain, ag_own_views = [], ag_policy_name = ''app''\<rparr>"

definition history_ex :: adoption_history where
  "history_ex = \<lparr>ah_own_snapshot_ids = {}, ah_has_history = False, ah_scan_requested_identity = None\<rparr>"

definition nas_ref :: repository_ref where
  "nas_ref = \<lparr>rr_kind = Repository, rr_name = ''nas'', rr_namespace = None\<rparr>"

definition adopted_ex :: snapshot where
  "adopted_ex = (let (b, status) = build_adopted_snapshot (policy_ex []) ''u1'' cand_ex nas_ref
     in b\<lparr>s_status := Some status\<rparr>)"

lemma adopted_ex_row: "adopted_row_of (policy_ex []) ''u1'' nas_ref cand_ex adopted_ex"
proof -
  have "merge_status None st = st" for st by (simp add: merge_status_def)
  then show ?thesis by (auto simp: adopted_row_of_def adopted_ex_def Let_def split: prod.splits intro: exI [of _ None])
qed

lemma plan_ex_adopts:
  "cand_ex \<in> set (ap_adopt (plan_adoption unstamp_ex cal_ex Adopt (ac_identity cand_ex) None [cand_ex] history_ex gate_ex))"
  unfolding plan_adopt_eq
  by (simp add: gate_ex_def adoption_matched_def identities_match_def is_foreign_cluster_def classify_hostname_def
      history_ex_def POLICY_ADOPTION_BATCH_def apply_retention_gate_def Let_def candidate_view_def unstamp_ex_def
      cand_ex_def select_kept_def retention_order_def keep_indices_def bucket_idx_def keep_per_period_def daily_ex_def)

theorem adopted_rows_survive_retention_witness:
  "row_name adopted_ex \<notin> set (backups_to_delete unstamp_ex cal_ex [adopted_ex] daily_ex False)"
  by (rule adopted_rows_survive_retention [OF plan_ex_adopts, of daily_ex "[]" "policy_ex []" _ "''u1''" nas_ref])
    (use adopted_ex_row plan_ex_adopts in \<open>auto simp: gate_ex_def policy_ex_def name_any_def\<close>)

subsection \<open>An interrupted adoption loses nothing\<close>

definition adopted_key :: "snapshot_policy \<Rightarrow> adoption_candidate \<Rightarrow> string \<times> string" where
  "adopted_key policy c =
     (policy_namespace policy, adopted_cr_name (name_any (po_meta policy)) (ac_snapshot_id c))"

abbreviation discovered_key_of :: "adoption_candidate \<Rightarrow> string \<times> string" where
  "discovered_key_of c \<equiv> (ac_namespace c, ac_name c)"

text \<open>A row that stands in for the candidate: labelled with its id, succeeded, and recording it.\<close>

definition carries :: "adoption_candidate \<Rightarrow> snapshot \<Rightarrow> bool" where
  "carries c t \<longleftrightarrow>
     m_labels (s_meta t) SNAPSHOT_ID_LABEL = Some (ac_snapshot_id c) \<and>
     s_phase t = Some Succeeded \<and> Option.bind (s_status t) ss_origin = Some Adopted \<and>
     map_option si_kopia_snapshot_id (s_snapshot_info t) = Some (ac_snapshot_id c)"

definition carried :: "snapshot_policy \<Rightarrow> adoption_candidate \<Rightarrow> snapshot list \<Rightarrow> bool" where
  "carried policy c store \<longleftrightarrow> (\<exists>t \<in> set store. obj_key t = adopted_key policy c \<and> carries c t)"

definition row_kept :: "(string \<times> string) set \<Rightarrow> snapshot \<Rightarrow> snapshot list \<Rightarrow> bool" where
  "row_kept K s store \<longleftrightarrow>
     (\<exists>s' \<in> set store. obj_key s' = obj_key s \<and> s_meta s' = s_meta s \<and> s_spec s' = s_spec s \<and>
        (obj_key s \<in> K \<or> s_status s' = s_status s))"

definition nothing_lost ::
    "snapshot_policy \<Rightarrow> adoption_candidate list \<Rightarrow> snapshot list \<Rightarrow> snapshot list \<Rightarrow> bool" where
  "nothing_lost policy cs before store \<longleftrightarrow>
     distinct (map obj_key store) \<and>
     (\<forall>s \<in> set before. row_kept (adopted_key policy ` set cs) s store \<or>
        (\<exists>c \<in> set cs. obj_key s = discovered_key_of c \<and> carried policy c store))"

lemma built_key: "obj_key (fst (build_adopted_snapshot policy uid c ref)) = adopted_key policy c"
  by (simp add: build_adopted_snapshot_def Let_def obj_key_def child_meta_def meta_namespace_def name_any_def adopted_key_def)

lemma built_label: "m_labels (s_meta (fst (build_adopted_snapshot policy uid c ref))) SNAPSHOT_ID_LABEL = Some (ac_snapshot_id c)"
  by (simp add: build_adopted_snapshot_def Let_def child_meta_def SNAPSHOT_ID_LABEL_def REPOSITORY_UID_LABEL_def)

lemma patched_carries:
  assumes "m_labels (s_meta t) SNAPSHOT_ID_LABEL = Some (ac_snapshot_id c)"
  shows "carries c (t\<lparr>s_status := Some (merge_status old (snd (build_adopted_snapshot policy uid c ref)))\<rparr>)"
  using assms by (simp add: carries_def merge_status_fields build_adopted_snapshot_def Let_def merged_snapshot_id
      del: map_option_eq_Some)

lemma carries_same_id: "carries c t \<Longrightarrow> ac_snapshot_id c' = ac_snapshot_id c \<Longrightarrow> carries c' t"
  by (simp add: carries_def)

lemma obj_key_status [simp]: "obj_key (s\<lparr>s_status := x\<rparr>) = obj_key s"
  by (simp add: obj_key_def)

lemma keys_patch [simp]: "map obj_key (store_patch_status k f store) = map obj_key store"
  by (simp add: store_patch_status_def comp_def if_distrib cong: if_cong)

lemma keys_delete: "distinct (map obj_key store) \<Longrightarrow> distinct (map obj_key (store_delete now k store))"
proof (induction store)
  case (Cons s store)
  have "obj_key ` set (store_delete now k store) \<subseteq> obj_key ` set store"
    by (auto simp: store_delete_def set_filter_map obj_key_def meta_namespace_def name_any_def split: if_splits)
  moreover have "obj_key (s\<lparr>s_meta := (s_meta s)\<lparr>m_deletion_timestamp := x\<rparr>\<rparr>) = obj_key s" for x
    by (simp add: obj_key_def meta_namespace_def name_any_def)
  ultimately show ?case using Cons by (auto simp: store_delete_def)
qed (simp add: store_delete_def)

lemma live_row_Some: "live_row k store = Some s \<Longrightarrow> s \<in> set store \<and> obj_key s = k"
  by (auto simp: live_row_def find_Some_iff)

lemma live_row_None: "live_row k store = None \<Longrightarrow> k \<notin> obj_key ` set store"
  by (auto simp: live_row_def find_None_iff)

text \<open>The status patch of an adopted row, and the delete that follows it.\<close>

lemma patch_keeps_rows:
  assumes "row_kept K s store" and "k \<in> K"
  shows "row_kept K s (store_patch_status k f store)"
proof -
  obtain s' where s': "s' \<in> set store" "obj_key s' = obj_key s" "s_meta s' = s_meta s" "s_spec s' = s_spec s"
    "obj_key s \<in> K \<or> s_status s' = s_status s" using assms(1) by (auto simp: row_kept_def)
  let ?t = "if obj_key s' = k then s'\<lparr>s_status := f (s_status s')\<rparr> else s'"
  have "?t \<in> set (store_patch_status k f store)"
    unfolding store_patch_status_def using s'(1) by (auto intro!: image_eqI [of _ _ s'])
  moreover have "obj_key ?t = obj_key s \<and> s_meta ?t = s_meta s \<and> s_spec ?t = s_spec s \<and>
      (obj_key s \<in> K \<or> s_status ?t = s_status s)"
    using s' assms(2) by auto
  ultimately show ?thesis unfolding row_kept_def by blast
qed

lemma patch_carries:
  fixes policy c uid ref store
  assumes dist: "distinct (map obj_key store)" and e: "e \<in> set store" "obj_key e = adopted_key policy c"
    and label: "m_labels (s_meta e) SNAPSHOT_ID_LABEL = Some (ac_snapshot_id c)"
  defines "store' \<equiv> store_patch_status (adopted_key policy c)
    (\<lambda>old. Some (merge_status old (snd (build_adopted_snapshot policy uid c ref)))) store"
  shows "carried policy c store'" and "carried policy c' store \<Longrightarrow> carried policy c' store'"
proof -
  have e': "e\<lparr>s_status := Some (merge_status (s_status e) (snd (build_adopted_snapshot policy uid c ref)))\<rparr> \<in> set store'"
    unfolding store'_def store_patch_status_def using e by (auto intro!: image_eqI [of _ _ e])
  then show *: "carried policy c store'"
    unfolding carried_def by (rule bexI [rotated]) (simp add: patched_carries [OF label] e(2))
  assume "carried policy c' store"
  then obtain t where t: "t \<in> set store" "obj_key t = adopted_key policy c'" "carries c' t" by (auto simp: carried_def)
  show "carried policy c' store'"
  proof (cases "obj_key t = adopted_key policy c")
    case True
    then have "t = e" using t(1) e dist by (auto simp: distinct_map inj_on_def)
    then have "ac_snapshot_id c' = ac_snapshot_id c" using t(3) label by (simp add: carries_def)
    then show ?thesis using * t(2) True by (auto simp: carried_def intro: carries_same_id)
  next
    case False
    then have "t \<in> set store'" unfolding store'_def by (rule store_patch_status_keeps [OF t(1)])
    then show ?thesis using t by (auto simp: carried_def)
  qed
qed

lemma delete_carried:
  assumes "carried policy c' store" and "adopted_key policy c' \<noteq> k"
  shows "carried policy c' (store_delete now k store)"
  using assms store_delete_keeps [of _ store k now] unfolding carried_def by metis

lemma delete_row:
  assumes "row_kept K s store" and "obj_key s \<noteq> k"
  shows "row_kept K s (store_delete now k store)"
  using assms store_delete_keeps [of _ store k now] unfolding row_kept_def by metis

lemma settle_loses_nothing:
  assumes I: "nothing_lost policy cs before store" and c: "c \<in> set cs"
    and apart: "\<forall>c \<in> set cs. \<forall>c' \<in> set cs. discovered_key_of c \<noteq> adopted_key policy c'"
    and e: "e \<in> set store" "obj_key e = adopted_key policy c"
      "m_labels (s_meta e) SNAPSHOT_ID_LABEL = Some (ac_snapshot_id c)"
  shows "nothing_lost policy cs before
    (snd (settle_adoption w c (adopted_key policy c) (snd (build_adopted_snapshot policy uid c ref)) store))"
proof -
  let ?K = "adopted_key policy ` set cs"
  define store1 where "store1 = store_patch_status (adopted_key policy c)
    (\<lambda>old. Some (merge_status old (snd (build_adopted_snapshot policy uid c ref)))) store"
  have dist: "distinct (map obj_key store)" using I by (simp add: nothing_lost_def)
  note carries = patch_carries [OF dist e, where uid = uid and ref = ref, folded store1_def]
  have I1: "nothing_lost policy cs before store1"
    unfolding nothing_lost_def
  proof (intro conjI ballI)
    show "distinct (map obj_key store1)" using dist by (simp add: store1_def)
    fix s assume "s \<in> set before"
    then show "row_kept ?K s store1 \<or> (\<exists>c\<in>set cs. obj_key s = discovered_key_of c \<and> carried policy c store1)"
      using I c patch_keeps_rows [of ?K s store "adopted_key policy c"] carries(2)
      unfolding nothing_lost_def store1_def by blast
  qed
  have "nothing_lost policy cs before (store_delete (aw_now w) (discovered_key_of c) store1)"
    unfolding nothing_lost_def
  proof (intro conjI ballI)
    show "distinct (map obj_key (store_delete (aw_now w) (discovered_key_of c) store1))"
      using I1 by (simp add: nothing_lost_def keys_delete)
    fix s assume s: "s \<in> set before"
    have del: "carried policy c' (store_delete (aw_now w) (discovered_key_of c) store1)"
      if "carried policy c' store1" "c' \<in> set cs" for c'
      using delete_carried [OF that(1)] apart c that(2) by metis
    show "row_kept ?K s (store_delete (aw_now w) (discovered_key_of c) store1) \<or>
        (\<exists>c'\<in>set cs. obj_key s = discovered_key_of c' \<and>
           carried policy c' (store_delete (aw_now w) (discovered_key_of c) store1))"
      using I1 s del [OF carries(1) c] del c delete_row [of ?K s store1 "discovered_key_of c" "aw_now w"]
      unfolding nothing_lost_def by metis
  qed
  then show ?thesis using I I1 by (simp add: settle_adoption_def Let_def store1_def [symmetric])
qed

lemma adopt_one_loses_nothing:
  assumes I: "nothing_lost policy cs before store" and c: "c \<in> set cs"
    and apart: "\<forall>c \<in> set cs. \<forall>c' \<in> set cs. discovered_key_of c \<noteq> adopted_key policy c'"
  shows "nothing_lost policy cs before (snd (adopt_one w policy uid ref c store))"
proof -
  let ?b = "fst (build_adopted_snapshot policy uid c ref)" and ?k = "adopted_key policy c"
  have created: "nothing_lost policy cs before
      (snd (settle_adoption w c ?k (snd (build_adopted_snapshot policy uid c ref)) (store @ [?b])))"
    if "live_row ?k store = None"
  proof (rule settle_loses_nothing [OF _ c apart, where e = ?b])
    show "nothing_lost policy cs before (store @ [?b])"
      using I live_row_None [OF that] unfolding nothing_lost_def row_kept_def carried_def
      by (simp add: built_key) blast
  qed (simp_all add: built_key built_label)
  have found: "nothing_lost policy cs before
      (snd (settle_adoption w c ?k (snd (build_adopted_snapshot policy uid c ref)) store))"
    if "live_row ?k store = Some e" "adopted_row_matches_candidate e (ac_snapshot_id c)" for e
    using live_row_Some [OF that(1)] that(2)
    by (intro settle_loses_nothing [OF I c apart, of e]) (auto simp: adopted_row_matches_candidate_def)
  show ?thesis
    using I created found
    by (auto simp: adopt_one_def Let_def case_prod_beta built_key split: option.splits)
qed

lemma execute_loses_nothing:
  assumes "nothing_lost policy cs before store" and "set ds \<subseteq> set cs"
    and "\<forall>c \<in> set cs. \<forall>c' \<in> set cs. discovered_key_of c \<noteq> adopted_key policy c'"
  shows "nothing_lost policy cs before (snd (execute_adoptions w policy uid ref ds cnt store))"
  using assms(1,2)
proof (induction ds arbitrary: cnt store)
  case (Cons d ds)
  have step: "nothing_lost policy cs before (snd (adopt_one w policy uid ref d store))"
    using Cons.prems by (intro adopt_one_loses_nothing [OF _ _ assms(3)]) auto
  then show ?case
    using Cons.prems Cons.IH [of store] Cons.IH [of "snd (adopt_one w policy uid ref d store)"]
    by (auto split: sum.splits bool.splits prod.splits)
qed simp

text \<open>
  C9: an interrupted adoption loses no restore point. Whatever requests fail, after carrying out
  any list of adoptions every Snapshot that was there is still there with its metadata and spec,
  and its status too unless it is one of the adopted rows, or it was the discovered row of a
  candidate and the adopted row under the policy's name for it is there, labelled with the
  candidate's id, succeeded and recording it.
\<close>

theorem adoption_loses_no_restore_point:
  assumes "distinct (map obj_key store)"
    and "\<forall>c \<in> set cs. \<forall>c' \<in> set cs. discovered_key_of c \<noteq> adopted_key policy c'"
    and "s \<in> set store"
  shows "row_kept (adopted_key policy ` set cs) s (snd (execute_adoptions w policy repo_uid repo_ref cs 0 store)) \<or>
    (\<exists>c \<in> set cs. obj_key s = discovered_key_of c \<and>
       carried policy c (snd (execute_adoptions w policy repo_uid repo_ref cs 0 store)))"
proof -
  have "nothing_lost policy cs store store"
    using assms(1) unfolding nothing_lost_def row_kept_def by blast
  from execute_loses_nothing [OF this subset_refl assms(2)] assms(3) show ?thesis
    unfolding nothing_lost_def by blast
qed

definition calm_world :: adoption_world where
  "calm_world = \<lparr>aw_now = 100, aw_get_fails = (\<lambda>_. False), aw_create_fails = (\<lambda>_. False), aw_vanished = (\<lambda>_. False),
     aw_patch_fails = (\<lambda>_. False), aw_delete_fails = (\<lambda>_. False), aw_cache = None, aw_list_fails = (\<lambda>_. False),
     aw_scan_request_fails = (\<lambda>_. False), aw_status_patch_fails = False\<rparr>"

theorem adoption_loses_no_restore_point_witness:
  "row_kept (adopted_key (policy_ex []) ` set [cand_ex]) (disc_ex ''k1'' 10)
      (snd (execute_adoptions calm_world (policy_ex []) ''u1'' nas_ref [cand_ex] 0 [disc_ex ''k1'' 10])) \<or>
   (\<exists>c \<in> set [cand_ex]. obj_key (disc_ex ''k1'' 10) = discovered_key_of c \<and>
      carried (policy_ex []) c
        (snd (execute_adoptions calm_world (policy_ex []) ''u1'' nas_ref [cand_ex] 0 [disc_ex ''k1'' 10])))"
  by (rule adoption_loses_no_restore_point)
    (simp_all add: adopted_key_def cand_ex_def policy_ex_def policy_namespace_def)

subsection \<open>Two limits of the occupant check\<close>

text \<open>
  A stranger under the adopted name is left alone, but the adoption is counted all the same, so the
  pass reports it and requests another catalog scan, each time.
\<close>

theorem occupied_name_is_counted_as_adopted:
  assumes "live_row (discovered_key_of c) store = Some d" and "m_deletion_timestamp (s_meta d) = None"
    and "live_row (adopted_key policy c) store = Some e" and "\<not> adopted_row_matches_candidate e (ac_snapshot_id c)"
    and "\<not> aw_get_fails w (discovered_key_of c)" and "\<not> aw_get_fails w (adopted_key policy c)"
    and "\<not> aw_create_fails w (adopted_key policy c)"
  shows "execute_adoptions w policy uid ref [c] cnt store = (Inr (cnt + 1), store)"
  using assms by (simp add: confirm_row_live_def live_row_actionable_def adopt_one_def Let_def case_prod_beta built_key)

text \<open>
  The check does not compare the repository. A copy of the same kopia snapshot discovered in a
  second repository of the policy (a seeded or synchronised one) finds the first one's adopted row,
  takes its status over, and loses its own discovered row.
\<close>

theorem second_repository_takes_the_row_over:
  fixes policy uid ref c uid' ref' c'
  defines "e \<equiv> fst (build_adopted_snapshot policy uid c ref)"
  assumes "ac_snapshot_id c' = ac_snapshot_id c"
    and "live_row (adopted_key policy c) store = Some (e\<lparr>s_status := st\<rparr>)"
    and "discovered_key_of c' \<noteq> adopted_key policy c"
    and calm: "\<not> aw_get_fails w (adopted_key policy c)" "\<not> aw_create_fails w (adopted_key policy c)"
      "\<not> aw_vanished w (adopted_key policy c)" "\<not> aw_patch_fails w (adopted_key policy c)"
      "\<not> aw_delete_fails w (discovered_key_of c')"
  shows "gone (discovered_key_of c') (snd (adopt_one w policy uid' ref' c' store))"
    and "\<exists>t \<in> set (snd (adopt_one w policy uid' ref' c' store)).
      obj_key t = adopted_key policy c \<and> m_labels (s_meta t) REPOSITORY_UID_LABEL = Some uid \<and>
      Option.bind (s_status t) ss_resolved_repository = Some (pinned_repository_ref ref' (policy_namespace policy))"
proof -
  let ?status = "snd (build_adopted_snapshot policy uid' c' ref')"
  have k: "adopted_key policy c' = adopted_key policy c" using assms(2) by (simp add: adopted_key_def)
  have "adopted_row_matches_candidate (e\<lparr>s_status := st\<rparr>) (ac_snapshot_id c')"
    using assms(2) by (simp add: adopted_row_matches_candidate_def e_def build_adopted_snapshot_def child_meta_def Let_def
        ORIGIN_LABEL_def SNAPSHOT_ID_LABEL_def REPOSITORY_UID_LABEL_def CONFIG_LABEL_def)
  then have eq: "snd (adopt_one w policy uid' ref' c' store) = store_delete (aw_now w) (discovered_key_of c')
      (store_patch_status (adopted_key policy c) (\<lambda>old. Some (merge_status old ?status)) store)"
    using assms(3) calm by (simp add: adopt_one_def settle_adoption_def Let_def case_prod_beta built_key k)
  show "gone (discovered_key_of c') (snd (adopt_one w policy uid' ref' c' store))"
    unfolding eq by (rule store_delete_gone) simp
  let ?t = "e\<lparr>s_status := Some (merge_status st ?status)\<rparr>"
  have key: "obj_key e = adopted_key policy c" by (simp add: e_def built_key)
  then have "?t \<in> set (store_patch_status (adopted_key policy c) (\<lambda>old. Some (merge_status old ?status)) store)"
    using live_row_Some [OF assms(3)] unfolding store_patch_status_def
    by (auto intro!: image_eqI [of _ _ "e\<lparr>s_status := st\<rparr>"])
  then have "?t \<in> set (snd (adopt_one w policy uid' ref' c' store))"
    unfolding eq by (rule store_delete_keeps) (use key assms(4) in simp)
  moreover have "m_labels (s_meta ?t) REPOSITORY_UID_LABEL = Some uid"
    by (simp add: e_def build_adopted_snapshot_def child_meta_def Let_def)
  moreover have "ss_resolved_repository (merge_status st ?status) = Some (pinned_repository_ref ref' (policy_namespace policy))"
    by (simp add: merge_status_fields build_adopted_snapshot_def Let_def)
  ultimately show "\<exists>t \<in> set (snd (adopt_one w policy uid' ref' c' store)).
      obj_key t = adopted_key policy c \<and> m_labels (s_meta t) REPOSITORY_UID_LABEL = Some uid \<and>
      Option.bind (s_status t) ss_resolved_repository = Some (pinned_repository_ref ref' (policy_namespace policy))"
    using key by (intro bexI [of _ ?t]) simp_all
qed

text \<open>A pass whose every matching candidate is withheld asks for no scan: the cycle ends.\<close>

lemma withheld_pass_requests_no_scan:
  assumes "ap_adopt (plan_adoption rfc3339 cal Adopt ident cluster cands history gate) = []"
    and "c \<in> set cands" and "identities_match ident (ac_identity c)"
    and "\<not> is_foreign_cluster (ri_hostname (ac_identity c)) cluster"
  shows "\<not> ap_request_scan (plan_adoption rfc3339 cal Adopt ident cluster cands history gate)"
  using assms by (auto simp: plan_adoption_def Let_def filter_empty_conv split: prod.splits)

end
