(* ===== verification/Health.thy ===== *)
theory Health
  imports Catalog
begin

text \<open>
  Repository health (\<open>crates/controller/src/health.rs\<close>, \<open>io/finalizer.rs\<close>, \<open>io/events.rs\<close>): the
  conditions of a repository, the index-blob warning, the gate that decides whether a bootstrap may
  create a kopia repository, the backend probe, the circuit breaker with its retry backoff and
  deadline escalation, and the classes and routes of a failed bootstrap. Also the decision a mover
  takes after its first connect (\<open>crates/mover/src/bootstrap.rs\<close>). Condition messages and events are
  left out; RFC 3339 is the parameter \<open>rfc3339\<close>.
\<close>

subsection \<open>Conditions\<close>

record condition =
  c_type :: string
  c_status :: string
  c_reason :: string
  c_last_transition_time :: datetime
  c_observed_generation :: "int option"

definition condition_of :: "string \<Rightarrow> condition list \<Rightarrow> condition option" where
  "condition_of t cs = List.find (\<lambda>c. c_type c = t) cs"

fun set_condition :: "condition \<Rightarrow> condition list \<Rightarrow> condition list" where
  "set_condition c [] = [c]"
| "set_condition c (d # ds) = (if c_type d = c_type c then c # ds else d # set_condition c ds)"

definition upsert_condition_status ::
    "datetime \<Rightarrow> condition list \<Rightarrow> string \<Rightarrow> string \<Rightarrow> string \<Rightarrow> int option \<Rightarrow> condition list" where
  "upsert_condition_status now existing t status reason gen =
     (let time = (case condition_of t existing of
            Some c \<Rightarrow> if c_status c = status then c_last_transition_time c else now
          | None \<Rightarrow> now)
      in set_condition \<lparr>c_type = t, c_status = status, c_reason = reason,
           c_last_transition_time = time, c_observed_generation = gen\<rparr> existing)"

definition upsert_condition ::
    "datetime \<Rightarrow> condition list \<Rightarrow> string \<Rightarrow> bool \<Rightarrow> string \<Rightarrow> int option \<Rightarrow> condition list" where
  "upsert_condition now existing t status reason gen =
     upsert_condition_status now existing t (if status then ''True'' else ''False'') reason gen"

definition READY_CONDITION :: string where "READY_CONDITION = ''Ready''"
definition RECONCILING_CONDITION :: string where "RECONCILING_CONDITION = ''Reconciling''"
definition STALLED_CONDITION :: string where "STALLED_CONDITION = ''Stalled''"

definition set_ready ::
    "datetime \<Rightarrow> condition list \<Rightarrow> int option \<Rightarrow> ready_outcome \<Rightarrow> string \<Rightarrow> condition list" where
  "set_ready now existing gen outcome reason =
     (let (ready, reconciling, stalled) = (case outcome of
            Ready \<Rightarrow> (True, False, False)
          | Reconciling \<Rightarrow> (False, True, False)
          | Stalled \<Rightarrow> (False, False, True));
          conds = upsert_condition now existing READY_CONDITION ready reason gen;
          conds = upsert_condition now conds RECONCILING_CONDITION reconciling
            (if reconciling then reason else ''Settled'') gen
      in upsert_condition now conds STALLED_CONDITION stalled (if stalled then reason else ''NotStalled'') gen)"

datatype repository_phase =
  RP_Pending | RP_Initializing | RP_Ready | RP_Degraded | RP_Failed | RP_Unknown string

definition ready_outcome_for_phase :: "repository_phase \<Rightarrow> ready_outcome" where
  "ready_outcome_for_phase phase = (case phase of
     RP_Ready \<Rightarrow> Ready
   | RP_Pending \<Rightarrow> Reconciling | RP_Initializing \<Rightarrow> Reconciling | RP_Degraded \<Rightarrow> Reconciling
   | RP_Failed \<Rightarrow> Stalled
   | RP_Unknown _ \<Rightarrow> Reconciling)"

subsection \<open>Index blobs\<close>

definition INDEX_BLOB_HEALTH_CONDITION :: string where
  "INDEX_BLOB_HEALTH_CONDITION = ''IndexBlobHealth''"

definition TOO_MANY_INDEX_BLOBS_REASON :: string where
  "TOO_MANY_INDEX_BLOBS_REASON = ''TooManyIndexBlobs''"

definition INDEX_BLOBS_HEALTHY_REASON :: string where
  "INDEX_BLOBS_HEALTHY_REASON = ''Healthy''"

datatype index_blob_health = IB_Healthy | IB_TooMany int int

definition classify_index_blob_health :: "int \<Rightarrow> int \<Rightarrow> index_blob_health" where
  "classify_index_blob_health n threshold =
     (if 0 < threshold \<and> threshold < n then IB_TooMany n threshold else IB_Healthy)"

record index_blob_observation =
  io_count :: int
  io_observed_at :: "string option"

definition newest_index_blob_observation ::
    "(string \<Rightarrow> datetime option) \<Rightarrow> (int \<times> string option) option \<Rightarrow> (int \<times> string) option \<Rightarrow>
     index_blob_observation option" where
  "newest_index_blob_observation rfc3339 repo maint =
     (let from_maint = (\<lambda>m. \<lparr>io_count = fst m, io_observed_at = Some (snd m)\<rparr>);
          from_repo = (\<lambda>r. \<lparr>io_count = fst r, io_observed_at = snd r\<rparr>)
      in case (repo, maint) of
           (None, None) \<Rightarrow> None
         | (None, Some m) \<Rightarrow> Some (from_maint m)
         | (Some r, None) \<Rightarrow> Some (from_repo r)
         | (Some r, Some m) \<Rightarrow>
             (let newer = (case (Option.bind (snd r) rfc3339, rfc3339 (snd m)) of
                    (Some repo_at, Some maint_at) \<Rightarrow> repo_at < maint_at
                  | (None, Some _) \<Rightarrow> True
                  | (_, None) \<Rightarrow> False)
              in Some (if newer then from_maint m else from_repo r)))"

record storage_stats =
  st_snapshot_count :: "int option"
  st_index_blob_count :: "int option"
  st_index_blob_count_at :: "string option"

definition prior_index_blob_observation :: "storage_stats option \<Rightarrow> (int \<times> string option) option" where
  "prior_index_blob_observation stats =
     Option.bind stats (\<lambda>s. map_option (\<lambda>n. (n, st_index_blob_count_at s)) (st_index_blob_count s))"

definition index_blob_count_stamp :: "int option \<Rightarrow> string option \<Rightarrow> int \<Rightarrow> string \<Rightarrow> string" where
  "index_blob_count_stamp prior_count prior_at n observed_at =
     (case (prior_count, prior_at) of
        (Some prior, Some at) \<Rightarrow> if prior = n then at else observed_at
      | _ \<Rightarrow> observed_at)"

text \<open>The conditions after the fold, and whether the Warning event fires.\<close>

definition reconcile_index_blob_health ::
    "datetime \<Rightarrow> condition list \<Rightarrow> int \<Rightarrow> int \<Rightarrow> int option \<Rightarrow> condition list \<times> bool" where
  "reconcile_index_blob_health now existing n threshold gen =
     (let prior_unhealthy = is_some_and (\<lambda>c. c_status c = ''False'')
            (condition_of INDEX_BLOB_HEALTH_CONDITION existing)
      in case classify_index_blob_health n threshold of
           IB_TooMany _ _ \<Rightarrow>
             (upsert_condition now existing INDEX_BLOB_HEALTH_CONDITION False TOO_MANY_INDEX_BLOBS_REASON gen,
              \<not> prior_unhealthy)
         | IB_Healthy \<Rightarrow>
             (upsert_condition now existing INDEX_BLOB_HEALTH_CONDITION True INDEX_BLOBS_HEALTHY_REASON gen, False))"

record index_blob_recount_fold =
  ir_conditions :: "condition list"
  ir_event :: bool
  ir_storage_stats :: "index_blob_observation option"

definition fold_index_blob_recount ::
    "(string \<Rightarrow> datetime option) \<Rightarrow> datetime \<Rightarrow> condition list \<Rightarrow> storage_stats option \<Rightarrow> (int \<times> string) option \<Rightarrow>
     int \<Rightarrow> int option \<Rightarrow> index_blob_recount_fold" where
  "fold_index_blob_recount rfc3339 now existing stats recount threshold gen =
     (case newest_index_blob_observation rfc3339 (prior_index_blob_observation stats) recount of
        None \<Rightarrow> \<lparr>ir_conditions = existing, ir_event = False, ir_storage_stats = None\<rparr>
      | Some observation \<Rightarrow>
          (let (conds, event) = reconcile_index_blob_health now existing (io_count observation) threshold gen
           in \<lparr>ir_conditions = conds, ir_event = event, ir_storage_stats = Some observation\<rparr>))"

text \<open>
  The merge of a \<open>storageStats\<close> patch: the count, and the stamp when there is one; everything else
  survives.
\<close>

definition merge_index_blobs :: "index_blob_observation option \<Rightarrow> storage_stats option \<Rightarrow> storage_stats option" where
  "merge_index_blobs patch stats =
     (case patch of
        None \<Rightarrow> stats
      | Some o' \<Rightarrow>
          (let s = unwrap_or stats \<lparr>st_snapshot_count = None, st_index_blob_count = None, st_index_blob_count_at = None\<rparr>
           in Some (s\<lparr>st_index_blob_count := Some (io_count o'),
                st_index_blob_count_at := or_else (io_observed_at o') (st_index_blob_count_at s)\<rparr>)))"

subsection \<open>Who may create a repository\<close>

datatype create_gate = CG_Allowed bool | CG_DisabledBySpec bool | CG_PinnedOnceReady

datatype create_block = CB_SpecDisabled | CB_OnceReadyPinned bool

record effective_create =
  ec_allowed :: bool
  ec_block :: "create_block option"
  ec_via_reinit_ack :: bool

text \<open>\<open>Option::filter(|s| !s.is_empty())\<close>.\<close>

definition non_empty :: "string option \<Rightarrow> string option" where
  "non_empty s = (case s of Some x \<Rightarrow> if x = [] then None else Some x | None \<Rightarrow> None)"

definition ack_valid :: "string option \<Rightarrow> string option \<Rightarrow> bool" where
  "ack_valid unique_id reinit_ack =
     (case (non_empty unique_id, non_empty reinit_ack) of (Some i, Some ack) \<Rightarrow> i = ack | _ \<Rightarrow> False)"

definition create_gate :: "bool \<Rightarrow> string option \<Rightarrow> string option \<Rightarrow> create_gate" where
  "create_gate spec_create_enabled unique_id reinit_ack =
     (case (spec_create_enabled, non_empty unique_id, ack_valid unique_id reinit_ack) of
        (False, pinned, _) \<Rightarrow> CG_DisabledBySpec (pinned \<noteq> None)
      | (True, None, _) \<Rightarrow> CG_Allowed False
      | (True, Some _, True) \<Rightarrow> CG_Allowed True
      | (True, Some _, False) \<Rightarrow> CG_PinnedOnceReady)"

definition effective_create :: "create_gate \<Rightarrow> bool \<Rightarrow> effective_create" where
  "effective_create gate reinit_requested =
     (let allow = (\<lambda>allowed block. \<lparr>ec_allowed = allowed, ec_block = block, ec_via_reinit_ack = False\<rparr>)
      in case gate of
           CG_Allowed False \<Rightarrow> allow True None
         | CG_Allowed True \<Rightarrow>
             if reinit_requested then \<lparr>ec_allowed = True, ec_block = None, ec_via_reinit_ack = True\<rparr>
             else allow False (Some (CB_OnceReadyPinned False))
         | CG_DisabledBySpec False \<Rightarrow> allow False (Some CB_SpecDisabled)
         | CG_DisabledBySpec True \<Rightarrow> allow False (Some (CB_OnceReadyPinned True))
         | CG_PinnedOnceReady \<Rightarrow> allow False (Some (CB_OnceReadyPinned False)))"

definition valid_reinit_ack :: "create_gate \<Rightarrow> string option \<Rightarrow> string option" where
  "valid_reinit_ack gate pinned_unique_id =
     (case gate of CG_Allowed True \<Rightarrow> pinned_unique_id | _ \<Rightarrow> None)"

definition reinit_ack_mismatched :: "string option \<Rightarrow> string option \<Rightarrow> bool" where
  "reinit_ack_mismatched unique_id reinit_ack =
     (case (non_empty unique_id, non_empty reinit_ack) of (Some i, Some ack) \<Rightarrow> i \<noteq> ack | _ \<Rightarrow> False)"

definition report_reinit_ack_mismatch :: "bool \<Rightarrow> string option \<Rightarrow> string option \<Rightarrow> bool" where
  "report_reinit_ack_mismatch phase_is_ready unique_id reinit_ack \<longleftrightarrow>
     \<not> phase_is_ready \<and> reinit_ack_mismatched unique_id reinit_ack"

definition REPOSITORY_BOOTSTRAPPED_CONDITION :: string where
  "REPOSITORY_BOOTSTRAPPED_CONDITION = ''Bootstrapped''"

definition BACKEND_REACHABLE_CONDITION :: string where
  "BACKEND_REACHABLE_CONDITION = ''BackendReachable''"

definition REPOSITORY_REINITIALIZE_BLOCKED_REASON :: string where
  "REPOSITORY_REINITIALIZE_BLOCKED_REASON = ''RepositoryReinitializeBlocked''"

definition REPOSITORY_VANISHED_REASON :: string where
  "REPOSITORY_VANISHED_REASON = ''RepositoryVanished''"

datatype reinit_ack_arming = RA_Armed | RA_Dormant string

definition reason_of :: "string \<Rightarrow> condition list \<Rightarrow> string option" where
  "reason_of t cs = map_option c_reason (condition_of t cs)"

definition reinit_ack_arming :: "condition list \<Rightarrow> reinit_ack_arming" where
  "reinit_ack_arming conditions =
     (let blocked = (\<lambda>t. reason_of t conditions = Some REPOSITORY_REINITIALIZE_BLOCKED_REASON)
      in if blocked READY_CONDITION \<or> blocked REPOSITORY_BOOTSTRAPPED_CONDITION \<or>
            reason_of BACKEND_REACHABLE_CONDITION conditions = Some REPOSITORY_VANISHED_REASON
         then RA_Armed
         else RA_Dormant (unwrap_or (non_empty (reason_of READY_CONDITION conditions)) ''none''))"

definition reinit_requested :: "bool \<Rightarrow> bool \<Rightarrow> reinit_ack_arming \<Rightarrow> bool" where
  "reinit_requested phase_is_ready ack_ok arming \<longleftrightarrow>
     \<not> phase_is_ready \<and> ack_ok \<and> (case arming of RA_Armed \<Rightarrow> True | RA_Dormant _ \<Rightarrow> False)"

definition report_reinit_ack_dormant ::
    "bool \<Rightarrow> string option \<Rightarrow> string option \<Rightarrow> reinit_ack_arming \<Rightarrow> string option" where
  "report_reinit_ack_dormant phase_is_ready unique_id reinit_ack arming =
     (if phase_is_ready \<or> \<not> ack_valid unique_id reinit_ack then None
      else case arming of RA_Armed \<Rightarrow> None | RA_Dormant reason \<Rightarrow> Some reason)"

subsection \<open>What the mover does after its first connect\<close>

datatype kopia_error_class =
  KE_RepositoryUnavailable | KE_AuthFailure | KE_AccessDenied | KE_PermissionDenied | KE_NotFound |
  KE_Locked | KE_SourceError | KE_Unknown

definition class_as_str :: "kopia_error_class \<Rightarrow> string" where
  "class_as_str c = (case c of
     KE_RepositoryUnavailable \<Rightarrow> ''RepositoryUnavailable'' | KE_AuthFailure \<Rightarrow> ''AuthFailure''
   | KE_AccessDenied \<Rightarrow> ''AccessDenied'' | KE_PermissionDenied \<Rightarrow> ''PermissionDenied''
   | KE_NotFound \<Rightarrow> ''NotFound'' | KE_Locked \<Rightarrow> ''Locked'' | KE_SourceError \<Rightarrow> ''SourceError''
   | KE_Unknown \<Rightarrow> ''Unknown'')"

definition class_from_label :: "string \<Rightarrow> kopia_error_class" where
  "class_from_label s =
     (if s = ''RepositoryUnavailable'' then KE_RepositoryUnavailable
      else if s = ''AuthFailure'' then KE_AuthFailure
      else if s = ''AccessDenied'' then KE_AccessDenied
      else if s = ''PermissionDenied'' then KE_PermissionDenied
      else if s = ''NotFound'' then KE_NotFound
      else if s = ''Locked'' then KE_Locked
      else if s = ''SourceError'' then KE_SourceError
      else KE_Unknown)"

datatype create_grant = Grant_Denied | Grant_Enabled | Grant_ReinitAck

definition grant_from_flags :: "bool \<Rightarrow> bool \<Rightarrow> create_grant" where
  "grant_from_flags auto_create via_reinit_ack =
     (if \<not> auto_create then Grant_Denied else if via_reinit_ack then Grant_ReinitAck else Grant_Enabled)"

definition effective_grant :: "effective_create \<Rightarrow> create_grant" where
  "effective_grant e = grant_from_flags (ec_allowed e) (ec_via_reinit_ack e)"

datatype bootstrap_init_action = BI_Proceed | BI_Fail | BI_Create | BI_Seed

definition create_or_fail :: "create_grant \<Rightarrow> bool \<Rightarrow> bootstrap_init_action" where
  "create_or_fail grant proven_empty = (case grant of
     Grant_Enabled \<Rightarrow> BI_Create
   | Grant_ReinitAck \<Rightarrow> if proven_empty then BI_Create else BI_Fail
   | Grant_Denied \<Rightarrow> BI_Fail)"

definition bootstrap_init_action ::
    "bool \<Rightarrow> bool \<Rightarrow> create_grant \<Rightarrow> kopia_error_class option \<Rightarrow> bool \<Rightarrow> bootstrap_init_action" where
  "bootstrap_init_action seed_armed resume grant connect_class uninitialized =
     (case connect_class of
        None \<Rightarrow> if seed_armed \<and> resume then BI_Seed else BI_Proceed
      | Some class \<Rightarrow>
          if class \<in> {KE_AuthFailure, KE_Locked, KE_AccessDenied, KE_PermissionDenied} then BI_Fail
          else if class = KE_NotFound then
            if seed_armed then if uninitialized then BI_Seed else BI_Fail
            else create_or_fail grant uninitialized
          else if seed_armed then BI_Fail
          else create_or_fail grant False)"

definition should_attempt_create :: "create_grant \<Rightarrow> kopia_error_class \<Rightarrow> bool \<Rightarrow> bool" where
  "should_attempt_create grant class uninitialized \<longleftrightarrow>
     bootstrap_init_action False False grant (Some class) uninitialized = BI_Create"

subsection \<open>Failed bootstraps\<close>

datatype seed_failure = SF_SourceNotFound | SF_SourceEmpty | SF_Incomplete | SF_LeftEmpty

definition seed_failure_reason :: "seed_failure \<Rightarrow> string" where
  "seed_failure_reason f = (case f of
     SF_SourceNotFound \<Rightarrow> ''SeedSourceNotFound'' | SF_SourceEmpty \<Rightarrow> ''SeedSourceEmpty''
   | SF_Incomplete \<Rightarrow> ''SeedIncomplete'' | SF_LeftEmpty \<Rightarrow> ''SeedLeftEmpty'')"

definition seed_failure_from_class :: "string \<Rightarrow> seed_failure option" where
  "seed_failure_from_class s =
     List.find (\<lambda>f. seed_failure_reason f = s) [SF_SourceNotFound, SF_SourceEmpty, SF_Incomplete, SF_LeftEmpty]"

datatype bootstrap_failure =
  BF_Backend kopia_error_class | BF_JobFailedWithoutResult | BF_JobDeadlineExceeded int |
  BF_RepositoryNotInitialized | BF_RepositoryReinitializeBlocked | BF_Seed seed_failure |
  BF_SeedMoverTooOld | BF_InternalInconsistency

definition BOOTSTRAP_DEADLINE_EXCEEDED_REASON :: string where
  "BOOTSTRAP_DEADLINE_EXCEEDED_REASON = ''BootstrapDeadlineExceeded''"

definition failure_reason :: "bootstrap_failure \<Rightarrow> string" where
  "failure_reason f = (case f of
     BF_Backend class \<Rightarrow> class_as_str class
   | BF_JobFailedWithoutResult \<Rightarrow> ''BootstrapJobFailed''
   | BF_JobDeadlineExceeded _ \<Rightarrow> BOOTSTRAP_DEADLINE_EXCEEDED_REASON
   | BF_RepositoryNotInitialized \<Rightarrow> ''RepositoryNotInitialized''
   | BF_RepositoryReinitializeBlocked \<Rightarrow> REPOSITORY_REINITIALIZE_BLOCKED_REASON
   | BF_Seed failure \<Rightarrow> seed_failure_reason failure
   | BF_SeedMoverTooOld \<Rightarrow> ''MoverImageTooOldForSeed''
   | BF_InternalInconsistency \<Rightarrow> ''BootstrapInternalInconsistency'')"

definition failure_seed_reason :: "bootstrap_failure \<Rightarrow> string option" where
  "failure_seed_reason f = (case f of
     BF_Seed failure \<Rightarrow> Some (seed_failure_reason failure)
   | BF_SeedMoverTooOld \<Rightarrow> Some ''MoverImageTooOldForSeed''
   | _ \<Rightarrow> None)"

definition is_repository_absent :: "bootstrap_failure \<Rightarrow> bool" where
  "is_repository_absent f \<longleftrightarrow> f = BF_RepositoryNotInitialized \<or> f = BF_RepositoryReinitializeBlocked"

definition recycles_for_retry :: "bootstrap_failure \<Rightarrow> bool" where
  "recycles_for_retry f = (case f of
     BF_JobFailedWithoutResult \<Rightarrow> True | BF_JobDeadlineExceeded _ \<Rightarrow> True | BF_Seed _ \<Rightarrow> True | _ \<Rightarrow> False)"

definition retryable_outage_for_bootstrapped :: "bootstrap_failure \<Rightarrow> bool \<Rightarrow> bool" where
  "retryable_outage_for_bootstrapped f bootstrapped = (case f of
     BF_Backend class \<Rightarrow> bootstrapped \<and> class = KE_RepositoryUnavailable
   | BF_JobDeadlineExceeded _ \<Rightarrow> bootstrapped
   | _ \<Rightarrow> False)"

datatype failure_route = FR_OutageSensor | FR_Recycle | FR_SeedRetry | FR_Terminal

definition failure_route :: "bootstrap_failure \<Rightarrow> bool \<Rightarrow> failure_route" where
  "failure_route f bootstrapped =
     (if retryable_outage_for_bootstrapped f bootstrapped then FR_OutageSensor
      else if (case f of BF_Seed _ \<Rightarrow> True | _ \<Rightarrow> False) then FR_SeedRetry
      else if recycles_for_retry f then FR_Recycle
      else FR_Terminal)"

subsection \<open>The backend probe\<close>

definition health_probe_due ::
    "(string \<Rightarrow> datetime option) \<Rightarrow> bool \<Rightarrow> bool \<Rightarrow> string option \<Rightarrow> duration \<Rightarrow> datetime \<Rightarrow> bool" where
  "health_probe_due rfc3339 bootstrapped_before enabled last_probe_at interval now \<longleftrightarrow>
     enabled \<and> bootstrapped_before \<and> refresh_due rfc3339 last_probe_at interval now"

definition PROBE_ATTEMPT_GRACE_SECS :: int where
  "PROBE_ATTEMPT_GRACE_SECS = 60"

definition BOOTSTRAP_JOB_DEADLINE_SECS :: int where
  "BOOTSTRAP_JOB_DEADLINE_SECS = 120"

definition bootstrap_deadline_seconds :: "int option \<Rightarrow> int" where
  "bootstrap_deadline_seconds active_deadline_seconds = unwrap_or active_deadline_seconds BOOTSTRAP_JOB_DEADLINE_SECS"

definition probe_attempt_timeout :: "int \<Rightarrow> duration" where
  "probe_attempt_timeout active_deadline_seconds =
     duration_from_secs (nat (max 1 (saturating_add_i64 active_deadline_seconds PROBE_ATTEMPT_GRACE_SECS)))"

definition probe_attempt_pending ::
    "(string \<Rightarrow> datetime option) \<Rightarrow> string option \<Rightarrow> duration \<Rightarrow> datetime \<Rightarrow> bool" where
  "probe_attempt_pending rfc3339 attempt_at timeout now =
     (case attempt_at of
        None \<Rightarrow> False
      | Some raw \<Rightarrow>
          (case rfc3339 raw of
             None \<Rightarrow> False
           | Some started \<Rightarrow>
               (case chrono_from_std timeout of None \<Rightarrow> False | Some timeout \<Rightarrow> now < started + timeout)))"

datatype probe_action = PA_Idle | PA_Launch | PA_AwaitingResult

definition probe_launches :: "probe_action \<Rightarrow> bool" where
  "probe_launches p = (case p of PA_Launch \<Rightarrow> True | PA_Idle \<Rightarrow> False | PA_AwaitingResult \<Rightarrow> False)"

definition probe_awaits_result :: "probe_action \<Rightarrow> bool" where
  "probe_awaits_result p = (case p of PA_AwaitingResult \<Rightarrow> True | PA_Idle \<Rightarrow> False | PA_Launch \<Rightarrow> False)"

definition probe_action ::
    "(string \<Rightarrow> datetime option) \<Rightarrow> bool \<Rightarrow> bool \<Rightarrow> bool \<Rightarrow> string option \<Rightarrow> string option \<Rightarrow> duration \<Rightarrow>
     duration \<Rightarrow> datetime \<Rightarrow> probe_action" where
  "probe_action rfc3339 phase_is_ready bootstrapped_before enabled last_probe_at probe_attempt_at interval
       attempt_timeout now =
     (if \<not> (enabled \<and> bootstrapped_before \<and> phase_is_ready) then PA_Idle
      else if probe_attempt_pending rfc3339 probe_attempt_at attempt_timeout now then PA_AwaitingResult
      else if health_probe_due rfc3339 bootstrapped_before enabled last_probe_at interval now then PA_Launch
      else PA_Idle)"

datatype probe_failure_kind = PF_Vanished | PF_Unreachable | PF_TimedOut

definition probe_failure_kind :: "bootstrap_failure \<Rightarrow> probe_failure_kind" where
  "probe_failure_kind f = (case f of
     BF_RepositoryNotInitialized \<Rightarrow> PF_Vanished
   | BF_RepositoryReinitializeBlocked \<Rightarrow> PF_Vanished
   | BF_JobDeadlineExceeded _ \<Rightarrow> PF_TimedOut
   | _ \<Rightarrow> PF_Unreachable)"

record health_status =
  hs_last_probe_at :: "string option"
  hs_last_healthy_at :: "string option"
  hs_consecutive_probe_failures :: "int option"
  hs_first_failure_at :: "string option"
  hs_probe_attempt_at :: "string option"

definition no_health :: health_status where
  "no_health = \<lparr>hs_last_probe_at = None, hs_last_healthy_at = None, hs_consecutive_probe_failures = None,
     hs_first_failure_at = None, hs_probe_attempt_at = None\<rparr>"

record probe_update =
  pu_conditions :: "condition list"
  pu_health :: health_status
  pu_event :: bool

definition BACKEND_REACHABLE_REASON :: string where "BACKEND_REACHABLE_REASON = ''Reachable''"
definition BACKEND_UNREACHABLE_REASON :: string where "BACKEND_UNREACHABLE_REASON = ''BackendUnreachable''"
definition PROBE_DEADLINE_EXCEEDED_REASON :: string where
  "PROBE_DEADLINE_EXCEEDED_REASON = ''ProbeDeadlineExceeded''"

definition reconcile_probe_success ::
    "datetime \<Rightarrow> condition list \<Rightarrow> string \<Rightarrow> int option \<Rightarrow> probe_update" where
  "reconcile_probe_success now existing now_str gen =
     \<lparr>pu_conditions = upsert_condition now existing BACKEND_REACHABLE_CONDITION True BACKEND_REACHABLE_REASON gen,
      pu_health = \<lparr>hs_last_probe_at = Some now_str, hs_last_healthy_at = Some now_str,
        hs_consecutive_probe_failures = None, hs_first_failure_at = None, hs_probe_attempt_at = None\<rparr>,
      pu_event = False\<rparr>"

text \<open>
  The three \<open>status.health\<close> merge patches, applied: an explicit \<open>null\<close> removes a field, a field the
  typed value leaves out is kept.
\<close>

definition probe_success_health_patch :: "string \<Rightarrow> health_status option \<Rightarrow> health_status" where
  "probe_success_health_patch now_str stored =
     (unwrap_or stored no_health)\<lparr>hs_last_probe_at := Some now_str, hs_last_healthy_at := Some now_str,
        hs_consecutive_probe_failures := None, hs_first_failure_at := None, hs_probe_attempt_at := None\<rparr>"

definition probe_failure_health_patch :: "health_status \<Rightarrow> health_status option \<Rightarrow> health_status" where
  "probe_failure_health_patch h stored =
     (let s = unwrap_or stored no_health
      in \<lparr>hs_last_probe_at = or_else (hs_last_probe_at h) (hs_last_probe_at s),
          hs_last_healthy_at = or_else (hs_last_healthy_at h) (hs_last_healthy_at s),
          hs_consecutive_probe_failures =
            or_else (hs_consecutive_probe_failures h) (hs_consecutive_probe_failures s),
          hs_first_failure_at = or_else (hs_first_failure_at h) (hs_first_failure_at s),
          hs_probe_attempt_at = None\<rparr>)"

definition probe_attempt_health_patch :: "string option \<Rightarrow> health_status option \<Rightarrow> health_status" where
  "probe_attempt_health_patch launched_at stored =
     (unwrap_or stored no_health)\<lparr>hs_probe_attempt_at := launched_at\<rparr>"

definition backend_reachable_true :: "condition list \<Rightarrow> bool" where
  "backend_reachable_true conditions =
     is_some_and (\<lambda>c. c_status c = ''True'') (condition_of BACKEND_REACHABLE_CONDITION conditions)"

datatype success_fold_reason = SFR_Probe | SFR_Seed | SFR_Heal

text \<open>Why the fold happens; its patch is \<^const>\<open>probe_success_health_patch\<close>.\<close>

definition success_fold :: "bool \<Rightarrow> health_status option \<Rightarrow> bool \<Rightarrow> success_fold_reason option" where
  "success_fold probe_run health backend_ok =
     (if probe_run then Some SFR_Probe
      else if Option.bind health hs_last_probe_at = None then Some SFR_Seed
      else if 0 < unwrap_or (Option.bind health hs_consecutive_probe_failures) 0 \<or>
              Option.bind health hs_first_failure_at \<noteq> None \<or> \<not> backend_ok then Some SFR_Heal
      else None)"

definition failure_streak_health :: "health_status option \<Rightarrow> string \<Rightarrow> health_status" where
  "failure_streak_health prior now_str =
     (let prior_failures = max 0 (unwrap_or (Option.bind prior hs_consecutive_probe_failures) 0);
          first = unwrap_or
            (Option.bind prior (\<lambda>h. if 0 < prior_failures then hs_first_failure_at h else None)) now_str
      in \<lparr>hs_last_probe_at = Some now_str, hs_last_healthy_at = Option.bind prior hs_last_healthy_at,
          hs_consecutive_probe_failures = Some (prior_failures + 1), hs_first_failure_at = Some first,
          hs_probe_attempt_at = None\<rparr>)"

definition breaker_reason :: "probe_failure_kind \<Rightarrow> string" where
  "breaker_reason kind = (case kind of
     PF_Vanished \<Rightarrow> REPOSITORY_VANISHED_REASON
   | PF_Unreachable \<Rightarrow> BACKEND_UNREACHABLE_REASON
   | PF_TimedOut \<Rightarrow> PROBE_DEADLINE_EXCEEDED_REASON)"

definition reconcile_probe_failure ::
    "datetime \<Rightarrow> condition list \<Rightarrow> health_status option \<Rightarrow> probe_failure_kind \<Rightarrow> int \<Rightarrow> string \<Rightarrow> int option \<Rightarrow>
     probe_update" where
  "reconcile_probe_failure now existing prior kind failure_threshold now_str gen =
     (let health = failure_streak_health prior now_str;
          consecutive = unwrap_or (hs_consecutive_probe_failures health) 1;
          threshold = max 1 failure_threshold
      in if consecutive < threshold
         then \<lparr>pu_conditions = existing, pu_health = health, pu_event = False\<rparr>
         else
           (let reason = breaker_reason kind;
                prior_false_reason = (case condition_of BACKEND_REACHABLE_CONDITION existing of
                    Some c \<Rightarrow> if c_status c = ''False'' then Some (c_reason c) else None
                  | None \<Rightarrow> None)
            in \<lparr>pu_conditions = upsert_condition now existing BACKEND_REACHABLE_CONDITION False reason gen,
                pu_health = health, pu_event = prior_false_reason \<noteq> Some reason\<rparr>))"

subsection \<open>The circuit breaker and its retries\<close>

datatype probe_on_failure = POF_Degrade | POF_Alert

datatype breaker_verdict = BV_StayReady | BV_Open

definition breaker_verdict :: "int \<Rightarrow> int \<Rightarrow> probe_on_failure \<Rightarrow> breaker_verdict" where
  "breaker_verdict consecutive threshold on_failure = (case on_failure of
     POF_Alert \<Rightarrow> BV_StayReady
   | POF_Degrade \<Rightarrow> if max 1 threshold \<le> consecutive then BV_Open else BV_StayReady)"

record probe_failure_phase =
  pp_opened :: bool
  pp_phase :: repository_phase
  pp_ready_reason :: string
  pp_requeue :: duration

definition probe_failure_phase :: "breaker_verdict \<Rightarrow> probe_failure_kind \<Rightarrow> duration \<Rightarrow> probe_failure_phase" where
  "probe_failure_phase verdict kind steady_requeue = (case verdict of
     BV_StayReady \<Rightarrow> \<lparr>pp_opened = False, pp_phase = RP_Ready, pp_ready_reason = ''Bootstrapped'',
       pp_requeue = steady_requeue\<rparr>
   | BV_Open \<Rightarrow> \<lparr>pp_opened = True, pp_phase = RP_Degraded, pp_ready_reason = breaker_reason kind,
       pp_requeue = duration_from_secs 5\<rparr>)"

definition launch_phase :: "repository_phase option \<Rightarrow> repository_phase" where
  "launch_phase prior = (case prior of Some RP_Degraded \<Rightarrow> RP_Degraded | _ \<Rightarrow> RP_Initializing)"

definition STRICT_RETRY_BACKOFF_CAP_SECS :: nat where
  "STRICT_RETRY_BACKOFF_CAP_SECS = 1800"

definition strict_retry_backoff :: "int \<Rightarrow> duration" where
  "strict_retry_backoff consecutive_failures =
     duration_from_secs (min (120 * 2 ^ nat (min 4 (max 0 consecutive_failures))) STRICT_RETRY_BACKOFF_CAP_SECS)"

definition strict_retry_holdoff ::
    "(string \<Rightarrow> datetime option) \<Rightarrow> bool \<Rightarrow> int \<Rightarrow> string option \<Rightarrow> datetime \<Rightarrow> duration option" where
  "strict_retry_holdoff rfc3339 phase_is_degraded consecutive_failures last_failure_at now =
     (if \<not> phase_is_degraded \<or> consecutive_failures \<le> 0 then None
      else case Option.bind last_failure_at rfc3339 of
             None \<Rightarrow> None
           | Some last' \<Rightarrow>
               (let backoff = strict_retry_backoff (consecutive_failures - 1)
                in case chrono_from_std backoff of
                     None \<Rightarrow> None
                   | Some b \<Rightarrow>
                       (let due = last' + b
                        in if due \<le> now then None else Some (unwrap_or (to_std (due - now)) backoff))))"

definition timeout_streak :: "condition list \<Rightarrow> int \<Rightarrow> int" where
  "timeout_streak conditions consecutive_failures =
     (if list_ex (\<lambda>c. (c_type c = REPOSITORY_BOOTSTRAPPED_CONDITION \<or> c_type c = BACKEND_REACHABLE_CONDITION) \<and>
           c_status c = ''False'' \<and>
           (c_reason c = BOOTSTRAP_DEADLINE_EXCEEDED_REASON \<or> c_reason c = PROBE_DEADLINE_EXCEEDED_REASON)) conditions
      then max 0 consecutive_failures else 0)"

definition escalated_bootstrap_deadline :: "int \<Rightarrow> int \<Rightarrow> int" where
  "escalated_bootstrap_deadline base_secs streak =
     (let exponent = nat (min 4 (max 0 streak));
          cap = max (int STRICT_RETRY_BACKOFF_CAP_SECS) base_secs
      in min (max (- (2 ^ 63)) (min i64_max (base_secs * 2 ^ exponent))) cap)"

definition backend_confirmed_down :: "condition list \<Rightarrow> bool" where
  "backend_confirmed_down conditions =
     is_some_and (\<lambda>c. c_status c = ''False'' \<and>
       (c_reason c = BACKEND_UNREACHABLE_REASON \<or> c_reason c = REPOSITORY_VANISHED_REASON))
       (condition_of BACKEND_REACHABLE_CONDITION conditions)"

definition maintenance_may_proceed :: "repository_phase option \<Rightarrow> string option \<Rightarrow> condition list \<Rightarrow> bool" where
  "maintenance_may_proceed phase unique_id conditions = (case phase of
     Some RP_Ready \<Rightarrow> True
   | Some RP_Degraded \<Rightarrow> unique_id \<noteq> None \<and> \<not> backend_confirmed_down conditions
   | _ \<Rightarrow> False)"

subsection \<open>Facts about conditions\<close>

lemma condition_of_simps [simp]:
  "condition_of t [] = None"
  "condition_of t (c # cs) = (if c_type c = t then Some c else condition_of t cs)"
  by (simp_all add: condition_of_def)

lemma condition_of_set [simp]:
  "condition_of t (set_condition c cs) = (if c_type c = t then Some c else condition_of t cs)"
  by (induction cs) auto

lemma reason_of_upsert [simp]:
  "reason_of t (upsert_condition now cs t' b r g) = (if t = t' then Some r else reason_of t cs)"
  by (simp add: reason_of_def upsert_condition_def upsert_condition_status_def Let_def)

lemma status_of_upsert [simp]:
  "map_option c_status (condition_of t (upsert_condition now cs t' b r g)) =
     (if t = t' then Some (if b then ''True'' else ''False'') else map_option c_status (condition_of t cs))"
  by (simp add: upsert_condition_def upsert_condition_status_def Let_def)

lemmas condition_names = READY_CONDITION_def RECONCILING_CONDITION_def STALLED_CONDITION_def
  REPOSITORY_BOOTSTRAPPED_CONDITION_def BACKEND_REACHABLE_CONDITION_def INDEX_BLOB_HEALTH_CONDITION_def

lemmas condition_reasons = REPOSITORY_REINITIALIZE_BLOCKED_REASON_def REPOSITORY_VANISHED_REASON_def
  BACKEND_REACHABLE_REASON_def BACKEND_UNREACHABLE_REASON_def PROBE_DEADLINE_EXCEEDED_REASON_def
  BOOTSTRAP_DEADLINE_EXCEEDED_REASON_def TOO_MANY_INDEX_BLOBS_REASON_def INDEX_BLOBS_HEALTHY_REASON_def

lemma reason_of_set_ready:
  "reason_of t (set_ready now cs g oc r) =
     (if t = READY_CONDITION then Some r
      else if t = RECONCILING_CONDITION then Some (if oc = Reconciling then r else ''Settled'')
      else if t = STALLED_CONDITION then Some (if oc = Stalled then r else ''NotStalled'')
      else reason_of t cs)"
  by (cases oc) (simp_all add: set_ready_def condition_names)

lemma reason_of_filter_other:
  "t \<noteq> t' \<Longrightarrow> reason_of t (filter (\<lambda>c. c_type c \<noteq> t') cs) = reason_of t cs"
  unfolding reason_of_def by (induction cs) auto

definition wipe_verdict :: "condition list \<Rightarrow> bool" where
  "wipe_verdict cs \<longleftrightarrow> reinit_ack_arming cs = RA_Armed"

lemma wipe_verdict_iff:
  "wipe_verdict cs \<longleftrightarrow>
     reason_of READY_CONDITION cs = Some REPOSITORY_REINITIALIZE_BLOCKED_REASON \<or>
     reason_of REPOSITORY_BOOTSTRAPPED_CONDITION cs = Some REPOSITORY_REINITIALIZE_BLOCKED_REASON \<or>
     reason_of BACKEND_REACHABLE_CONDITION cs = Some REPOSITORY_VANISHED_REASON"
  by (auto simp: wipe_verdict_def reinit_ack_arming_def)

subsection \<open>Facts about the create decision\<close>

lemma non_empty_Some_iff [simp]: "non_empty s = Some x \<longleftrightarrow> s = Some x \<and> x \<noteq> []"
  by (cases s) (auto simp: non_empty_def)

lemma non_empty_None_iff: "non_empty s = None \<longleftrightarrow> s = None \<or> s = Some []"
  by (cases s) (auto simp: non_empty_def)

lemma ack_valid_iff: "ack_valid uid ack \<longleftrightarrow> uid = ack \<and> non_empty uid \<noteq> None"
  by (auto simp: ack_valid_def non_empty_None_iff split: option.splits)

lemma valid_reinit_ack_iff:
  "valid_reinit_ack (create_gate en uid ack) uid = Some u \<longleftrightarrow> en \<and> uid = Some u \<and> u \<noteq> [] \<and> ack = Some u"
  by (auto simp: valid_reinit_ack_def create_gate_def ack_valid_iff non_empty_None_iff
      split: option.splits bool.splits create_gate.splits)

lemma create_allowed_iff:
  "ec_allowed (effective_create (create_gate en uid ack) req) \<longleftrightarrow>
     en \<and> (non_empty uid = None \<or> (ack_valid uid ack \<and> req))"
  by (auto simp: effective_create_def create_gate_def Let_def non_empty_None_iff ack_valid_iff
      split: option.splits bool.splits)

lemma create_via_ack_iff:
  "ec_via_reinit_ack (effective_create (create_gate en uid ack) req) \<longleftrightarrow> en \<and> ack_valid uid ack \<and> req"
  by (auto simp: effective_create_def create_gate_def Let_def non_empty_None_iff ack_valid_iff
      split: option.splits bool.splits)

lemma create_block_pinned:
  "ec_block (effective_create (create_gate en uid ack) req) = Some (CB_OnceReadyPinned b) \<Longrightarrow> non_empty uid \<noteq> None"
  by (auto simp: effective_create_def create_gate_def Let_def non_empty_None_iff ack_valid_iff
      split: option.splits bool.splits if_splits)

lemma reinit_requested_iff:
  "reinit_requested ready ok arming \<longleftrightarrow> \<not> ready \<and> ok \<and> arming = RA_Armed"
  by (cases arming) (auto simp: reinit_requested_def)

lemma init_creates_iff:
  "bootstrap_init_action armed resume (grant_from_flags auto via) cls uninit = BI_Create \<longleftrightarrow>
     \<not> armed \<and> auto \<and>
     (\<exists>c. cls = Some c \<and> c \<notin> {KE_AuthFailure, KE_Locked, KE_AccessDenied, KE_PermissionDenied} \<and>
        (via \<longrightarrow> c = KE_NotFound \<and> uninit))"
  by (auto simp: bootstrap_init_action_def grant_from_flags_def create_or_fail_def split: option.splits)

lemma init_seeds_iff:
  "bootstrap_init_action armed resume grant cls uninit = BI_Seed \<longleftrightarrow>
     armed \<and> (if cls = None then resume else cls = Some KE_NotFound \<and> uninit)"
  by (cases grant) (auto simp: bootstrap_init_action_def create_or_fail_def split: option.splits)

subsection \<open>Facts about retries\<close>

lemma strict_retry_backoff_bounds:
  "duration_from_secs 120 \<le> strict_retry_backoff n" "strict_retry_backoff n \<le> duration_from_secs 1800"
  by (simp_all add: strict_retry_backoff_def duration_from_secs_def STRICT_RETRY_BACKOFF_CAP_SECS_def)

lemma strict_retry_backoff_mono: "m \<le> n \<Longrightarrow> strict_retry_backoff m \<le> strict_retry_backoff n"
  unfolding strict_retry_backoff_def duration_from_secs_def
  by (intro mult_right_mono min.mono mult_left_mono power_increasing nat_mono) auto

lemma chrono_backoff [simp]: "chrono_from_std (strict_retry_backoff n) = Some (int (strict_retry_backoff n))"
  using strict_retry_backoff_bounds(2) [of n]
  by (simp add: chrono_from_std_def i64_max_def duration_from_secs_def)

lemma holdoff_None_iff:
  assumes "rfc3339 s = Some t" "0 < n"
  shows "strict_retry_holdoff rfc3339 True n (Some s) now = None \<longleftrightarrow> t + int (strict_retry_backoff (n - 1)) \<le> now"
  using assms by (simp add: strict_retry_holdoff_def Let_def)

lemma escalated_deadline_bounds:
  assumes "0 < base" "base \<le> i64_max"
  shows "base \<le> escalated_bootstrap_deadline base streak"
    and "escalated_bootstrap_deadline base streak \<le> max 1800 base"
proof -
  let ?x = "base * 2 ^ nat (min 4 (max 0 streak))"
  have "base * 1 \<le> ?x"
    using assms by (intro mult_left_mono) auto
  then have "base \<le> min i64_max ?x"
    using assms(2) by (intro min.boundedI) simp_all
  then have "base \<le> max (- (2 ^ 63)) (min i64_max ?x)"
    by (rule max.coboundedI2)
  then show "base \<le> escalated_bootstrap_deadline base streak"
    unfolding escalated_bootstrap_deadline_def Let_def by (rule min.boundedI) simp
  show "escalated_bootstrap_deadline base streak \<le> max 1800 base"
    by (simp add: escalated_bootstrap_deadline_def Let_def STRICT_RETRY_BACKOFF_CAP_SECS_def)
qed

end
