(* ===== verification/Bootstrap.thy ===== *)
theory Bootstrap
  imports Health "HOL-Library.Code_Target_Numeral"
begin

text \<open>
  Bootstrapping a repository (\<open>crates/controller/src/repository.rs\<close>, \<open>repo_seed.rs\<close>,
  \<open>io/events.rs\<close>; \<open>crates/mover/src/main.rs\<close>): the reconcile that launches, polls and finalizes the
  discovery Job of a \<open>Repository\<close> served by movers, and the mover's run. A pass works on the stored
  status, the Job and the result ConfigMap; kopia's and the API server's answers are parameters. The
  Job's manifest, condition messages, events and metrics are left out, and one instant stands for
  the clock reads of a pass. The in-process path of a bare filesystem path is not part of it.
\<close>

subsection \<open>The spec and the status\<close>

record health_probe_spec =
  hp_enabled :: "bool option"
  hp_interval :: "string option"
  hp_failure_threshold :: "int option"
  hp_on_failure :: "probe_on_failure option"

record repository_health_spec =
  hsp_index_blob_warn_threshold :: "int option"
  hsp_probe :: "health_probe_spec option"

definition probe_enabled :: "repository_health_spec option \<Rightarrow> bool" where
  "probe_enabled health = unwrap_or (Option.bind (Option.bind health hsp_probe) hp_enabled) True"

definition effective_on_failure :: "repository_health_spec option \<Rightarrow> probe_on_failure" where
  "effective_on_failure health = unwrap_or (Option.bind (Option.bind health hsp_probe) hp_on_failure) POF_Degrade"

definition effective_probe_interval :: "repository_health_spec option \<Rightarrow> duration" where
  "effective_probe_interval health =
     unwrap_or (Option.bind (Option.bind (Option.bind health hsp_probe) hp_interval) parse_go_duration)
       (duration_from_secs 1800)"

definition effective_failure_threshold :: "repository_health_spec option \<Rightarrow> int" where
  "effective_failure_threshold health =
     unwrap_or (map_option (max 1) (Option.bind (Option.bind health hsp_probe) hp_failure_threshold)) 3"

definition resolve_index_blob_warn_threshold :: "repository_health_spec option \<Rightarrow> int" where
  "resolve_index_blob_warn_threshold health = unwrap_or (Option.bind health hsp_index_blob_warn_threshold) 1000"

text \<open>Of the seed spec only its presence and \<open>allowEmptySource\<close> matter here.\<close>

record seed_spec =
  sd_allow_empty_source :: bool

record seed_status =
  se_started_at :: "string option"
  se_seeded_at :: "string option"

record repo_status =
  rs_phase :: "repository_phase option"
  rs_unique_id :: "string option"
  rs_observed_generation :: "int option"
  rs_conditions :: "condition list"
  rs_health :: "health_status option"
  rs_storage_stats :: "storage_stats option"
  rs_seed :: "seed_status option"
  rs_last_reverify_at :: "string option"
  rs_last_refresh_at :: "string option"
  rs_scan_request_honored :: "string option"
  rs_scan_request_attempt_at :: "string option"

record repo_object =
  re_generation :: "int option"
  re_suspend :: bool
  re_reverify_token :: "string option"
  re_scan_token :: "string option"
  re_reinit_ack :: "string option"
  re_create :: "bool option"
  re_seed :: "seed_spec option"
  re_health :: "repository_health_spec option"
  re_active_deadline_seconds :: "int option"
  re_catalog :: "catalog_bounds option"

definition create_enabled :: "bool option \<Rightarrow> bool" where
  "create_enabled create = unwrap_or create True"

definition seed_armed :: "seed_spec option \<Rightarrow> string option \<Rightarrow> bool" where
  "seed_armed seed unique_id \<longleftrightarrow> seed \<noteq> None \<and> non_empty unique_id = None"

definition seed_resume :: "bool \<Rightarrow> seed_status option \<Rightarrow> bool" where
  "seed_resume armed status = (case status of
     None \<Rightarrow> False
   | Some s \<Rightarrow> armed \<and> non_empty (se_started_at s) \<noteq> None \<and> non_empty (se_seeded_at s) = None)"

record reinit_seed_plan =
  rsp_armed :: bool
  rsp_resume :: bool
  rsp_clear_status :: bool

definition reinit_seed_plan ::
    "seed_spec option \<Rightarrow> string option \<Rightarrow> seed_status option \<Rightarrow> bool \<Rightarrow> reinit_seed_plan" where
  "reinit_seed_plan seed unique_id status_seed requested =
     (let armed = seed_armed seed (if requested then None else unique_id)
      in \<lparr>rsp_armed = armed, rsp_resume = (\<not> requested \<and> seed_resume armed status_seed),
          rsp_clear_status = (requested \<and> status_seed \<noteq> None)\<rparr>)"

text \<open>
  The \<open>startedAt\<close> a seed launch stamps, if it has anything to write; whether the recorded mode and
  source are the live ones is the argument \<open>same_source\<close>.
\<close>

definition seed_marker_patch :: "seed_status option \<Rightarrow> bool \<Rightarrow> string \<Rightarrow> string option" where
  "seed_marker_patch existing same_source now_str =
     (if is_some_and (\<lambda>s. non_empty (se_seeded_at s) \<noteq> None) existing then None
      else
        (let started = unwrap_or (non_empty (Option.bind existing se_started_at)) now_str
         in if is_some_and (\<lambda>s. se_started_at s = Some started \<and> same_source) existing then None
            else Some started))"

definition merge_seed_marker :: "string \<Rightarrow> seed_status option \<Rightarrow> seed_status option" where
  "merge_seed_marker started stored =
     Some ((unwrap_or stored \<lparr>se_started_at = None, se_seeded_at = None\<rparr>)\<lparr>se_started_at := Some started\<rparr>)"

subsection \<open>The mover's run\<close>

record seed_op =
  so_resume :: bool
  so_allow_empty_source :: bool

record boot_op =
  op_auto_create :: bool
  op_create_block :: "create_block option"
  op_pinned_unique_id :: "string option"
  op_via_reinit_ack :: bool
  op_probe_only :: bool
  op_seed :: "seed_op option"

record boot_result =
  bt_success :: bool
  bt_created :: bool
  bt_unique_id :: "string option"
  bt_snapshot_count :: "int option"
  bt_index_blob_count :: "int option"
  bt_seed :: "bool option"
  bt_failure :: "string option"

datatype mover_failure = MF_Kopia kopia_error_class | MF_Seed seed_failure

text \<open>
  kopia's answers in one run: the first connect (with the verdict of \<open>notfound_is_uninitialized\<close> on
  its stderr), the throttle, create, the seed and its mode, the reconnect, the status, the listing
  and the index-blob count.
\<close>

record kopia_answers =
  ka_connect :: "(kopia_error_class \<times> bool) option"
  ka_throttle :: "kopia_error_class option"
  ka_create :: "kopia_error_class option"
  ka_seed :: "mover_failure option"
  ka_seed_mode_blob :: bool
  ka_reconnect :: "kopia_error_class option"
  ka_status :: "kopia_error_class + string"
  ka_list :: "kopia_error_class + int"
  ka_index_blobs :: "int option"

definition REPOSITORY_NOT_INITIALIZED_CLASS :: string where
  "REPOSITORY_NOT_INITIALIZED_CLASS = ''RepositoryNotInitialized''"

definition REPOSITORY_REINITIALIZE_BLOCKED_CLASS :: string where
  "REPOSITORY_REINITIALIZE_BLOCKED_CLASS = ''RepositoryReinitializeBlocked''"

definition with_failure :: "string \<Rightarrow> boot_result" where
  "with_failure label = \<lparr>bt_success = False, bt_created = False, bt_unique_id = None, bt_snapshot_count = None,
     bt_index_blob_count = None, bt_seed = None, bt_failure = Some label\<rparr>"

definition result_failed :: "kopia_error_class \<Rightarrow> boot_result" where
  "result_failed class = with_failure (class_as_str class)"

definition bootstrap_declined :: "boot_op \<Rightarrow> kopia_error_class \<Rightarrow> bool \<Rightarrow> boot_result" where
  "bootstrap_declined op class uninitialized =
     (if \<not> op_auto_create op \<and> op_seed op = None \<and> class = KE_NotFound \<and> uninitialized
      then case op_create_block op of
             Some (CB_OnceReadyPinned _) \<Rightarrow> with_failure REPOSITORY_REINITIALIZE_BLOCKED_CLASS
           | _ \<Rightarrow> with_failure REPOSITORY_NOT_INITIALIZED_CLASS
      else result_failed class)"

definition op_init_action :: "boot_op \<Rightarrow> kopia_answers \<Rightarrow> bootstrap_init_action" where
  "op_init_action op a =
     bootstrap_init_action (op_seed op \<noteq> None) (is_some_and so_resume (op_seed op))
       (grant_from_flags (op_auto_create op) (op_via_reinit_ack op))
       (map_option fst (ka_connect a)) (is_some_and snd (ka_connect a))"

definition already_initialized_outcome :: "seed_op option \<Rightarrow> bool option" where
  "already_initialized_outcome seed =
     (case seed of None \<Rightarrow> None | Some s \<Rightarrow> if so_resume s then None else Some False)"

definition seed_left_repository_empty :: "bool \<Rightarrow> bool \<Rightarrow> int \<Rightarrow> bool" where
  "seed_left_repository_empty armed allow_empty_source n \<longleftrightarrow> armed \<and> \<not> allow_empty_source \<and> n = 0"

text \<open>The rest of a run once the repository is open.\<close>

definition report_repository :: "boot_op \<Rightarrow> kopia_answers \<Rightarrow> bool \<Rightarrow> bool option \<Rightarrow> boot_result" where
  "report_repository op a created seed_outcome =
     (case ka_status a of
        Inl class \<Rightarrow> result_failed class
      | Inr uid \<Rightarrow>
          (let listing = (if op_probe_only op \<and> op_seed op = None then Inr None else map_sum (\<lambda>e. e) Some (ka_list a))
           in case listing of
                Inl class \<Rightarrow> result_failed class
              | Inr n \<Rightarrow>
                  if is_some_and (\<lambda>s. is_some_and (seed_left_repository_empty True (so_allow_empty_source s)) n) (op_seed op)
                  then with_failure (seed_failure_reason SF_LeftEmpty)
                  else \<lparr>bt_success = True, bt_created = created, bt_unique_id = Some uid, bt_snapshot_count = n,
                    bt_index_blob_count = ka_index_blobs a, bt_seed = seed_outcome, bt_failure = None\<rparr>))"

definition run_bootstrap :: "boot_op \<Rightarrow> kopia_answers \<Rightarrow> boot_result" where
  "run_bootstrap op a =
     (case (ka_connect a, ka_throttle a) of
        (None, Some class) \<Rightarrow> result_failed class
      | (connect, _) \<Rightarrow>
          (let noop = (if connect = None then already_initialized_outcome (op_seed op) else None)
           in case op_init_action op a of
                BI_Proceed \<Rightarrow> report_repository op a False noop
              | BI_Fail \<Rightarrow>
                  (case connect of
                     Some (class, uninitialized) \<Rightarrow> bootstrap_declined op class uninitialized
                   | None \<Rightarrow> report_repository op a False noop)
              | BI_Create \<Rightarrow>
                  (case (ka_create a, ka_reconnect a) of
                     (Some class, _) \<Rightarrow> result_failed class
                   | (None, Some class) \<Rightarrow> result_failed class
                   | (None, None) \<Rightarrow> report_repository op a True noop)
              | BI_Seed \<Rightarrow>
                  (case (ka_seed a, ka_reconnect a) of
                     (Some (MF_Kopia class), _) \<Rightarrow> result_failed class
                   | (Some (MF_Seed f), _) \<Rightarrow> with_failure (seed_failure_reason f)
                   | (None, Some class) \<Rightarrow> result_failed class
                   | (None, None) \<Rightarrow>
                       report_repository op a (\<not> ka_seed_mode_blob a \<and> connect \<noteq> None) (Some True))))"

subsection \<open>Reading a finished Job\<close>

datatype mover_job_terminal = JT_Complete | JT_Failed bool

datatype boot_outcome = BO_ResultPending | BO_Failed bootstrap_failure | BO_Succeeded boot_result

definition bootstrap_outcome :: "boot_result option \<Rightarrow> mover_job_terminal \<Rightarrow> bool \<Rightarrow> int \<Rightarrow> boot_outcome" where
  "bootstrap_outcome result job armed deadline_secs =
     (case result of
        None \<Rightarrow>
          (case job of
             JT_Complete \<Rightarrow> BO_ResultPending
           | JT_Failed True \<Rightarrow> BO_Failed (BF_JobDeadlineExceeded deadline_secs)
           | JT_Failed False \<Rightarrow> BO_Failed BF_JobFailedWithoutResult)
      | Some r \<Rightarrow>
          if \<not> bt_success r \<and> bt_failure r = Some REPOSITORY_NOT_INITIALIZED_CLASS
          then BO_Failed BF_RepositoryNotInitialized
          else if \<not> bt_success r \<and> bt_failure r = Some REPOSITORY_REINITIALIZE_BLOCKED_CLASS
          then BO_Failed BF_RepositoryReinitializeBlocked
          else if \<not> bt_success r \<and> Option.bind (bt_failure r) seed_failure_from_class \<noteq> None
          then BO_Failed (BF_Seed (unwrap_or (Option.bind (bt_failure r) seed_failure_from_class) SF_SourceNotFound))
          else if \<not> bt_success r \<and> bt_failure r = Some ''BootstrapInternalInconsistency''
          then BO_Failed BF_InternalInconsistency
          else if \<not> bt_success r
          then BO_Failed (BF_Backend (unwrap_or (map_option class_from_label (bt_failure r)) KE_Unknown))
          else if armed \<and> bt_seed r = None then BO_Failed BF_SeedMoverTooOld
          else BO_Succeeded r)"

subsection \<open>Jobs and the stored state\<close>

text \<open>
  \<open>jb_terminal\<close> is what \<open>mover_job_terminal\<close> reads off the Job; the result ConfigMap carries the
  Job's name, is owned by the repository, and outlives a Job the cluster reaps after its TTL.
\<close>

record boot_job =
  jb_generation :: "string option"
  jb_reinit_ack :: "string option"
  jb_op :: boot_op
  jb_deadline :: "int option"
  jb_terminal :: "mover_job_terminal option"
  jb_completed_at :: "string option"

record boot_state =
  bs_status :: repo_status
  bs_job :: "boot_job option"
  bs_result :: "boot_result option"

datatype delete_reply = DR_Deleted | DR_JobOnly | DR_Refused

text \<open>The two gates a launch can park a seed on, and their condition reasons.\<close>

datatype seed_gate = SEED_SOURCE_NOT_READY_GATE | SEED_SOURCE_AUTH_CONFLICT_GATE

definition gate_reason :: "seed_gate \<Rightarrow> string" where
  "gate_reason gate = (case gate of
     SEED_SOURCE_NOT_READY_GATE \<Rightarrow> ''WaitingForSeedSource''
   | SEED_SOURCE_AUTH_CONFLICT_GATE \<Rightarrow> ''SeedSourceAuthConflict'')"

text \<open>
  The answers of one pass: deleting a run (the Job, then the ConfigMap), the \<open>n\<close>-th status patch,
  what a launch reads and applies before the Job exists, the seed source's gate, the catalog scan,
  the mass-deletion and maintenance conditions, and a recount after maintenance.
\<close>

record boot_world =
  bw_rfc3339 :: "string \<Rightarrow> datetime option"
  bw_to_rfc3339 :: "datetime \<Rightarrow> string"
  bw_get_ok :: bool
  bw_result_ok :: bool
  bw_delete :: delete_reply
  bw_patch_ok :: "nat \<Rightarrow> bool"
  bw_legacy_cleared :: bool
  bw_ca_ok :: bool
  bw_launch_ok :: bool
  bw_apply_job_ok :: bool
  bw_seed_gate :: "seed_gate option"
  bw_seed_same_source :: bool
  bw_scan_ok :: bool
  bw_mass_deletion :: "(bool \<times> string) option"
  bw_maintenance :: "(string \<times> string) option"
  bw_recount :: "(int \<times> string) option"

type_synonym boot_reply = "(kube_error + duration) \<times> boot_state"

definition patch_status :: "boot_world \<Rightarrow> nat \<Rightarrow> (repo_status \<Rightarrow> repo_status) \<Rightarrow> boot_state \<Rightarrow>
    (boot_state \<Rightarrow> boot_reply) \<Rightarrow> boot_reply" where
  "patch_status w n patch st k =
     (if bw_patch_ok w n then k (st\<lparr>bs_status := patch (bs_status st)\<rparr>) else (Inl Kube_Error, st))"

definition delete_mover_run :: "boot_world \<Rightarrow> boot_state \<Rightarrow> (boot_state \<Rightarrow> boot_reply) \<Rightarrow> boot_reply" where
  "delete_mover_run w st k = (case bw_delete w of
     DR_Deleted \<Rightarrow> k (st\<lparr>bs_job := None, bs_result := None\<rparr>)
   | DR_JobOnly \<Rightarrow> (Inl Kube_Error, st\<lparr>bs_job := None\<rparr>)
   | DR_Refused \<Rightarrow> (Inl Kube_Error, st))"

definition requeue :: "nat \<Rightarrow> boot_state \<Rightarrow> boot_reply" where
  "requeue secs st = (Inr (duration_from_secs secs), st)"

definition probe_aware_reconcile_interval :: "repo_object \<Rightarrow> duration" where
  "probe_aware_reconcile_interval repo =
     (let base = reconcile_interval (re_catalog repo)
      in if probe_enabled (re_health repo) then min base (effective_probe_interval (re_health repo)) else base)"

definition scan_clock_of :: "repo_object \<Rightarrow> repo_status \<Rightarrow> scan_clock" where
  "scan_clock_of repo s = \<lparr>sk_generation = re_generation repo, sk_observed_generation = rs_observed_generation s,
     sk_last_refresh_at = rs_last_refresh_at s, sk_interval = effective_refresh_interval (re_catalog repo),
     sk_periodic_enabled = periodic_refresh_enabled (re_catalog repo), sk_token = re_scan_token repo,
     sk_honored = rs_scan_request_honored s, sk_attempt_at = rs_scan_request_attempt_at s,
     sk_retry_interval = DEFAULT_CATALOG_REFRESH_INTERVAL\<rparr>"

text \<open>\<open>i64::to_string\<close> and \<open>str::parse::<i64>\<close>.\<close>

definition show_i64 :: "int \<Rightarrow> string" where
  "show_i64 i = (if i < 0 then CHR ''-'' # dec (nat (- i)) else dec (nat i))"

definition parse_i64 :: "string \<Rightarrow> int option" where
  "parse_i64 s =
     (let neg = (case s of c # _ \<Rightarrow> c = CHR ''-'' | [] \<Rightarrow> False);
          ds = (case s of c # cs \<Rightarrow> if c = CHR ''-'' \<or> c = CHR ''+'' then cs else s | [] \<Rightarrow> [])
      in if ds = [] then None
         else case digits_val 0 ds of
                None \<Rightarrow> None
              | Some n \<Rightarrow>
                  if neg then if int n \<le> i64_max + 1 then Some (- int n) else None
                  else if int n \<le> i64_max then Some (int n) else None)"

definition stale_bootstrap_job ::
    "string option \<Rightarrow> int option \<Rightarrow> string option \<Rightarrow> string option \<Rightarrow> bool" where
  "stale_bootstrap_job stamped live_generation stamped_ack live_ack =
     (if live_ack \<noteq> None \<and> live_ack \<noteq> stamped_ack then True
      else case (stamped, live_generation) of
             (Some s, Some live) \<Rightarrow> (case parse_i64 s of Some g \<Rightarrow> g \<noteq> live | None \<Rightarrow> True)
           | _ \<Rightarrow> False)"

subsection \<open>Finalizing\<close>

definition SEEDED_CONDITION :: string where "SEEDED_CONDITION = ''Seeded''"
definition MASS_DELETION_HELD_CONDITION :: string where "MASS_DELETION_HELD_CONDITION = ''MassDeletionHeld''"
definition MAINTENANCE_CONFIGURED_CONDITION :: string where
  "MAINTENANCE_CONFIGURED_CONDITION = ''MaintenanceConfigured''"

definition drop_seed_condition :: "condition list \<Rightarrow> condition list" where
  "drop_seed_condition cs = filter (\<lambda>c. c_type c \<noteq> SEEDED_CONDITION) cs"

definition seed_condition_fold ::
    "datetime \<Rightarrow> int option \<Rightarrow> bootstrap_failure \<Rightarrow> condition list \<Rightarrow> condition list" where
  "seed_condition_fold now gen f cs = (case failure_seed_reason f of
     Some reason \<Rightarrow> upsert_condition now cs SEEDED_CONDITION False reason gen
   | None \<Rightarrow> drop_seed_condition cs)"

definition bootstrap_condition ::
    "datetime \<Rightarrow> repo_object \<Rightarrow> condition list \<Rightarrow> bool \<Rightarrow> string \<Rightarrow> condition list" where
  "bootstrap_condition now repo existing status reason =
     upsert_condition now existing REPOSITORY_BOOTSTRAPPED_CONDITION status reason (re_generation repo)"

definition fold_mass_deletion ::
    "boot_world \<Rightarrow> datetime \<Rightarrow> repo_object \<Rightarrow> condition list \<Rightarrow> condition list" where
  "fold_mass_deletion w now repo cs = (case bw_mass_deletion w of
     None \<Rightarrow> cs
   | Some (held, reason) \<Rightarrow> upsert_condition now cs MASS_DELETION_HELD_CONDITION held reason (re_generation repo))"

definition ensure_repo_maintenance :: "boot_world \<Rightarrow> datetime \<Rightarrow> repo_object \<Rightarrow> boot_state \<Rightarrow> boot_state" where
  "ensure_repo_maintenance w now repo st = (case bw_maintenance w of
     None \<Rightarrow> st
   | Some (status, reason) \<Rightarrow>
       st\<lparr>bs_status := (bs_status st)\<lparr>rs_conditions := upsert_condition_status now (rs_conditions (bs_status st))
         MAINTENANCE_CONFIGURED_CONDITION status reason (re_generation repo)\<rparr>\<rparr>)"

definition finalize_probe_failure ::
    "boot_world \<Rightarrow> datetime \<Rightarrow> repo_object \<Rightarrow> bootstrap_failure \<Rightarrow> boot_state \<Rightarrow> boot_reply" where
  "finalize_probe_failure w now repo f st =
     (let s = bs_status st;
          kind = probe_failure_kind f;
          threshold = effective_failure_threshold (re_health repo);
          upd = reconcile_probe_failure now (rs_conditions s) (rs_health s) kind threshold (bw_to_rfc3339 w now)
            (re_generation repo);
          verdict = breaker_verdict (unwrap_or (hs_consecutive_probe_failures (pu_health upd)) 0) threshold
            (effective_on_failure (re_health repo));
          p = probe_failure_phase verdict kind (probe_aware_reconcile_interval repo);
          conditions = set_ready now (pu_conditions upd) (re_generation repo) (ready_outcome_for_phase (pp_phase p))
            (pp_ready_reason p)
      in patch_status w 0 (\<lambda>s. s\<lparr>rs_phase := Some (pp_phase p),
             rs_health := Some (probe_failure_health_patch (pu_health upd) (rs_health s)),
             rs_conditions := conditions\<rparr>) st
           (\<lambda>st. delete_mover_run w st (\<lambda>st. (Inr (pp_requeue p), st))))"

definition recycle_bootstrap_outage ::
    "boot_world \<Rightarrow> datetime \<Rightarrow> repo_object \<Rightarrow> bootstrap_failure \<Rightarrow> boot_state \<Rightarrow> boot_reply" where
  "recycle_bootstrap_outage w now repo f st =
     delete_mover_run w st (\<lambda>st.
       let s = bs_status st;
           kind = probe_failure_kind f;
           threshold = effective_failure_threshold (re_health repo);
           upd = reconcile_probe_failure now (rs_conditions s) (rs_health s) kind threshold (bw_to_rfc3339 w now)
             (re_generation repo);
           streak = hs_consecutive_probe_failures (pu_health upd);
           verdict = breaker_verdict (unwrap_or streak 0) threshold (effective_on_failure (re_health repo));
           p = probe_failure_phase verdict kind (probe_aware_reconcile_interval repo);
           conditions = (if pp_opened p
             then upsert_condition now (pu_conditions upd) REPOSITORY_BOOTSTRAPPED_CONDITION False (failure_reason f)
               (re_generation repo)
             else pu_conditions upd);
           conditions = set_ready now conditions (re_generation repo) (ready_outcome_for_phase (pp_phase p))
             (pp_ready_reason p)
       in patch_status w 0 (\<lambda>s. s\<lparr>rs_phase := Some (pp_phase p), rs_observed_generation := re_generation repo,
              rs_health := Some (probe_failure_health_patch (pu_health upd) (rs_health s)),
              rs_conditions := conditions\<rparr>) st
            (\<lambda>st. (Inr (if pp_opened p then strict_retry_backoff (unwrap_or streak 1 - 1) else pp_requeue p), st)))"

definition recycle_failed_bootstrap ::
    "boot_world \<Rightarrow> datetime \<Rightarrow> repo_object \<Rightarrow> bootstrap_failure \<Rightarrow> bool \<Rightarrow> boot_state \<Rightarrow> boot_reply" where
  "recycle_failed_bootstrap w now repo f stamp_streak st =
     delete_mover_run w st (\<lambda>st.
       let s = bs_status st;
           reason = failure_reason f;
           conditions = bootstrap_condition now repo (rs_conditions s) False reason;
           conditions = seed_condition_fold now (re_generation repo) f conditions;
           conditions = set_ready now conditions (re_generation repo) (ready_outcome_for_phase RP_Degraded) reason;
           health = failure_streak_health (rs_health s) (bw_to_rfc3339 w now)
       in patch_status w 0 (\<lambda>s. s\<lparr>rs_phase := Some RP_Degraded, rs_observed_generation := re_generation repo,
              rs_conditions := conditions,
              rs_health := (if stamp_streak then Some (probe_failure_health_patch health (rs_health s)) else rs_health s)\<rparr>) st
            (\<lambda>st. (Inr (if stamp_streak
                        then strict_retry_backoff (unwrap_or (hs_consecutive_probe_failures health) 1 - 1)
                        else duration_from_secs 120), st)))"

definition park_terminal_bootstrap ::
    "boot_world \<Rightarrow> datetime \<Rightarrow> repo_object \<Rightarrow> bootstrap_failure \<Rightarrow> boot_state \<Rightarrow> boot_reply" where
  "park_terminal_bootstrap w now repo f st =
     (let reason = failure_reason f;
          conditions = bootstrap_condition now repo (rs_conditions (bs_status st)) False reason;
          conditions = seed_condition_fold now (re_generation repo) f conditions;
          conditions = set_ready now conditions (re_generation repo) (ready_outcome_for_phase RP_Failed) reason
      in patch_status w 0 (\<lambda>s. s\<lparr>rs_phase := Some RP_Failed, rs_observed_generation := re_generation repo,
             rs_conditions := conditions\<rparr>) st (requeue 120))"

definition finalize_bootstrap_failure ::
    "boot_world \<Rightarrow> datetime \<Rightarrow> repo_object \<Rightarrow> bootstrap_failure \<Rightarrow> bool \<Rightarrow> boot_state \<Rightarrow> boot_reply" where
  "finalize_bootstrap_failure w now repo f probe_run st =
     (if probe_run then finalize_probe_failure w now repo f st
      else case failure_route f (rs_unique_id (bs_status st) \<noteq> None) of
             FR_OutageSensor \<Rightarrow> recycle_bootstrap_outage w now repo f st
           | FR_Recycle \<Rightarrow> recycle_failed_bootstrap w now repo f True st
           | FR_SeedRetry \<Rightarrow> recycle_failed_bootstrap w now repo f False st
           | FR_Terminal \<Rightarrow> park_terminal_bootstrap w now repo f st)"

definition run_catalog_scan ::
    "boot_world \<Rightarrow> datetime \<Rightarrow> repo_object \<Rightarrow> int \<Rightarrow> boot_state \<Rightarrow> (kube_error + unit) \<times> boot_state" where
  "run_catalog_scan w now repo total_snapshot_count st =
     (if bw_scan_ok w
      then (Inr (), st\<lparr>bs_status := (bs_status st)\<lparr>rs_last_refresh_at := Some (bw_to_rfc3339 w now),
          rs_scan_request_honored := or_else (re_scan_token repo) (rs_scan_request_honored (bs_status st)),
          rs_storage_stats := Some ((unwrap_or (rs_storage_stats (bs_status st))
            \<lparr>st_snapshot_count = None, st_index_blob_count = None, st_index_blob_count_at = None\<rparr>)
            \<lparr>st_snapshot_count := Some total_snapshot_count\<rparr>)\<rparr>\<rparr>)
      else (Inl Kube_Error, st))"

text \<open>The status a successful result is folded into, and the rest of the pass.\<close>

definition success_status ::
    "boot_world \<Rightarrow> datetime \<Rightarrow> repo_object \<Rightarrow> boot_result \<Rightarrow> bool \<Rightarrow> string \<Rightarrow> repo_status \<Rightarrow> repo_status" where
  "success_status w now repo r probe_run observed_at s =
     (let gen = re_generation repo;
          now_str = bw_to_rfc3339 w now;
          conds = bootstrap_condition now repo (rs_conditions s) True ''Bootstrapped'';
          prior = prior_index_blob_observation (rs_storage_stats s);
          (conds, stats) = (case bt_index_blob_count r of
              None \<Rightarrow> (conds, rs_storage_stats s)
            | Some n \<Rightarrow>
                (fst (reconcile_index_blob_health now conds n (resolve_index_blob_warn_threshold (re_health repo)) gen),
                 merge_index_blobs (Some \<lparr>io_count = n, io_observed_at =
                   Some (index_blob_count_stamp (map_option fst prior) (Option.bind prior snd) n observed_at)\<rparr>)
                   (rs_storage_stats s)));
          (conds, health) = (case success_fold probe_run (rs_health s) (backend_reachable_true (rs_conditions s)) of
              None \<Rightarrow> (conds, rs_health s)
            | Some _ \<Rightarrow> (pu_conditions (reconcile_probe_success now conds now_str gen),
                Some (probe_success_health_patch now_str (rs_health s))));
          unique_id = (if probe_run \<and> rs_unique_id s \<noteq> None then rs_unique_id s else bt_unique_id r);
          conds = fold_mass_deletion w now repo conds;
          (conds, seed) = (case bt_seed r of
              None \<Rightarrow> (drop_seed_condition conds, rs_seed s)
            | Some performed \<Rightarrow>
                (upsert_condition now conds SEEDED_CONDITION True (if performed then ''Seeded'' else ''AlreadyInitialized'') gen,
                 Some \<lparr>se_started_at = Option.bind (rs_seed s) se_started_at,
                   se_seeded_at = (if performed
                     then Some (unwrap_or (Option.bind (rs_seed s) se_seeded_at) now_str)
                     else Option.bind (rs_seed s) se_seeded_at)\<rparr>));
          conds = set_ready now conds gen (ready_outcome_for_phase RP_Ready) ''Bootstrapped''
      in s\<lparr>rs_phase := Some RP_Ready, rs_unique_id := unique_id, rs_observed_generation := gen,
           rs_storage_stats := stats, rs_health := health, rs_seed := seed, rs_conditions := conds\<rparr>)"

definition finalize_success ::
    "boot_world \<Rightarrow> datetime \<Rightarrow> repo_object \<Rightarrow> boot_result \<Rightarrow> bool \<Rightarrow> string \<Rightarrow> boot_state \<Rightarrow> boot_reply" where
  "finalize_success w now repo r probe_run observed_at st =
     (let clock = scan_clock_of repo (bs_status st)
      in patch_status w 0 (success_status w now repo r probe_run observed_at) st (\<lambda>st.
           let (scanned, st) = (case bt_snapshot_count r of
                 Some n \<Rightarrow> if scan_due (bw_rfc3339 w) clock now then run_catalog_scan w now repo n st else (Inr (), st)
               | None \<Rightarrow> (Inr (), st));
               st = ensure_repo_maintenance w now repo st
           in case scanned of
                Inl e \<Rightarrow> (Inl e, st)
              | Inr _ \<Rightarrow>
                  if probe_run
                  then delete_mover_run w st (\<lambda>st. (Inr (probe_aware_reconcile_interval repo), st))
                  else (Inr (probe_aware_reconcile_interval repo), st)))"

definition finalize_bootstrap ::
    "boot_world \<Rightarrow> datetime \<Rightarrow> repo_object \<Rightarrow> mover_job_terminal \<Rightarrow> int \<Rightarrow> bool \<Rightarrow> bool \<Rightarrow> string \<Rightarrow> boot_state \<Rightarrow>
     boot_reply" where
  "finalize_bootstrap w now repo terminal job_deadline_secs probe_run armed observed_at st =
     (if \<not> bw_result_ok w then (Inl Kube_Error, st)
      else case bootstrap_outcome (bs_result st) terminal armed job_deadline_secs of
             BO_ResultPending \<Rightarrow> requeue 5 st
           | BO_Failed f \<Rightarrow> finalize_bootstrap_failure w now repo f probe_run st
           | BO_Succeeded r \<Rightarrow> finalize_success w now repo r probe_run observed_at st)"

subsection \<open>One pass\<close>

record boot_pass =
  ps_reverify :: bool
  ps_already_ready :: bool
  ps_launch_ack :: "string option"
  ps_requested :: bool
  ps_create :: effective_create
  ps_seed :: reinit_seed_plan
  ps_deadline :: int
  ps_probe :: probe_action
  ps_spec_changed :: bool
  ps_probe_run :: bool
  ps_probe_style_launch :: bool

definition boot_pass :: "boot_world \<Rightarrow> datetime \<Rightarrow> repo_object \<Rightarrow> repo_status \<Rightarrow> boot_pass" where
  "boot_pass w now repo s =
     (let ready = (rs_phase s = Some RP_Ready);
          reverify = reverify_due (re_reverify_token repo) (rs_last_reverify_at s) ready;
          bootstrapped_before = (rs_unique_id s \<noteq> None);
          gate = create_gate (create_enabled (re_create repo)) (rs_unique_id s) (re_reinit_ack repo);
          launch_ack = valid_reinit_ack gate (rs_unique_id s);
          requested = reinit_requested ready (launch_ack \<noteq> None) (reinit_ack_arming (rs_conditions s));
          enabled = probe_enabled (re_health repo);
          deadline = escalated_bootstrap_deadline (bootstrap_deadline_seconds (re_active_deadline_seconds repo))
            (timeout_streak (rs_conditions s)
              (unwrap_or (Option.bind (rs_health s) hs_consecutive_probe_failures) 0));
          probe = probe_action (bw_rfc3339 w) ready bootstrapped_before enabled
            (Option.bind (rs_health s) hs_last_probe_at) (Option.bind (rs_health s) hs_probe_attempt_at)
            (effective_probe_interval (re_health repo)) (probe_attempt_timeout deadline) now;
          spec_changed = (re_generation repo \<noteq> rs_observed_generation s)
      in \<lparr>ps_reverify = reverify, ps_already_ready = ready, ps_launch_ack = launch_ack, ps_requested = requested,
          ps_create = effective_create gate requested,
          ps_seed = reinit_seed_plan (re_seed repo) (rs_unique_id s) (rs_seed s) requested,
          ps_deadline = deadline, ps_probe = probe, ps_spec_changed = spec_changed,
          ps_probe_run = (probe_awaits_result probe \<and> \<not> spec_changed \<and> \<not> reverify),
          ps_probe_style_launch = (enabled \<and> bootstrapped_before \<and> ready \<and> \<not> reverify \<and> \<not> spec_changed)\<rparr>)"

definition SEED_FAILURE_REASONS :: "string list" where
  "SEED_FAILURE_REASONS = [''SeedSourceNotFound'', ''SeedSourceEmpty'', ''SeedIncomplete'', ''SeedLeftEmpty'',
     ''MoverImageTooOldForSeed'']"

definition seed_failure_recorded :: "condition list \<Rightarrow> bool" where
  "seed_failure_recorded cs = list_ex (\<lambda>c. c_type c = SEEDED_CONDITION \<and> c_status c = ''False'' \<and>
     c_reason c \<in> set SEED_FAILURE_REASONS) cs"

definition write_seeding_condition ::
    "boot_world \<Rightarrow> datetime \<Rightarrow> repo_object \<Rightarrow> boot_state \<Rightarrow> (boot_state \<Rightarrow> boot_reply) \<Rightarrow> boot_reply" where
  "write_seeding_condition w now repo st k =
     (if re_seed repo = None \<or> seed_failure_recorded (rs_conditions (bs_status st)) then k st
      else patch_status w 1 (\<lambda>s. s\<lparr>rs_conditions :=
             upsert_condition now (rs_conditions s) SEEDED_CONDITION False ''Seeding'' (re_generation repo)\<rparr>) st k)"

definition pass_with_job ::
    "boot_world \<Rightarrow> datetime \<Rightarrow> repo_object \<Rightarrow> boot_pass \<Rightarrow> boot_job \<Rightarrow> boot_state \<Rightarrow> boot_reply" where
  "pass_with_job w now repo ps job st =
     (if jb_terminal job \<noteq> None \<and>
         stale_bootstrap_job (jb_generation job) (re_generation repo) (jb_reinit_ack job) (ps_launch_ack ps)
      then delete_mover_run w st (requeue 5)
      else case jb_terminal job of
             None \<Rightarrow>
               (let poll = (\<lambda>st. if rsp_armed (ps_seed ps) then write_seeding_condition w now repo st (requeue 15)
                                 else requeue 15 st)
                in if ps_already_ready ps then poll st
                   else patch_status w 0 (\<lambda>s. s\<lparr>rs_phase := Some (launch_phase (rs_phase s))\<rparr>) st poll)
           | Some terminal \<Rightarrow>
               if ps_reverify ps \<or> probe_launches (ps_probe ps) \<or>
                  bootstrap_recycle_due (bw_rfc3339 w) (ps_already_ready ps) (scan_clock_of repo (bs_status st))
                    (jb_completed_at job) now
               then delete_mover_run w st (requeue 5)
               else finalize_bootstrap w now repo terminal
                 (unwrap_or (jb_deadline job) (bootstrap_deadline_seconds (re_active_deadline_seconds repo)))
                 (ps_probe_run ps) (rsp_armed (ps_seed ps))
                 (unwrap_or (jb_completed_at job) (bw_to_rfc3339 w now)) st)"

definition steady_pass :: "boot_world \<Rightarrow> datetime \<Rightarrow> repo_object \<Rightarrow> boot_state \<Rightarrow> boot_reply" where
  "steady_pass w now repo st =
     (let fold = fold_index_blob_recount (bw_rfc3339 w) now
            (fold_mass_deletion w now repo (rs_conditions (bs_status st))) (rs_storage_stats (bs_status st))
            (bw_recount w) (resolve_index_blob_warn_threshold (re_health repo)) (re_generation repo)
      in patch_status w 0 (\<lambda>s. s\<lparr>rs_conditions := ir_conditions fold,
             rs_storage_stats := merge_index_blobs (ir_storage_stats fold) (rs_storage_stats s)\<rparr>) st
           (\<lambda>st. (Inr (probe_aware_reconcile_interval repo), ensure_repo_maintenance w now repo st)))"

definition park_on_seed_source ::
    "boot_world \<Rightarrow> datetime \<Rightarrow> repo_object \<Rightarrow> seed_gate \<Rightarrow> boot_state \<Rightarrow> boot_reply" where
  "park_on_seed_source w now repo gate st =
     patch_status w 0 (\<lambda>s. s\<lparr>rs_phase := Some RP_Pending, rs_conditions :=
         set_ready now
           (upsert_condition now (rs_conditions s) SEEDED_CONDITION False (gate_reason gate) (re_generation repo))
           (re_generation repo) Reconciling (gate_reason gate)\<rparr>) st (requeue 15)"

definition bootstrap_work_spec :: "repo_object \<Rightarrow> repo_status \<Rightarrow> boot_pass \<Rightarrow> bool \<Rightarrow> boot_op" where
  "bootstrap_work_spec repo s ps catalog_create_due =
     \<lparr>op_auto_create = ec_allowed (ps_create ps), op_create_block = ec_block (ps_create ps),
      op_pinned_unique_id = rs_unique_id s, op_via_reinit_ack = ec_via_reinit_ack (ps_create ps),
      op_probe_only = (ps_probe_style_launch ps \<and> \<not> catalog_create_due),
      op_seed = (if rsp_armed (ps_seed ps)
        then map_option (\<lambda>sd. \<lparr>so_resume = rsp_resume (ps_seed ps), so_allow_empty_source = sd_allow_empty_source sd\<rparr>)
          (re_seed repo)
        else None)\<rparr>"

text \<open>
  A launch: the marker of a seed is written before the Job exists, the launch stamps after it. Of a
  seeding Job's own deadline only its presence is kept.
\<close>

definition launch_stamps :: "repo_object \<Rightarrow> boot_pass \<Rightarrow> bool \<Rightarrow> string \<Rightarrow> repo_status \<Rightarrow> repo_status" where
  "launch_stamps repo ps token_driven now_str s = s\<lparr>
     rs_phase := (if ps_probe_style_launch ps then rs_phase s else Some (launch_phase (rs_phase s))),
     rs_last_reverify_at := or_else (re_reverify_token repo) (rs_last_reverify_at s),
     rs_health := (if probe_enabled (re_health repo) \<or> Option.bind (rs_health s) hs_probe_attempt_at \<noteq> None
       then Some (probe_attempt_health_patch (if ps_probe_style_launch ps then Some now_str else None) (rs_health s))
       else rs_health s),
     rs_scan_request_attempt_at := (if token_driven then Some now_str else rs_scan_request_attempt_at s)\<rparr>"

definition launch_job ::
    "boot_world \<Rightarrow> datetime \<Rightarrow> repo_object \<Rightarrow> boot_pass \<Rightarrow> bool \<Rightarrow> int option \<Rightarrow> boot_state \<Rightarrow> boot_reply" where
  "launch_job w now repo ps catalog_create_due seed_deadline st =
     (let s = bs_status st;
          now_str = bw_to_rfc3339 w now;
          armed = rsp_armed (ps_seed ps);
          op = bootstrap_work_spec repo s ps catalog_create_due;
          job = \<lparr>jb_generation = map_option show_i64 (re_generation repo), jb_reinit_ack = ps_launch_ack ps,
            jb_op = op, jb_deadline = (if armed then seed_deadline else Some (ps_deadline ps)),
            jb_terminal = None, jb_completed_at = None\<rparr>;
          token_driven = scan_requested_due (bw_rfc3339 w) (re_scan_token repo) (rs_scan_request_honored s)
            (rs_scan_request_attempt_at s) DEFAULT_CATALOG_REFRESH_INTERVAL now;
          clear = (\<lambda>st k. if rsp_clear_status (ps_seed ps)
            then patch_status w 0 (\<lambda>s. s\<lparr>rs_seed := None\<rparr>) st k else k st);
          mark = (\<lambda>st k. if armed
            then case seed_marker_patch (if rsp_clear_status (ps_seed ps) then None else rs_seed s)
                     (bw_seed_same_source w) now_str of
                   Some started \<Rightarrow>
                     patch_status w 1 (\<lambda>s. s\<lparr>rs_seed := merge_seed_marker started (rs_seed s)\<rparr>) st k
                 | None \<Rightarrow> k st
            else k st)
      in clear st (\<lambda>st. mark st (\<lambda>st.
           if \<not> bw_apply_job_ok w then (Inl Kube_Error, st)
           else patch_status w 2 (launch_stamps repo ps token_driven now_str)
             (st\<lparr>bs_job := Some job\<rparr>) (requeue 15))))"

definition pass_without_job ::
    "boot_world \<Rightarrow> datetime \<Rightarrow> repo_object \<Rightarrow> boot_pass \<Rightarrow> int option \<Rightarrow> boot_state \<Rightarrow> boot_reply" where
  "pass_without_job w now repo ps seed_deadline st =
     (let s = bs_status st;
          create_due = bootstrap_create_due (bw_rfc3339 w) (ps_already_ready ps) (scan_clock_of repo s) now;
          holdoff = strict_retry_holdoff (bw_rfc3339 w) (rs_phase s = Some RP_Degraded)
            (unwrap_or (Option.bind (rs_health s) hs_consecutive_probe_failures) 0)
            (Option.bind (rs_health s) hs_last_probe_at) now
      in if \<not> (ps_reverify ps \<or> probe_launches (ps_probe ps) \<or> create_due) then steady_pass w now repo st
         else case (if ps_spec_changed ps then None else holdoff) of
                Some remaining \<Rightarrow> (Inr remaining, st)
              | None \<Rightarrow>
                  if \<not> bw_legacy_cleared w then requeue 5 st
                  else if \<not> bw_ca_ok w then (Inl Kube_Error, st)
                  else case (if rsp_armed (ps_seed ps) then bw_seed_gate w else None) of
                         Some gate \<Rightarrow> park_on_seed_source w now repo gate st
                       | None \<Rightarrow>
                           if \<not> bw_launch_ok w then (Inl Kube_Error, st)
                           else launch_job w now repo ps create_due seed_deadline st)"

definition bootstrap_via_mover ::
    "boot_world \<Rightarrow> datetime \<Rightarrow> repo_object \<Rightarrow> int option \<Rightarrow> boot_state \<Rightarrow> boot_reply" where
  "bootstrap_via_mover w now repo seed_deadline st =
     (let ps = boot_pass w now repo (bs_status st)
      in if \<not> bw_get_ok w then (Inl Kube_Error, st)
         else case bs_job st of
                Some job \<Rightarrow> pass_with_job w now repo ps job st
              | None \<Rightarrow> pass_without_job w now repo ps seed_deadline st)"

text \<open>The reconcile, for a repository whose backend movers serve: a suspended one only says so.\<close>

definition repository_reconcile ::
    "boot_world \<Rightarrow> datetime \<Rightarrow> repo_object \<Rightarrow> int option \<Rightarrow> boot_state \<Rightarrow> boot_reply" where
  "repository_reconcile w now repo seed_deadline st =
     (if re_suspend repo
      then patch_status w 0 (\<lambda>s. s\<lparr>rs_observed_generation := re_generation repo,
             rs_conditions := set_ready now (rs_conditions s) (re_generation repo) Reconciling ''Suspended''\<rparr>) st
             (requeue 300)
      else bootstrap_via_mover w now repo seed_deadline st)"

subsection \<open>Histories\<close>

text \<open>
  A repository's life: edits of the object, reconcile passes on the stored state, runs of the Job's
  pods (a pod may die before it writes its result, and a Job may run several), the end of a Job and
  its removal by the cluster. The log records every run whose connect was answered by a backend
  that holds no repository, with the id that was pinned when its Job was launched.
\<close>

record boot_sys =
  by_repo :: repo_object
  by_st :: boot_state
  by_seen_empty :: "string option list"

definition answers_empty :: "kopia_answers \<Rightarrow> bool" where
  "answers_empty a \<longleftrightarrow> ka_connect a = Some (KE_NotFound, True)"

inductive boot_step :: "boot_sys \<Rightarrow> boot_sys \<Rightarrow> bool" where
  edit: "boot_step y (y\<lparr>by_repo := repo\<rparr>)"
| pass: "repository_reconcile w now (by_repo y) seed_deadline (by_st y) = (reply, st) \<Longrightarrow>
    boot_step y (y\<lparr>by_st := st\<rparr>)"
| pod: "bs_job (by_st y) = Some j \<Longrightarrow> jb_terminal j = None \<Longrightarrow>
    result = bs_result (by_st y) \<or> result = Some (run_bootstrap (jb_op j) a) \<Longrightarrow>
    boot_step y (y\<lparr>by_st := (by_st y)\<lparr>bs_result := result\<rparr>,
      by_seen_empty := (if answers_empty a then [op_pinned_unique_id (jb_op j)] else []) @ by_seen_empty y\<rparr>)"
| job_ends: "bs_job (by_st y) = Some j \<Longrightarrow> jb_terminal j = None \<Longrightarrow>
    boot_step y (y\<lparr>by_st := (by_st y)\<lparr>bs_job := Some (j\<lparr>jb_terminal := Some t, jb_completed_at := at\<rparr>)\<rparr>\<rparr>)"
| job_reaped: "bs_job (by_st y) = Some j \<Longrightarrow> jb_terminal j \<noteq> None \<Longrightarrow>
    boot_step y (y\<lparr>by_st := (by_st y)\<lparr>bs_job := None\<rparr>\<rparr>)"

definition new_status :: repo_status where
  "new_status = \<lparr>rs_phase = None, rs_unique_id = None, rs_observed_generation = None, rs_conditions = [],
     rs_health = None, rs_storage_stats = None, rs_seed = None, rs_last_reverify_at = None,
     rs_last_refresh_at = None, rs_scan_request_honored = None, rs_scan_request_attempt_at = None\<rparr>"

definition boot_init :: "boot_sys \<Rightarrow> bool" where
  "boot_init y \<longleftrightarrow> by_st y = \<lparr>bs_status = new_status, bs_job = None, bs_result = None\<rparr> \<and> by_seen_empty y = []"

subsection \<open>What a pass does to the verdict\<close>

definition cond_view :: "string \<Rightarrow> condition list \<Rightarrow> (string \<times> string) option" where
  "cond_view t cs = map_option (\<lambda>c. (c_status c, c_reason c)) (condition_of t cs)"

lemma reason_of_view: "reason_of t cs = map_option snd (cond_view t cs)"
  by (simp add: reason_of_def cond_view_def option.map_comp comp_def)

lemma cond_view_upsert_status [simp]:
  "cond_view t (upsert_condition_status now cs t' st r g) = (if t = t' then Some (st, r) else cond_view t cs)"
  by (simp add: cond_view_def upsert_condition_status_def Let_def)

lemma cond_view_upsert [simp]:
  "cond_view t (upsert_condition now cs t' b r g) =
     (if t = t' then Some (if b then ''True'' else ''False'', r) else cond_view t cs)"
  by (simp add: upsert_condition_def)

lemma cond_view_filter [simp]:
  "t \<noteq> t' \<Longrightarrow> cond_view t (filter (\<lambda>c. c_type c \<noteq> t') cs) = cond_view t cs"
  unfolding cond_view_def by (induction cs) auto

lemmas more_names = condition_names SEEDED_CONDITION_def MASS_DELETION_HELD_CONDITION_def
  MAINTENANCE_CONFIGURED_CONDITION_def

text \<open>The three conditions a verdict lives on.\<close>

definition verdict_types :: "string set" where
  "verdict_types = {READY_CONDITION, REPOSITORY_BOOTSTRAPPED_CONDITION, BACKEND_REACHABLE_CONDITION}"

lemma cond_view_set_ready:
  "t \<in> verdict_types \<Longrightarrow> cond_view t (set_ready now cs g oc r) =
     (if t = READY_CONDITION then Some (if oc = Ready then ''True'' else ''False'', r) else cond_view t cs)"
  by (cases oc) (auto simp: set_ready_def verdict_types_def more_names)

lemma cond_view_other:
  assumes "t \<in> verdict_types"
  shows "cond_view t (drop_seed_condition cs) = cond_view t cs"
    and "cond_view t (seed_condition_fold now g f cs) = cond_view t cs"
    and "cond_view t (fold_mass_deletion w now repo cs) = cond_view t cs"
    and "cond_view t (upsert_condition now cs SEEDED_CONDITION b r g) = cond_view t cs"
    and "cond_view t (upsert_condition_status now cs MAINTENANCE_CONFIGURED_CONDITION st r g) = cond_view t cs"
    and "cond_view t (fst (reconcile_index_blob_health now cs n thr g)) = cond_view t cs"
proof -
  have t: "t \<noteq> SEEDED_CONDITION" "t \<noteq> MASS_DELETION_HELD_CONDITION" "t \<noteq> MAINTENANCE_CONFIGURED_CONDITION"
    "t \<noteq> INDEX_BLOB_HEALTH_CONDITION"
    using assms by (auto simp: verdict_types_def more_names)
  show "cond_view t (drop_seed_condition cs) = cond_view t cs"
    using t by (simp add: drop_seed_condition_def)
  then show "cond_view t (seed_condition_fold now g f cs) = cond_view t cs"
    using t by (simp add: seed_condition_fold_def split: option.split)
  show "cond_view t (fold_mass_deletion w now repo cs) = cond_view t cs"
    using t by (simp add: fold_mass_deletion_def split: option.split)
  show "cond_view t (upsert_condition now cs SEEDED_CONDITION b r g) = cond_view t cs"
    and "cond_view t (upsert_condition_status now cs MAINTENANCE_CONFIGURED_CONDITION st r g) = cond_view t cs"
    using t by simp_all
  show "cond_view t (fst (reconcile_index_blob_health now cs n thr g)) = cond_view t cs"
    using t by (simp add: reconcile_index_blob_health_def Let_def split: index_blob_health.split)
qed

lemma verdict_typesI [simp]:
  "READY_CONDITION \<in> verdict_types" "REPOSITORY_BOOTSTRAPPED_CONDITION \<in> verdict_types"
  "BACKEND_REACHABLE_CONDITION \<in> verdict_types"
  by (simp_all add: verdict_types_def)

lemma verdict_names [simp]:
  "READY_CONDITION \<noteq> REPOSITORY_BOOTSTRAPPED_CONDITION" "REPOSITORY_BOOTSTRAPPED_CONDITION \<noteq> READY_CONDITION"
  "READY_CONDITION \<noteq> BACKEND_REACHABLE_CONDITION" "BACKEND_REACHABLE_CONDITION \<noteq> READY_CONDITION"
  "REPOSITORY_BOOTSTRAPPED_CONDITION \<noteq> BACKEND_REACHABLE_CONDITION"
  "BACKEND_REACHABLE_CONDITION \<noteq> REPOSITORY_BOOTSTRAPPED_CONDITION"
  by (simp_all add: more_names)

lemma other_names [simp]:
  "SEEDED_CONDITION \<notin> verdict_types" "MAINTENANCE_CONFIGURED_CONDITION \<notin> verdict_types"
  "READY_CONDITION \<noteq> SEEDED_CONDITION" "REPOSITORY_BOOTSTRAPPED_CONDITION \<noteq> SEEDED_CONDITION"
  "BACKEND_REACHABLE_CONDITION \<noteq> SEEDED_CONDITION"
  by (simp_all add: more_names verdict_types_def)

lemmas cond_view_verdict = cond_view_set_ready cond_view_other bootstrap_condition_def

definition vanished_is_false :: "condition list \<Rightarrow> bool" where
  "vanished_is_false cs \<longleftrightarrow> cond_view BACKEND_REACHABLE_CONDITION cs \<noteq> Some (''True'', REPOSITORY_VANISHED_REASON)"

text \<open>A status change that keeps the pinned id and raises no verdict but one that was earned.\<close>

definition change_ok :: "string option list \<Rightarrow> repo_status \<Rightarrow> repo_status \<Rightarrow> bool" where
  "change_ok seen s s' \<longleftrightarrow> rs_unique_id s' = rs_unique_id s \<and>
     (wipe_verdict (rs_conditions s') \<longrightarrow> wipe_verdict (rs_conditions s) \<or> rs_unique_id s \<in> set seen) \<and>
     (vanished_is_false (rs_conditions s) \<longrightarrow> vanished_is_false (rs_conditions s'))"

lemma change_ok_views:
  assumes "rs_unique_id s' = rs_unique_id s"
    and "\<And>t. t \<in> verdict_types \<Longrightarrow> cond_view t (rs_conditions s') = cond_view t (rs_conditions s)"
  shows "change_ok seen s s'"
  using assms by (simp add: change_ok_def wipe_verdict_iff vanished_is_false_def reason_of_view)

text \<open>
  Changes that write only \<open>Ready\<close> and \<open>Bootstrapped\<close>, and that reason only if it was earned.
\<close>

lemma change_ok_ready:
  assumes "rs_unique_id s' = rs_unique_id s"
    and "cond_view BACKEND_REACHABLE_CONDITION (rs_conditions s') = cond_view BACKEND_REACHABLE_CONDITION (rs_conditions s)"
    and "\<And>t. t = READY_CONDITION \<or> t = REPOSITORY_BOOTSTRAPPED_CONDITION \<Longrightarrow>
      reason_of t (rs_conditions s') = Some REPOSITORY_REINITIALIZE_BLOCKED_REASON \<Longrightarrow>
      reason_of t (rs_conditions s) = Some REPOSITORY_REINITIALIZE_BLOCKED_REASON \<or> rs_unique_id s \<in> set seen"
  shows "change_ok seen s s'"
proof -
  have "reason_of BACKEND_REACHABLE_CONDITION (rs_conditions s') = reason_of BACKEND_REACHABLE_CONDITION (rs_conditions s)"
    using assms(2) by (simp add: reason_of_view)
  then show ?thesis
    using assms(1,2) assms(3) [of READY_CONDITION] assms(3) [of REPOSITORY_BOOTSTRAPPED_CONDITION]
    unfolding change_ok_def wipe_verdict_iff vanished_is_false_def by auto
qed

definition absent_result :: "boot_result \<Rightarrow> bool" where
  "absent_result r \<longleftrightarrow> \<not> bt_success r \<and>
     bt_failure r \<in> {Some REPOSITORY_NOT_INITIALIZED_CLASS, Some REPOSITORY_REINITIALIZE_BLOCKED_CLASS}"

text \<open>
  The invariant: a running Job was launched for the pinned id; a Job that may initialise a backend
  under a pin carries the acknowledgement of that pin, and an absent repository was seen under it; a
  result and a verdict that say the repository is gone were earned under the pinned id.
\<close>

definition job_licensed :: "string option list \<Rightarrow> boot_job \<Rightarrow> bool" where
  "job_licensed seen j \<longleftrightarrow>
     (\<forall>u. op_pinned_unique_id (jb_op j) = Some u \<longrightarrow> u \<noteq> [] \<longrightarrow> op_auto_create (jb_op j) \<or> op_seed (jb_op j) \<noteq> None \<longrightarrow>
        jb_reinit_ack j = Some u \<and> Some u \<in> set seen \<and> (op_auto_create (jb_op j) \<longrightarrow> op_via_reinit_ack (jb_op j)) \<and>
        \<not> is_some_and so_resume (op_seed (jb_op j)))"

definition boot_ok :: "string option list \<Rightarrow> boot_state \<Rightarrow> bool" where
  "boot_ok seen st \<longleftrightarrow>
     (\<forall>j. bs_job st = Some j \<longrightarrow> job_licensed seen j \<and>
        (jb_terminal j = None \<longrightarrow> op_pinned_unique_id (jb_op j) = rs_unique_id (bs_status st))) \<and>
     (\<forall>r. bs_result st = Some r \<longrightarrow> absent_result r \<longrightarrow> rs_unique_id (bs_status st) \<in> set seen) \<and>
     (wipe_verdict (rs_conditions (bs_status st)) \<longrightarrow> rs_unique_id (bs_status st) \<in> set seen) \<and>
     vanished_is_false (rs_conditions (bs_status st))"

lemma boot_ok_change:
  assumes "boot_ok seen st" and "change_ok seen (bs_status st) s'"
  shows "boot_ok seen (st\<lparr>bs_status := s'\<rparr>)"
  using assms by (auto simp: boot_ok_def change_ok_def)

lemma boot_ok_delete:
  assumes "boot_ok seen st"
  shows "boot_ok seen (st\<lparr>bs_job := None\<rparr>)" "boot_ok seen (st\<lparr>bs_job := None, bs_result := None\<rparr>)"
  using assms by (auto simp: boot_ok_def)

lemma boot_ok_patch:
  assumes "boot_ok seen st" and "change_ok seen (bs_status st) (patch (bs_status st))"
    and "\<And>st. boot_ok seen st \<Longrightarrow> boot_ok seen (snd (k st))"
  shows "boot_ok seen (snd (patch_status w n patch st k))"
  using assms(1) assms(3) [OF boot_ok_change [OF assms(1,2)]] by (simp add: patch_status_def)

lemma boot_ok_delete_run:
  assumes "boot_ok seen st" and "boot_ok seen (snd (k (st\<lparr>bs_job := None, bs_result := None\<rparr>)))"
  shows "boot_ok seen (snd (delete_mover_run w st k))"
  using assms boot_ok_delete [of seen st] by (simp add: delete_mover_run_def split: delete_reply.split)

lemma snd_requeue [simp]: "snd (requeue n st) = st"
  by (simp add: requeue_def)

lemma class_label_not_absent [simp]:
  "class_as_str c \<noteq> REPOSITORY_NOT_INITIALIZED_CLASS" "class_as_str c \<noteq> REPOSITORY_REINITIALIZE_BLOCKED_CLASS"
  by (cases c; simp add: class_as_str_def REPOSITORY_NOT_INITIALIZED_CLASS_def
      REPOSITORY_REINITIALIZE_BLOCKED_CLASS_def)+

lemma seed_label_not_absent [simp]:
  "seed_failure_reason f \<noteq> REPOSITORY_NOT_INITIALIZED_CLASS"
  "seed_failure_reason f \<noteq> REPOSITORY_REINITIALIZE_BLOCKED_CLASS"
  by (cases f; simp add: seed_failure_reason_def REPOSITORY_NOT_INITIALIZED_CLASS_def
      REPOSITORY_REINITIALIZE_BLOCKED_CLASS_def)+

lemma not_absent_results [simp]:
  "\<not> absent_result (result_failed c)" "\<not> absent_result (with_failure (seed_failure_reason f))"
  by (simp_all add: absent_result_def result_failed_def with_failure_def)

lemma report_not_absent [simp]: "\<not> absent_result (report_repository op a created outcome)"
  by (auto simp: report_repository_def Let_def absent_result_def result_failed_def with_failure_def split: sum.split)

lemma run_absent_seen:
  assumes "absent_result (run_bootstrap op a)"
  shows "answers_empty a"
proof (cases "ka_connect a")
  case None
  then have "\<not> absent_result (run_bootstrap op a)"
    by (cases "op_init_action op a"; cases "ka_throttle a"; cases "ka_seed a"; cases "the (ka_seed a)")
       (auto simp: run_bootstrap_def Let_def split: option.split)
  with assms show ?thesis by simp
next
  case (Some p)
  show ?thesis
  proof (cases "op_init_action op a")
    case BI_Fail
    with Some assms have "absent_result (bootstrap_declined op (fst p) (snd p))"
      by (simp add: run_bootstrap_def Let_def case_prod_beta)
    then have "fst p = KE_NotFound \<and> snd p"
      by (auto simp: bootstrap_declined_def split: if_splits)
    with Some show ?thesis by (cases p) (simp add: answers_empty_def)
  qed (use Some assms in \<open>auto simp: run_bootstrap_def Let_def split: option.splits mover_failure.splits\<close>)
qed

lemma outcome_absent:
  assumes "bootstrap_outcome res t armed d = BO_Failed f" and "is_repository_absent f"
  shows "\<exists>r. res = Some r \<and> absent_result r"
  using assms by (auto simp: bootstrap_outcome_def is_repository_absent_def absent_result_def
      split: option.splits mover_job_terminal.splits bool.splits if_splits)

lemma outcome_succeeded: "bootstrap_outcome res t armed d = BO_Succeeded r \<Longrightarrow> res = Some r \<and> bt_success r"
  by (auto simp: bootstrap_outcome_def split: option.splits mover_job_terminal.splits bool.splits if_splits)

lemma blocked_reason_absent:
  "failure_reason f = REPOSITORY_REINITIALIZE_BLOCKED_REASON \<Longrightarrow> is_repository_absent f"
  by (cases f)
     (auto simp: failure_reason_def is_repository_absent_def class_as_str_def seed_failure_reason_def condition_reasons
       split: kopia_error_class.splits seed_failure.splits)

lemma vanished_kind_absent: "breaker_reason (probe_failure_kind f) = REPOSITORY_VANISHED_REASON \<longleftrightarrow> is_repository_absent f"
  by (cases f) (simp_all add: breaker_reason_def probe_failure_kind_def is_repository_absent_def condition_reasons)

lemma plain_reasons [simp]:
  "breaker_reason k \<noteq> REPOSITORY_REINITIALIZE_BLOCKED_REASON"
  "''Bootstrapped'' \<noteq> REPOSITORY_REINITIALIZE_BLOCKED_REASON"
  "pp_ready_reason (probe_failure_phase v k d) \<noteq> REPOSITORY_REINITIALIZE_BLOCKED_REASON"
  by (cases k; cases v; simp add: breaker_reason_def probe_failure_phase_def condition_reasons)+

lemma probe_failure_views:
  "cond_view t (pu_conditions (reconcile_probe_failure now cs prior kind thr ns g)) =
     (if t = BACKEND_REACHABLE_CONDITION \<and>
         \<not> unwrap_or (hs_consecutive_probe_failures (failure_streak_health prior ns)) 1 < max 1 thr
      then Some (''False'', breaker_reason kind) else cond_view t cs)"
  by (simp add: reconcile_probe_failure_def Let_def)

text \<open>The sensor's fold, with the conditions its callers layer on top.\<close>

lemma change_ok_sensor:
  assumes "is_repository_absent f \<longrightarrow> rs_unique_id s \<in> set seen" and "rs_unique_id s' = rs_unique_id s"
    and "cond_view BACKEND_REACHABLE_CONDITION (rs_conditions s') =
      cond_view BACKEND_REACHABLE_CONDITION (pu_conditions (reconcile_probe_failure now (rs_conditions s) prior
        (probe_failure_kind f) thr ns g))"
    and "\<And>t. t = READY_CONDITION \<or> t = REPOSITORY_BOOTSTRAPPED_CONDITION \<Longrightarrow>
      reason_of t (rs_conditions s') = Some REPOSITORY_REINITIALIZE_BLOCKED_REASON \<Longrightarrow>
      reason_of t (rs_conditions s) = Some REPOSITORY_REINITIALIZE_BLOCKED_REASON \<or> rs_unique_id s \<in> set seen"
  shows "change_ok seen s s'"
proof -
  have "reason_of BACKEND_REACHABLE_CONDITION (rs_conditions s') = Some REPOSITORY_VANISHED_REASON \<Longrightarrow>
      reason_of BACKEND_REACHABLE_CONDITION (rs_conditions s) = Some REPOSITORY_VANISHED_REASON \<or> rs_unique_id s \<in> set seen"
    using assms(1,3) by (auto simp: reason_of_view probe_failure_views vanished_kind_absent split: if_splits)
  then show ?thesis
    using assms(2,3) assms(4) [of READY_CONDITION] assms(4) [of REPOSITORY_BOOTSTRAPPED_CONDITION]
    unfolding change_ok_def wipe_verdict_iff vanished_is_false_def probe_failure_views by auto
qed

lemma reason_simps:
  "reason_of READY_CONDITION (set_ready now cs g oc r) = Some r"
  "reason_of REPOSITORY_BOOTSTRAPPED_CONDITION (set_ready now cs g oc r) = reason_of REPOSITORY_BOOTSTRAPPED_CONDITION cs"
  by (simp_all add: reason_of_view cond_view_set_ready)

lemma boot_ok_probe_failure:
  assumes "boot_ok seen st" and "is_repository_absent f \<longrightarrow> rs_unique_id (bs_status st) \<in> set seen"
  shows "boot_ok seen (snd (finalize_probe_failure w now repo f st))"
  unfolding finalize_probe_failure_def Let_def
proof (rule boot_ok_patch [OF assms(1)], goal_cases)
  case 1
  show ?case
    by (rule change_ok_sensor [OF assms(2)])
       (auto simp: cond_view_verdict reason_simps reason_of_view probe_failure_views)
next
  case (2 st)
  then show ?case by (simp add: boot_ok_delete_run boot_ok_delete)
qed

lemma boot_ok_outage:
  assumes "boot_ok seen st" and "is_repository_absent f \<longrightarrow> rs_unique_id (bs_status st) \<in> set seen"
  shows "boot_ok seen (snd (recycle_bootstrap_outage w now repo f st))"
  unfolding recycle_bootstrap_outage_def Let_def
proof (rule boot_ok_delete_run [OF assms(1)], rule boot_ok_patch, goal_cases)
  case 1
  show ?case by (rule boot_ok_delete(2) [OF assms(1)])
next
  case 2
  show ?case
    using assms(2) blocked_reason_absent [of f]
    by (intro change_ok_sensor [where f = f])
       (auto simp: cond_view_verdict reason_simps reason_of_view probe_failure_views split: if_splits)
qed simp

lemma boot_ok_recycle:
  assumes "boot_ok seen st" and "is_repository_absent f \<longrightarrow> rs_unique_id (bs_status st) \<in> set seen"
  shows "boot_ok seen (snd (recycle_failed_bootstrap w now repo f stamp st))"
  unfolding recycle_failed_bootstrap_def Let_def
proof (rule boot_ok_delete_run [OF assms(1)], rule boot_ok_patch, goal_cases)
  case 1
  show ?case by (rule boot_ok_delete(2) [OF assms(1)])
next
  case 2
  show ?case
    using assms(2) blocked_reason_absent [of f]
    by (intro change_ok_ready) (auto simp: cond_view_verdict reason_simps reason_of_view)
qed simp

lemma boot_ok_park:
  assumes "boot_ok seen st" and "is_repository_absent f \<longrightarrow> rs_unique_id (bs_status st) \<in> set seen"
  shows "boot_ok seen (snd (park_terminal_bootstrap w now repo f st))"
  unfolding park_terminal_bootstrap_def Let_def
proof (rule boot_ok_patch [OF assms(1)], goal_cases)
  case 1
  show ?case
    using assms(2) blocked_reason_absent [of f]
    by (intro change_ok_ready) (auto simp: cond_view_verdict reason_simps reason_of_view)
qed simp

lemmas boot_ok_finalizers = boot_ok_probe_failure boot_ok_outage boot_ok_recycle boot_ok_park

lemma boot_ok_failure:
  assumes "boot_ok seen st" and "is_repository_absent f \<longrightarrow> rs_unique_id (bs_status st) \<in> set seen"
  shows "boot_ok seen (snd (finalize_bootstrap_failure w now repo f probe_run st))"
  using boot_ok_finalizers [OF assms]
  by (simp add: finalize_bootstrap_failure_def split: failure_route.split)

lemma backend_reachable_view:
  "backend_reachable_true cs \<longleftrightarrow> (\<exists>r. cond_view BACKEND_REACHABLE_CONDITION cs = Some (''True'', r))"
  by (auto simp: backend_reachable_true_def cond_view_def is_some_and_iff)

lemma probe_success_views:
  "cond_view t (pu_conditions (reconcile_probe_success now cs ns g)) =
     (if t = BACKEND_REACHABLE_CONDITION then Some (''True'', BACKEND_REACHABLE_REASON) else cond_view t cs)"
  by (simp add: reconcile_probe_success_def)

text \<open>The conditions of a success: a health fold, or a condition that is already true.\<close>

lemma success_views:
  fixes w now repo r probe_run at s defines "cs \<equiv> rs_conditions (success_status w now repo r probe_run at s)"
  shows "cond_view READY_CONDITION cs = Some (''True'', ''Bootstrapped'')"
    and "cond_view REPOSITORY_BOOTSTRAPPED_CONDITION cs = Some (''True'', ''Bootstrapped'')"
    and "cond_view BACKEND_REACHABLE_CONDITION cs = Some (''True'', BACKEND_REACHABLE_REASON) \<or>
      cond_view BACKEND_REACHABLE_CONDITION cs = cond_view BACKEND_REACHABLE_CONDITION (rs_conditions s) \<and>
      backend_reachable_true (rs_conditions s)"
proof -
  have "cond_view READY_CONDITION cs = Some (''True'', ''Bootstrapped'') \<and>
      cond_view REPOSITORY_BOOTSTRAPPED_CONDITION cs = Some (''True'', ''Bootstrapped'') \<and>
      cond_view BACKEND_REACHABLE_CONDITION cs =
        (if success_fold probe_run (rs_health s) (backend_reachable_true (rs_conditions s)) = None
         then cond_view BACKEND_REACHABLE_CONDITION (rs_conditions s) else Some (''True'', BACKEND_REACHABLE_REASON))"
    unfolding cs_def success_status_def Let_def
    by (cases "success_fold probe_run (rs_health s) (backend_reachable_true (rs_conditions s))";
        cases "bt_index_blob_count r"; cases "bt_seed r")
       (simp_all add: cond_view_verdict probe_success_views ready_outcome_for_phase_def)
  moreover have "success_fold probe_run (rs_health s) b = None \<Longrightarrow> b" for b
    by (auto simp: success_fold_def split: if_splits)
  ultimately show "cond_view READY_CONDITION cs = Some (''True'', ''Bootstrapped'')"
    and "cond_view REPOSITORY_BOOTSTRAPPED_CONDITION cs = Some (''True'', ''Bootstrapped'')"
    and "cond_view BACKEND_REACHABLE_CONDITION cs = Some (''True'', BACKEND_REACHABLE_REASON) \<or>
      cond_view BACKEND_REACHABLE_CONDITION cs = cond_view BACKEND_REACHABLE_CONDITION (rs_conditions s) \<and>
      backend_reachable_true (rs_conditions s)"
    by auto
qed

lemma success_no_verdict:
  assumes "vanished_is_false (rs_conditions s)"
  shows "\<not> wipe_verdict (rs_conditions (success_status w now repo r probe_run at s))"
    and "vanished_is_false (rs_conditions (success_status w now repo r probe_run at s))"
proof -
  have "BACKEND_REACHABLE_REASON \<noteq> REPOSITORY_VANISHED_REASON" by (simp add: condition_reasons)
  then show "\<not> wipe_verdict (rs_conditions (success_status w now repo r probe_run at s))"
    and "vanished_is_false (rs_conditions (success_status w now repo r probe_run at s))"
    using assms success_views [of w now repo r probe_run at s]
    by (auto simp: wipe_verdict_iff reason_of_view vanished_is_false_def backend_reachable_view)
qed

lemma boot_ok_maintenance:
  assumes "boot_ok seen st"
  shows "boot_ok seen (ensure_repo_maintenance w now repo st)"
proof (cases "bw_maintenance w")
  case (Some p)
  then show ?thesis
    by (cases p) (auto simp: ensure_repo_maintenance_def cond_view_other intro!: boot_ok_change [OF assms] change_ok_views)
qed (use assms in \<open>simp add: ensure_repo_maintenance_def\<close>)

lemma boot_ok_scan:
  assumes "boot_ok seen st"
  shows "boot_ok seen (snd (run_catalog_scan w now repo n st))"
  using assms by (auto simp: run_catalog_scan_def intro!: boot_ok_change [OF assms] change_ok_views)

lemma boot_ok_success:
  assumes ok: "boot_ok seen st" and "bs_result st = Some r" and "bt_success r"
    and "\<And>j. bs_job st = Some j \<Longrightarrow> jb_terminal j \<noteq> None"
  shows "boot_ok seen (snd (finalize_success w now repo r probe_run at st))"
proof -
  define st1 where "st1 = st\<lparr>bs_status := success_status w now repo r probe_run at (bs_status st)\<rparr>"
  have st1: "boot_ok seen st1"
    using assms success_no_verdict [of "bs_status st" w now repo r probe_run at]
    by (auto simp: boot_ok_def st1_def absent_result_def)
  define scan where "scan = (case bt_snapshot_count r of
      Some n \<Rightarrow> if scan_due (bw_rfc3339 w) (scan_clock_of repo (bs_status st)) now then run_catalog_scan w now repo n st1
        else (Inr (), st1)
    | None \<Rightarrow> (Inr (), st1))"
  have "boot_ok seen (ensure_repo_maintenance w now repo (snd scan))"
    using st1 by (intro boot_ok_maintenance) (auto simp: scan_def boot_ok_scan split: option.split)
  then show ?thesis
    using ok
    unfolding finalize_success_def Let_def patch_status_def st1_def [symmetric] scan_def [symmetric]
    by (auto simp: case_prod_beta boot_ok_delete_run boot_ok_delete split: sum.split)
qed

lemma boot_ok_finalize:
  assumes "boot_ok seen st" and "\<And>j. bs_job st = Some j \<Longrightarrow> jb_terminal j \<noteq> None"
  shows "boot_ok seen (snd (finalize_bootstrap w now repo t d probe_run armed at st))"
proof (cases "bootstrap_outcome (bs_result st) t armed d")
  case (BO_Failed f)
  have "is_repository_absent f \<longrightarrow> rs_unique_id (bs_status st) \<in> set seen"
    using outcome_absent [OF BO_Failed] assms(1) by (auto simp: boot_ok_def)
  with BO_Failed show ?thesis by (simp add: finalize_bootstrap_def assms(1) boot_ok_failure)
next
  case (BO_Succeeded r)
  with outcome_succeeded [OF BO_Succeeded] assms show ?thesis
    by (simp add: finalize_bootstrap_def boot_ok_success)
qed (use assms in \<open>simp add: finalize_bootstrap_def\<close>)

lemma boot_ok_seeding:
  assumes "boot_ok seen st" and "\<And>st. boot_ok seen st \<Longrightarrow> boot_ok seen (snd (k st))"
  shows "boot_ok seen (snd (write_seeding_condition w now repo st k))"
  unfolding write_seeding_condition_def
  using assms by (auto simp: cond_view_other intro!: boot_ok_patch change_ok_views)

lemma recount_views:
  "t \<in> verdict_types \<Longrightarrow>
     cond_view t (ir_conditions (fold_index_blob_recount rfc3339 now cs stats rc thr g)) = cond_view t cs"
  using cond_view_other(6) [of t now cs _ thr g]
  by (simp add: fold_index_blob_recount_def case_prod_beta Let_def split: option.split)

lemma boot_ok_steady:
  assumes "boot_ok seen st"
  shows "boot_ok seen (snd (steady_pass w now repo st))"
  unfolding steady_pass_def Let_def
  by (rule boot_ok_patch [OF assms])
     (auto simp: recount_views cond_view_other boot_ok_maintenance intro!: change_ok_views)

lemma boot_ok_seed_gate:
  assumes "boot_ok seen st"
  shows "boot_ok seen (snd (park_on_seed_source w now repo gate st))"
proof -
  have "gate_reason gate \<noteq> REPOSITORY_REINITIALIZE_BLOCKED_REASON"
    by (cases gate) (simp_all add: gate_reason_def condition_reasons)
  then show ?thesis
    unfolding park_on_seed_source_def
    by (intro boot_ok_patch [OF assms] change_ok_ready)
       (auto simp: cond_view_verdict reason_simps reason_of_view)
qed

text \<open>A Job is licensed when it is built from the status that licenses it.\<close>

lemma launched_licensed:
  fixes w now repo s due defines "ps \<equiv> boot_pass w now repo s"
  assumes "wipe_verdict (rs_conditions s) \<longrightarrow> rs_unique_id s \<in> set seen"
    and "jb_op j = bootstrap_work_spec repo s ps due" and "jb_reinit_ack j = ps_launch_ack ps"
  shows "job_licensed seen j"
  unfolding job_licensed_def
proof (intro allI impI)
  fix u assume "op_pinned_unique_id (jb_op j) = Some u" and "u \<noteq> []"
    and starts: "op_auto_create (jb_op j) \<or> op_seed (jb_op j) \<noteq> None"
  let ?gate = "create_gate (create_enabled (re_create repo)) (rs_unique_id s) (re_reinit_ack repo)"
  have u: "rs_unique_id s = Some u" "non_empty (rs_unique_id s) \<noteq> None"
    using \<open>op_pinned_unique_id (jb_op j) = Some u\<close> \<open>u \<noteq> []\<close> assms(3)
    by (simp_all add: bootstrap_work_spec_def non_empty_None_iff)
  have requested: "ps_requested ps \<longleftrightarrow> rs_phase s \<noteq> Some RP_Ready \<and> valid_reinit_ack ?gate (rs_unique_id s) \<noteq> None \<and>
      wipe_verdict (rs_conditions s)"
    by (auto simp: ps_def boot_pass_def Let_def reinit_requested_iff wipe_verdict_def)
  have "op_seed (jb_op j) \<noteq> None \<Longrightarrow> rsp_armed (ps_seed ps)"
    using assms(3) by (simp add: bootstrap_work_spec_def split: if_splits)
  then have seeds: "op_seed (jb_op j) \<noteq> None \<Longrightarrow> ps_requested ps"
    using u by (auto simp: ps_def boot_pass_def Let_def reinit_seed_plan_def seed_armed_def non_empty_None_iff split: if_splits)
  have create: "ps_create ps = effective_create ?gate (ps_requested ps)"
    by (simp add: ps_def boot_pass_def Let_def)
  have creates: "op_auto_create (jb_op j) \<Longrightarrow> ps_requested ps \<and> op_via_reinit_ack (jb_op j)"
    using assms(3) u(1) \<open>u \<noteq> []\<close>
    by (simp add: bootstrap_work_spec_def create create_allowed_iff create_via_ack_iff non_empty_None_iff)
  have req: "ps_requested ps"
    using starts seeds creates by blast
  then obtain v where v: "valid_reinit_ack ?gate (rs_unique_id s) = Some v" and "wipe_verdict (rs_conditions s)"
    unfolding requested by blast
  then have "v = u" and "rs_unique_id s \<in> set seen"
    using u assms(2) by (simp_all add: valid_reinit_ack_iff)
  moreover have "ps_launch_ack ps = Some v"
    using v by (simp add: ps_def boot_pass_def Let_def)
  moreover have "\<not> is_some_and so_resume (op_seed (jb_op j))"
    using req assms(3)
    by (cases "re_seed repo")
       (auto simp: bootstrap_work_spec_def ps_def boot_pass_def Let_def reinit_seed_plan_def)
  ultimately show "jb_reinit_ack j = Some u \<and> Some u \<in> set seen \<and>
      (op_auto_create (jb_op j) \<longrightarrow> op_via_reinit_ack (jb_op j)) \<and> \<not> is_some_and so_resume (op_seed (jb_op j))"
    using creates u assms(4) by simp
qed

lemma boot_ok_launch:
  assumes ok: "boot_ok seen st"
  shows "boot_ok seen (snd (launch_job w now repo (boot_pass w now repo (bs_status st)) due seed_deadline st))"
proof -
  let ?ps = "boot_pass w now repo (bs_status st)"
  let ?op = "bootstrap_work_spec repo (bs_status st) ?ps due"
  define P where "P x \<longleftrightarrow> boot_ok seen x \<and> rs_unique_id (bs_status x) = rs_unique_id (bs_status st)" for x
  have job: "boot_ok seen (x\<lparr>bs_job := Some j\<rparr>)"
    if "P x" "jb_op j = ?op" "jb_reinit_ack j = ps_launch_ack ?ps" for x j
    using that(1) launched_licensed [OF _ that(2,3), of seen] ok that(2)
    by (auto simp: boot_ok_def bootstrap_work_spec_def P_def)
  have start: "boot_ok seen (snd (patch_status w 2 (launch_stamps repo ?ps b ns) (x\<lparr>bs_job := Some j\<rparr>) (requeue 15)))"
    if "P x" "jb_op j = ?op" "jb_reinit_ack j = ps_launch_ack ?ps" for x j b ns
    by (intro boot_ok_patch [OF job [OF that]] change_ok_views) (simp_all add: launch_stamps_def)
  have seed: "boot_ok seen (snd (patch_status w n (\<lambda>s. s\<lparr>rs_seed := f s\<rparr>) x k))"
    if "P x" "\<And>st. P st \<Longrightarrow> boot_ok seen (snd (k st))" for x n f k
  proof -
    have "boot_ok seen (x\<lparr>bs_status := (bs_status x)\<lparr>rs_seed := f (bs_status x)\<rparr>\<rparr>)"
      using that(1) by (intro boot_ok_change change_ok_views) (simp_all add: P_def)
    then show ?thesis
      using that by (simp add: patch_status_def P_def)
  qed
  have P: "P st" and P_ok: "P x \<Longrightarrow> boot_ok seen x" for x
    using ok by (simp_all add: P_def)
  show ?thesis
    unfolding launch_job_def Let_def
    by (cases "rsp_clear_status (ps_seed ?ps)"; cases "rsp_armed (ps_seed ?ps)";
        cases "seed_marker_patch None (bw_seed_same_source w) (bw_to_rfc3339 w now)";
        cases "seed_marker_patch (rs_seed (bs_status st)) (bw_seed_same_source w) (bw_to_rfc3339 w now)";
        cases "bw_apply_job_ok w")
       (simp_all add: P P_ok seed start)
qed

lemma boot_ok_with_job:
  assumes "boot_ok seen st" and "bs_job st = Some job"
  shows "boot_ok seen (snd (pass_with_job w now repo ps job st))"
proof (cases "jb_terminal job")
  case None
  have poll: "boot_ok seen (snd (if rsp_armed (ps_seed ps) then write_seeding_condition w now repo x (requeue 15)
      else requeue 15 x))" if "boot_ok seen x" for x
    using that by (simp add: boot_ok_seeding)
  have "boot_ok seen (snd (patch_status w 0 (\<lambda>s. s\<lparr>rs_phase := Some (launch_phase (rs_phase s))\<rparr>) st
      (\<lambda>st. if rsp_armed (ps_seed ps) then write_seeding_condition w now repo st (requeue 15) else requeue 15 st)))"
    by (rule boot_ok_patch [OF assms(1) _ poll]) (auto intro!: change_ok_views)
  with None poll [OF assms(1)] show ?thesis
    by (simp add: pass_with_job_def Let_def)
next
  case (Some t)
  then have "boot_ok seen (snd (finalize_bootstrap w now repo t d probe_run armed at st))" for d probe_run armed at
    using assms by (intro boot_ok_finalize) auto
  with Some assms show ?thesis
    by (simp add: pass_with_job_def boot_ok_delete_run boot_ok_delete)
qed

lemma boot_ok_without_job:
  assumes "boot_ok seen st"
  shows "boot_ok seen (snd (pass_without_job w now repo (boot_pass w now repo (bs_status st)) seed_deadline st))"
  using boot_ok_steady [OF assms] boot_ok_seed_gate [OF assms] boot_ok_launch [OF assms] assms
  by (simp add: pass_without_job_def Let_def split: option.split)

lemma boot_ok_reconcile:
  assumes "boot_ok seen st"
  shows "boot_ok seen (snd (repository_reconcile w now repo seed_deadline st))"
proof (cases "re_suspend repo")
  case True
  have "''Suspended'' \<noteq> REPOSITORY_REINITIALIZE_BLOCKED_REASON" by (simp add: condition_reasons)
  then have "boot_ok seen (snd (patch_status w 0 (\<lambda>s. s\<lparr>rs_observed_generation := re_generation repo,
      rs_conditions := set_ready now (rs_conditions s) (re_generation repo) Reconciling ''Suspended''\<rparr>) st
      (requeue 300)))"
    by (intro boot_ok_patch [OF assms] change_ok_ready) (auto simp: cond_view_verdict reason_simps)
  with True show ?thesis by (simp add: repository_reconcile_def)
next
  case False
  with assms show ?thesis
    by (simp add: repository_reconcile_def bootstrap_via_mover_def Let_def boot_ok_with_job boot_ok_without_job
        split: option.split)
qed

lemma boot_ok_more_seen: "boot_ok seen st \<Longrightarrow> boot_ok (added @ seen) st"
  by (auto simp: boot_ok_def job_licensed_def)

lemma boot_ok_step:
  assumes "boot_ok (by_seen_empty y) (by_st y)" and "boot_step y y'"
  shows "boot_ok (by_seen_empty y') (by_st y')"
  using assms(2)
proof cases
  case (edit repo)
  with assms(1) show ?thesis by simp
next
  case (pass w now seed_deadline reply st)
  with boot_ok_reconcile [OF assms(1), of w now "by_repo y" seed_deadline] show ?thesis by simp
next
  case (pod j result a)
  let ?seen = "(if answers_empty a then [op_pinned_unique_id (jb_op j)] else []) @ by_seen_empty y"
  have "op_pinned_unique_id (jb_op j) = rs_unique_id (bs_status (by_st y))"
    using assms(1) pod(2,3) by (simp add: boot_ok_def)
  then have "rs_unique_id (bs_status (by_st y)) \<in> set ?seen" if "result = Some r" "absent_result r" for r
    using pod(4) that assms(1) run_absent_seen [of "jb_op j" a] by (auto simp: boot_ok_def)
  with boot_ok_more_seen [OF assms(1)] pod(1) show ?thesis
    by (auto simp: boot_ok_def)
next
  case (job_ends j t at)
  with assms(1) show ?thesis by (auto simp: boot_ok_def job_licensed_def)
next
  case (job_reaped j)
  with assms(1) show ?thesis by (simp add: boot_ok_delete)
qed

interpretation boots: step_invariant boot_init boot_step "\<lambda>y. boot_ok (by_seen_empty y) (by_st y)"
proof
  fix y assume "boot_init y"
  then show "boot_ok (by_seen_empty y) (by_st y)"
    by (simp add: boot_init_def boot_ok_def new_status_def wipe_verdict_iff reason_of_def vanished_is_false_def
        cond_view_def)
qed (rule boot_ok_step)

subsection \<open>A repository is re-created only after it was seen to be gone\<close>

lemma op_initialises:
  assumes "op_init_action op a \<in> {BI_Create, BI_Seed}"
  shows "op_auto_create op \<or> op_seed op \<noteq> None"
    and "op_auto_create op \<longrightarrow> op_via_reinit_ack op \<Longrightarrow> \<not> is_some_and so_resume (op_seed op) \<Longrightarrow> answers_empty a"
proof -
  have "op_init_action op a = BI_Create \<or> op_init_action op a = BI_Seed" using assms by auto
  then show "op_auto_create op \<or> op_seed op \<noteq> None"
    and "op_auto_create op \<longrightarrow> op_via_reinit_ack op \<Longrightarrow> \<not> is_some_and so_resume (op_seed op) \<Longrightarrow> answers_empty a"
    unfolding op_init_action_def init_creates_iff init_seeds_iff
    by (auto simp: answers_empty_def is_some_and_iff split: if_splits)
qed

text \<open>
  C4. Once a repository's kopia id is pinned in the status, a discovery Job can initialise the backend
  anew (create a repository there, or seed one) only if the human acknowledged exactly that id, the
  connect of this very run was answered by a backend that holds no repository, and an earlier run
  under the same pinned id had already found it gone. Neither an outage, nor a wrong password, nor a
  stale Job, nor an edit of the object in between can lead to a second repository over live data.
\<close>

theorem recreated_only_after_seen_wipe:
  assumes "reachable boot_init boot_step y"
    and "bs_job (by_st y) = Some j" and "op_pinned_unique_id (jb_op j) = Some u" and "u \<noteq> []"
    and "op_init_action (jb_op j) a \<in> {BI_Create, BI_Seed}"
  shows "jb_reinit_ack j = Some u \<and> answers_empty a \<and> Some u \<in> set (by_seen_empty y)"
proof -
  have "job_licensed (by_seen_empty y) j"
    using boots.inv_reachable [OF assms(1)] assms(2) by (simp add: boot_ok_def)
  with assms(3,4) op_initialises [OF assms(5)] show ?thesis
    by (auto simp: job_licensed_def)
qed

text \<open>
  A concrete history: a repository is created, its backend is wiped, the re-verification after an
  edit finds it gone, the wipe is acknowledged, and the next launch may create it again.
\<close>

definition demo_world :: boot_world where
  "demo_world = \<lparr>bw_rfc3339 = (\<lambda>s. Some 0), bw_to_rfc3339 = (\<lambda>t. ''t''), bw_get_ok = True, bw_result_ok = True,
     bw_delete = DR_Deleted, bw_patch_ok = (\<lambda>n. True), bw_legacy_cleared = True, bw_ca_ok = True,
     bw_launch_ok = True, bw_apply_job_ok = True, bw_seed_gate = None, bw_seed_same_source = True, bw_scan_ok = True,
     bw_mass_deletion = None, bw_maintenance = None, bw_recount = None\<rparr>"

definition demo_repo :: "int \<Rightarrow> string option \<Rightarrow> repo_object" where
  "demo_repo gen ack = \<lparr>re_generation = Some gen, re_suspend = False, re_reverify_token = None, re_scan_token = None,
     re_reinit_ack = ack, re_create = None, re_seed = None, re_health = None, re_active_deadline_seconds = None,
     re_catalog = None\<rparr>"

definition demo_answers :: "(kopia_error_class \<times> bool) option \<Rightarrow> kopia_answers" where
  "demo_answers connect = \<lparr>ka_connect = connect, ka_throttle = None, ka_create = None, ka_seed = None,
     ka_seed_mode_blob = False, ka_reconnect = None, ka_status = Inr ''id1'', ka_list = Inr 0, ka_index_blobs = None\<rparr>"

definition demo_pass :: "repo_object \<Rightarrow> boot_sys \<Rightarrow> boot_sys" where
  "demo_pass repo y = y\<lparr>by_repo := repo, by_st := snd (repository_reconcile demo_world 0 repo None (by_st y))\<rparr>"

definition demo_run :: "kopia_answers \<Rightarrow> boot_sys \<Rightarrow> boot_sys" where
  "demo_run a y = (case bs_job (by_st y) of
     None \<Rightarrow> y
   | Some j \<Rightarrow>
       if jb_terminal j \<noteq> None then y
       else y\<lparr>by_st := (by_st y)\<lparr>bs_result := Some (run_bootstrap (jb_op j) a),
           bs_job := Some (j\<lparr>jb_terminal := Some JT_Complete, jb_completed_at := Some ''t''\<rparr>)\<rparr>,
         by_seen_empty := (if answers_empty a then [op_pinned_unique_id (jb_op j)] else []) @ by_seen_empty y\<rparr>)"

definition demo_start :: boot_sys where
  "demo_start = \<lparr>by_repo = demo_repo 1 None, by_st = \<lparr>bs_status = new_status, bs_job = None, bs_result = None\<rparr>,
     by_seen_empty = []\<rparr>"

lemma demo_steps:
  assumes "reachable boot_init boot_step y"
  shows "reachable boot_init boot_step (demo_pass repo y)" and "reachable boot_init boot_step (demo_run a y)"
proof -
  have "reachable boot_init boot_step (y\<lparr>by_repo := repo\<rparr>)"
    by (rule reachable_step [OF assms edit])
  from reachable_step [OF this pass [of demo_world 0 _ None, OF surjective_pairing]] show "reachable boot_init boot_step (demo_pass repo y)"
    by (simp add: demo_pass_def)
  show "reachable boot_init boot_step (demo_run a y)"
  proof (cases "\<exists>j. bs_job (by_st y) = Some j \<and> jb_terminal j = None")
    case True
    then obtain j where j: "bs_job (by_st y) = Some j" "jb_terminal j = None" by blast
    note ran = reachable_step [OF assms pod [OF j, of "Some (run_bootstrap (jb_op j) a)" a]]
    from reachable_step [OF ran job_ends [of _ j "Some ''t''" JT_Complete]] j show ?thesis
      by (cases y; cases "answers_empty a") (simp_all add: demo_run_def)
  qed (use assms in \<open>auto simp: demo_run_def split: option.split\<close>)
qed

definition demo_end :: boot_sys where
  "demo_end =
     (let gone = demo_answers (Some (KE_NotFound, True));
          created = demo_pass (demo_repo 1 None) (demo_run gone (demo_pass (demo_repo 1 None) demo_start));
          checking = demo_pass (demo_repo 2 None) (demo_pass (demo_repo 2 None) created);
          blocked = demo_pass (demo_repo 2 None) (demo_run gone checking)
      in demo_pass (demo_repo 2 (Some ''id1'')) (demo_pass (demo_repo 2 (Some ''id1'')) blocked))"

lemma demo_end_reachable: "reachable boot_init boot_step demo_end"
  unfolding demo_end_def Let_def
  by (intro demo_steps reachable_init) (simp add: boot_init_def demo_start_def)

definition demo_job :: boot_job where
  "demo_job = \<lparr>jb_generation = Some ''2'', jb_reinit_ack = Some ''id1'',
     jb_op = \<lparr>op_auto_create = True, op_create_block = None, op_pinned_unique_id = Some ''id1'',
       op_via_reinit_ack = True, op_probe_only = False, op_seed = None\<rparr>,
     jb_deadline = Some 120, jb_terminal = None, jb_completed_at = None\<rparr>"

lemma demo_end_job: "bs_job (by_st demo_end) = Some demo_job"
  by code_simp

theorem recreated_only_after_seen_wipe_witness:
  "bs_job (by_st demo_end) = Some demo_job \<and>
   op_init_action (jb_op demo_job) (demo_answers (Some (KE_NotFound, True))) = BI_Create \<and>
   jb_reinit_ack demo_job = Some ''id1'' \<and> Some ''id1'' \<in> set (by_seen_empty demo_end)"
proof -
  let ?a = "demo_answers (Some (KE_NotFound, True))"
  have pin: "op_pinned_unique_id (jb_op demo_job) = Some ''id1''" and creates: "op_init_action (jb_op demo_job) ?a = BI_Create"
    by code_simp+
  have "op_init_action (jb_op demo_job) ?a \<in> {BI_Create, BI_Seed}" using creates by simp
  from recreated_only_after_seen_wipe [OF demo_end_reachable demo_end_job pin _ this] show ?thesis
    using creates demo_end_job by simp
qed

subsection \<open>What a failure leaves behind\<close>

definition streak_of :: "repo_status \<Rightarrow> int" where
  "streak_of s = max 0 (unwrap_or (Option.bind (rs_health s) hs_consecutive_probe_failures) 0)"

lemma streak_folds [simp]:
  "hs_consecutive_probe_failures (failure_streak_health prior ns) =
     Some (max 0 (unwrap_or (Option.bind prior hs_consecutive_probe_failures) 0) + 1)"
  "hs_last_probe_at (failure_streak_health prior ns) = Some ns"
  "pu_health (reconcile_probe_failure now cs prior kind thr ns g) = failure_streak_health prior ns"
  by (simp_all add: failure_streak_health_def reconcile_probe_failure_def Let_def)

lemma failure_health_simps [simp]:
  "hs_consecutive_probe_failures h = Some n \<Longrightarrow> hs_consecutive_probe_failures (probe_failure_health_patch h stored) = Some n"
  "hs_last_probe_at h = Some t \<Longrightarrow> hs_last_probe_at (probe_failure_health_patch h stored) = Some t"
  by (simp_all add: probe_failure_health_patch_def Let_def)

definition breaker_opens :: "repo_object \<Rightarrow> repo_status \<Rightarrow> bool" where
  "breaker_opens repo s \<longleftrightarrow> effective_on_failure (re_health repo) = POF_Degrade \<and>
     effective_failure_threshold (re_health repo) \<le> streak_of s + 1"

lemma threshold_positive: "1 \<le> effective_failure_threshold health"
  by (simp add: effective_failure_threshold_def unwrap_or_def split: option.split)

lemma breaker_phase:
  "pp_phase (probe_failure_phase (breaker_verdict (streak_of s + 1) (effective_failure_threshold (re_health repo))
      (effective_on_failure (re_health repo))) kind d) = (if breaker_opens repo s then RP_Degraded else RP_Ready)"
  using threshold_positive [of "re_health repo"]
  by (cases "effective_on_failure (re_health repo)")
     (auto simp: breaker_verdict_def probe_failure_phase_def breaker_opens_def)

lemma sensor_effect:
  assumes "\<forall>n. bw_patch_ok w n" and "bw_delete w = DR_Deleted"
    and "finalize_probe_failure w now repo f st = (reply, st') \<or> recycle_bootstrap_outage w now repo f st = (reply, st')"
  shows "rs_phase (bs_status st') = Some (if breaker_opens repo (bs_status st) then RP_Degraded else RP_Ready) \<and>
    streak_of (bs_status st') = streak_of (bs_status st) + 1 \<and> bs_job st' = None \<and> bs_result st' = None \<and>
    (\<exists>d. reply = Inr d)"
  using assms(3)
proof
  assume "finalize_probe_failure w now repo f st = (reply, st')"
  with assms(1,2) breaker_phase [of "bs_status st" repo] show ?thesis
    by (auto simp: finalize_probe_failure_def Let_def patch_status_def delete_mover_run_def streak_of_def)
next
  assume "recycle_bootstrap_outage w now repo f st = (reply, st')"
  with assms(1,2) breaker_phase [of "bs_status st" repo] show ?thesis
    by (auto simp: recycle_bootstrap_outage_def Let_def patch_status_def delete_mover_run_def streak_of_def)
qed

lemma recycle_effect:
  assumes "\<forall>n. bw_patch_ok w n" and "bw_delete w = DR_Deleted"
    and "recycle_failed_bootstrap w now repo f stamp st = (reply, st')"
  shows "rs_phase (bs_status st') = Some RP_Degraded \<and>
    streak_of (bs_status st') = streak_of (bs_status st) + (if stamp then 1 else 0) \<and>
    bs_job st' = None \<and> bs_result st' = None \<and>
    reply = Inr (if stamp then strict_retry_backoff (streak_of (bs_status st)) else duration_from_secs 120)"
  using assms by (auto simp: recycle_failed_bootstrap_def Let_def patch_status_def delete_mover_run_def streak_of_def)

lemma park_effect:
  assumes "\<forall>n. bw_patch_ok w n" and "park_terminal_bootstrap w now repo f st = (reply, st')"
  shows "rs_phase (bs_status st') = Some RP_Failed \<and> streak_of (bs_status st') = streak_of (bs_status st) \<and>
    bs_job st' = bs_job st \<and> bs_result st' = bs_result st \<and> reply = Inr (duration_from_secs 120)"
  using assms by (auto simp: park_terminal_bootstrap_def Let_def patch_status_def requeue_def streak_of_def)

lemma failure_keeps_id:
  "rs_unique_id (bs_status (snd (finalize_bootstrap_failure w now repo f probe_run st))) = rs_unique_id (bs_status st)"
proof (cases "failure_route f (rs_unique_id (bs_status st) \<noteq> None)"; cases "bw_delete w")
qed (simp_all add: finalize_bootstrap_failure_def finalize_probe_failure_def recycle_bootstrap_outage_def
    recycle_failed_bootstrap_def park_terminal_bootstrap_def Let_def patch_status_def delete_mover_run_def requeue_def)


definition demo_failing :: boot_state where
  "demo_failing = \<lparr>bs_status = new_status\<lparr>rs_unique_id := Some ''id1'', rs_observed_generation := Some 2,
       rs_health := Some (no_health\<lparr>hs_consecutive_probe_failures := Some 2\<rparr>)\<rparr>,
     bs_job = Some demo_job, bs_result = None\<rparr>"


subsection \<open>Retries\<close>

lemma degraded_stamped:
  assumes "finalize_bootstrap_failure w now repo f probe_run st = (Inr d, st')"
    and "rs_phase (bs_status st') = Some RP_Degraded"
    and "probe_run \<or> failure_route f (rs_unique_id (bs_status st) \<noteq> None) \<noteq> FR_SeedRetry"
  shows "bs_job st' = None \<and> (\<exists>h. rs_health (bs_status st') = Some h \<and>
    hs_consecutive_probe_failures h = Some (streak_of (bs_status st) + 1) \<and> hs_last_probe_at h = Some (bw_to_rfc3339 w now))"
proof (cases probe_run)
  case True
  with assms show ?thesis
    by (auto simp: finalize_bootstrap_failure_def finalize_probe_failure_def Let_def patch_status_def
        delete_mover_run_def streak_of_def split: if_splits delete_reply.splits)
next
  case False
  with assms show ?thesis
    by (auto simp: finalize_bootstrap_failure_def recycle_bootstrap_outage_def recycle_failed_bootstrap_def
        park_terminal_bootstrap_def Let_def patch_status_def delete_mover_run_def requeue_def streak_of_def
        split: if_splits delete_reply.splits failure_route.splits)
qed

lemma launch_launches:
  assumes "\<forall>n. bw_patch_ok w n" and "bw_apply_job_ok w"
  shows "bs_job (snd (launch_job w now repo ps due seed_deadline st)) \<noteq> None"
  using assms by (simp add: launch_job_def Let_def patch_status_def split: option.split)



subsection \<open>Where the recorded state misleads\<close>

definition demo_dies :: "boot_sys \<Rightarrow> boot_sys" where
  "demo_dies y = (case bs_job (by_st y) of
     Some j \<Rightarrow> if jb_terminal j = None
       then y\<lparr>by_st := (by_st y)\<lparr>bs_job := Some (j\<lparr>jb_terminal := Some (JT_Failed True), jb_completed_at := None\<rparr>)\<rparr>\<rparr> else y
   | None \<Rightarrow> y)"

definition demo_reap :: "boot_sys \<Rightarrow> boot_sys" where
  "demo_reap y = (case bs_job (by_st y) of
     Some j \<Rightarrow> if jb_terminal j \<noteq> None then y\<lparr>by_st := (by_st y)\<lparr>bs_job := None\<rparr>\<rparr> else y
   | None \<Rightarrow> y)"

lemma demo_more_steps:
  assumes "reachable boot_init boot_step y"
  shows "reachable boot_init boot_step (demo_dies y)" and "reachable boot_init boot_step (demo_reap y)"
  using assms
  by (auto simp: demo_dies_def demo_reap_def intro: reachable_step job_ends job_reaped split: option.split)

definition demo_relaunched :: boot_sys where
  "demo_relaunched =
     (let created = demo_pass (demo_repo 1 None) (demo_run (demo_answers (Some (KE_NotFound, True)))
            (demo_pass (demo_repo 1 None) demo_start))
      in demo_pass (demo_repo 2 None) (demo_reap created))"

definition stale_ready :: "boot_sys \<Rightarrow> bool" where
  "stale_ready y = (case bs_job (by_st y) of
     None \<Rightarrow> False
   | Some j \<Rightarrow>
       (let s' = bs_status (by_st (demo_pass (demo_repo 2 None) y))
        in jb_terminal j = Some (JT_Failed True) \<and> jb_generation j = Some ''2'' \<and>
           rs_observed_generation (bs_status (by_st y)) = Some 1 \<and>
           rs_phase s' = Some RP_Ready \<and> rs_observed_generation s' = Some 2))"

text \<open>
  The result ConfigMap is owned by the repository and a launch does not clear it. When the cluster
  reaps the finished Job after its TTL, the next Job starts over the old result; if it is killed by
  its deadline before it writes one, the pass that finalizes it reads the old success and declares
  the edited spec Ready.
\<close>

theorem stale_result_declares_ready: "\<exists>y. reachable boot_init boot_step y \<and> stale_ready y"
proof -
  have "reachable boot_init boot_step (demo_dies demo_relaunched)"
    unfolding demo_relaunched_def Let_def
    by (intro demo_more_steps demo_steps reachable_init) (simp add: boot_init_def demo_start_def)
  moreover have "stale_ready (demo_dies demo_relaunched)"
    by code_simp
  ultimately show ?thesis by blast
qed

text \<open>
  Below the threshold an outage of a strict connect writes the phase Ready whatever the phase was: a
  repository parked as Failed for a wrong password becomes Ready, with the condition \<open>Bootstrapped\<close>
  still false, by a connect that timed out.
\<close>

theorem outage_unparks_a_failed_repository:
  fixes now :: datetime
  assumes "\<forall>n. bw_patch_ok w n" and "bw_delete w = DR_Deleted" and "\<not> breaker_opens repo (bs_status st)"
    and "rs_unique_id (bs_status st) \<noteq> None" and "jd = BF_JobDeadlineExceeded n"
    and "cond_view REPOSITORY_BOOTSTRAPPED_CONDITION (rs_conditions (bs_status st)) = Some (''False'', ''AuthFailure'')"
  defines "s' \<equiv> bs_status (snd (finalize_bootstrap_failure w now repo jd False st))"
  shows "rs_phase s' = Some RP_Ready" and "cond_view READY_CONDITION (rs_conditions s') = Some (''True'', ''Bootstrapped'')"
    and "cond_view REPOSITORY_BOOTSTRAPPED_CONDITION (rs_conditions s') = Some (''False'', ''AuthFailure'')"
proof -
  have "\<not> max 1 (effective_failure_threshold (re_health repo)) \<le> streak_of (bs_status st) + 1 \<or>
      effective_on_failure (re_health repo) \<noteq> POF_Degrade"
    using assms(3) by (auto simp: breaker_opens_def)
  then have "breaker_verdict (streak_of (bs_status st) + 1) (effective_failure_threshold (re_health repo))
      (effective_on_failure (re_health repo)) = BV_StayReady"
    by (cases "effective_on_failure (re_health repo)") (auto simp: breaker_verdict_def)
  then show "rs_phase s' = Some RP_Ready"
    and "cond_view READY_CONDITION (rs_conditions s') = Some (''True'', ''Bootstrapped'')"
    and "cond_view REPOSITORY_BOOTSTRAPPED_CONDITION (rs_conditions s') = Some (''False'', ''AuthFailure'')"
    using assms(1,2,4,5,6) unfolding s'_def
    by (simp_all add: finalize_bootstrap_failure_def failure_route_def retryable_outage_for_bootstrapped_def
        recycle_bootstrap_outage_def Let_def delete_mover_run_def patch_status_def probe_failure_phase_def streak_of_def
        cond_view_verdict probe_failure_views ready_outcome_for_phase_def)
qed

text \<open>
  With a pinned id a seed is never resumed, so the retry of an acknowledged re-seed that was
  interrupted finds the half-filled repository, does nothing, and reports success.
\<close>

theorem interrupted_reseed_is_not_resumed:
  assumes "non_empty unique_id \<noteq> None"
  shows "\<not> rsp_resume (reinit_seed_plan seed unique_id status_seed requested)"
  using assms by (auto simp: reinit_seed_plan_def Let_def seed_resume_def seed_armed_def split: option.split)

theorem unresumed_seed_succeeds_on_leftovers:
  assumes "op_seed op = Some sd" and "\<not> so_resume sd" and "ka_connect a = None" and "ka_throttle a = None"
    and "ka_status a = Inr uid" and "ka_list a = Inr n" and "0 < n"
  shows "bt_success (run_bootstrap op a) \<and> bt_seed (run_bootstrap op a) = Some False"
  using assms
  by (simp add: run_bootstrap_def op_init_action_def bootstrap_init_action_def report_repository_def Let_def
      already_initialized_outcome_def seed_left_repository_empty_def)

text \<open>
  A wipe verdict on \<open>BackendReachable\<close> survives a later park for a wrong password, and keeps the
  acknowledgement armed.
\<close>

theorem park_keeps_ack_armed:
  assumes "reason_of BACKEND_REACHABLE_CONDITION (rs_conditions (bs_status st)) = Some REPOSITORY_VANISHED_REASON"
  shows "reinit_ack_arming (rs_conditions (bs_status
    (snd (park_terminal_bootstrap w now repo (BF_Backend KE_AuthFailure) st)))) = RA_Armed"
  using assms
  by (simp add: park_terminal_bootstrap_def Let_def patch_status_def wipe_verdict_def [symmetric] wipe_verdict_iff
      reason_of_view cond_view_verdict)

end
