(* ===== verification/Restore_Claims.thy ===== *)
theory Restore_Claims
  imports Health Expansion
begin

text \<open>
  The decisions of a populator \<open>Restore\<close> (\<open>crates/controller/src/restore/plan.rs\<close>): every PVC that names
  the Restore in its \<open>dataSourceRef\<close> is a claim with its own record in \<open>status.claims\<close>, its own prime
  PVC and its own mover Job, and the Restore's phase is the aggregate over the records. Message texts
  are left out (a built message is the empty string), a \<open>BTreeMap\<close> of claims is an association list
  with one entry per key, and the merge patch of one record is modelled by its effect on each field.
\<close>

subsection \<open>Data\<close>

datatype restore_phase = RE_Pending | RE_Resolving | RE_Restoring | RE_Completed | RE_Failed | RE_Unknown string

datatype restore_claim_phase =
  RC_Pending | RC_Populating | RC_Rebinding | RC_Populated | RC_AlreadyBound | RC_Failed | RC_Unknown string

fun claim_is_terminal :: "restore_claim_phase \<Rightarrow> bool" where
  "claim_is_terminal RC_Populated = True"
| "claim_is_terminal RC_AlreadyBound = True"
| "claim_is_terminal RC_Failed = True"
| "claim_is_terminal RC_Pending = False"
| "claim_is_terminal RC_Populating = False"
| "claim_is_terminal RC_Rebinding = False"
| "claim_is_terminal (RC_Unknown _) = False"

datatype resolution_outcome = RO_Snapshot | RO_NoSnapshot

record resolved_restore =
  rr_resolution :: "resolution_outcome option"
  rr_kopia_snapshot_id :: "string option"
  rr_pinned_at :: "string option"
  rr_source_path :: "string option"

record claim_status =
  cs_uid :: "string option"
  cs_phase :: "restore_claim_phase option"
  cs_reason :: "string option"
  cs_message :: "string option"
  cs_source_path :: "string option"
  cs_resolved :: "resolved_restore option"
  cs_pvc_prime :: "string option"
  cs_job :: "string option"
  cs_wait_started_at :: "string option"
  cs_observed_at :: "string option"
  cs_log_tail :: "string option"
  cs_failure :: "string option"

definition no_claim_status :: claim_status where
  "no_claim_status = \<lparr>cs_uid = None, cs_phase = None, cs_reason = None, cs_message = None, cs_source_path = None,
     cs_resolved = None, cs_pvc_prime = None, cs_job = None, cs_wait_started_at = None, cs_observed_at = None,
     cs_log_tail = None, cs_failure = None\<rparr>"

type_synonym claims = "(string \<times> claim_status) list"

datatype restore_source = Src_SnapshotRef | Src_FromPolicy "string option" | Src_Identity

datatype on_missing_snapshot = OM_Fail | OM_Continue

datatype restore_target = Tgt_Pvc | Tgt_PvcRef | Tgt_StreamExec | Tgt_Populator

subsection \<open>The source, the target and the phase\<close>

definition default_on_missing :: "restore_source \<Rightarrow> on_missing_snapshot" where
  "default_on_missing source = (case source of
     Src_FromPolicy _ \<Rightarrow> OM_Continue | Src_SnapshotRef \<Rightarrow> OM_Fail | Src_Identity \<Rightarrow> OM_Fail)"

definition effective_on_missing :: "on_missing_snapshot option \<Rightarrow> restore_source \<Rightarrow> on_missing_snapshot" where
  "effective_on_missing spec source = unwrap_or spec (default_on_missing source)"

datatype populator_state = PS_AwaitingClaim | PS_DirectTarget

definition populator_state :: "restore_target \<Rightarrow> populator_state" where
  "populator_state target = (case target of
     Tgt_Populator \<Rightarrow> PS_AwaitingClaim
   | Tgt_Pvc \<Rightarrow> PS_DirectTarget | Tgt_PvcRef \<Rightarrow> PS_DirectTarget | Tgt_StreamExec \<Rightarrow> PS_DirectTarget)"

definition restore_awaiting_launch :: "restore_phase option \<Rightarrow> bool" where
  "restore_awaiting_launch phase = (case phase of
     None \<Rightarrow> True | Some RE_Pending \<Rightarrow> True | Some RE_Resolving \<Rightarrow> True
   | Some RE_Restoring \<Rightarrow> False | Some RE_Completed \<Rightarrow> False | Some RE_Failed \<Rightarrow> False | Some (RE_Unknown _) \<Rightarrow> False)"

definition phase_is_terminal_at_guard :: "restore_phase \<Rightarrow> populator_state \<Rightarrow> bool" where
  "phase_is_terminal_at_guard phase state = (case phase of
     RE_Failed \<Rightarrow> state = PS_DirectTarget | RE_Completed \<Rightarrow> state = PS_DirectTarget
   | RE_Pending \<Rightarrow> False | RE_Resolving \<Rightarrow> False | RE_Restoring \<Rightarrow> False | RE_Unknown _ \<Rightarrow> False)"

definition restore_ready_outcome :: "restore_phase \<Rightarrow> ready_outcome" where
  "restore_ready_outcome phase = (case phase of
     RE_Completed \<Rightarrow> Ready | RE_Failed \<Rightarrow> Stalled
   | RE_Pending \<Rightarrow> Reconciling | RE_Resolving \<Rightarrow> Reconciling | RE_Restoring \<Rightarrow> Reconciling | RE_Unknown _ \<Rightarrow> Reconciling)"

subsection \<open>The handshake with the claiming PVC\<close>

text \<open>
  What the restore controller reads of a PVC: its metadata (name, uid, deletion, the operation label,
  the kind and uid of its owners, the node the scheduler picked), the kind, name and group of its
  \<open>dataSourceRef\<close>, its storage class, \<open>spec.volumeName\<close>, and whether \<open>status.phase\<close> is \<open>Bound\<close>.
\<close>

record pvc_object =
  pc_name :: string
  pc_uid :: string
  pc_deleting :: bool
  pc_data_source :: "(string \<times> string \<times> string option) option"
  pc_op :: "string option"
  pc_owners :: "(string \<times> string) list"
  pc_class :: "string option"
  pc_volume :: "string option"
  pc_status_bound :: bool
  pc_selected_node :: "string option"

definition pvc_is_bound :: "pvc_object \<Rightarrow> bool" where
  "pvc_is_bound pvc \<longleftrightarrow> is_some_and (\<lambda>v. v \<noteq> []) (pc_volume pvc) \<or> pc_status_bound pvc"

datatype populator_handshake =
  PH_FinalizeRebound string | PH_AwaitingBind | PH_LostRebind string | PH_NothingToPopulate | PH_Populate

definition populator_handshake :: "pvc_object \<Rightarrow> string option \<Rightarrow> populator_handshake" where
  "populator_handshake consumer our_rebound_pv =
     (case (our_rebound_pv, non_empty (pc_volume consumer)) of
        (Some ours, Some bound) \<Rightarrow> if bound = ours then PH_FinalizeRebound ours else PH_LostRebind ours
      | (Some _, None) \<Rightarrow> PH_AwaitingBind
      | (None, _) \<Rightarrow> if pvc_is_bound consumer then PH_NothingToPopulate else PH_Populate)"

subsection \<open>Waiting for a snapshot\<close>

datatype wait_window = WW_Open int | WW_AwaitingClaim int

definition wait_anchor :: "wait_window \<Rightarrow> int" where
  "wait_anchor w = (case w of WW_Open at \<Rightarrow> at | WW_AwaitingClaim at \<Rightarrow> at)"

text \<open>\<open>DateTime::timestamp\<close>: whole seconds, rounded down.\<close>

definition timestamp :: "datetime \<Rightarrow> int" where
  "timestamp t = t div 1000000000"

definition claim_wait_window :: "(string \<Rightarrow> datetime option) \<Rightarrow> claim_status option \<Rightarrow> int \<Rightarrow> wait_window" where
  "claim_wait_window rfc3339 record now_epoch =
     WW_Open (unwrap_or (map_option timestamp (Option.bind (Option.bind record cs_wait_started_at) rfc3339)) now_epoch)"

definition as_secs :: "duration \<Rightarrow> nat" where
  "as_secs d = d div 1000000000"

definition wait_remaining_secs :: "int \<Rightarrow> string option \<Rightarrow> int \<Rightarrow> nat option" where
  "wait_remaining_secs anchor_epoch wait_timeout now_epoch =
     (case Option.bind wait_timeout parse_go_duration of
        None \<Rightarrow> None
      | Some timeout \<Rightarrow>
          if int (as_secs timeout) > i64_max then None
          else
            (let deadline = saturating_add_i64 anchor_epoch (int (as_secs timeout))
             in if now_epoch < deadline then Some (nat (deadline - now_epoch)) else None))"

definition wait_park_requeue :: "wait_window \<Rightarrow> nat \<Rightarrow> nat" where
  "wait_park_requeue window remaining = (case window of
     WW_Open _ \<Rightarrow> max 1 (min 15 remaining) | WW_AwaitingClaim _ \<Rightarrow> 30)"

subsection \<open>The aggregate over the claims\<close>

datatype claim_class = CC_InFlight | CC_Populated | CC_AlreadyBound | CC_Failed

definition claim_class :: "restore_claim_phase option \<Rightarrow> claim_class" where
  "claim_class phase = (case phase of
     None \<Rightarrow> CC_InFlight | Some RC_Pending \<Rightarrow> CC_InFlight | Some RC_Populating \<Rightarrow> CC_InFlight
   | Some RC_Rebinding \<Rightarrow> CC_InFlight | Some RC_Populated \<Rightarrow> CC_Populated | Some RC_AlreadyBound \<Rightarrow> CC_AlreadyBound
   | Some RC_Failed \<Rightarrow> CC_Failed | Some (RC_Unknown _) \<Rightarrow> CC_InFlight)"

definition claim_is_active :: "restore_claim_phase option \<Rightarrow> bool" where
  "claim_is_active phase \<longleftrightarrow> phase = Some RC_Populating \<or> phase = Some RC_Rebinding"

record claim_tally =
  ct_total :: nat
  ct_populated :: nat
  ct_already_bound :: nat
  ct_in_flight :: "string list"
  ct_active :: nat
  ct_failed :: "(string \<times> string) list"

datatype claims_aggregate =
  CA_NoClaims | CA_Failed claim_tally | CA_InFlight claim_tally | CA_AllSettled claim_tally

definition tally_claim :: "claim_tally \<Rightarrow> string \<times> claim_status \<Rightarrow> claim_tally" where
  "tally_claim t c = (case claim_class (cs_phase (snd c)) of
     CC_InFlight \<Rightarrow> t\<lparr>ct_in_flight := ct_in_flight t @ [fst c],
       ct_active := ct_active t + (if claim_is_active (cs_phase (snd c)) then 1 else 0)\<rparr>
   | CC_Populated \<Rightarrow> t\<lparr>ct_populated := ct_populated t + 1\<rparr>
   | CC_AlreadyBound \<Rightarrow> t\<lparr>ct_already_bound := ct_already_bound t + 1\<rparr>
   | CC_Failed \<Rightarrow> t\<lparr>ct_failed := ct_failed t @ [(fst c, unwrap_or (cs_reason (snd c)) ''Failed'')]\<rparr>)"

definition aggregate_claims :: "claims \<Rightarrow> claims_aggregate" where
  "aggregate_claims cs =
     (if cs = [] then CA_NoClaims
      else
        (let t = foldl tally_claim \<lparr>ct_total = length cs, ct_populated = 0, ct_already_bound = 0, ct_in_flight = [],
               ct_active = 0, ct_failed = []\<rparr> cs
         in if ct_failed t \<noteq> [] then CA_Failed t
            else if ct_in_flight t \<noteq> [] then CA_InFlight t
            else CA_AllSettled t))"

definition aggregate_phase :: "claims_aggregate \<Rightarrow> restore_phase" where
  "aggregate_phase a = (case a of
     CA_NoClaims \<Rightarrow> RE_Pending
   | CA_Failed _ \<Rightarrow> RE_Failed
   | CA_InFlight t \<Rightarrow> if 0 < ct_active t then RE_Restoring else RE_Pending
   | CA_AllSettled _ \<Rightarrow> RE_Completed)"

text \<open>The reason half of \<open>claims_summary\<close>.\<close>

definition claims_summary_reason :: "claims_aggregate \<Rightarrow> string" where
  "claims_summary_reason a = (case a of
     CA_NoClaims \<Rightarrow> ''AwaitingPvcDataSourceRef''
   | CA_Failed _ \<Rightarrow> ''ClaimFailed''
   | CA_InFlight _ \<Rightarrow> ''PopulatingPrimePvc''
   | CA_AllSettled _ \<Rightarrow> ''RestoreSucceeded'')"

subsection \<open>Reasons\<close>

datatype claim_reason =
  AwaitingPvcDataSourceRef | AwaitingPodSchedule | WaitingForSnapshot | RepositoryNotReady | RestoreReferentMissing |
  SourceResolved | PopulatingPrimePvc | NoSnapshotContinue | RestoreSucceeded | TargetAlreadyBound | ClaimRecreated |
  MoverJobFailed | MoverPodWedged | PopulateHijacked | SnapshotNotFound | SourcePathAmbiguous | LostRebind

definition ALL_CLAIM_REASONS :: "claim_reason list" where
  "ALL_CLAIM_REASONS = [AwaitingPvcDataSourceRef, AwaitingPodSchedule, WaitingForSnapshot, RepositoryNotReady,
     RestoreReferentMissing, SourceResolved, PopulatingPrimePvc, NoSnapshotContinue, RestoreSucceeded,
     TargetAlreadyBound, ClaimRecreated, MoverJobFailed, MoverPodWedged, PopulateHijacked, SnapshotNotFound,
     SourcePathAmbiguous, LostRebind]"

fun claim_reason_str :: "claim_reason \<Rightarrow> string" where
  "claim_reason_str AwaitingPvcDataSourceRef = ''AwaitingPvcDataSourceRef''"
| "claim_reason_str AwaitingPodSchedule = ''AwaitingPodSchedule''"
| "claim_reason_str WaitingForSnapshot = ''WaitingForSnapshot''"
| "claim_reason_str RepositoryNotReady = ''RepositoryNotReady''"
| "claim_reason_str RestoreReferentMissing = ''RestoreReferentMissing''"
| "claim_reason_str SourceResolved = ''SourceResolved''"
| "claim_reason_str PopulatingPrimePvc = ''PopulatingPrimePvc''"
| "claim_reason_str NoSnapshotContinue = ''NoSnapshotContinue''"
| "claim_reason_str RestoreSucceeded = ''RestoreSucceeded''"
| "claim_reason_str TargetAlreadyBound = ''TargetAlreadyBound''"
| "claim_reason_str ClaimRecreated = ''ClaimRecreated''"
| "claim_reason_str MoverJobFailed = ''MoverJobFailed''"
| "claim_reason_str MoverPodWedged = ''MoverPodWedged''"
| "claim_reason_str PopulateHijacked = ''PopulateHijacked''"
| "claim_reason_str SnapshotNotFound = ''SnapshotNotFound''"
| "claim_reason_str SourcePathAmbiguous = ''SourcePathAmbiguous''"
| "claim_reason_str LostRebind = ''LostRebind''"

definition claim_reason_parse :: "string \<Rightarrow> claim_reason option" where
  "claim_reason_parse s = List.find (\<lambda>r. claim_reason_str r = s) ALL_CLAIM_REASONS"

definition artifacts_reapable :: "claim_reason \<Rightarrow> bool" where
  "artifacts_reapable r = (case r of PopulateHijacked \<Rightarrow> False | _ \<Rightarrow> True)"

definition claim_artifacts_reapable :: "string option \<Rightarrow> bool" where
  "claim_artifacts_reapable reason = (case Option.bind reason claim_reason_parse of
     Some r \<Rightarrow> artifacts_reapable r | None \<Rightarrow> False)"

definition settled_artifacts_reapable :: "claim_status \<Rightarrow> bool" where
  "settled_artifacts_reapable record = (case cs_phase record of
     Some RC_Populated \<Rightarrow> claim_artifacts_reapable (cs_reason record)
   | Some RC_AlreadyBound \<Rightarrow> claim_artifacts_reapable (cs_reason record)
   | _ \<Rightarrow> False)"

definition mirrored_resolved_reason :: "claim_reason \<Rightarrow> bool option" where
  "mirrored_resolved_reason r = (case r of
     NoSnapshotContinue \<Rightarrow> Some True
   | WaitingForSnapshot \<Rightarrow> Some False | SnapshotNotFound \<Rightarrow> Some False | SourcePathAmbiguous \<Rightarrow> Some False
   | RepositoryNotReady \<Rightarrow> Some False | RestoreReferentMissing \<Rightarrow> Some False | AwaitingPvcDataSourceRef \<Rightarrow> Some False
   | _ \<Rightarrow> None)"

subsection \<open>Names and pins\<close>

definition prime_pvc_name :: "string \<Rightarrow> string" where
  "prime_pvc_name consumer_uid = ''prime-'' @ consumer_uid"

definition legacy_populate_job_name :: "string \<Rightarrow> string" where
  "legacy_populate_job_name restore = restore @ ''-populate''"

datatype job_name_reuse = JR_Fresh | JR_LegacyShared

definition claim_finalize_pin ::
    "job_name_reuse \<Rightarrow> resolved_restore option \<Rightarrow> resolved_restore option \<Rightarrow> resolved_restore option \<Rightarrow>
     resolved_restore option" where
  "claim_finalize_pin reuse claim_pin prev_pin top_level = (case reuse of
     JR_Fresh \<Rightarrow> or_else claim_pin prev_pin
   | JR_LegacyShared \<Rightarrow> or_else (or_else claim_pin prev_pin) top_level)"

datatype resolution = Res_Snapshot string | Res_Empty | Res_Deferred "string option"

definition claim_pinned_decision :: "claim_status \<Rightarrow> resolution option" where
  "claim_pinned_decision record = (case cs_resolved record of
     Some r \<Rightarrow>
       if rr_resolution r = Some RO_NoSnapshot then Some Res_Empty
       else map_option Res_Snapshot (rr_kopia_snapshot_id r)
   | None \<Rightarrow> if cs_phase record = Some RC_Populated then Some Res_Empty else None)"

subsection \<open>What a pass does with a record\<close>

datatype claim_drive = CD_Drive | CD_Settled | CD_ReArm string

definition claim_drive :: "claim_status option \<Rightarrow> string \<Rightarrow> claim_drive" where
  "claim_drive record live_uid = (case record of
     None \<Rightarrow> CD_Drive
   | Some r \<Rightarrow>
       (case cs_uid r of
          Some uid \<Rightarrow>
            if uid \<noteq> live_uid then CD_ReArm uid
            else if is_some_and claim_is_terminal (cs_phase r) then CD_Settled else CD_Drive
        | None \<Rightarrow> if is_some_and claim_is_terminal (cs_phase r) then CD_Settled else CD_Drive))"

definition pass_is_all_quiet ::
    "string list \<Rightarrow> claim_drive list \<Rightarrow> (string \<times> string) list \<Rightarrow> claims \<Rightarrow> string list \<Rightarrow> bool" where
  "pass_is_all_quiet gone plans live prev live_primes \<longleftrightarrow>
     gone = [] \<and> list_all (\<lambda>d. d = CD_Settled) plans \<and>
     list_all (\<lambda>(claim, uid). prime_pvc_name uid \<notin> set live_primes \<or>
       \<not> claim_artifacts_reapable (Option.bind (map_of prev claim) cs_reason)) live"

subsection \<open>Statuses written before claims existed\<close>

record restore_status =
  rst_phase :: "restore_phase option"
  rst_resolved :: "resolved_restore option"
  rst_ready_reason :: "string option"
  rst_target_prime :: "string option"
  rst_target_ref :: "string option"
  rst_wait_started_at :: "string option"
  rst_claims :: claims

definition is_legacy_populator_status :: "restore_status \<Rightarrow> bool" where
  "is_legacy_populator_status status =
     (if rst_claims status \<noteq> [] then False
      else if rst_resolved status \<noteq> None then True
      else case rst_phase status of
             Some RE_Restoring \<Rightarrow> True | Some RE_Completed \<Rightarrow> True | Some RE_Failed \<Rightarrow> True | _ \<Rightarrow> False)"

datatype legacy_adoption = LA_PreFanoutStatus | LA_InFlightPrime | LA_No

definition legacy_adoption :: "restore_status \<Rightarrow> pvc_object list \<Rightarrow> string list \<Rightarrow> legacy_adoption" where
  "legacy_adoption status consumers live_primes =
     (if rst_claims status \<noteq> [] then LA_No
      else if is_legacy_populator_status status then LA_PreFanoutStatus
      else if list_ex (\<lambda>c. prime_pvc_name (pc_uid c) \<in> set live_primes) consumers then LA_InFlightPrime
      else LA_No)"

definition legacy_claimant :: "pvc_object list \<Rightarrow> string list \<Rightarrow> pvc_object option" where
  "legacy_claimant consumers live_primes =
     (case List.find (\<lambda>c. prime_pvc_name (pc_uid c) \<in> set live_primes) consumers of
        Some c \<Rightarrow> Some c
      | None \<Rightarrow> (case filter pvc_is_bound consumers of [c] \<Rightarrow> Some c | _ \<Rightarrow> None))"

definition AWAITING_CLAIM_SENTINEL :: string where
  "AWAITING_CLAIM_SENTINEL = ''awaiting-claim''"

definition legacy_claim_phase :: "restore_phase \<Rightarrow> string option \<Rightarrow> restore_claim_phase" where
  "legacy_claim_phase phase reason = (case phase of
     RE_Completed \<Rightarrow>
       (case Option.bind reason claim_reason_parse of
          Some TargetAlreadyBound \<Rightarrow> RC_AlreadyBound
        | Some RestoreSucceeded \<Rightarrow> RC_Populated
        | Some NoSnapshotContinue \<Rightarrow> RC_Populated
        | _ \<Rightarrow> RC_Populating)
   | RE_Failed \<Rightarrow> RC_Failed
   | RE_Restoring \<Rightarrow> RC_Populating
   | RE_Pending \<Rightarrow> RC_Pending | RE_Resolving \<Rightarrow> RC_Pending
   | RE_Unknown _ \<Rightarrow> RC_Pending)"

definition adopt_legacy_claim :: "restore_status \<Rightarrow> pvc_object \<Rightarrow> string option \<Rightarrow> claim_status option" where
  "adopt_legacy_claim status consumer legacy_job =
     (if rst_claims status \<noteq> [] then None
      else Some \<lparr>cs_uid = Some (pc_uid consumer),
        cs_phase = Some (case rst_phase status of None \<Rightarrow> RC_Pending
          | Some p \<Rightarrow> legacy_claim_phase p (rst_ready_reason status)),
        cs_reason = rst_ready_reason status, cs_message = map_option (\<lambda>_. []) (rst_ready_reason status),
        cs_source_path = Option.bind (rst_resolved status) rr_source_path, cs_resolved = rst_resolved status,
        cs_pvc_prime = (if rst_target_prime status = Some AWAITING_CLAIM_SENTINEL then None else rst_target_prime status),
        cs_job = legacy_job, cs_wait_started_at = rst_wait_started_at status, cs_observed_at = None,
        cs_log_tail = None, cs_failure = None\<rparr>)"

subsection \<open>Writing a record\<close>

definition claim_rearmed :: "claim_status \<Rightarrow> claim_status \<Rightarrow> bool" where
  "claim_rearmed prev next' = (case (cs_uid prev, cs_uid next') of (Some p, Some n) \<Rightarrow> p \<noteq> n | _ \<Rightarrow> False)"

definition claim_transition :: "claim_status option \<Rightarrow> claim_status \<Rightarrow> bool" where
  "claim_transition prev next' = (case prev of
     None \<Rightarrow> True
   | Some p \<Rightarrow> cs_phase p \<noteq> cs_phase next' \<or> cs_reason p \<noteq> cs_reason next')"

text \<open>A key of a merge patch: left out, \<open>null\<close>, or a value.\<close>

datatype 'a field_patch = FP_Keep | FP_Null | FP_Set 'a

definition controller_field :: "'a option \<Rightarrow> 'a option \<Rightarrow> 'a field_patch" where
  "controller_field prev next' = (case next' of
     Some v \<Rightarrow> FP_Set v | None \<Rightarrow> if prev \<noteq> None then FP_Null else FP_Keep)"

record claim_patch =
  cp_uid :: "string field_patch"
  cp_phase :: "restore_claim_phase field_patch"
  cp_reason :: "string field_patch"
  cp_message :: "string field_patch"
  cp_source_path :: "string field_patch"
  cp_resolved :: "resolved_restore field_patch"
  cp_pvc_prime :: "string field_patch"
  cp_job :: "string field_patch"
  cp_wait_started_at :: "string field_patch"
  cp_observed_at :: "string field_patch"
  cp_log_tail :: "string field_patch"
  cp_failure :: "string field_patch"

definition claim_merge_body :: "claim_status option \<Rightarrow> claim_status \<Rightarrow> claim_patch" where
  "claim_merge_body prev next' =
     (let p = unwrap_or prev no_claim_status;
          rearmed = is_some_and (\<lambda>p. claim_rearmed p next') prev;
          mover_field = (if rearmed then FP_Null else FP_Keep)
      in \<lparr>cp_uid = controller_field (cs_uid p) (cs_uid next'), cp_phase = controller_field (cs_phase p) (cs_phase next'),
          cp_reason = controller_field (cs_reason p) (cs_reason next'),
          cp_message = controller_field (cs_message p) (cs_message next'),
          cp_source_path = controller_field (cs_source_path p) (cs_source_path next'),
          cp_resolved = (case cs_resolved next' of Some r \<Rightarrow> FP_Set r | None \<Rightarrow> if rearmed then FP_Null else FP_Keep),
          cp_pvc_prime = controller_field (cs_pvc_prime p) (cs_pvc_prime next'),
          cp_job = controller_field (cs_job p) (cs_job next'),
          cp_wait_started_at = controller_field (cs_wait_started_at p) (cs_wait_started_at next'),
          cp_observed_at = mover_field, cp_log_tail = mover_field, cp_failure = mover_field\<rparr>)"

text \<open>The API server's merge: a scalar is replaced, the object \<open>resolved\<close> is merged key by key.\<close>

definition merge_field :: "'a field_patch \<Rightarrow> 'a option \<Rightarrow> 'a option" where
  "merge_field patch stored = (case patch of FP_Keep \<Rightarrow> stored | FP_Null \<Rightarrow> None | FP_Set v \<Rightarrow> Some v)"

definition merge_resolved :: "resolved_restore field_patch \<Rightarrow> resolved_restore option \<Rightarrow> resolved_restore option" where
  "merge_resolved patch stored = (case patch of
     FP_Keep \<Rightarrow> stored | FP_Null \<Rightarrow> None
   | FP_Set r \<Rightarrow>
       (case stored of
          None \<Rightarrow> Some r
        | Some s \<Rightarrow> Some \<lparr>rr_resolution = or_else (rr_resolution r) (rr_resolution s),
            rr_kopia_snapshot_id = or_else (rr_kopia_snapshot_id r) (rr_kopia_snapshot_id s),
            rr_pinned_at = or_else (rr_pinned_at r) (rr_pinned_at s),
            rr_source_path = or_else (rr_source_path r) (rr_source_path s)\<rparr>))"

definition apply_claim_patch :: "claim_patch \<Rightarrow> claim_status option \<Rightarrow> claim_status" where
  "apply_claim_patch p stored =
     (let s = unwrap_or stored no_claim_status
      in \<lparr>cs_uid = merge_field (cp_uid p) (cs_uid s), cs_phase = merge_field (cp_phase p) (cs_phase s),
          cs_reason = merge_field (cp_reason p) (cs_reason s), cs_message = merge_field (cp_message p) (cs_message s),
          cs_source_path = merge_field (cp_source_path p) (cs_source_path s),
          cs_resolved = merge_resolved (cp_resolved p) (cs_resolved s),
          cs_pvc_prime = merge_field (cp_pvc_prime p) (cs_pvc_prime s), cs_job = merge_field (cp_job p) (cs_job s),
          cs_wait_started_at = merge_field (cp_wait_started_at p) (cs_wait_started_at s),
          cs_observed_at = merge_field (cp_observed_at p) (cs_observed_at s),
          cs_log_tail = merge_field (cp_log_tail p) (cs_log_tail s), cs_failure = merge_field (cp_failure p) (cs_failure s)\<rparr>)"

datatype claims_mirror = CM_NoClaims | CM_Single string claim_status | CM_Many

definition claims_mirror :: "claims \<Rightarrow> claims_mirror" where
  "claims_mirror cs = (case cs of [] \<Rightarrow> CM_NoClaims | [(claim, record)] \<Rightarrow> CM_Single claim record | _ \<Rightarrow> CM_Many)"

definition mirrored_report_reason :: "claims_mirror \<Rightarrow> claims \<Rightarrow> string" where
  "mirrored_report_reason mirror cs = (case mirror of
     CM_Single _ record \<Rightarrow>
       (case (cs_reason record, cs_message record) of
          (Some reason, Some _) \<Rightarrow> reason
        | _ \<Rightarrow> claims_summary_reason (aggregate_claims cs))
   | _ \<Rightarrow> claims_summary_reason (aggregate_claims cs))"

definition apply_claims_mirror :: "claims_mirror \<Rightarrow> claims \<Rightarrow> string list \<Rightarrow> restore_status \<Rightarrow> restore_status" where
  "apply_claims_mirror mirror prev gone s = (case mirror of
     CM_NoClaims \<Rightarrow> s
   | CM_Single claim record \<Rightarrow>
       (let s = (case cs_resolved record of
              Some r \<Rightarrow> s\<lparr>rst_resolved := merge_resolved (FP_Set r) (rst_resolved s)\<rparr>
            | None \<Rightarrow>
                if is_some_and (\<lambda>p. claim_rearmed p record) (map_of prev claim) \<or> gone \<noteq> []
                then s\<lparr>rst_resolved := None\<rparr> else s)
        in s\<lparr>rst_target_ref := Some claim, rst_target_prime := cs_pvc_prime record\<rparr>)
   | CM_Many \<Rightarrow>
       (let s = (case claims_mirror prev of CM_Single _ _ \<Rightarrow> s\<lparr>rst_resolved := None\<rparr> | _ \<Rightarrow> s)
        in s\<lparr>rst_target_ref := None, rst_target_prime := None\<rparr>))"

text \<open>
  The stored claims after the end-of-pass patch: each driven record merged, the gone ones removed,
  any other kept.
\<close>

definition merge_claims :: "claims \<Rightarrow> claims \<Rightarrow> string list \<Rightarrow> claims \<Rightarrow> claims" where
  "merge_claims prev next' gone stored =
     map (\<lambda>(claim, record). (claim, apply_claim_patch (claim_merge_body (map_of prev claim) record) (map_of stored claim))) next' @
     filter (\<lambda>(claim, _). claim \<notin> fst ` set next' \<and> claim \<notin> set gone) stored"

definition fanout_status :: "claims \<Rightarrow> claims \<Rightarrow> string list \<Rightarrow> restore_status \<Rightarrow> restore_status" where
  "fanout_status prev next' gone s =
     (let mirror = claims_mirror next';
          s = s\<lparr>rst_phase := Some (aggregate_phase (aggregate_claims next')),
                rst_ready_reason := Some (mirrored_report_reason mirror next')\<rparr>;
          s = apply_claims_mirror mirror prev gone s
      in s\<lparr>rst_claims := merge_claims prev next' gone (rst_claims s)\<rparr>)"

definition awaiting_claim_status :: "string list \<Rightarrow> restore_status \<Rightarrow> restore_status" where
  "awaiting_claim_status gone s =
     (let s = s\<lparr>rst_phase := Some RE_Pending, rst_ready_reason := Some (claims_summary_reason CA_NoClaims),
                rst_target_prime := Some AWAITING_CLAIM_SENTINEL, rst_target_ref := None\<rparr>
      in if gone = [] then s
         else s\<lparr>rst_claims := filter (\<lambda>(claim, _). claim \<notin> set gone) (rst_claims s), rst_resolved := None\<rparr>)"

subsection \<open>What a record holds after it is written\<close>

lemma merge_controller_field [simp]:
  "merge_field (controller_field prev next') prev = next'"
  "merge_field (controller_field prev next') None = next'"
  by (cases next'; cases prev; simp add: merge_field_def controller_field_def)+

lemma merge_field_simps [simp]:
  "merge_field FP_Keep stored = stored" "merge_field FP_Null stored = None"
  by (simp_all add: merge_field_def)

lemma merge_resolved_simps [simp]:
  "merge_resolved FP_Keep stored = stored" "merge_resolved FP_Null stored = None"
  "merge_resolved (FP_Set r) None = Some r" "merge_resolved (FP_Set r) (Some r) = Some r"
proof -
  show "merge_resolved (FP_Set r) (Some r) = Some r"
    by (cases r; cases "rr_resolution r"; cases "rr_kopia_snapshot_id r"; cases "rr_pinned_at r"; cases "rr_source_path r")
      (simp_all add: merge_resolved_def)
qed (simp_all add: merge_resolved_def)

text \<open>
  One write of a claim's record, on top of whatever the claim's own mover wrote since the pass
  read it. For the same claimant every field the controller owns becomes the pass's value (a value it
  dropped is cleared), while the mover's observation, log tail and failure and a resolution the pass
  did not decide itself keep the mover's values. For a re-created claimant nothing of the old
  claimant's record is left.
\<close>

theorem claim_patch_exact:
  "apply_claim_patch (claim_merge_body (Some prev) next')
     (Some (prev\<lparr>cs_resolved := r, cs_observed_at := obs, cs_log_tail := tail, cs_failure := fail\<rparr>)) =
   (if claim_rearmed prev next'
    then next'\<lparr>cs_resolved := (case cs_resolved next' of None \<Rightarrow> None | Some q \<Rightarrow> merge_resolved (FP_Set q) r),
           cs_observed_at := None, cs_log_tail := None, cs_failure := None\<rparr>
    else next'\<lparr>cs_resolved := (case cs_resolved next' of None \<Rightarrow> r | Some q \<Rightarrow> merge_resolved (FP_Set q) r),
           cs_observed_at := obs, cs_log_tail := tail, cs_failure := fail\<rparr>)"
  by (simp add: apply_claim_patch_def claim_merge_body_def Let_def split: option.split)

lemma claim_patch_controller_fields:
  assumes "stored = prev \<or> stored = None"
  shows "cs_uid (apply_claim_patch (claim_merge_body prev next') stored) = cs_uid next'"
    and "cs_phase (apply_claim_patch (claim_merge_body prev next') stored) = cs_phase next'"
    and "cs_reason (apply_claim_patch (claim_merge_body prev next') stored) = cs_reason next'"
  using assms by (auto simp: apply_claim_patch_def claim_merge_body_def Let_def no_claim_status_def)

subsection \<open>The phase of the Restore\<close>

lemma tally_claims:
  "ct_failed (foldl tally_claim t cs) = ct_failed t @
     map (\<lambda>c. (fst c, unwrap_or (cs_reason (snd c)) ''Failed'')) (filter (\<lambda>c. claim_class (cs_phase (snd c)) = CC_Failed) cs)"
  "ct_in_flight (foldl tally_claim t cs) = ct_in_flight t @
     map fst (filter (\<lambda>c. claim_class (cs_phase (snd c)) = CC_InFlight) cs)"
  "ct_active (foldl tally_claim t cs) = ct_active t + length (filter (\<lambda>c. claim_is_active (cs_phase (snd c))) cs)"
proof -
  have active: "claim_is_active p \<Longrightarrow> claim_class p = CC_InFlight" for p
    by (auto simp: claim_is_active_def claim_class_def)
  show "ct_failed (foldl tally_claim t cs) = ct_failed t @
     map (\<lambda>c. (fst c, unwrap_or (cs_reason (snd c)) ''Failed'')) (filter (\<lambda>c. claim_class (cs_phase (snd c)) = CC_Failed) cs)"
    by (induction cs arbitrary: t) (auto simp: tally_claim_def split: claim_class.split)
  show "ct_in_flight (foldl tally_claim t cs) = ct_in_flight t @
     map fst (filter (\<lambda>c. claim_class (cs_phase (snd c)) = CC_InFlight) cs)"
    by (induction cs arbitrary: t) (auto simp: tally_claim_def split: claim_class.split)
  show "ct_active (foldl tally_claim t cs) = ct_active t + length (filter (\<lambda>c. claim_is_active (cs_phase (snd c))) cs)"
    by (induction cs arbitrary: t) (auto simp: tally_claim_def dest: active split: claim_class.split)
qed

lemma claim_class_iff:
  "claim_class p = CC_Failed \<longleftrightarrow> p = Some RC_Failed"
  "claim_class p = CC_InFlight \<longleftrightarrow> p \<notin> {Some RC_Populated, Some RC_AlreadyBound, Some RC_Failed}"
  by (auto simp: claim_class_def split: option.split restore_claim_phase.split)

text \<open>
  C40. The phase of a populator Restore, exactly: \<open>Failed\<close> as soon as one claim failed, \<open>Completed\<close> only
  when there is a claim and every claim is populated or already bound, \<open>Restoring\<close> while some claim's
  volume is being written or handed over, and \<open>Pending\<close> otherwise (no claim, or claims that all wait).
\<close>

theorem aggregate_phase_exact:
  "aggregate_phase (aggregate_claims cs) =
     (if list_ex (\<lambda>c. cs_phase (snd c) = Some RC_Failed) cs then RE_Failed
      else if cs \<noteq> [] \<and> list_all (\<lambda>c. cs_phase (snd c) \<in> {Some RC_Populated, Some RC_AlreadyBound}) cs then RE_Completed
      else if list_ex (\<lambda>c. claim_is_active (cs_phase (snd c))) cs then RE_Restoring
      else RE_Pending)"
proof (cases "cs = []")
  case False
  then show ?thesis
    by (auto simp: aggregate_claims_def aggregate_phase_def Let_def tally_claims claim_class_iff filter_empty_conv
        list_ex_iff list_all_iff)
qed (simp add: aggregate_claims_def aggregate_phase_def)

end
