(* ===== verification/Kube_Io.thy ===== *)
theory Kube_Io
  imports Kopiur_Prelude
begin

text \<open>
  A reconcile pass as a program over a cluster state: an \<open>async fn\<close> of the sources that returns
  \<open>Result<T>\<close> is a function from the state to an optional result (\<open>None\<close> is \<open>Err\<close>) and the state it
  leaves. What was written before an error stays written, so a pass that fails at its k-th call, or a
  process that dies there, is the run in which that call (and every later one) does not succeed.
  The rules below are the proof rules of such programs: an assertion before, one after a result, and
  one after an error.
\<close>

type_synonym ('s, 'a) io = "'s \<Rightarrow> 'a option \<times> 's"

definition io_ok :: "'a \<Rightarrow> ('s, 'a) io" where
  "io_ok x s = (Some x, s)"

definition io_err :: "('s, 'a) io" where
  "io_err s = (None, s)"

text \<open>\<open>m.await?\<close> followed by the rest of the function.\<close>

definition io_bind :: "('s, 'a) io \<Rightarrow> ('a \<Rightarrow> ('s, 'b) io) \<Rightarrow> ('s, 'b) io" where
  "io_bind m f s = (case m s of (None, t) \<Rightarrow> (None, t) | (Some x, t) \<Rightarrow> f x t)"

definition io_seq :: "('s, 'a) io \<Rightarrow> ('s, 'b) io \<Rightarrow> ('s, 'b) io" where
  "io_seq m n = io_bind m (\<lambda>_. n)"

text \<open>A read whose failure is an error, a write whose failure is an error, and \<open>let _ = write\<close>.\<close>

definition io_read :: "bool \<Rightarrow> ('s \<Rightarrow> 'a) \<Rightarrow> ('s, 'a) io" where
  "io_read ok f s = (if ok then (Some (f s), s) else (None, s))"

definition io_write :: "bool \<Rightarrow> ('s \<Rightarrow> 's) \<Rightarrow> ('s, unit) io" where
  "io_write ok f s = (if ok then (Some (), f s) else (None, s))"

definition io_attempt :: "bool \<Rightarrow> ('s \<Rightarrow> 's) \<Rightarrow> ('s, unit) io" where
  "io_attempt ok f s = (Some (), if ok then f s else s)"

text \<open>\<open>for x in xs { acc = body(x, acc)?; }\<close>\<close>

primrec io_each :: "('x \<Rightarrow> 'acc \<Rightarrow> ('s, 'acc) io) \<Rightarrow> 'x list \<Rightarrow> 'acc \<Rightarrow> ('s, 'acc) io" where
  "io_each body [] acc = io_ok acc"
| "io_each body (x # xs) acc = io_bind (body x acc) (io_each body xs)"

lemmas io_defs = io_ok_def io_err_def io_bind_def io_seq_def io_read_def io_write_def io_attempt_def

subsection \<open>Proof rules\<close>

definition triple :: "('s \<Rightarrow> bool) \<Rightarrow> ('s, 'a) io \<Rightarrow> ('a \<Rightarrow> 's \<Rightarrow> bool) \<Rightarrow> ('s \<Rightarrow> bool) \<Rightarrow> bool" where
  "triple P m Q E \<longleftrightarrow> (\<forall>s. P s \<longrightarrow> (case m s of (None, t) \<Rightarrow> E t | (Some x, t) \<Rightarrow> Q x t))"

lemma triple_run:
  assumes "triple P m Q E" and "P s" and "m s = (r, t)"
  shows "case r of None \<Rightarrow> E t | Some x \<Rightarrow> Q x t"
  using assms by (auto simp: triple_def split: option.splits)

lemma triple_ok: "(\<And>s. P s \<Longrightarrow> Q x s) \<Longrightarrow> triple P (io_ok x) Q E"
  by (simp add: triple_def io_ok_def)

lemma triple_err: "(\<And>s. P s \<Longrightarrow> E s) \<Longrightarrow> triple P io_err Q E"
  by (simp add: triple_def io_err_def)

lemma triple_bind:
  assumes "triple P m R E" and "\<And>x. triple (R x) (f x) Q E"
  shows "triple P (io_bind m f) Q E"
  unfolding triple_def
proof (intro allI impI)
  fix s assume "P s"
  with assms(1) have m: "case m s of (None, t) \<Rightarrow> E t | (Some x, t) \<Rightarrow> R x t" by (simp add: triple_def)
  show "case io_bind m f s of (None, t) \<Rightarrow> E t | (Some x, t) \<Rightarrow> Q x t"
  proof (cases "m s")
    case (Pair r t)
    with m assms(2) show ?thesis by (cases r) (auto simp: io_bind_def triple_def)
  qed
qed

lemma triple_seq:
  assumes "triple P m (\<lambda>_. R) E" and "triple R n Q E"
  shows "triple P (io_seq m n) Q E"
  unfolding io_seq_def using assms by (rule triple_bind)

lemma triple_read:
  "(\<And>s. P s \<Longrightarrow> Q (f s) s) \<Longrightarrow> (\<And>s. P s \<Longrightarrow> E s) \<Longrightarrow> triple P (io_read ok f) Q E"
  by (simp add: triple_def io_read_def)

lemma triple_write:
  "(\<And>s. P s \<Longrightarrow> Q () (f s)) \<Longrightarrow> (\<And>s. P s \<Longrightarrow> E s) \<Longrightarrow> triple P (io_write ok f) Q E"
  by (simp add: triple_def io_write_def)

lemma triple_attempt:
  "(\<And>s. P s \<Longrightarrow> Q () (f s)) \<Longrightarrow> (\<And>s. P s \<Longrightarrow> Q () s) \<Longrightarrow> triple P (io_attempt ok f) Q E"
  by (simp add: triple_def io_attempt_def)

lemma triple_if:
  "(b \<Longrightarrow> triple P m Q E) \<Longrightarrow> (\<not> b \<Longrightarrow> triple P n Q E) \<Longrightarrow> triple P (if b then m else n) Q E"
  by simp

lemma triple_static:
  "(\<And>s. P s \<Longrightarrow> A) \<Longrightarrow> (A \<Longrightarrow> triple P m Q E) \<Longrightarrow> triple P m Q E"
  by (cases A) (auto simp: triple_def)

lemma triple_weaken:
  assumes "triple P m Q E" and "\<And>s. P' s \<Longrightarrow> P s" and "\<And>x s. Q x s \<Longrightarrow> Q' x s" and "\<And>s. E s \<Longrightarrow> E' s"
  shows "triple P' m Q' E'"
  using assms unfolding triple_def by (fastforce split: prod.splits option.splits)

lemma triple_each:
  assumes "\<And>pre x rest acc. xs = pre @ x # rest \<Longrightarrow> triple (I pre acc) (body x acc) (I (pre @ [x])) E"
  shows "triple (I [] acc) (io_each body xs acc) (I xs) E"
proof -
  have "triple (I pre acc) (io_each body rest acc) (I xs) E" if "xs = pre @ rest" for pre rest acc
    using that
  proof (induction rest arbitrary: pre acc)
    case Nil
    then show ?case by (auto intro: triple_ok)
  next
    case (Cons x rest)
    show ?case
      unfolding io_each.simps
    proof (rule triple_bind)
      show "triple (I pre acc) (body x acc) (I (pre @ [x])) E" using assms [OF Cons.prems] .
      show "\<And>acc'. triple (I (pre @ [x]) acc') (io_each body rest acc') (I xs) E"
        using Cons.IH [of "pre @ [x]"] Cons.prems by simp
    qed
  qed
  from this [of "[]" xs acc] show ?thesis by simp
qed

lemma triple_each_map:
  assumes "\<And>pre x rest acc. xs = pre @ x # rest \<Longrightarrow> triple (I pre acc) (body (g x) acc) (I (pre @ [x])) E"
  shows "triple (I [] acc) (io_each body (map g xs) acc) (I xs) E"
proof -
  have "io_each body (map g xs) acc = io_each (\<lambda>x. body (g x)) xs acc"
    by (induction xs arbitrary: acc) (simp_all add: io_bind_def fun_eq_iff split: prod.split option.split)
  then show ?thesis using triple_each [OF assms] by simp
qed

text \<open>Facts about the result alone, whatever the state.\<close>

definition returns :: "('s, 'a) io \<Rightarrow> ('a \<Rightarrow> bool) \<Rightarrow> bool" where
  "returns m Q \<longleftrightarrow> triple (\<lambda>_. True) m (\<lambda>x _. Q x) (\<lambda>_. True)"

lemma returns_ok: "Q x \<Longrightarrow> returns (io_ok x) Q"
  by (simp add: returns_def triple_ok)

lemma returns_err: "returns io_err Q"
  by (simp add: returns_def triple_err)

lemma returns_any: "returns m (\<lambda>_. True)"
  by (simp add: returns_def triple_def split: prod.split option.split)

lemma returns_bind: "returns m R \<Longrightarrow> (\<And>x. R x \<Longrightarrow> returns (f x) Q) \<Longrightarrow> returns (io_bind m f) Q"
  unfolding returns_def
  by (rule triple_bind [where R = "\<lambda>x _. R x"]) (auto simp: triple_def)

lemma returns_then: "(\<And>x. returns (f x) Q) \<Longrightarrow> returns (io_bind m f) Q"
  by (rule returns_bind [OF returns_any])

lemma returns_seq: "returns n Q \<Longrightarrow> returns (io_seq m n) Q"
  unfolding io_seq_def by (rule returns_then)

lemma returns_if: "(b \<Longrightarrow> returns m Q) \<Longrightarrow> (\<not> b \<Longrightarrow> returns n Q) \<Longrightarrow> returns (if b then m else n) Q"
  by simp

lemma triple_returns:
  assumes "triple P m Q E" and "returns m R"
  shows "triple P m (\<lambda>x s. Q x s \<and> R x) E"
  using assms unfolding triple_def returns_def by (fastforce split: prod.splits option.splits)

text \<open>
  A fact every write of a program keeps is a fact of the whole program, on its error exits too. The
  locale names what is kept as a reflexive and transitive relation between the state before and the
  state after; a component interprets it at the relation it needs and gets the rules for its programs.
\<close>

definition within :: "('s \<Rightarrow> 's \<Rightarrow> bool) \<Rightarrow> ('s, 'a) io \<Rightarrow> bool" where
  "within R m \<longleftrightarrow> (\<forall>s. R s (snd (m s)))"

locale io_frame =
  fixes R :: "'s \<Rightarrow> 's \<Rightarrow> bool"
  assumes refl: "R s s"
    and trans: "R s t \<Longrightarrow> R t u \<Longrightarrow> R s u"
begin

lemma within_ok: "within R (io_ok x)"
  by (simp add: within_def io_ok_def refl)

lemma within_err: "within R io_err"
  by (simp add: within_def io_err_def refl)

lemma within_read: "within R (io_read ok f)"
  by (simp add: within_def io_read_def refl)

lemma within_write: "(\<And>s. R s (f s)) \<Longrightarrow> within R (io_write ok f)"
  by (simp add: within_def io_write_def refl)

lemma within_attempt: "(\<And>s. R s (f s)) \<Longrightarrow> within R (io_attempt ok f)"
  by (simp add: within_def io_attempt_def refl)

lemma within_bind:
  assumes "within R m" and "\<And>x. within R (f x)"
  shows "within R (io_bind m f)"
  unfolding within_def
proof
  fix s
  have "R s (snd (m s))" using assms(1) by (simp add: within_def)
  moreover have "R (snd (m s)) (snd (f x (snd (m s))))" for x using assms(2) by (simp add: within_def)
  ultimately show "R s (snd (io_bind m f s))"
    by (auto simp: io_bind_def split: prod.splits option.splits intro: trans)
qed

lemma within_seq: "within R m \<Longrightarrow> within R n \<Longrightarrow> within R (io_seq m n)"
  unfolding io_seq_def by (rule within_bind)

lemma within_each:
  assumes "\<And>x acc. x \<in> set xs \<Longrightarrow> within R (body x acc)"
  shows "within R (io_each body xs acc)"
  using assms
proof (induction xs arbitrary: acc)
  case Nil
  show ?case unfolding io_each.simps by (rule within_ok)
next
  case (Cons x xs)
  show ?case unfolding io_each.simps
    by (rule within_bind) (use Cons in \<open>simp_all\<close>)
qed

lemma within_if: "(b \<Longrightarrow> within R m) \<Longrightarrow> (\<not> b \<Longrightarrow> within R n) \<Longrightarrow> within R (if b then m else n)"
  by simp

text \<open>An assertion the frame keeps may be carried along any proof about the program.\<close>

lemma triple_carry:
  assumes "triple P m Q E" and "within R m" and "\<And>s t. R s t \<Longrightarrow> X s \<Longrightarrow> X t"
  shows "triple (\<lambda>s. P s \<and> X s) m (\<lambda>x s. Q x s \<and> X s) (\<lambda>s. E s \<and> X s)"
  unfolding triple_def
proof (intro allI impI)
  fix s assume "P s \<and> X s"
  moreover have "R s (snd (m s))" using assms(2) by (simp add: within_def)
  ultimately have "case m s of (None, t) \<Rightarrow> E t | (Some x, t) \<Rightarrow> Q x t" "X (snd (m s))"
    using assms(1) assms(3) [of s "snd (m s)"] by (simp_all add: triple_def)
  then show "case m s of (None, t) \<Rightarrow> E t \<and> X t | (Some x, t) \<Rightarrow> Q x t \<and> X t" by (auto split: prod.splits option.splits)
qed

lemmas within_rules = within_ok within_err within_read within_bind within_seq within_each

end

end
