(* ===== verification/Populator.thy ===== *)
theory Populator
  imports Restore_Claims Kube_Io
begin

text \<open>
  The driver of a populator \<open>Restore\<close> (\<open>crates/controller/src/restore/mod.rs\<close>): one pass lists the PVCs
  that claim the Restore, drives each through its own handshake (a prime PVC, a mover Job that writes
  it, the rebind of the prime's volume to the claim), writes the records in one status patch, and only
  then finalizes the handshakes that completed. A pass is a program over the cluster (\<open>Kube_Io\<close>) whose
  calls may each fail; a call is named by its place in the source and the object it is about.

  Parameters: the replies of the code outside these functions (the resolution of a claim's source, the
  launch of a mover Job, the verdict on a wedged pod). ConfigMaps, Events and the conditions array are
  left out: nothing here reads them.
\<close>

subsection \<open>The cluster\<close>

record claim_ref =
  cr_namespace :: "string option"
  cr_name :: "string option"
  cr_uid :: "string option"

text \<open>A \<open>PersistentVolume\<close>: \<open>vl_original\<close> is the annotation that keeps the original reclaim policy.\<close>

record volume =
  vl_policy :: "string option"
  vl_claim :: "claim_ref option"
  vl_original :: "string option"

text \<open>A mover Job: its terminal state if it has one, and the claim whose record its mover writes.\<close>

record populate_job =
  pj_terminal :: "bool option"
  pj_deleting :: bool
  pj_claim_key :: "string option"

text \<open>
  The objects the driver reads and writes. The last two fields are histories that no code reads: the
  rebinds ever written (the uid of the claim and the volume), and the uids ever recorded \<open>Populated\<close>.
\<close>

record cluster =
  cl_status :: "restore_status option"
  cl_pvcs :: "pvc_object list"
  cl_classes :: "(string \<times> string option) list"
  cl_volumes :: "(string \<times> volume) list"
  cl_jobs :: "(string \<times> populate_job) list"
  cl_rebinds :: "(string \<times> string) list"
  cl_recorded :: "string list"

record restore_object =
  rp_name :: string
  rp_namespace :: string
  rp_uid :: "string option"
  rp_source :: restore_source
  rp_wait_timeout :: "string option"
  rp_on_missing :: "on_missing_snapshot option"

datatype call =
    ListPvcs | ListVolumes | GetLegacyJob | PatchStatus | GetStatus string
  | SurvivingPrime string | SurvivingJob string | SurvivingLegacyJob string | ReapLegacyJob string | DeleteWorkSpec string
  | FinalizeGetVolume string | FinalizePatchVolume string | FinalizeDeleteJob string | FinalizeDeletePrime string
  | BoundGetPrime string | BoundGetJob string | HijackDeleteJob string
  | GetClass string | EnsureGet string | EnsureCreate string
  | MoverGetJob string | WedgedDelete string
  | RebindGetPrime string | RebindGetVolume string | RebindPatch string | RebindDelete string

datatype source_reply =
  SR_Error | SR_Ambiguous | SR_Pinned string "string option" | SR_Deferred "string option" | SR_NoSnapshot

datatype launch_reply = LR_Launched | LR_GateHeld | LR_Error

text \<open>What one pass is told: which calls succeed, the clock, and the replies of the code it calls.\<close>

record pass_world =
  pw_ok :: "call \<Rightarrow> bool"
  pw_now :: int
  pw_now_str :: string
  pw_rfc3339 :: "string \<Rightarrow> datetime option"
  pw_resolve :: "string \<Rightarrow> int \<Rightarrow> source_reply"
  pw_launch :: "string \<Rightarrow> launch_reply"
  pw_wedged :: "string \<Rightarrow> bool option"
  pw_new_uid :: "string \<Rightarrow> string"

type_synonym 'a pass = "(cluster, 'a) io"

definition find_pvc :: "string \<Rightarrow> cluster \<Rightarrow> pvc_object option" where
  "find_pvc name c = List.find (\<lambda>p. pc_name p = name) (cl_pvcs c)"

definition find_job :: "string \<Rightarrow> cluster \<Rightarrow> populate_job option" where
  "find_job name c = map_of (cl_jobs c) name"

definition find_volume :: "string \<Rightarrow> cluster \<Rightarrow> volume option" where
  "find_volume name c = map_of (cl_volumes c) name"

definition delete_pvc :: "string \<Rightarrow> cluster \<Rightarrow> cluster" where
  "delete_pvc name c = c\<lparr>cl_pvcs := map (\<lambda>p. if pc_name p = name then p\<lparr>pc_deleting := True\<rparr> else p) (cl_pvcs c)\<rparr>"

definition delete_job :: "string \<Rightarrow> cluster \<Rightarrow> cluster" where
  "delete_job name c = c\<lparr>cl_jobs := map (\<lambda>(n, j). (n, if n = name then j\<lparr>pj_deleting := True\<rparr> else j)) (cl_jobs c)\<rparr>"

definition set_volume :: "string \<Rightarrow> volume \<Rightarrow> cluster \<Rightarrow> cluster" where
  "set_volume name v c = c\<lparr>cl_volumes := map (\<lambda>(n, u). (n, if n = name then v else u)) (cl_volumes c)\<rparr>"

subsection \<open>Who claims the Restore\<close>

definition pvc_claims_restore :: "string \<Rightarrow> pvc_object \<Rightarrow> bool" where
  "pvc_claims_restore restore_name pvc =
     is_some_and (\<lambda>(kind, name, api_group). kind = ''Restore'' \<and> name = restore_name \<and>
         api_group = Some ''kopiur.home-operations.com'')
       (pc_data_source pvc)"

definition OP_RESTORE_POPULATE :: string where
  "OP_RESTORE_POPULATE = ''restore-populate''"

record claimants =
  ca_consumers :: "pvc_object list"
  ca_primes :: "string list"

definition prime_live :: "claimants \<Rightarrow> string \<Rightarrow> bool" where
  "prime_live claimants uid \<longleftrightarrow> prime_pvc_name uid \<in> set (ca_primes claimants)"

definition owned_prime :: "string option \<Rightarrow> pvc_object \<Rightarrow> bool" where
  "owned_prime restore_uid pvc \<longleftrightarrow>
     \<not> pc_deleting pvc \<and> pc_op pvc = Some OP_RESTORE_POPULATE \<and>
     list_ex (\<lambda>(kind, uid). kind = ''Restore'' \<and> Some uid = restore_uid) (pc_owners pvc)"

definition claiming_pvcs :: "pass_world \<Rightarrow> string \<Rightarrow> string option \<Rightarrow> claimants pass" where
  "claiming_pvcs w name restore_uid =
     io_bind (io_read (pw_ok w ListPvcs) cl_pvcs) (\<lambda>items.
     io_ok \<lparr>ca_consumers = sort_key pc_name (filter (pvc_claims_restore name) items),
       ca_primes = map pc_name (filter (\<lambda>p. \<not> pvc_claims_restore name p \<and> owned_prime restore_uid p) items)\<rparr>)"

definition rebound_uid :: "string \<Rightarrow> volume \<Rightarrow> string option" where
  "rebound_uid namespace v =
     (if vl_original v = None then None
      else case vl_claim v of
             None \<Rightarrow> None
           | Some cr \<Rightarrow> if cr_namespace cr = Some namespace then cr_uid cr else None)"

definition our_rebound_pvs :: "pass_world \<Rightarrow> string \<Rightarrow> (string \<rightharpoonup> string) pass" where
  "our_rebound_pvs w namespace =
     io_read (pw_ok w ListVolumes) (\<lambda>c.
       foldl (\<lambda>by_uid (name, v). case rebound_uid namespace v of None \<Rightarrow> by_uid | Some uid \<Rightarrow> by_uid(uid \<mapsto> name))
         Map.empty (cl_volumes c))"

definition consumer_storage_class_is_wffc :: "pass_world \<Rightarrow> pvc_object \<Rightarrow> bool pass" where
  "consumer_storage_class_is_wffc w consumer = (case pc_class consumer of
     None \<Rightarrow> io_ok False
   | Some scn \<Rightarrow>
       io_read (pw_ok w (GetClass scn))
         (\<lambda>c. Option.bind (map_of (cl_classes c) scn) (\<lambda>mode. mode) = Some ''WaitForFirstConsumer''))"

subsection \<open>Tearing the artifacts down\<close>

datatype prime_pv_action = PA_RestoreOriginalPolicy string | PA_ForceRetain string | PA_Leave

definition settle_volume :: "pass_world \<Rightarrow> string \<Rightarrow> string option \<Rightarrow> unit pass" where
  "settle_volume w pv_name forced =
     io_bind (io_read (pw_ok w (FinalizeGetVolume pv_name)) (find_volume pv_name)) (\<lambda>pv. case pv of
       None \<Rightarrow> io_ok ()
     | Some v \<Rightarrow>
         (case or_else forced (vl_original v) of
            None \<Rightarrow> io_ok ()
          | Some target \<Rightarrow>
              io_write (pw_ok w (FinalizePatchVolume pv_name))
                (set_volume pv_name (v\<lparr>vl_policy := Some target, vl_original := None\<rparr>))))"

definition finalize_populator :: "pass_world \<Rightarrow> string \<Rightarrow> string \<Rightarrow> prime_pv_action \<Rightarrow> unit pass" where
  "finalize_populator w populate_job prime_name pv =
     io_seq (case pv of
         PA_RestoreOriginalPolicy pv_name \<Rightarrow> settle_volume w pv_name None
       | PA_ForceRetain pv_name \<Rightarrow> settle_volume w pv_name (Some ''Retain'')
       | PA_Leave \<Rightarrow> io_ok ())
     (io_seq (io_attempt (pw_ok w (FinalizeDeleteJob populate_job)) (delete_job populate_job))
       (io_attempt (pw_ok w (FinalizeDeletePrime prime_name)) (delete_pvc prime_name)))"

definition delete_populate_run :: "pass_world \<Rightarrow> call \<Rightarrow> string \<Rightarrow> unit pass" where
  "delete_populate_run w call job_name =
     io_seq (io_write (pw_ok w call) (delete_job job_name)) (io_read (pw_ok w (DeleteWorkSpec job_name)) (\<lambda>_. ()))"

record surviving_artifacts =
  sa_any :: bool
  sa_legacy_job :: bool

definition surviving_populate_artifacts :: "pass_world \<Rightarrow> string \<Rightarrow> string \<Rightarrow> string \<Rightarrow> surviving_artifacts pass" where
  "surviving_populate_artifacts w prime job legacy_job =
     io_bind (io_read (pw_ok w (SurvivingPrime prime)) (\<lambda>c. is_some_and (\<lambda>p. \<not> pc_deleting p) (find_pvc prime c))) (\<lambda>p.
     io_bind (io_read (pw_ok w (SurvivingJob job)) (\<lambda>c. is_some_and (\<lambda>j. \<not> pj_deleting j) (find_job job c))) (\<lambda>j.
     io_bind (if legacy_job \<noteq> job
         then io_read (pw_ok w (SurvivingLegacyJob legacy_job))
                (\<lambda>c. is_some_and (\<lambda>j. \<not> pj_deleting j) (find_job legacy_job c))
         else io_ok False) (\<lambda>l.
     io_ok \<lparr>sa_any = (p \<or> j \<or> l), sa_legacy_job = l\<rparr>)))"

definition reap_claim_artifacts ::
    "pass_world \<Rightarrow> restore_object \<Rightarrow> string \<Rightarrow> string option \<Rightarrow> string option \<Rightarrow> unit pass" where
  "reap_claim_artifacts w restore uid reason pv =
     (if \<not> claim_artifacts_reapable reason then io_ok ()
      else
        (let prime = prime_pvc_name uid;
             job = populate_job_name (rp_name restore) uid;
             legacy_job = legacy_populate_job_name (rp_name restore)
         in io_bind (surviving_populate_artifacts w prime job legacy_job) (\<lambda>survivors.
            if \<not> sa_any survivors \<and> pv = None then io_ok ()
            else
              io_seq (finalize_populator w job prime (case pv of Some pv \<Rightarrow> PA_ForceRetain pv | None \<Rightarrow> PA_Leave))
                (if sa_legacy_job survivors
                 then delete_populate_run w (ReapLegacyJob legacy_job) legacy_job
                 else io_ok ()))))"

definition reap_gone_claims :: "pass_world \<Rightarrow> restore_object \<Rightarrow> claims \<Rightarrow> string list \<Rightarrow> string list pass" where
  "reap_gone_claims w restore prev live_names =
     io_each (\<lambda>(claim, record) gone.
         if claim \<in> set live_names then io_ok gone
         else
           io_seq (case cs_uid record of
               Some uid \<Rightarrow> reap_claim_artifacts w restore uid (cs_reason record) None
             | None \<Rightarrow> io_ok ())
             (io_ok (gone @ [claim])))
       prev []"

subsection \<open>One claim\<close>

record claim_context =
  cc_consumer :: pvc_object
  cc_consumer_name :: string
  cc_uid :: string
  cc_prime_name :: string
  cc_job_name :: string
  cc_job_reuse :: job_name_reuse
  cc_prev :: "claim_status option"

text \<open>\<open>ClaimContext::record\<close>; the message text is left out.\<close>

definition claim_record :: "claim_context \<Rightarrow> restore_claim_phase \<Rightarrow> claim_reason \<Rightarrow> claim_status" where
  "claim_record cc phase reason =
     \<lparr>cs_uid = Some (cc_uid cc), cs_phase = Some phase, cs_reason = Some (claim_reason_str reason), cs_message = Some [],
      cs_source_path = Option.bind (cc_prev cc) cs_source_path, cs_resolved = Option.bind (cc_prev cc) cs_resolved,
      cs_pvc_prime = Option.bind (cc_prev cc) cs_pvc_prime, cs_job = Option.bind (cc_prev cc) cs_job,
      cs_wait_started_at = Option.bind (cc_prev cc) cs_wait_started_at, cs_observed_at = None, cs_log_tail = None,
      cs_failure = None\<rparr>"

record post_patch_finalize =
  pf_job :: string
  pf_prime :: string
  pf_pv :: string

text \<open>\<open>co_event\<close> is the reason of the Event the claim wants published.\<close>

record claim_outcome =
  co_record :: claim_status
  co_requeue :: nat
  co_event :: "string option"
  co_after_patch :: "post_patch_finalize option"

definition plain_outcome :: "claim_status \<Rightarrow> nat \<Rightarrow> claim_outcome" where
  "plain_outcome record requeue = \<lparr>co_record = record, co_requeue = requeue, co_event = None, co_after_patch = None\<rparr>"

definition claim_finalize_rebound :: "pass_world \<Rightarrow> restore_object \<Rightarrow> claim_context \<Rightarrow> string \<Rightarrow> claim_outcome pass" where
  "claim_finalize_rebound w restore cc pv_name =
     io_bind (io_read (pw_ok w (GetStatus (cc_consumer_name cc))) cl_status) (\<lambda>live_status.
       let live = claim_finalize_pin (cc_job_reuse cc)
             (Option.bind (Option.bind live_status (\<lambda>s. map_of (rst_claims s) (cc_consumer_name cc))) cs_resolved)
             (Option.bind (cc_prev cc) cs_resolved)
             (Option.bind live_status rst_resolved);
           restored = (Option.bind live rr_resolution = Some RO_Snapshot);
           record = (claim_record cc RC_Populated (if restored then RestoreSucceeded else NoSnapshotContinue))
             \<lparr>cs_resolved := live, cs_pvc_prime := None, cs_job := None\<rparr>
       in io_ok \<lparr>co_record = record, co_requeue = 600, co_event = None,
            co_after_patch = Some \<lparr>pf_job = cc_job_name cc, pf_prime = cc_prime_name cc, pf_pv = pv_name\<rparr>\<rparr>)"

definition fail_populate_hijacked :: "pass_world \<Rightarrow> claim_context \<Rightarrow> claim_outcome pass" where
  "fail_populate_hijacked w cc =
     io_seq (delete_populate_run w (HijackDeleteJob (cc_job_name cc)) (cc_job_name cc))
       (io_ok \<lparr>co_record = (claim_record cc RC_Failed PopulateHijacked)\<lparr>cs_job := None, cs_pvc_prime := Some (cc_prime_name cc)\<rparr>,
          co_requeue = 600, co_event = Some ''PopulateHijacked'', co_after_patch = None\<rparr>)"

definition claim_already_bound :: "pass_world \<Rightarrow> claim_context \<Rightarrow> string option \<Rightarrow> claim_outcome pass" where
  "claim_already_bound w cc kept_pv =
     io_bind (io_read (pw_ok w (BoundGetPrime (cc_prime_name cc)))
         (\<lambda>c. is_some_and (\<lambda>p. \<not> pc_deleting p) (find_pvc (cc_prime_name cc) c))) (\<lambda>prime_live.
     io_bind (io_read (pw_ok w (BoundGetJob (cc_job_name cc)))
         (\<lambda>c. case find_job (cc_job_name cc) c of Some j \<Rightarrow> if pj_deleting j then None else Some j | None \<Rightarrow> None)) (\<lambda>job.
     if is_some_and (\<lambda>j. pj_terminal j = None) job then fail_populate_hijacked w cc
     else
       (let artifacts = (prime_live \<or> job \<noteq> None);
            reap = (artifacts \<or> kept_pv \<noteq> None)
        in io_seq (if reap
             then finalize_populator w (cc_job_name cc) (cc_prime_name cc)
                    (case kept_pv of Some pv \<Rightarrow> PA_ForceRetain pv | None \<Rightarrow> PA_Leave)
             else io_ok ())
           (io_ok \<lparr>co_record = (claim_record cc RC_AlreadyBound (case kept_pv of Some _ \<Rightarrow> LostRebind | None \<Rightarrow> TargetAlreadyBound))
                \<lparr>cs_pvc_prime := None, cs_job := None\<rparr>,
              co_requeue = 600, co_event = (if reap then Some ''OrphanedPrimePvcReaped'' else None), co_after_patch = None\<rparr>))))"

subsection \<open>The source of one claim\<close>

datatype restore_selection = Sel_Snapshot string | Sel_Resolve "string option"

datatype claim_resolution = CR_Restore restore_selection | CR_EmptyVolume | CR_Parked claim_outcome

text \<open>
  The resolution together with the two values the source passes by mutable reference: the pin and the
  source path.
\<close>

type_synonym resolved_claim = "claim_resolution \<times> resolved_restore option \<times> string option"

definition no_snapshot_for_claim ::
    "pass_world \<Rightarrow> restore_object \<Rightarrow> claim_context \<Rightarrow> wait_window \<Rightarrow> resolved_restore option \<Rightarrow> string option \<Rightarrow> resolved_claim" where
  "no_snapshot_for_claim w restore cc window resolved_pin source_path =
     (case wait_remaining_secs (wait_anchor window) (rp_wait_timeout restore) (pw_now w) of
        Some remaining \<Rightarrow>
          (CR_Parked (plain_outcome (claim_record cc RC_Pending WaitingForSnapshot) (wait_park_requeue window remaining)),
           resolved_pin, source_path)
      | None \<Rightarrow>
          (case effective_on_missing (rp_on_missing restore) (rp_source restore) of
             OM_Fail \<Rightarrow> (CR_Parked (plain_outcome (claim_record cc RC_Failed SnapshotNotFound) 300), resolved_pin, source_path)
           | OM_Continue \<Rightarrow>
               (CR_EmptyVolume,
                Some \<lparr>rr_resolution = Some RO_NoSnapshot, rr_kopia_snapshot_id = None, rr_pinned_at = Some (pw_now_str w),
                  rr_source_path = None\<rparr>, source_path)))"

definition resolve_claim_source :: "pass_world \<Rightarrow> restore_object \<Rightarrow> claim_context \<Rightarrow> resolved_claim pass" where
  "resolve_claim_source w restore cc =
     (let resolved_pin = Option.bind (cc_prev cc) cs_resolved;
          source_path = Option.bind (cc_prev cc) cs_source_path
      in case Option.bind (cc_prev cc) claim_pinned_decision of
           Some (Res_Snapshot snap) \<Rightarrow> io_ok (CR_Restore (Sel_Snapshot snap), resolved_pin, source_path)
         | Some (Res_Deferred sel) \<Rightarrow> io_ok (CR_Restore (Sel_Resolve sel), resolved_pin, source_path)
         | Some Res_Empty \<Rightarrow> io_ok (CR_EmptyVolume, resolved_pin, source_path)
         | None \<Rightarrow>
             (let window = claim_wait_window (pw_rfc3339 w) (cc_prev cc) (pw_now w)
              in case pw_resolve w (cc_consumer_name cc) (wait_anchor window) of
                   SR_Error \<Rightarrow> io_err
                 | SR_Ambiguous \<Rightarrow>
                     io_ok (CR_Parked (plain_outcome (claim_record cc RC_Failed SourcePathAmbiguous) 300), resolved_pin, source_path)
                 | SR_Pinned snap path \<Rightarrow>
                     io_ok (CR_Restore (Sel_Snapshot snap),
                       Some \<lparr>rr_resolution = Some RO_Snapshot, rr_kopia_snapshot_id = Some snap,
                         rr_pinned_at = Some (pw_now_str w), rr_source_path = path\<rparr>,
                       or_else path source_path)
                 | SR_Deferred path \<Rightarrow> io_ok (CR_Restore (Sel_Resolve path), resolved_pin, path)
                 | SR_NoSnapshot \<Rightarrow> io_ok (no_snapshot_for_claim w restore cc window resolved_pin source_path)))"

subsection \<open>Populating one claim\<close>

definition ensure_prime_pvc :: "pass_world \<Rightarrow> restore_object \<Rightarrow> string \<Rightarrow> pvc_object \<Rightarrow> string option \<Rightarrow> unit pass" where
  "ensure_prime_pvc w restore prime_name consumer selected_node =
     io_bind (io_read (pw_ok w (EnsureGet prime_name)) (find_pvc prime_name)) (\<lambda>existing. case existing of
       Some _ \<Rightarrow> io_ok ()
     | None \<Rightarrow>
         (case rp_uid restore of
            None \<Rightarrow> io_err
          | Some owner \<Rightarrow>
              io_write (pw_ok w (EnsureCreate prime_name)) (\<lambda>c. c\<lparr>cl_pvcs := cl_pvcs c @
                [\<lparr>pc_name = prime_name, pc_uid = pw_new_uid w prime_name, pc_deleting = False, pc_data_source = None,
                  pc_op = Some OP_RESTORE_POPULATE, pc_owners = [(''Restore'', owner)], pc_class = pc_class consumer,
                  pc_volume = None, pc_status_bound = False, pc_selected_node = selected_node\<rparr>]\<rparr>)))"

definition rebound_to :: "string \<Rightarrow> string \<Rightarrow> volume \<Rightarrow> bool" where
  "rebound_to consumer_name consumer_uid v =
     is_some_and (\<lambda>cr. cr_name cr = Some consumer_name \<and> cr_uid cr = Some consumer_uid) (vl_claim v)"

text \<open>The rebind patch, entered in the history of rebinds.\<close>

definition rebind_volume :: "string \<Rightarrow> string \<Rightarrow> string \<Rightarrow> string \<Rightarrow> volume \<Rightarrow> cluster \<Rightarrow> cluster" where
  "rebind_volume namespace consumer_name consumer_uid pv_name v c =
     (set_volume pv_name
        \<lparr>vl_policy = Some ''Retain'',
         vl_claim = Some \<lparr>cr_namespace = Some namespace, cr_name = Some consumer_name, cr_uid = Some consumer_uid\<rparr>,
         vl_original = Some (unwrap_or (vl_policy v) ''Delete'')\<rparr> c)
     \<lparr>cl_rebinds := (consumer_uid, pv_name) # cl_rebinds c\<rparr>"

definition issue_rebind :: "pass_world \<Rightarrow> string \<Rightarrow> string \<Rightarrow> string \<Rightarrow> string \<Rightarrow> string \<Rightarrow> bool pass" where
  "issue_rebind w namespace prime_name consumer_name consumer_uid pv_name =
     io_bind (io_read (pw_ok w (RebindGetVolume pv_name)) (find_volume pv_name)) (\<lambda>pv. case pv of
       None \<Rightarrow> io_ok False
     | Some v \<Rightarrow>
         io_seq (if rebound_to consumer_name consumer_uid v then io_ok ()
             else io_write (pw_ok w (RebindPatch pv_name)) (rebind_volume namespace consumer_name consumer_uid pv_name v))
          (io_seq (io_attempt (pw_ok w (RebindDelete prime_name)) (delete_pvc prime_name))
            (io_ok True)))"

definition rebind_prime_to_consumer :: "pass_world \<Rightarrow> string \<Rightarrow> string \<Rightarrow> string \<Rightarrow> string \<Rightarrow> bool pass" where
  "rebind_prime_to_consumer w namespace prime_name consumer_name consumer_uid =
     io_bind (io_read (pw_ok w (RebindGetPrime prime_name)) (find_pvc prime_name)) (\<lambda>prime. case prime of
       None \<Rightarrow> io_ok True
     | Some prime \<Rightarrow>
         (case non_empty (pc_volume prime) of
            None \<Rightarrow> io_ok False
          | Some pv_name \<Rightarrow> issue_rebind w namespace prime_name consumer_name consumer_uid pv_name))"

datatype mover_outcome = MO_Running | MO_Failed | MO_Wedged | MO_Succeeded

definition observe_restore_mover :: "pass_world \<Rightarrow> string \<Rightarrow> populate_job \<Rightarrow> mover_outcome pass" where
  "observe_restore_mover w job_name job = (case pj_terminal job of
     Some True \<Rightarrow> io_ok MO_Succeeded
   | Some False \<Rightarrow> io_ok MO_Failed
   | None \<Rightarrow>
       (case pw_wedged w job_name of
          None \<Rightarrow> io_err
        | Some True \<Rightarrow>
            io_seq (io_attempt (pw_ok w (WedgedDelete job_name)) (delete_job job_name)) (io_ok MO_Wedged)
        | Some False \<Rightarrow> io_ok MO_Running))"

definition blank_status :: restore_status where
  "blank_status = \<lparr>rst_phase = None, rst_resolved = None, rst_ready_reason = None, rst_target_prime = None,
     rst_target_ref = None, rst_wait_started_at = None, rst_claims = []\<rparr>"

definition patch_restore_status :: "(restore_status \<Rightarrow> restore_status) \<Rightarrow> cluster \<Rightarrow> cluster" where
  "patch_restore_status f c = c\<lparr>cl_status := Some (f (unwrap_or (cl_status c) blank_status))\<rparr>"

text \<open>
  The launch itself (repository, identity, credentials, security context, the Job's manifest) is the
  reply: it creates the Job, parks the Restore at \<open>Pending\<close> on a gate and fails, or fails.
\<close>

definition run_restore_mover :: "pass_world \<Rightarrow> string \<Rightarrow> job_name_reuse \<Rightarrow> string \<Rightarrow> mover_outcome pass" where
  "run_restore_mover w job_name job_reuse claim_key =
     io_bind (io_read (pw_ok w (MoverGetJob job_name)) (find_job job_name)) (\<lambda>job. case job of
       Some j \<Rightarrow>
         if (case job_reuse of JR_LegacyShared \<Rightarrow> pj_deleting j | JR_Fresh \<Rightarrow> False) then io_ok MO_Running
         else observe_restore_mover w job_name j
     | None \<Rightarrow>
         (case pw_launch w job_name of
            LR_Launched \<Rightarrow>
              io_seq (io_write True (\<lambda>c. c\<lparr>cl_jobs := (job_name, \<lparr>pj_terminal = None, pj_deleting = False,
                  pj_claim_key = Some claim_key\<rparr>) # cl_jobs c\<rparr>))
                (io_ok MO_Running)
          | LR_GateHeld \<Rightarrow> io_seq (io_write True (patch_restore_status (\<lambda>s. s\<lparr>rst_phase := Some RE_Pending\<rparr>))) io_err
          | LR_Error \<Rightarrow> io_err))"

definition with_pins :: "resolved_restore option \<Rightarrow> string option \<Rightarrow> string option \<Rightarrow> claim_status \<Rightarrow> claim_status" where
  "with_pins resolved_pin source_path wait_started_at record =
     record\<lparr>cs_resolved := resolved_pin, cs_source_path := source_path, cs_wait_started_at := wait_started_at\<rparr>"

text \<open>
  The tail of \<open>claim_populate\<close>, once the source is decided: the scheduling hint, the prime PVC, the
  mover, the rebind. \<open>pins\<close> writes the pin, the source path and the opened wait window into a record.
\<close>

definition populate_selected ::
    "pass_world \<Rightarrow> restore_object \<Rightarrow> claim_context \<Rightarrow> restore_selection option \<Rightarrow> (claim_status \<Rightarrow> claim_status) \<Rightarrow>
     claim_outcome pass" where
  "populate_selected w restore cc selection pins =
     io_bind (if pc_selected_node (cc_consumer cc) = None then consumer_storage_class_is_wffc w (cc_consumer cc) else io_ok False)
     (\<lambda>unscheduled.
     if unscheduled then io_ok (plain_outcome (pins (claim_record cc RC_Pending AwaitingPodSchedule)) 15)
     else
       io_seq (ensure_prime_pvc w restore (cc_prime_name cc) (cc_consumer cc) (pc_selected_node (cc_consumer cc)))
       (io_bind (if selection \<noteq> None
           then run_restore_mover w (cc_job_name cc) (cc_job_reuse cc) (cc_consumer_name cc)
           else io_ok MO_Succeeded)
       (\<lambda>outcome.
         let named = (\<lambda>r. pins (r\<lparr>cs_pvc_prime := Some (cc_prime_name cc),
               cs_job := (if selection \<noteq> None then Some (cc_job_name cc) else None)\<rparr>))
         in case outcome of
              MO_Running \<Rightarrow> io_ok (plain_outcome (named (claim_record cc RC_Populating PopulatingPrimePvc)) 15)
            | MO_Failed \<Rightarrow> io_ok (plain_outcome (named (claim_record cc RC_Failed MoverJobFailed)) 120)
            | MO_Wedged \<Rightarrow> io_ok (plain_outcome (named (claim_record cc RC_Failed MoverPodWedged)) 120)
            | MO_Succeeded \<Rightarrow>
                (let record = named (if selection \<noteq> None then claim_record cc RC_Rebinding PopulatingPrimePvc
                       else claim_record cc RC_Populating NoSnapshotContinue)
                 in io_bind (rebind_prime_to_consumer w (rp_namespace restore) (cc_prime_name cc) (cc_consumer_name cc) (cc_uid cc))
                    (\<lambda>issued. io_ok (plain_outcome (if issued then record\<lparr>cs_phase := Some RC_Rebinding\<rparr> else record) 5))))))"

definition claim_populate :: "pass_world \<Rightarrow> restore_object \<Rightarrow> claim_context \<Rightarrow> claim_outcome pass" where
  "claim_populate w restore cc =
     io_bind (resolve_claim_source w restore cc) (\<lambda>(resolution, resolved_pin, source_path).
       let wait_started_at = or_else (Option.bind (cc_prev cc) cs_wait_started_at) (Some (pw_now_str w));
           pins = with_pins resolved_pin source_path wait_started_at
       in case resolution of
            CR_Parked outcome \<Rightarrow> io_ok (outcome\<lparr>co_record := pins (co_record outcome)\<rparr>)
          | CR_Restore selection \<Rightarrow> populate_selected w restore cc (Some selection) pins
          | CR_EmptyVolume \<Rightarrow> populate_selected w restore cc None pins)"

definition drive_claim :: "pass_world \<Rightarrow> restore_object \<Rightarrow> claim_context \<Rightarrow> (string \<rightharpoonup> string) \<Rightarrow> claim_outcome pass" where
  "drive_claim w restore cc rebound = (case populator_handshake (cc_consumer cc) (rebound (cc_uid cc)) of
     PH_FinalizeRebound pv \<Rightarrow> claim_finalize_rebound w restore cc pv
   | PH_AwaitingBind \<Rightarrow> io_ok (plain_outcome (claim_record cc RC_Rebinding PopulatingPrimePvc) 5)
   | PH_NothingToPopulate \<Rightarrow> claim_already_bound w cc None
   | PH_LostRebind pv \<Rightarrow> claim_already_bound w cc (Some pv)
   | PH_Populate \<Rightarrow> claim_populate w restore cc)"

definition claim_context_for :: "restore_object \<Rightarrow> claim_status option \<Rightarrow> pvc_object \<Rightarrow> string \<Rightarrow> string \<Rightarrow> claim_context" where
  "claim_context_for restore record consumer claim uid =
     (let job = unwrap_or (Option.bind record cs_job) (populate_job_name (rp_name restore) uid)
      in \<lparr>cc_consumer = consumer, cc_consumer_name = claim, cc_uid = uid, cc_prime_name = prime_pvc_name uid,
          cc_job_name = job,
          cc_job_reuse = (if job = legacy_populate_job_name (rp_name restore) then JR_LegacyShared else JR_Fresh),
          cc_prev = record\<rparr>)"

definition drive_one_claim ::
    "pass_world \<Rightarrow> restore_object \<Rightarrow> claimants \<Rightarrow> claims \<Rightarrow> (string \<rightharpoonup> string) \<Rightarrow> string \<times> string \<Rightarrow> claim_drive \<Rightarrow>
     claim_outcome pass" where
  "drive_one_claim w restore claimants prev rebound live drive =
     (let claim = fst live; uid = snd live; record = map_of prev claim
      in case drive of
           CD_Settled \<Rightarrow>
             (let carried = unwrap_or record no_claim_status
              in io_seq (if prime_live claimants uid \<and> settled_artifacts_reapable carried
                   then reap_claim_artifacts w restore uid (cs_reason carried) None
                   else io_ok ())
                 (io_ok (plain_outcome carried 600)))
         | CD_ReArm stale_uid \<Rightarrow>
             io_seq (reap_claim_artifacts w restore stale_uid (Option.bind record cs_reason) (rebound stale_uid))
               (io_ok (plain_outcome (no_claim_status\<lparr>cs_uid := Some uid, cs_phase := Some RC_Pending,
                  cs_reason := Some (claim_reason_str ClaimRecreated), cs_message := Some []\<rparr>) 5))
         | CD_Drive \<Rightarrow>
             (case List.find (\<lambda>p. pc_name p = claim) (ca_consumers claimants) of
                None \<Rightarrow> io_err
              | Some consumer \<Rightarrow> drive_claim w restore (claim_context_for restore record consumer claim uid) rebound))"

subsection \<open>The pass\<close>

definition adopt_legacy_claims :: "pass_world \<Rightarrow> restore_object \<Rightarrow> claimants \<Rightarrow> restore_status option \<Rightarrow> claims pass" where
  "adopt_legacy_claims w restore claimants status = (case status of
     None \<Rightarrow> io_ok []
   | Some s \<Rightarrow>
       if rst_claims s \<noteq> [] then io_ok []
       else if legacy_adoption s (ca_consumers claimants) (ca_primes claimants) = LA_No then io_ok []
       else
         (case legacy_claimant (ca_consumers claimants) (ca_primes claimants) of
            None \<Rightarrow> io_ok []
          | Some consumer \<Rightarrow>
              io_bind (io_read (pw_ok w GetLegacyJob) (find_job (legacy_populate_job_name (rp_name restore)))) (\<lambda>job.
                io_ok (case adopt_legacy_claim s consumer
                    (map_option (\<lambda>_. legacy_populate_job_name (rp_name restore)) job) of
                  None \<Rightarrow> []
                | Some record \<Rightarrow> [(pc_name consumer, record)]))))"

record fanout =
  fo_next :: claims
  fo_events :: "(string \<times> string) list"
  fo_finalizers :: "post_patch_finalize list"
  fo_requeue :: nat

definition fanout_claim ::
    "pass_world \<Rightarrow> restore_object \<Rightarrow> claimants \<Rightarrow> claims \<Rightarrow> (string \<rightharpoonup> string) \<Rightarrow> (string \<times> string) \<times> claim_drive \<Rightarrow>
     fanout \<Rightarrow> fanout pass" where
  "fanout_claim w restore claimants prev rebound plan acc =
     io_bind (drive_one_claim w restore claimants prev rebound (fst plan) (snd plan)) (\<lambda>outcome.
       let claim = fst (fst plan)
       in io_ok \<lparr>fo_next = fo_next acc @ [(claim, co_record outcome)],
            fo_events = fo_events acc @ (case co_event outcome of
                Some reason \<Rightarrow> if claim_transition (map_of prev claim) (co_record outcome) then [(claim, reason)] else []
              | None \<Rightarrow> []),
            fo_finalizers = fo_finalizers acc @ (case co_after_patch outcome of Some f \<Rightarrow> [f] | None \<Rightarrow> []),
            fo_requeue = min (fo_requeue acc) (co_requeue outcome)\<rparr>)"

text \<open>The end-of-pass status patch, entered in the history of the uids recorded \<open>Populated\<close>.\<close>

definition populated_uids :: "claims \<Rightarrow> string list" where
  "populated_uids cs = filter_map (\<lambda>(_, r). if cs_phase r = Some RC_Populated then cs_uid r else None) cs"

definition patch_fanout_status :: "claims \<Rightarrow> claims \<Rightarrow> string list \<Rightarrow> cluster \<Rightarrow> cluster" where
  "patch_fanout_status prev next' gone c =
     (patch_restore_status (fanout_status prev next' gone) c)\<lparr>cl_recorded := populated_uids next' @ cl_recorded c\<rparr>"

definition run_deferred_finalizers :: "pass_world \<Rightarrow> post_patch_finalize list \<Rightarrow> unit pass" where
  "run_deferred_finalizers w finalizers =
     io_each (\<lambda>f _. finalize_populator w (pf_job f) (pf_prime f) (PA_RestoreOriginalPolicy (pf_pv f))) finalizers ()"

definition park_unclaimed_populator :: "pass_world \<Rightarrow> restore_object \<Rightarrow> claims \<Rightarrow> nat pass" where
  "park_unclaimed_populator w restore prev =
     io_bind (reap_gone_claims w restore prev []) (\<lambda>gone.
       io_seq (io_write (pw_ok w PatchStatus) (patch_restore_status (awaiting_claim_status gone))) (io_ok 30))"

definition drive_claims ::
    "pass_world \<Rightarrow> restore_object \<Rightarrow> claimants \<Rightarrow> claims \<Rightarrow> nat pass" where
  "drive_claims w restore claimants prev =
     (let live = map (\<lambda>p. (pc_name p, pc_uid p)) (ca_consumers claimants);
          plans = map (\<lambda>(claim, uid). claim_drive (map_of prev claim) uid) live
      in io_bind (reap_gone_claims w restore prev (map fst live)) (\<lambda>gone.
         io_bind (if pass_is_all_quiet gone plans live prev (ca_primes claimants) then io_ok Map.empty
             else our_rebound_pvs w (rp_namespace restore)) (\<lambda>rebound.
         io_bind (io_each (fanout_claim w restore claimants prev rebound) (zip live plans)
             \<lparr>fo_next = [], fo_events = [], fo_finalizers = [], fo_requeue = 600\<rparr>) (\<lambda>acc.
         io_seq (io_write (pw_ok w PatchStatus) (patch_fanout_status prev (fo_next acc) gone))
         (io_seq (run_deferred_finalizers w (fo_finalizers acc))
           (io_ok (fo_requeue acc)))))))"

definition drive_populator_fanout :: "pass_world \<Rightarrow> restore_object \<Rightarrow> restore_status option \<Rightarrow> claimants \<Rightarrow> nat pass" where
  "drive_populator_fanout w restore status claimants =
     (let prev = (case status of None \<Rightarrow> [] | Some s \<Rightarrow> rst_claims s)
      in if ca_consumers claimants = [] then park_unclaimed_populator w restore prev
         else
           io_bind (adopt_legacy_claims w restore claimants status) (\<lambda>adopted.
             drive_claims w restore claimants (if adopted = [] then prev else adopted)))"

text \<open>
  The populator arm of \<open>reconcile_inner\<close>; the pass works on the status it read at its start.
\<close>

definition populator_pass :: "pass_world \<Rightarrow> restore_object \<Rightarrow> nat pass" where
  "populator_pass w restore =
     io_bind (io_read True cl_status) (\<lambda>status.
     io_bind (claiming_pvcs w (rp_name restore) (rp_uid restore)) (\<lambda>claimants.
       drive_populator_fanout w restore status claimants))"

end
