(* ===== verification/Populator_Safety.thy ===== *)
theory Populator_Safety
  imports Populator
begin

text \<open>
  The populator driver at work beside the movers, the volume controller and the users: the machine of
  a Restore's claims, its invariant, and what it keeps of the restored data. Every call of a pass may
  fail, so a step of the machine is also a pass that died half way.
\<close>

subsection \<open>The machine\<close>

definition update_pvc :: "string \<Rightarrow> (pvc_object \<Rightarrow> pvc_object) \<Rightarrow> cluster \<Rightarrow> cluster" where
  "update_pvc name f c = c\<lparr>cl_pvcs := map (\<lambda>p. if pc_name p = name then f p else p) (cl_pvcs c)\<rparr>"

definition cl_claims :: "cluster \<Rightarrow> claims" where
  "cl_claims c = (case cl_status c of None \<Rightarrow> [] | Some s \<Rightarrow> rst_claims s)"

text \<open>What a claim's mover writes: the resolution, the observation, the log tail, the failure.\<close>

definition mover_fields ::
    "resolved_restore option \<Rightarrow> string option \<Rightarrow> string option \<Rightarrow> string option \<Rightarrow> claim_status \<Rightarrow> claim_status" where
  "mover_fields resolved observed tail failure r =
     r\<lparr>cs_resolved := resolved, cs_observed_at := observed, cs_log_tail := tail, cs_failure := failure\<rparr>"

definition mover_patch :: "string \<Rightarrow> (claim_status \<Rightarrow> claim_status) \<Rightarrow> restore_status \<Rightarrow> restore_status" where
  "mover_patch claim f s = s\<lparr>rst_claims :=
     (if claim \<in> fst ` set (rst_claims s)
      then map (\<lambda>(n, r). (n, if n = claim then f r else r)) (rst_claims s)
      else rst_claims s @ [(claim, f no_claim_status)])\<rparr>"

definition fresh_uid :: "string \<Rightarrow> cluster \<Rightarrow> bool" where
  "fresh_uid u c \<longleftrightarrow> u \<notin> pc_uid ` set (cl_pvcs c) \<and> prime_pvc_name u \<notin> pc_name ` set (cl_pvcs c) \<and>
     u \<notin> fst ` set (cl_rebinds c) \<and> Some u \<notin> cs_uid ` snd ` set (cl_claims c)"

definition fresh_volume :: "string \<Rightarrow> cluster \<Rightarrow> bool" where
  "fresh_volume v c \<longleftrightarrow> v \<noteq> [] \<and> v \<notin> fst ` set (cl_volumes c) \<and> Some v \<notin> pc_volume ` set (cl_pvcs c) \<and>
     v \<notin> snd ` set (cl_rebinds c)"

definition bound_claim :: "string \<Rightarrow> pvc_object \<Rightarrow> claim_ref" where
  "bound_claim namespace p = \<lparr>cr_namespace = Some namespace, cr_name = Some (pc_name p), cr_uid = Some (pc_uid p)\<rparr>"

text \<open>
  A pass; a gate that parks the Restore; a mover that writes its claim's record; a Job that ends or is
  gone; a provisioner that gives an unbound PVC a new volume (for a claim of the Restore: one that
  ignores its \<open>dataSourceRef\<close>); the volume controller binding a claim to the volume that names it; a PVC
  created under a new uid (a claim is never named like a prime), scheduled, deleted, and gone; and a
  volume whose policy is not \<open>Retain\<close> reclaimed once no PVC has the uid it names.
\<close>

inductive pop_step :: "restore_object \<Rightarrow> cluster \<Rightarrow> cluster \<Rightarrow> bool" for rp where
  pass: "populator_pass w rp c = (reply, c') \<Longrightarrow> pop_step rp c c'"
| gate: "pop_step rp c (patch_restore_status (\<lambda>s. s\<lparr>rst_phase := Some RE_Pending\<rparr>) c)"
| mover: "(name, j) \<in> set (cl_jobs c) \<Longrightarrow> pj_claim_key j = Some claim \<Longrightarrow>
    pop_step rp c (patch_restore_status (mover_patch claim (mover_fields resolved observed tail failure)) c)"
| job_ends: "pop_step rp c (c\<lparr>cl_jobs := map (\<lambda>(n, j). (n, if n = name then j\<lparr>pj_terminal := Some ok\<rparr> else j)) (cl_jobs c)\<rparr>)"
| job_gone: "pop_step rp c (c\<lparr>cl_jobs := filter (\<lambda>(n, j). n \<noteq> name) (cl_jobs c)\<rparr>)"
| provision: "p \<in> set (cl_pvcs c) \<Longrightarrow> non_empty (pc_volume p) = None \<Longrightarrow> fresh_volume v c \<Longrightarrow>
    pop_step rp c (update_pvc (pc_name p) (\<lambda>p. p\<lparr>pc_volume := Some v, pc_status_bound := True\<rparr>)
      (c\<lparr>cl_volumes := (v, \<lparr>vl_policy = policy, vl_claim = Some (bound_claim (rp_namespace rp) p), vl_original = None\<rparr>) #
           cl_volumes c\<rparr>))"
| bind: "p \<in> set (cl_pvcs c) \<Longrightarrow> pvc_claims_restore (rp_name rp) p \<Longrightarrow> non_empty (pc_volume p) = None \<Longrightarrow> v \<noteq> [] \<Longrightarrow>
    find_volume v c = Some vl \<Longrightarrow> vl_claim vl = Some (bound_claim (rp_namespace rp) p) \<Longrightarrow>
    pop_step rp c (update_pvc (pc_name p) (\<lambda>p. p\<lparr>pc_volume := Some v, pc_status_bound := True\<rparr>) c)"
| create: "pc_name p \<notin> pc_name ` set (cl_pvcs c) \<Longrightarrow> fresh_uid (pc_uid p) c \<Longrightarrow> pc_volume p = None \<Longrightarrow>
    \<not> pc_status_bound p \<Longrightarrow> pvc_claims_restore (rp_name rp) p \<longrightarrow> pc_name p \<notin> range prime_pvc_name \<Longrightarrow>
    pop_step rp c (c\<lparr>cl_pvcs := cl_pvcs c @ [p]\<rparr>)"
| schedule: "pop_step rp c (update_pvc name (\<lambda>p. p\<lparr>pc_selected_node := Some node\<rparr>) c)"
| delete: "p \<in> set (cl_pvcs c) \<Longrightarrow> pc_op p \<noteq> Some OP_RESTORE_POPULATE \<Longrightarrow> pop_step rp c (delete_pvc (pc_name p) c)"
| gone: "p \<in> set (cl_pvcs c) \<Longrightarrow> pc_deleting p \<Longrightarrow>
    pop_step rp c (c\<lparr>cl_pvcs := filter (\<lambda>q. pc_name q \<noteq> pc_name p) (cl_pvcs c)\<rparr>)"
| reclaim: "find_volume v c = Some vl \<Longrightarrow> vl_policy vl \<noteq> Some ''Retain'' \<Longrightarrow>
    (\<forall>cr. vl_claim vl = Some cr \<longrightarrow> cr_uid cr \<notin> (\<lambda>p. Some (pc_uid p)) ` set (cl_pvcs c)) \<Longrightarrow>
    pop_step rp c (c\<lparr>cl_volumes := filter (\<lambda>(n, _). n \<noteq> v) (cl_volumes c)\<rparr>)"

definition pop_init :: "cluster \<Rightarrow> bool" where
  "pop_init c \<longleftrightarrow> cl_status c = None \<and> cl_pvcs c = [] \<and> cl_volumes c = [] \<and> cl_jobs c = [] \<and> cl_rebinds c = [] \<and>
     cl_recorded c = []"

subsection \<open>The invariant\<close>

text \<open>Of a PVC the invariant sees its name, its uid, whether it claims the Restore, and its volume.\<close>

record pvc_view =
  q_name :: string
  q_uid :: string
  q_claims :: bool
  q_volume :: "string option"
  q_bound :: bool

definition view :: "restore_object \<Rightarrow> pvc_object \<Rightarrow> pvc_view" where
  "view rp p = \<lparr>q_name = pc_name p, q_uid = pc_uid p, q_claims = pvc_claims_restore (rp_name rp) p,
     q_volume = non_empty (pc_volume p), q_bound = pc_status_bound p\<rparr>"

definition views :: "restore_object \<Rightarrow> cluster \<Rightarrow> pvc_view list" where
  "views rp c = map (view rp) (cl_pvcs c)"

text \<open>A volume that carries the annotation and names the claim \<open>x\<close>.\<close>

definition annotated :: "restore_object \<Rightarrow> cluster \<Rightarrow> string \<Rightarrow> string \<Rightarrow> bool" where
  "annotated rp c x v \<longleftrightarrow> is_some_and (\<lambda>vl. rebound_uid (rp_namespace rp) vl = Some x) (find_volume v c)"

definition populated_on_record :: "cluster \<Rightarrow> string \<Rightarrow> string \<Rightarrow> bool" where
  "populated_on_record c claim x \<longleftrightarrow>
     is_some_and (\<lambda>r. cs_uid r = Some x \<and> cs_phase r = Some RC_Populated) (map_of (cl_claims c) claim)"

definition pvcs_ok :: "pvc_view list \<Rightarrow> bool" where
  "pvcs_ok qs \<longleftrightarrow> distinct (map q_name qs) \<and>
     (\<forall>p \<in> set qs. \<forall>q \<in> set qs. q_claims p \<and> q_claims q \<and> q_uid p = q_uid q \<longrightarrow> p = q) \<and>
     (\<forall>q \<in> set qs. q_claims q \<longrightarrow> q_name q \<notin> range prime_pvc_name) \<and>
     (\<forall>p \<in> set qs. \<forall>q \<in> set qs. \<not> q_claims p \<and> \<not> q_claims q \<and> q_volume p \<noteq> None \<and> q_volume p = q_volume q \<longrightarrow> p = q) \<and>
     (\<forall>q \<in> set qs. q_claims q \<and> q_bound q \<longrightarrow> q_volume q \<noteq> None)"

text \<open>
  Of a rebind \<open>(x, v)\<close>: only the prime of \<open>x\<close> still has the volume, no other rebind shares the uid or the
  volume, the volume names \<open>x\<close>, and until \<open>x\<close> is recorded \<open>Populated\<close> it exists and is retained.
\<close>

definition rebind_ok :: "restore_object \<Rightarrow> cluster \<Rightarrow> string \<Rightarrow> string \<Rightarrow> bool" where
  "rebind_ok rp c x v \<longleftrightarrow>
     (\<forall>q \<in> set (views rp c). \<not> q_claims q \<and> q_volume q = Some v \<longrightarrow> q_name q = prime_pvc_name x) \<and>
     is_none_or (\<lambda>vl. is_some_and (\<lambda>cr. cr_uid cr = Some x) (vl_claim vl)) (find_volume v c) \<and>
     (x \<in> set (cl_recorded c) \<or> is_some_and (\<lambda>vl. vl_policy vl = Some ''Retain'') (find_volume v c))"

definition rebinds_ok :: "restore_object \<Rightarrow> cluster \<Rightarrow> bool" where
  "rebinds_ok rp c \<longleftrightarrow> distinct (map fst (cl_volumes c)) \<and>
     (\<forall>x v. annotated rp c x v \<longrightarrow> (x, v) \<in> set (cl_rebinds c)) \<and>
     (\<forall>x v y u. (x, v) \<in> set (cl_rebinds c) \<and> (y, u) \<in> set (cl_rebinds c) \<longrightarrow> (x = y) = (v = u)) \<and>
     (\<forall>x v. (x, v) \<in> set (cl_rebinds c) \<longrightarrow> rebind_ok rp c x v)"

text \<open>
  Of the records: a claim whose volume was rebound to it, and that is bound to that volume or not bound
  yet, still has the annotation or is recorded \<open>Populated\<close>, and no record calls it already bound.
\<close>

definition own_record :: "cluster \<Rightarrow> pvc_view \<Rightarrow> bool" where
  "own_record c q \<longleftrightarrow> (\<forall>n r. (n, r) \<in> set (cl_claims c) \<longrightarrow> cs_uid r = Some (q_uid q) \<longrightarrow> n = q_name q)"

definition not_relabelled :: "cluster \<Rightarrow> pvc_view \<Rightarrow> bool" where
  "not_relabelled c q \<longleftrightarrow> (\<forall>n r. (n, r) \<in> set (cl_claims c) \<longrightarrow> cs_uid r = Some (q_uid q) \<longrightarrow>
     cs_phase r = Some RC_AlreadyBound \<longrightarrow> is_some_and (\<lambda>v. (q_uid q, v) \<notin> set (cl_rebinds c)) (q_volume q))"

definition handed_ok :: "restore_object \<Rightarrow> cluster \<Rightarrow> pvc_view \<Rightarrow> bool" where
  "handed_ok rp c q \<longleftrightarrow> (\<forall>v. (q_uid q, v) \<in> set (cl_rebinds c) \<longrightarrow> is_none_or (\<lambda>u. u = v) (q_volume q) \<longrightarrow>
     annotated rp c (q_uid q) v \<or> populated_on_record c (q_name q) (q_uid q))"

definition records_ok :: "restore_object \<Rightarrow> cluster \<Rightarrow> bool" where
  "records_ok rp c \<longleftrightarrow> distinct (map fst (cl_claims c)) \<and>
     is_none_or (\<lambda>s. \<not> is_legacy_populator_status s) (cl_status c) \<and>
     (\<forall>q \<in> set (views rp c). q_claims q \<longrightarrow> own_record c q \<and> not_relabelled c q \<and> handed_ok rp c q)"

definition pop_inv :: "restore_object \<Rightarrow> cluster \<Rightarrow> bool" where
  "pop_inv rp c \<longleftrightarrow> pvcs_ok (views rp c) \<and> rebinds_ok rp c \<and> records_ok rp c"

lemma views_simps [simp]:
  "views rp (delete_pvc n c) = views rp c"
  "views rp (delete_job n c) = views rp c"
  "views rp (set_volume v vl c) = views rp c"
  "views rp (patch_restore_status f c) = views rp c"
  "views rp (c\<lparr>cl_jobs := js\<rparr>) = views rp c"
  "views rp (c\<lparr>cl_rebinds := rs\<rparr>) = views rp c"
  "views rp (c\<lparr>cl_recorded := us\<rparr>) = views rp c"
  "views rp (c\<lparr>cl_volumes := vs\<rparr>) = views rp c"
  by (simp_all add: views_def view_def delete_pvc_def delete_job_def set_volume_def patch_restore_status_def pvc_claims_restore_def)

lemma cluster_fields [simp]:
  "cl_status (delete_pvc n c) = cl_status c" "cl_volumes (delete_pvc n c) = cl_volumes c"
  "cl_rebinds (delete_pvc n c) = cl_rebinds c" "cl_recorded (delete_pvc n c) = cl_recorded c"
  "cl_status (delete_job n c) = cl_status c" "cl_volumes (delete_job n c) = cl_volumes c"
  "cl_rebinds (delete_job n c) = cl_rebinds c" "cl_recorded (delete_job n c) = cl_recorded c"
  "cl_pvcs (delete_job n c) = cl_pvcs c" "cl_pvcs (set_volume v vl c) = cl_pvcs c"
  "cl_status (set_volume v vl c) = cl_status c"
  "cl_rebinds (set_volume v vl c) = cl_rebinds c" "cl_recorded (set_volume v vl c) = cl_recorded c"
  "cl_pvcs (patch_restore_status f c) = cl_pvcs c" "cl_volumes (patch_restore_status f c) = cl_volumes c"
  "cl_rebinds (patch_restore_status f c) = cl_rebinds c" "cl_recorded (patch_restore_status f c) = cl_recorded c"
  by (simp_all add: delete_pvc_def delete_job_def set_volume_def patch_restore_status_def)

lemma find_volume_set [simp]:
  "find_volume u (set_volume v vl c) = (if u = v \<and> find_volume v c \<noteq> None then Some vl else find_volume u c)"
proof -
  have "map_of (map (\<lambda>(n, x). (n, if n = v then vl else x)) xs) u =
      (if u = v \<and> map_of xs v \<noteq> None then Some vl else map_of xs u)" for xs
    by (induction xs) auto
  then show ?thesis by (simp add: find_volume_def set_volume_def)
qed

lemma volume_names_set [simp]: "map fst (cl_volumes (set_volume v vl c)) = map fst (cl_volumes c)"
  by (simp add: set_volume_def comp_def case_prod_unfold)

subsection \<open>What the invariant depends on\<close>

definition same_core :: "restore_object \<Rightarrow> cluster \<Rightarrow> cluster \<Rightarrow> bool" where
  "same_core rp c d \<longleftrightarrow> views rp d = views rp c \<and> cl_status d = cl_status c \<and> cl_volumes d = cl_volumes c \<and>
     cl_rebinds d = cl_rebinds c \<and> cl_recorded d = cl_recorded c"

interpretation core: io_frame "same_core rp" for rp
  by unfold_locales (auto simp: same_core_def)

lemma core_claims: "cl_status d = cl_status c \<Longrightarrow> cl_claims d = cl_claims c"
  by (simp add: cl_claims_def)

lemma pop_inv_core:
  assumes "same_core rp c d"
  shows "pop_inv rp d = pop_inv rp c"
proof -
  have eqs: "views rp d = views rp c" "cl_status d = cl_status c" "cl_rebinds d = cl_rebinds c"
      "cl_recorded d = cl_recorded c" "cl_volumes d = cl_volumes c"
    using assms by (simp_all add: same_core_def)
  have "find_volume v d = find_volume v c" for v using eqs by (simp add: find_volume_def)
  moreover have "annotated rp d x v = annotated rp c x v" for x v using eqs by (simp add: annotated_def find_volume_def)
  moreover have "cl_claims d = cl_claims c" using eqs(2) by (rule core_claims)
  moreover have "populated_on_record d n x = populated_on_record c n x" for n x
    using core_claims [OF eqs(2)] by (simp add: populated_on_record_def)
  ultimately show ?thesis
    using eqs by (simp add: pop_inv_def rebinds_ok_def records_ok_def rebind_ok_def own_record_def not_relabelled_def handed_ok_def)
qed

lemma core_deletes:
  "within (same_core rp) (io_attempt ok (delete_pvc n))" "within (same_core rp) (io_attempt ok (delete_job n))"
  "within (same_core rp) (io_write ok (delete_job n))"
  by (auto intro!: core.within_attempt core.within_write simp: same_core_def)

lemmas core_rules = core.within_rules core_deletes

text \<open>A program that changes nothing the invariant sees keeps every assertion that sees no more.\<close>

lemma triple_core:
  assumes "within (same_core rp) m" and "\<And>c d. same_core rp c d \<Longrightarrow> P c \<Longrightarrow> P d"
  shows "triple P m (\<lambda>_. P) P"
  unfolding triple_def
proof (intro allI impI)
  fix c assume "P c"
  then have "P (snd (m c))" using assms unfolding within_def by blast
  then show "case m c of (None, t) \<Rightarrow> P t | (Some x, t) \<Rightarrow> P t" by (auto split: prod.splits option.splits)
qed

lemma core_reap_none: "within (same_core rp) (reap_claim_artifacts w rp' uid reason None)"
  unfolding reap_claim_artifacts_def finalize_populator_def surviving_populate_artifacts_def delete_populate_run_def Let_def
  by (auto intro!: core_rules)

lemma core_reap_gone: "within (same_core rp) (reap_gone_claims w rp' prev live)"
  unfolding reap_gone_claims_def
  by (rule core.within_each) (auto intro!: core_rules core_reap_none split: option.split)

subsection \<open>Taking the annotation off a volume\<close>

lemma annotated_iff: "annotated rp c x v \<longleftrightarrow> (\<exists>vl. find_volume v c = Some vl \<and> rebound_uid (rp_namespace rp) vl = Some x)"
  by (simp add: annotated_def is_some_and_iff)

lemma rebinds_okD:
  assumes "rebinds_ok rp c" and "(x, v) \<in> set (cl_rebinds c)"
  shows "\<And>q. q \<in> set (views rp c) \<Longrightarrow> \<not> q_claims q \<Longrightarrow> q_volume q = Some v \<Longrightarrow> q_name q = prime_pvc_name x"
    and "\<And>y u. (y, u) \<in> set (cl_rebinds c) \<Longrightarrow> (x = y) = (v = u)"
    and "\<And>vl. find_volume v c = Some vl \<Longrightarrow> \<exists>cr. vl_claim vl = Some cr \<and> cr_uid cr = Some x"
    and "x \<in> set (cl_recorded c) \<or> (\<exists>vl. find_volume v c = Some vl \<and> vl_policy vl = Some ''Retain'')"
proof -
  have r: "rebind_ok rp c x v" using assms by (simp add: rebinds_ok_def)
  show "\<And>q. q \<in> set (views rp c) \<Longrightarrow> \<not> q_claims q \<Longrightarrow> q_volume q = Some v \<Longrightarrow> q_name q = prime_pvc_name x"
    using r by (simp add: rebind_ok_def)
  show "\<And>y u. (y, u) \<in> set (cl_rebinds c) \<Longrightarrow> (x = y) = (v = u)"
    using assms by (simp add: rebinds_ok_def)
  show "\<And>vl. find_volume v c = Some vl \<Longrightarrow> \<exists>cr. vl_claim vl = Some cr \<and> cr_uid cr = Some x"
    using r by (simp add: rebind_ok_def is_some_and_iff)
  show "x \<in> set (cl_recorded c) \<or> (\<exists>vl. find_volume v c = Some vl \<and> vl_policy vl = Some ''Retain'')"
    using r by (simp add: rebind_ok_def is_some_and_iff)
qed

definition settled_vol :: "volume \<Rightarrow> string \<Rightarrow> volume" where
  "settled_vol vl t = vl\<lparr>vl_policy := Some t, vl_original := None\<rparr>"

lemma annotated_settled:
  "find_volume v c = Some vl \<Longrightarrow> annotated rp (set_volume v (settled_vol vl t) c) x u \<longleftrightarrow> u \<noteq> v \<and> annotated rp c x u"
  by (auto simp: annotated_iff rebound_uid_def settled_vol_def)

lemma rebinds_ok_settle:
  assumes ok: "rebinds_ok rp c" and v: "find_volume v c = Some vl" and mem: "(x, v) \<in> set (cl_rebinds c)"
    and policy: "t = ''Retain'' \<or> x \<in> set (cl_recorded c)"
  shows "rebinds_ok rp (set_volume v (settled_vol vl t) c)" (is "rebinds_ok rp ?d")
proof -
  note D = rebinds_okD [OF ok]
  have "rebind_ok rp ?d y u" if yu: "(y, u) \<in> set (cl_rebinds c)" for y u
  proof (cases "u = v")
    case True
    then have "y = x" using D(2) [OF mem yu] by simp
    with True policy v D(1,3) [OF yu] show ?thesis
      by (auto simp: rebind_ok_def settled_vol_def is_some_and_iff)
  next
    case False
    with D(1,3,4) [OF yu] show ?thesis by (auto simp: rebind_ok_def is_some_and_iff is_none_or_iff)
  qed
  moreover have "annotated rp ?d y u \<Longrightarrow> (y, u) \<in> set (cl_rebinds c)" for y u
    using ok by (simp add: annotated_settled [OF v] rebinds_ok_def)
  ultimately show ?thesis using ok unfolding rebinds_ok_def by simp
qed

lemma records_ok_settle:
  assumes ok: "records_ok rp c" and reb: "rebinds_ok rp c" and v: "find_volume v c = Some vl" and mem: "(x, v) \<in> set (cl_rebinds c)"
    and over: "\<And>q. q \<in> set (views rp c) \<Longrightarrow> q_claims q \<Longrightarrow> q_uid q = x \<Longrightarrow>
      populated_on_record c (q_name q) x \<or> (q_volume q \<noteq> None \<and> q_volume q \<noteq> Some v)"
  shows "records_ok rp (set_volume v (settled_vol vl t) c)" (is "records_ok rp ?d")
proof -
  have claims: "cl_claims ?d = cl_claims c" by (simp add: cl_claims_def)
  have "handed_ok rp ?d q" if q: "q \<in> set (views rp c)" "q_claims q" for q
    unfolding handed_ok_def
  proof (intro allI impI)
    fix u assume u: "(q_uid q, u) \<in> set (cl_rebinds ?d)" "is_none_or (\<lambda>u'. u' = u) (q_volume q)"
    show "annotated rp ?d (q_uid q) u \<or> populated_on_record ?d (q_name q) (q_uid q)"
    proof (cases "u = v")
      case True
      then have "q_uid q = x" using rebinds_okD(2) [OF reb mem, of "q_uid q" u] u(1) by simp
      with over [OF q] u(2) True show ?thesis by (auto simp: populated_on_record_def claims is_none_or_iff)
    next
      case False
      have "annotated rp c (q_uid q) u \<or> populated_on_record c (q_name q) (q_uid q)"
        using ok q u by (simp add: records_ok_def handed_ok_def)
      with False show ?thesis by (simp add: annotated_settled [OF v] populated_on_record_def claims)
    qed
  qed
  then show ?thesis using ok by (simp add: records_ok_def own_record_def not_relabelled_def claims)
qed

lemma pop_inv_settle:
  assumes "pop_inv rp c" and "find_volume v c = Some vl" and "(x, v) \<in> set (cl_rebinds c)"
    and "t = ''Retain'' \<or> x \<in> set (cl_recorded c)"
    and "\<And>q. q \<in> set (views rp c) \<Longrightarrow> q_claims q \<Longrightarrow> q_uid q = x \<Longrightarrow>
      populated_on_record c (q_name q) x \<or> (q_volume q \<noteq> None \<and> q_volume q \<noteq> Some v)"
  shows "pop_inv rp (set_volume v (settled_vol vl t) c)"
  using assms rebinds_ok_settle [of rp c v vl x t] records_ok_settle [of rp c v vl x t] by (simp add: pop_inv_def)

subsection \<open>A new PVC\<close>

definition unused_uid :: "string \<Rightarrow> cluster \<Rightarrow> bool" where
  "unused_uid u c \<longleftrightarrow> u \<notin> pc_uid ` set (cl_pvcs c) \<and> u \<notin> fst ` set (cl_rebinds c) \<and>
     Some u \<notin> cs_uid ` snd ` set (cl_claims c)"

lemma pvcs_ok_snoc:
  assumes "pvcs_ok qs" and "q_name q \<notin> q_name ` set qs" and "q_volume q = None" and "\<not> q_bound q"
    and "q_claims q \<Longrightarrow> q_uid q \<notin> q_uid ` set qs \<and> q_name q \<notin> range prime_pvc_name"
  shows "pvcs_ok (qs @ [q])"
proof -
  have other: "q_claims p \<Longrightarrow> q_claims q \<Longrightarrow> p \<in> set qs \<Longrightarrow> q_uid p \<noteq> q_uid q" for p
    using assms(5) by (metis imageI)
  have "\<forall>p \<in> set (qs @ [q]). \<forall>r \<in> set (qs @ [q]). q_claims p \<and> q_claims r \<and> q_uid p = q_uid r \<longrightarrow> p = r"
    using assms(1) other unfolding pvcs_ok_def by (metis UnE empty_iff insert_iff list.set set_append)
  moreover have "\<forall>p \<in> set (qs @ [q]). \<forall>r \<in> set (qs @ [q]).
      \<not> q_claims p \<and> \<not> q_claims r \<and> q_volume p \<noteq> None \<and> q_volume p = q_volume r \<longrightarrow> p = r"
    using assms(1,3) unfolding pvcs_ok_def by (metis UnE empty_iff insert_iff list.set set_append)
  ultimately show ?thesis
    using assms unfolding pvcs_ok_def by simp
qed

lemma pop_inv_create:
  assumes inv: "pop_inv rp c" and name: "pc_name p \<notin> pc_name ` set (cl_pvcs c)"
    and unbound: "non_empty (pc_volume p) = None" "\<not> pc_status_bound p"
    and claims: "pvc_claims_restore (rp_name rp) p \<Longrightarrow> unused_uid (pc_uid p) c \<and> pc_name p \<notin> range prime_pvc_name"
  shows "pop_inv rp (c\<lparr>cl_pvcs := cl_pvcs c @ [p]\<rparr>)" (is "pop_inv rp ?d")
proof -
  let ?q = "view rp p"
  have vs: "views rp ?d = views rp c @ [?q]" by (simp add: views_def)
  have q: "q_volume ?q = None" "\<not> q_bound ?q" "q_name ?q \<notin> q_name ` set (views rp c)"
    using unbound name by (auto simp: view_def views_def)
  have cl: "q_claims ?q \<Longrightarrow> q_uid ?q \<notin> q_uid ` set (views rp c) \<and> q_uid ?q \<notin> fst ` set (cl_rebinds c) \<and>
      (\<forall>(n, r) \<in> set (cl_claims c). cs_uid r \<noteq> Some (q_uid ?q)) \<and> q_name ?q \<notin> range prime_pvc_name"
    using claims unfolding unused_uid_def by (simp add: view_def views_def image_image image_iff) force
  have same: "find_volume v ?d = find_volume v c" "annotated rp ?d x v = annotated rp c x v" "cl_claims ?d = cl_claims c"
    "populated_on_record ?d n x = populated_on_record c n x" for v x n
    by (simp_all add: find_volume_def annotated_def cl_claims_def populated_on_record_def)
  have "pvcs_ok (views rp ?d)"
    unfolding vs using inv q cl by (intro pvcs_ok_snoc) (simp_all add: pop_inv_def)
  moreover have "rebinds_ok rp ?d"
    using inv q(1) unfolding pop_inv_def rebinds_ok_def rebind_ok_def vs same by auto
  moreover have "records_ok rp ?d"
  proof -
    have "own_record ?d ?q \<and> not_relabelled ?d ?q \<and> handed_ok rp ?d ?q" if "q_claims ?q"
      using cl [OF that] by (auto simp: own_record_def not_relabelled_def handed_ok_def same image_iff)
    moreover have "own_record ?d q = own_record c q" "not_relabelled ?d q = not_relabelled c q" "handed_ok rp ?d q = handed_ok rp c q" for q
      by (simp_all add: own_record_def not_relabelled_def handed_ok_def same)
    ultimately show ?thesis
      using inv unfolding pop_inv_def records_ok_def vs same by simp
  qed
  ultimately show ?thesis by (simp add: pop_inv_def)
qed

lemma find_pvc_None_iff: "find_pvc n c = None \<longleftrightarrow> n \<notin> pc_name ` set (cl_pvcs c)"
  by (auto simp: find_pvc_def find_None_iff)

lemma find_pvc_SomeD: "find_pvc n c = Some p \<Longrightarrow> p \<in> set (cl_pvcs c) \<and> pc_name p = n"
  by (auto simp: find_pvc_def find_Some_iff)

subsection \<open>The rebind\<close>

lemma prime_pvc_name_inj [simp]: "prime_pvc_name x = prime_pvc_name y \<longleftrightarrow> x = y"
  by (simp add: prime_pvc_name_def)

lemma pop_inv_rebind:
  assumes inv: "pop_inv rp c" and prime: "find_pvc (prime_pvc_name x) c = Some p" "non_empty (pc_volume p) = Some v"
    and v: "find_volume v c = Some vl" and new: "x \<notin> fst ` set (cl_rebinds c)"
    and unbound: "\<And>q. q \<in> set (views rp c) \<Longrightarrow> q_claims q \<Longrightarrow> q_uid q = x \<Longrightarrow> q_volume q = None"
  shows "pop_inv rp (rebind_volume (rp_namespace rp) n x v vl c)" (is "pop_inv rp ?d")
proof -
  have ok: "pvcs_ok (views rp c)" "rebinds_ok rp c" "records_ok rp c" using inv by (simp_all add: pop_inv_def)
  note D = rebinds_okD [OF ok(2)]
  let ?p = "view rp p"
  have p: "?p \<in> set (views rp c)" "q_name ?p = prime_pvc_name x" "q_volume ?p = Some v"
    using find_pvc_SomeD [OF prime(1)] prime(2) by (simp_all add: views_def) (simp_all add: view_def)
  then have pn: "\<not> q_claims ?p" using ok(1) by (auto simp: pvcs_ok_def)
  have only: "q = ?p" if "q \<in> set (views rp c)" "\<not> q_claims q" "q_volume q = Some v" for q
    using ok(1) that p pn unfolding pvcs_ok_def by (metis option.distinct(1))
  have other: "u \<noteq> v" if "(y, u) \<in> set (cl_rebinds c)" for y u
  proof
    assume "u = v"
    then have "y = x" using D(1) [OF that p(1) pn] p by simp
    with that new show False by force
  qed
  have fields: "views rp ?d = views rp c" "cl_rebinds ?d = (x, v) # cl_rebinds c" "cl_claims ?d = cl_claims c"
    "cl_recorded ?d = cl_recorded c" "map fst (cl_volumes ?d) = map fst (cl_volumes c)" "cl_status ?d = cl_status c"
    by (simp_all add: rebind_volume_def cl_claims_def)
  have fv: "find_volume u ?d = (if u = v then Some \<lparr>vl_policy = Some ''Retain'',
      vl_claim = Some \<lparr>cr_namespace = Some (rp_namespace rp), cr_name = Some n, cr_uid = Some x\<rparr>,
      vl_original = Some (unwrap_or (vl_policy vl) ''Delete'')\<rparr> else find_volume u c)" for u
  proof -
    have "find_volume u (c'\<lparr>cl_rebinds := rs\<rparr>) = find_volume u c'" for c' rs by (simp add: find_volume_def)
    then show ?thesis using v by (simp add: rebind_volume_def)
  qed
  have ann: "annotated rp ?d y u \<longleftrightarrow> (if u = v then y = x else annotated rp c y u)" for y u
    by (auto simp: annotated_iff fv rebound_uid_def)
  have "rebind_ok rp ?d y u" if "(y, u) \<in> set (cl_rebinds ?d)" for y u
  proof (cases "u = v")
    case True
    then have "y = x" using that other fields(2) by auto
    with True only p(2) show ?thesis by (auto simp: rebind_ok_def fields fv)
  next
    case False
    then have "rebind_ok rp c y u" using ok(2) that by (auto simp: fields rebinds_ok_def)
    with False show ?thesis by (simp add: rebind_ok_def fields fv)
  qed
  moreover have "(y = z) = (u = t)" if "(y, u) \<in> set (cl_rebinds ?d)" "(z, t) \<in> set (cl_rebinds ?d)" for y u z t
  proof -
    have "y = x \<Longrightarrow> (y, u) \<notin> set (cl_rebinds c)" "z = x \<Longrightarrow> (z, t) \<notin> set (cl_rebinds c)" using new by force+
    then show ?thesis using that other [of y u] other [of z t] D(2) [of y u z t] unfolding fields by auto
  qed
  moreover have "annotated rp ?d y u \<Longrightarrow> (y, u) \<in> set (cl_rebinds ?d)" for y u
    using ok(2) by (auto simp: ann fields rebinds_ok_def split: if_splits)
  ultimately have "rebinds_ok rp ?d" using ok(2) by (simp add: rebinds_ok_def fields(5))
  moreover have "records_ok rp ?d"
  proof -
    have "handed_ok rp ?d q" if q: "q \<in> set (views rp c)" "q_claims q" for q
      unfolding handed_ok_def
    proof (intro allI impI)
      fix u assume u: "(q_uid q, u) \<in> set (cl_rebinds ?d)" "is_none_or (\<lambda>u'. u' = u) (q_volume q)"
      show "annotated rp ?d (q_uid q) u \<or> populated_on_record ?d (q_name q) (q_uid q)"
      proof (cases "u = v")
        case True
        then show ?thesis using u other fields(2) by (auto simp: ann)
      next
        case False
        then have "annotated rp c (q_uid q) u \<or> populated_on_record c (q_name q) (q_uid q)"
          using ok(3) q u by (simp add: records_ok_def handed_ok_def fields(2))
        with False show ?thesis by (simp add: ann populated_on_record_def fields(3))
      qed
    qed
    moreover have "not_relabelled ?d q" if q: "q \<in> set (views rp c)" "q_claims q" for q
    proof -
      have "not_relabelled c q" using ok(3) q by (simp add: records_ok_def)
      with unbound [OF q] show ?thesis unfolding not_relabelled_def fields by (fastforce simp: is_some_and_iff)
    qed
    moreover have "own_record ?d q = own_record c q" for q by (simp add: own_record_def fields)
    ultimately show ?thesis using ok(3) unfolding records_ok_def fields by simp
  qed
  ultimately show ?thesis using ok(1) by (simp add: pop_inv_def fields(1))
qed

subsection \<open>Driving one claim\<close>

text \<open>
  The assertion of the loop over the claims, relative to the cluster the loop started from: the status
  and the claims are as they were, and the only rebinds added are of claims already driven, and these
  were not bound.
\<close>

definition loop_inv :: "restore_object \<Rightarrow> cluster \<Rightarrow> string set \<Rightarrow> cluster \<Rightarrow> bool" where
  "loop_inv rp c0 P c \<longleftrightarrow> pop_inv rp c \<and> cl_status c = cl_status c0 \<and> cl_recorded c = cl_recorded c0 \<and>
     filter q_claims (views rp c) = filter q_claims (views rp c0) \<and>
     set (cl_rebinds c0) \<subseteq> set (cl_rebinds c) \<and>
     (\<forall>x v. (x, v) \<in> set (cl_rebinds c) \<longrightarrow> (x, v) \<in> set (cl_rebinds c0) \<or>
        x \<in> P \<and> (\<exists>q \<in> set (views rp c0). q_claims q \<and> q_uid q = x \<and> q_volume q = None))"

lemma loop_inv_start: "pop_inv rp c \<Longrightarrow> loop_inv rp c {} c"
  by (simp add: loop_inv_def)

lemma loop_inv_mono: "loop_inv rp c0 P c \<Longrightarrow> P \<subseteq> P' \<Longrightarrow> loop_inv rp c0 P' c"
  by (auto simp: loop_inv_def)

lemma loop_inv_pop: "loop_inv rp c0 P c \<Longrightarrow> pop_inv rp c"
  by (simp add: loop_inv_def)

lemma loop_inv_core: "same_core rp c d \<Longrightarrow> loop_inv rp c0 P c \<Longrightarrow> loop_inv rp c0 P d"
  using pop_inv_core [of rp c d] by (simp add: loop_inv_def same_core_def)

lemma loop_inv_claims:
  assumes "loop_inv rp c0 P c"
  shows "q \<in> set (views rp c) \<and> q_claims q \<longleftrightarrow> q \<in> set (views rp c0) \<and> q_claims q"
proof -
  have "set (filter q_claims (views rp c)) = set (filter q_claims (views rp c0))" using assms by (simp add: loop_inv_def)
  then show ?thesis by auto
qed

lemma triple_loop_core:
  assumes "within (same_core rp) m"
  shows "triple (loop_inv rp c0 P) m (\<lambda>_. loop_inv rp c0 P) (pop_inv rp)"
  by (rule triple_weaken [OF triple_core [OF assms, of "loop_inv rp c0 P"]]) (auto intro: loop_inv_core loop_inv_pop)

text \<open>A rebind \<open>(x, v)\<close> whose claim is gone or bound to another volume.\<close>

definition lost :: "restore_object \<Rightarrow> cluster \<Rightarrow> string \<Rightarrow> string \<Rightarrow> bool" where
  "lost rp c0 x v \<longleftrightarrow> (x, v) \<in> set (cl_rebinds c0) \<and>
     (\<forall>q \<in> set (views rp c0). q_claims q \<and> q_uid q = x \<longrightarrow> q_volume q \<noteq> None \<and> q_volume q \<noteq> Some v)"

lemma loop_inv_settle:
  assumes l: "loop_inv rp c0 P c" and v: "find_volume v c = Some vl" and "lost rp c0 x v"
  shows "loop_inv rp c0 P (set_volume v (settled_vol vl ''Retain'') c)"
proof -
  have "(x, v) \<in> set (cl_rebinds c)" using assms by (auto simp: loop_inv_def lost_def)
  moreover have "q_volume q \<noteq> None \<and> q_volume q \<noteq> Some v"
    if "q \<in> set (views rp c)" "q_claims q" "q_uid q = x" for q
    using that assms(3) loop_inv_claims [OF l, of q] by (simp add: lost_def)
  ultimately have "pop_inv rp (set_volume v (settled_vol vl ''Retain'') c)"
    using pop_inv_settle [OF loop_inv_pop [OF l] v] by blast
  then show ?thesis using l by (simp add: loop_inv_def)
qed

lemma triple_settle_retain:
  assumes "lost rp c0 x v"
  shows "triple (loop_inv rp c0 P) (settle_volume w v (Some ''Retain'')) (\<lambda>_. loop_inv rp c0 P) (pop_inv rp)"
  unfolding settle_volume_def
proof (rule triple_bind)
  show "triple (loop_inv rp c0 P) (io_read (pw_ok w (FinalizeGetVolume v)) (find_volume v))
      (\<lambda>pv c. loop_inv rp c0 P c \<and> find_volume v c = pv) (pop_inv rp)"
    by (rule triple_read) (auto intro: loop_inv_pop)
  fix pv
  show "triple (\<lambda>c. loop_inv rp c0 P c \<and> find_volume v c = pv)
      (case pv of None \<Rightarrow> io_ok () | Some vl \<Rightarrow> case or_else (Some ''Retain'') (vl_original vl) of None \<Rightarrow> io_ok ()
        | Some target \<Rightarrow> io_write (pw_ok w (FinalizePatchVolume v)) (set_volume v (vl\<lparr>vl_policy := Some target, vl_original := None\<rparr>)))
      (\<lambda>_. loop_inv rp c0 P) (pop_inv rp)"
    using loop_inv_settle [OF _ _ assms, of P]
    by (cases pv) (auto intro!: triple_ok triple_write intro: loop_inv_pop simp: settled_vol_def)
qed

lemma triple_finalize:
  assumes "\<And>v. action = PA_ForceRetain v \<Longrightarrow> \<exists>x. lost rp c0 x v" and "\<And>v. action \<noteq> PA_RestoreOriginalPolicy v"
  shows "triple (loop_inv rp c0 P) (finalize_populator w job prime action) (\<lambda>_. loop_inv rp c0 P) (pop_inv rp)"
  unfolding finalize_populator_def
proof (rule triple_seq)
  show "triple (loop_inv rp c0 P) (case action of PA_RestoreOriginalPolicy pv \<Rightarrow> settle_volume w pv None
      | PA_ForceRetain pv \<Rightarrow> settle_volume w pv (Some ''Retain'') | PA_Leave \<Rightarrow> io_ok ()) (\<lambda>_. loop_inv rp c0 P) (pop_inv rp)"
    using assms by (cases action) (auto intro: triple_settle_retain triple_ok)
qed (rule triple_loop_core, auto intro!: core_rules)

lemma triple_reap:
  assumes "\<And>v. pv = Some v \<Longrightarrow> \<exists>x. lost rp c0 x v"
  shows "triple (loop_inv rp c0 P) (reap_claim_artifacts w rp' uid reason pv) (\<lambda>_. loop_inv rp c0 P) (pop_inv rp)"
proof -
  have f: "triple (loop_inv rp c0 P) (finalize_populator w job prime (case pv of Some pv \<Rightarrow> PA_ForceRetain pv | None \<Rightarrow> PA_Leave))
      (\<lambda>_. loop_inv rp c0 P) (pop_inv rp)" for job prime
    by (rule triple_finalize) (use assms in \<open>auto split: option.splits\<close>)
  have s: "triple (loop_inv rp c0 P) (surviving_populate_artifacts w a b d) (\<lambda>_. loop_inv rp c0 P) (pop_inv rp)" for a b d
    by (rule triple_loop_core) (auto simp: surviving_populate_artifacts_def intro!: core_rules)
  have l: "triple (loop_inv rp c0 P) (if g then delete_populate_run w a b else io_ok ()) (\<lambda>_. loop_inv rp c0 P) (pop_inv rp)" for g a b
    by (rule triple_loop_core) (auto simp: delete_populate_run_def intro!: core_rules)
  show ?thesis
    unfolding reap_claim_artifacts_def Let_def
    by (intro triple_if triple_bind [OF s] triple_seq [OF f l]) (simp_all add: triple_ok)
qed

lemma triple_already_bound:
  assumes "\<And>v. kept = Some v \<Longrightarrow> \<exists>x. lost rp c0 x v"
  shows "triple (loop_inv rp c0 P) (claim_already_bound w cc kept) (\<lambda>_. loop_inv rp c0 P) (pop_inv rp)"
proof -
  have f: "triple (loop_inv rp c0 P) (if g then finalize_populator w job prime (case kept of Some pv \<Rightarrow> PA_ForceRetain pv | None \<Rightarrow> PA_Leave)
      else io_ok ()) (\<lambda>_. loop_inv rp c0 P) (pop_inv rp)" for g job prime
    by (cases g) (auto intro!: triple_ok triple_finalize dest: assms split: option.splits)
  have h: "triple (loop_inv rp c0 P) (fail_populate_hijacked w cc) (\<lambda>_. loop_inv rp c0 P) (pop_inv rp)"
    by (rule triple_loop_core) (auto simp: fail_populate_hijacked_def delete_populate_run_def intro!: core_rules)
  have r: "triple (loop_inv rp c0 P) (io_read ok g) (\<lambda>_. loop_inv rp c0 P) (pop_inv rp)" for ok and g :: "cluster \<Rightarrow> 'a"
    by (rule triple_loop_core) (rule core.within_read)
  show ?thesis
    unfolding claim_already_bound_def Let_def
    by (intro triple_bind [OF r] triple_if triple_seq [OF f] h) (simp add: triple_ok)
qed

lemma view_prime_unclaimed: "pc_data_source p = None \<Longrightarrow> \<not> q_claims (view rp p)"
  by (simp add: view_def pvc_claims_restore_def)

lemma triple_ensure_prime:
  "triple (loop_inv rp c0 P) (ensure_prime_pvc w rp' n consumer node) (\<lambda>_. loop_inv rp c0 P) (pop_inv rp)"
  unfolding ensure_prime_pvc_def
proof (rule triple_bind)
  show "triple (loop_inv rp c0 P) (io_read (pw_ok w (EnsureGet n)) (find_pvc n))
      (\<lambda>e c. loop_inv rp c0 P c \<and> find_pvc n c = e) (pop_inv rp)"
    by (rule triple_read) (auto intro: loop_inv_pop)
  fix e
  have new: "loop_inv rp c0 P (c\<lparr>cl_pvcs := cl_pvcs c @ [p]\<rparr>)"
    if "loop_inv rp c0 P c" "find_pvc n c = None" "pc_name p = n" "pc_volume p = None" "\<not> pc_status_bound p" "pc_data_source p = None"
    for c p
  proof -
    have "pop_inv rp (c\<lparr>cl_pvcs := cl_pvcs c @ [p]\<rparr>)"
      using that loop_inv_pop by (intro pop_inv_create) (auto simp: find_pvc_None_iff pvc_claims_restore_def non_empty_def)
    with that(1) view_prime_unclaimed [OF that(6)] show ?thesis by (simp add: loop_inv_def views_def)
  qed
  show "triple (\<lambda>c. loop_inv rp c0 P c \<and> find_pvc n c = e) (case e of Some _ \<Rightarrow> io_ok () | None \<Rightarrow>
      case rp_uid rp' of None \<Rightarrow> io_err | Some owner \<Rightarrow>
        io_write (pw_ok w (EnsureCreate n)) (\<lambda>c. c\<lparr>cl_pvcs := cl_pvcs c @
          [\<lparr>pc_name = n, pc_uid = pw_new_uid w n, pc_deleting = False, pc_data_source = None, pc_op = Some OP_RESTORE_POPULATE,
            pc_owners = [(''Restore'', owner)], pc_class = pc_class consumer, pc_volume = None, pc_status_bound = False,
            pc_selected_node = node\<rparr>]\<rparr>)) (\<lambda>_. loop_inv rp c0 P) (pop_inv rp)"
    by (cases e; cases "rp_uid rp'") (auto intro!: triple_ok triple_err triple_write new intro: loop_inv_pop)
qed

lemma pop_inv_gate:
  assumes "pop_inv rp c"
  shows "pop_inv rp (patch_restore_status (\<lambda>s. s\<lparr>rst_phase := Some RE_Pending\<rparr>) c)" (is "pop_inv rp ?d")
proof -
  have claims: "cl_claims ?d = cl_claims c"
    by (cases "cl_status c") (simp_all add: cl_claims_def patch_restore_status_def blank_status_def)
  have "annotated rp ?d x v = annotated rp c x v" "find_volume v ?d = find_volume v c" for x v
    by (simp_all add: annotated_def find_volume_def)
  moreover have "is_none_or (\<lambda>s. \<not> is_legacy_populator_status s) (cl_status ?d)"
    using assms by (cases "cl_status c")
      (auto simp: pop_inv_def records_ok_def patch_restore_status_def is_legacy_populator_status_def blank_status_def split: if_splits)
  ultimately show ?thesis
    using assms unfolding pop_inv_def rebinds_ok_def rebind_ok_def records_ok_def own_record_def not_relabelled_def
      handed_ok_def populated_on_record_def claims by simp
qed

lemma triple_mover:
  "triple (loop_inv rp c0 P) (run_restore_mover w job reuse key) (\<lambda>_. loop_inv rp c0 P) (pop_inv rp)"
proof -
  have r: "triple (loop_inv rp c0 P) (io_read ok g) (\<lambda>_. loop_inv rp c0 P) (pop_inv rp)" for ok and g :: "cluster \<Rightarrow> 'a"
    by (rule triple_loop_core) (rule core.within_read)
  have o: "triple (loop_inv rp c0 P) (observe_restore_mover w job j) (\<lambda>_. loop_inv rp c0 P) (pop_inv rp)" for j
    by (rule triple_loop_core) (auto simp: observe_restore_mover_def intro!: core_rules split: option.split bool.split)
  have l: "triple (loop_inv rp c0 P) (io_write ok (\<lambda>c. c\<lparr>cl_jobs := f c\<rparr>)) (\<lambda>_. loop_inv rp c0 P) (pop_inv rp)" for ok f
    by (rule triple_loop_core) (rule core.within_write, simp add: same_core_def)
  have g: "triple (loop_inv rp c0 P) (io_seq (io_write ok (patch_restore_status (\<lambda>s. s\<lparr>rst_phase := Some RE_Pending\<rparr>))) io_err)
      (\<lambda>_. loop_inv rp c0 P) (pop_inv rp)" for ok
    by (rule triple_seq [where R = "pop_inv rp"]) (auto intro!: triple_write triple_err pop_inv_gate intro: loop_inv_pop)
  show ?thesis
    unfolding run_restore_mover_def
    by (rule triple_bind [OF r])
      (auto intro!: triple_if triple_ok o g triple_seq [OF l] triple_err intro: loop_inv_pop split: option.split launch_reply.split)
qed

text \<open>A claim that is not bound and was never rebound.\<close>

definition unclaimed_volume :: "restore_object \<Rightarrow> cluster \<Rightarrow> string \<Rightarrow> bool" where
  "unclaimed_volume rp c0 x \<longleftrightarrow> x \<notin> fst ` set (cl_rebinds c0) \<and>
     (\<exists>q \<in> set (views rp c0). q_claims q \<and> q_uid q = x \<and> q_volume q = None)"

lemma loop_inv_rebind:
  assumes l: "loop_inv rp c0 P c" and x: "unclaimed_volume rp c0 x" "x \<notin> P"
    and p: "find_pvc (prime_pvc_name x) c = Some p" "non_empty (pc_volume p) = Some v" and v: "find_volume v c = Some vl"
  shows "loop_inv rp c0 (insert x P) (rebind_volume (rp_namespace rp) n x v vl c)" (is "loop_inv rp c0 _ ?d")
proof -
  have new: "x \<notin> fst ` set (cl_rebinds c)"
    using l x by (force simp: loop_inv_def unclaimed_volume_def)
  obtain q where q: "q \<in> set (views rp c0)" "q_claims q" "q_uid q = x" "q_volume q = None"
    using x(1) by (auto simp: unclaimed_volume_def)
  then have "q \<in> set (views rp c)" using loop_inv_claims [OF l, of q] by simp
  moreover have "pvcs_ok (views rp c)" using l by (simp add: loop_inv_def pop_inv_def)
  ultimately have "q_volume r = None" if "r \<in> set (views rp c)" "q_claims r" "q_uid r = x" for r
    using that q unfolding pvcs_ok_def by metis
  then have "pop_inv rp ?d" using pop_inv_rebind [OF loop_inv_pop [OF l] p v new] by blast
  with l q show ?thesis by (auto simp: loop_inv_def rebind_volume_def)
qed

lemma triple_issue_rebind:
  assumes x: "unclaimed_volume rp c0 x" "x \<notin> P" and v: "non_empty (pc_volume prime) = Some v"
  shows "triple (\<lambda>c. loop_inv rp c0 P c \<and> find_pvc (prime_pvc_name x) c = Some prime)
    (issue_rebind w (rp_namespace rp) (prime_pvc_name x) n x v) (\<lambda>_. loop_inv rp c0 (insert x P)) (pop_inv rp)"
proof -
  let ?P = "\<lambda>c. loop_inv rp c0 P c \<and> find_pvc (prime_pvc_name x) c = Some prime" and ?Q = "loop_inv rp c0 (insert x P)"
  have up: "?P c \<Longrightarrow> ?Q c" for c using loop_inv_mono [of rp c0 P c "insert x P"] by auto
  have r: "triple ?P (io_read ok (find_volume v)) (\<lambda>y c. ?P c \<and> find_volume v c = y) (pop_inv rp)" for ok
    by (auto intro: triple_read loop_inv_pop)
  have d: "triple ?Q (io_seq (io_attempt ok (delete_pvc m)) (io_ok True)) (\<lambda>_. ?Q) (pop_inv rp)" for ok m
    by (rule triple_loop_core) (intro core_rules)
  have b: "triple (\<lambda>c. ?P c \<and> find_volume v c = Some vl)
      (if g then io_ok () else io_write ok (rebind_volume (rp_namespace rp) n x v vl)) (\<lambda>_. ?Q) (pop_inv rp)" for vl g ok
    by (intro triple_if triple_ok triple_write) (use assms up in \<open>auto intro: loop_inv_pop loop_inv_rebind\<close>)
  show ?thesis
    unfolding issue_rebind_def
  proof (rule triple_bind [OF r])
    show "triple (\<lambda>c. ?P c \<and> find_volume v c = pv) (case pv of None \<Rightarrow> io_ok False
      | Some vl \<Rightarrow> io_seq (if rebound_to n x vl then io_ok ()
            else io_write (pw_ok w (RebindPatch v)) (rebind_volume (rp_namespace rp) n x v vl))
          (io_seq (io_attempt (pw_ok w (RebindDelete (prime_pvc_name x))) (delete_pvc (prime_pvc_name x))) (io_ok True)))
      (\<lambda>_. ?Q) (pop_inv rp)" for pv
    proof (cases pv)
      case (Some vl)
      show ?thesis unfolding Some option.case by (rule triple_seq [OF b d])
    qed (use up in \<open>auto intro: triple_ok\<close>)
  qed
qed

lemma triple_rebind:
  assumes x: "unclaimed_volume rp c0 x" "x \<notin> P"
  shows "triple (loop_inv rp c0 P) (rebind_prime_to_consumer w (rp_namespace rp) (prime_pvc_name x) n x)
    (\<lambda>_. loop_inv rp c0 (insert x P)) (pop_inv rp)"
  unfolding rebind_prime_to_consumer_def
proof (rule triple_bind)
  show "triple (loop_inv rp c0 P) (io_read (pw_ok w (RebindGetPrime (prime_pvc_name x))) (find_pvc (prime_pvc_name x)))
      (\<lambda>y c. loop_inv rp c0 P c \<and> find_pvc (prime_pvc_name x) c = y) (pop_inv rp)"
    by (auto intro: triple_read loop_inv_pop)
  fix p
  have up: "loop_inv rp c0 P c \<Longrightarrow> loop_inv rp c0 (insert x P) c" for c by (erule loop_inv_mono) auto
  show "triple (\<lambda>c. loop_inv rp c0 P c \<and> find_pvc (prime_pvc_name x) c = p)
     (case p of None \<Rightarrow> io_ok True | Some prime \<Rightarrow> case non_empty (pc_volume prime) of None \<Rightarrow> io_ok False
      | Some pv_name \<Rightarrow> issue_rebind w (rp_namespace rp) (prime_pvc_name x) n x pv_name)
     (\<lambda>_. loop_inv rp c0 (insert x P)) (pop_inv rp)"
    by (cases p) (auto intro!: triple_ok triple_issue_rebind x up split: option.split)
qed

lemma triple_populate_selected:
  assumes x: "unclaimed_volume rp c0 x" "x \<notin> P" and cc: "cc_uid cc = x" "cc_prime_name cc = prime_pvc_name x"
  shows "triple (loop_inv rp c0 P) (populate_selected w rp cc selection pins) (\<lambda>_. loop_inv rp c0 (insert x P)) (pop_inv rp)"
proof -
  let ?P = "loop_inv rp c0 P" and ?Q = "loop_inv rp c0 (insert x P)"
  have up: "?P c \<Longrightarrow> ?Q c" for c by (erule loop_inv_mono) auto
  have cls: "triple ?P (if g then consumer_storage_class_is_wffc w p else io_ok False) (\<lambda>_. ?P) (pop_inv rp)" for g p
    by (rule triple_loop_core) (auto simp: consumer_storage_class_is_wffc_def intro!: core_rules split: option.split)
  have run: "triple ?P (if g then run_restore_mover w job reuse key else io_ok MO_Succeeded) (\<lambda>_. ?P) (pop_inv rp)" for g job reuse key
    by (intro triple_if triple_mover triple_ok)
  have ok: "triple ?P (io_ok r) (\<lambda>_. ?Q) (pop_inv rp)" for r :: claim_outcome by (rule triple_ok) (rule up)
  have rebind: "triple ?P (io_bind (rebind_prime_to_consumer w (rp_namespace rp) (cc_prime_name cc) n (cc_uid cc)) (\<lambda>i. io_ok (f i)))
      (\<lambda>_. ?Q) (pop_inv rp)" for n and f :: "bool \<Rightarrow> claim_outcome"
    unfolding cc by (rule triple_bind [OF triple_rebind [OF x]]) (rule triple_ok)
  show ?thesis
    unfolding populate_selected_def Let_def
    by (rule triple_bind [OF cls], rule triple_if, rule ok, rule triple_seq [OF triple_ensure_prime], rule triple_bind [OF run])
      (simp add: ok rebind split: mover_outcome.split)
qed

lemma within_resolve: "within (same_core rp) (resolve_claim_source w rp' cc)"
  unfolding resolve_claim_source_def Let_def
  by (auto intro!: core_rules split: option.split resolution.split source_reply.split)

lemma triple_populate:
  assumes "unclaimed_volume rp c0 x" "x \<notin> P" and "cc_uid cc = x" "cc_prime_name cc = prime_pvc_name x"
  shows "triple (loop_inv rp c0 P) (claim_populate w rp cc) (\<lambda>_. loop_inv rp c0 (insert x P)) (pop_inv rp)"
proof -
  have up: "loop_inv rp c0 P c \<Longrightarrow> loop_inv rp c0 (insert x P) c" for c by (erule loop_inv_mono) auto
  show ?thesis
    unfolding claim_populate_def Let_def
    by (rule triple_bind [OF triple_loop_core [OF within_resolve]])
      (auto intro!: triple_ok up triple_populate_selected assms split: claim_resolution.split)
qed

lemma handshake_cases:
  "populator_handshake p r = PH_LostRebind v \<Longrightarrow> r = Some v \<and> (\<exists>u. q_volume (view rp p) = Some u \<and> u \<noteq> v)"
  "populator_handshake p r = PH_FinalizeRebound v \<Longrightarrow> r = Some v \<and> q_volume (view rp p) = Some v"
  "populator_handshake p r = PH_Populate \<Longrightarrow> r = None \<and> q_volume (view rp p) = None"
  "populator_handshake p r = PH_NothingToPopulate \<Longrightarrow> r = None \<and> (q_volume (view rp p) \<noteq> None \<or> q_bound (view rp p))"
  by (auto simp: populator_handshake_def view_def pvc_is_bound_def non_empty_def is_some_and_def split: option.splits if_splits)

text \<open>
  What the volume list of a pass is good for: its entries are rebinds, and it has the rebind of every
  claim the pass will drive that is unbound or bound to the rebound volume.
\<close>

definition rebound_ok :: "restore_object \<Rightarrow> cluster \<Rightarrow> claims \<Rightarrow> (string \<rightharpoonup> string) \<Rightarrow> bool" where
  "rebound_ok rp c0 prev rb \<longleftrightarrow> (\<forall>x v. rb x = Some v \<longrightarrow> (x, v) \<in> set (cl_rebinds c0)) \<and>
     (\<forall>q \<in> set (views rp c0). q_claims q \<longrightarrow> claim_drive (map_of prev (q_name q)) (q_uid q) = CD_Drive \<longrightarrow>
        (\<forall>v. (q_uid q, v) \<in> set (cl_rebinds c0) \<longrightarrow> is_none_or (\<lambda>u. u = v) (q_volume q) \<longrightarrow> rb (q_uid q) = Some v))"

lemma view_simps [simp]: "q_uid (view rp p) = pc_uid p" "q_name (view rp p) = pc_name p"
  by (simp_all add: view_def)

lemma rebound_ok_complete:
  assumes "rebound_ok rp c0 prev rb" and "q \<in> set (views rp c0)" and "q_claims q"
    and "claim_drive (map_of prev (q_name q)) (q_uid q) = CD_Drive"
    and "(q_uid q, v) \<in> set (cl_rebinds c0)" and "is_none_or (\<lambda>u. u = v) (q_volume q)"
  shows "rb (q_uid q) = Some v"
  using assms unfolding rebound_ok_def by blast

lemma triple_drive_claim:
  assumes rb: "rebound_ok rp c0 prev rb" and inv: "pop_inv rp c0" and q: "view rp p \<in> set (views rp c0)" "q_claims (view rp p)"
    and drive: "claim_drive (map_of prev (pc_name p)) (pc_uid p) = CD_Drive" and P: "pc_uid p \<notin> P"
    and cc: "cc_consumer cc = p" "cc_uid cc = pc_uid p" "cc_prime_name cc = prime_pvc_name (pc_uid p)"
  shows "triple (loop_inv rp c0 P) (drive_claim w rp cc rb) (\<lambda>_. loop_inv rp c0 (insert (pc_uid p) P)) (pop_inv rp)"
proof -
  let ?x = "pc_uid p" and ?q = "view rp p"
  have up: "triple (loop_inv rp c0 P) m (\<lambda>_. loop_inv rp c0 P) (pop_inv rp) \<Longrightarrow>
      triple (loop_inv rp c0 P) m (\<lambda>_. loop_inv rp c0 (insert ?x P)) (pop_inv rp)" for m :: "claim_outcome pass"
    by (erule triple_weaken) (auto intro: loop_inv_mono)
  have lost: "lost rp c0 ?x v" if "populator_handshake p (rb ?x) = PH_LostRebind v" for v
  proof -
    note h = handshake_cases(1) [OF that, of rp]
    then obtain u where u: "rb ?x = Some v" "q_volume ?q = Some u" "u \<noteq> v" by auto
    moreover have "r = ?q" if "r \<in> set (views rp c0)" "q_claims r" "q_uid r = ?x" for r
      using inv q that view_simps(1) [of rp p] unfolding pop_inv_def pvcs_ok_def by metis
    moreover have "(?x, v) \<in> set (cl_rebinds c0)" using rb u(1) by (simp add: rebound_ok_def)
    ultimately show ?thesis by (auto simp: lost_def)
  qed
  have unclaimed: "unclaimed_volume rp c0 ?x" if "populator_handshake p (rb ?x) = PH_Populate"
  proof -
    have h: "rb ?x = None" "q_volume ?q = None" using handshake_cases(3) [OF that, of rp] by auto
    have "(?x, v) \<notin> set (cl_rebinds c0)" for v
    proof
      assume "(?x, v) \<in> set (cl_rebinds c0)"
      then have "rb ?x = Some v" using rebound_ok_complete [OF rb q] drive h(2) by simp
      with h(1) show False by simp
    qed
    then have "?x \<notin> fst ` set (cl_rebinds c0)" by force
    with q h(2) show ?thesis unfolding unclaimed_volume_def by (metis view_simps(1))
  qed
  have "triple (loop_inv rp c0 P) (claim_finalize_rebound w rp cc v) (\<lambda>_. loop_inv rp c0 P) (pop_inv rp)" for v
    by (rule triple_loop_core) (auto simp: claim_finalize_rebound_def Let_def intro!: core_rules)
  note final = up [OF this]
  have "triple (loop_inv rp c0 P) (claim_already_bound w cc k) (\<lambda>_. loop_inv rp c0 P) (pop_inv rp)"
    if "\<And>v. k = Some v \<Longrightarrow> populator_handshake p (rb ?x) = PH_LostRebind v" for k
    by (rule triple_already_bound) (use that lost in blast)
  note bound = up [OF this]
  have wait: "triple (loop_inv rp c0 P) (io_ok r) (\<lambda>_. loop_inv rp c0 (insert ?x P)) (pop_inv rp)" for r :: claim_outcome
    by (rule up) (rule triple_ok)
  have populate: "triple (loop_inv rp c0 P) (claim_populate w rp cc) (\<lambda>_. loop_inv rp c0 (insert ?x P)) (pop_inv rp)"
    if "populator_handshake p (rb ?x) = PH_Populate"
    using unclaimed [OF that] P cc(2,3) by (rule triple_populate)
  show ?thesis
    unfolding drive_claim_def cc
    by (cases "populator_handshake p (rb ?x)") (auto intro: final bound wait populate)
qed

subsection \<open>What driving a claim returns\<close>

text \<open>
  The record \<open>r\<close> and the deferred teardown of one claim: a settled claim keeps its record; any other
  record carries the uid of the live claimant, says \<open>AlreadyBound\<close> only for a claim that is bound and
  not to a volume of the list, and \<open>Populated\<close> with a teardown only for a volume of the list.
\<close>

definition outcome_ok :: "restore_object \<Rightarrow> claims \<Rightarrow> (string \<rightharpoonup> string) \<Rightarrow> pvc_view \<Rightarrow> claim_outcome \<Rightarrow> bool" where
  "outcome_ok rp prev rb q oc \<longleftrightarrow>
     (if claim_drive (map_of prev (q_name q)) (q_uid q) = CD_Settled
      then map_of prev (q_name q) = Some (co_record oc) \<and> co_after_patch oc = None
      else cs_uid (co_record oc) = Some (q_uid q) \<and>
        (cs_phase (co_record oc) = Some RC_AlreadyBound \<longrightarrow>
           claim_drive (map_of prev (q_name q)) (q_uid q) = CD_Drive \<and> (q_volume q \<noteq> None \<or> q_bound q) \<and>
           is_none_or (\<lambda>v. q_volume q \<noteq> Some v) (rb (q_uid q))) \<and>
        is_none_or (\<lambda>f. rb (q_uid q) = Some (pf_pv f) \<and> pf_prime f = prime_pvc_name (q_uid q) \<and>
           cs_phase (co_record oc) = Some RC_Populated) (co_after_patch oc))"

lemma claim_record_simps [simp]:
  "cs_uid (claim_record cc ph rs) = Some (cc_uid cc)" "cs_phase (claim_record cc ph rs) = Some ph"
  by (simp_all add: claim_record_def)

lemma plain_outcome_simps [simp]:
  "co_record (plain_outcome r n) = r" "co_after_patch (plain_outcome r n) = None"
  by (simp_all add: plain_outcome_def)

text \<open>A populate never ends in \<open>AlreadyBound\<close> and never finalizes.\<close>

definition in_progress :: "claim_context \<Rightarrow> claim_outcome \<Rightarrow> bool" where
  "in_progress cc oc \<longleftrightarrow> cs_uid (co_record oc) = Some (cc_uid cc) \<and> cs_phase (co_record oc) \<noteq> Some RC_AlreadyBound \<and>
     co_after_patch oc = None"

lemma returns_populate: "returns (claim_populate w rp cc) (in_progress cc)"
proof -
  have s: "returns (populate_selected w rp cc sel (with_pins a b d)) (in_progress cc)" for sel a b d
    unfolding populate_selected_def Let_def
    by (auto intro!: returns_then returns_if returns_ok returns_seq simp: in_progress_def with_pins_def split: mover_outcome.split)
  have r: "returns (resolve_claim_source w rp cc) (\<lambda>(res, _, _). \<forall>oc. res = CR_Parked oc \<longrightarrow> in_progress cc oc)"
    unfolding resolve_claim_source_def Let_def
    by (auto intro!: returns_ok returns_err simp: in_progress_def no_snapshot_for_claim_def
        split: option.split resolution.split source_reply.split on_missing_snapshot.split)
  show ?thesis
    unfolding claim_populate_def Let_def
    by (rule returns_bind [OF r]) (auto intro!: returns_ok s simp: in_progress_def with_pins_def split: claim_resolution.split)
qed

lemma returns_already_bound:
  "returns (claim_already_bound w cc k) (\<lambda>oc. cs_uid (co_record oc) = Some (cc_uid cc) \<and> co_after_patch oc = None)"
  unfolding claim_already_bound_def fail_populate_hijacked_def Let_def
  by (auto intro!: returns_then returns_if returns_ok returns_seq)

lemma returns_drive_claim:
  assumes cc: "cc_consumer cc = p" "cc_uid cc = pc_uid p" "cc_prime_name cc = prime_pvc_name (pc_uid p)"
    and drive: "claim_drive (map_of prev (pc_name p)) (pc_uid p) = CD_Drive"
  shows "returns (drive_claim w rp cc rb) (outcome_ok rp prev rb (view rp p))"
proof -
  let ?Q = "outcome_ok rp prev rb (view rp p)"
  note hc = handshake_cases [of p "rb (pc_uid p)", where rp = rp]
  have weaken: "returns m R \<Longrightarrow> (\<And>x. R x \<Longrightarrow> ?Q x) \<Longrightarrow> returns m ?Q" for m :: "claim_outcome pass" and R
    unfolding returns_def by (erule triple_weaken) auto
  have "returns (claim_finalize_rebound w rp cc v) ?Q" if "populator_handshake p (rb (pc_uid p)) = PH_FinalizeRebound v" for v
    unfolding claim_finalize_rebound_def Let_def
    by (rule returns_then, rule returns_ok) (use hc(2) [OF that] drive cc in \<open>auto simp: outcome_ok_def\<close>)
  moreover have "returns (claim_already_bound w cc None) ?Q" if "populator_handshake p (rb (pc_uid p)) = PH_NothingToPopulate"
    by (rule weaken [OF returns_already_bound]) (use hc(4) [OF that] drive cc in \<open>auto simp: outcome_ok_def\<close>)
  moreover have "returns (claim_already_bound w cc (Some v)) ?Q" if "populator_handshake p (rb (pc_uid p)) = PH_LostRebind v" for v
    by (rule weaken [OF returns_already_bound]) (use hc(1) [OF that] drive cc in \<open>auto simp: outcome_ok_def\<close>)
  moreover have "returns (claim_populate w rp cc) ?Q"
    by (rule weaken [OF returns_populate]) (use drive cc in \<open>auto simp: outcome_ok_def in_progress_def\<close>)
  moreover have "?Q (plain_outcome (claim_record cc RC_Rebinding PopulatingPrimePvc) 5)"
    using drive cc by (simp add: outcome_ok_def)
  ultimately show ?thesis
    unfolding drive_claim_def cc by (cases "populator_handshake p (rb (pc_uid p))") (auto intro: returns_ok)
qed

lemma find_distinct:
  assumes "distinct (map f xs)" and "x \<in> set xs"
  shows "List.find (\<lambda>y. f y = f x) xs = Some x"
  using assms by (induction xs) auto

lemma returns_drive_one_claim:
  assumes p: "p \<in> set (ca_consumers cs)" "distinct (map pc_name (ca_consumers cs))"
  shows "returns (drive_one_claim w rp cs prev rb (pc_name p, pc_uid p) (claim_drive (map_of prev (pc_name p)) (pc_uid p)))
    (outcome_ok rp prev rb (view rp p))"
proof (cases "claim_drive (map_of prev (pc_name p)) (pc_uid p)")
  case CD_Drive
  then show ?thesis
    using find_distinct [OF p(2,1)]
    by (auto simp: drive_one_claim_def Let_def claim_context_for_def intro!: returns_drive_claim)
next
  case CD_Settled
  then obtain r where "map_of prev (pc_name p) = Some r" by (auto simp: claim_drive_def split: option.splits)
  with CD_Settled show ?thesis
    by (auto simp: drive_one_claim_def Let_def outcome_ok_def intro!: returns_seq returns_ok)
next
  case (CD_ReArm u)
  then show ?thesis
    by (auto simp: drive_one_claim_def Let_def outcome_ok_def intro!: returns_seq returns_ok)
qed

subsection \<open>The loop over the claims\<close>

text \<open>The records a pass works from: the stored ones, or one adopted record that is not terminal.\<close>

definition prev_ok :: "restore_object \<Rightarrow> cluster \<Rightarrow> claims \<Rightarrow> bool" where
  "prev_ok rp c0 prev \<longleftrightarrow>
     (\<forall>q \<in> set (views rp c0). q_claims q \<longrightarrow>
        (\<forall>n r. map_of prev n = Some r \<longrightarrow> cs_uid r = Some (q_uid q) \<longrightarrow> n = q_name q)) \<and>
     (\<forall>n r. map_of (cl_claims c0) n = Some r \<longrightarrow> map_of prev n = Some r) \<and>
     (\<forall>n r. map_of prev n = Some r \<longrightarrow> map_of (cl_claims c0) n = Some r \<or>
        map_of (cl_claims c0) n = None \<and> \<not> is_some_and claim_is_terminal (cs_phase r))"

definition claimants_ok :: "restore_object \<Rightarrow> cluster \<Rightarrow> claimants \<Rightarrow> bool" where
  "claimants_ok rp c0 cs \<longleftrightarrow> distinct (map pc_name (ca_consumers cs)) \<and> distinct (map pc_uid (ca_consumers cs)) \<and>
     view rp ` set (ca_consumers cs) = {q \<in> set (views rp c0). q_claims q}"

lemma triple_drive_one_claim:
  assumes ok: "rebound_ok rp c0 prev rb" "prev_ok rp c0 prev" "pop_inv rp c0" "claimants_ok rp c0 cs"
    and p: "p \<in> set (ca_consumers cs)" and P: "pc_uid p \<notin> P"
  shows "triple (loop_inv rp c0 P)
    (drive_one_claim w rp cs prev rb (pc_name p, pc_uid p) (claim_drive (map_of prev (pc_name p)) (pc_uid p)))
    (\<lambda>_. loop_inv rp c0 (insert (pc_uid p) P)) (pop_inv rp)"
proof -
  let ?q = "view rp p"
  have q: "?q \<in> set (views rp c0)" "q_claims ?q" using p ok(4) by (auto simp: claimants_ok_def)
  have up: "loop_inv rp c0 P c \<Longrightarrow> loop_inv rp c0 (insert (pc_uid p) P) c" for c by (erule loop_inv_mono) auto
  have reap: "triple (loop_inv rp c0 P) (io_seq (reap_claim_artifacts w rp uid reason pv) (io_ok oc))
      (\<lambda>_. loop_inv rp c0 (insert (pc_uid p) P)) (pop_inv rp)"
    if "\<And>v. pv = Some v \<Longrightarrow> \<exists>x. lost rp c0 x v" for uid reason pv and oc :: claim_outcome
    by (rule triple_seq [OF triple_reap [OF that]]) (auto intro: triple_ok up)
  show ?thesis
  proof (cases "claim_drive (map_of prev (pc_name p)) (pc_uid p)")
    case CD_Drive
    have "List.find (\<lambda>y. pc_name y = pc_name p) (ca_consumers cs) = Some p"
      using ok(4) p by (auto simp: claimants_ok_def intro: find_distinct)
    with CD_Drive show ?thesis
      using triple_drive_claim [OF ok(1,3) q CD_Drive P]
      by (simp add: drive_one_claim_def Let_def claim_context_for_def)
  next
    case CD_Settled
    have "triple (loop_inv rp c0 P) (io_seq (io_ok ()) (io_ok oc)) (\<lambda>_. loop_inv rp c0 (insert (pc_uid p) P)) (pop_inv rp)"
      for oc :: claim_outcome
      by (rule triple_seq [where R = "loop_inv rp c0 P"]) (auto intro: triple_ok up)
    with CD_Settled reap [of None] show ?thesis by (simp add: drive_one_claim_def Let_def)
  next
    case (CD_ReArm x)
    obtain r where r: "map_of prev (pc_name p) = Some r" "cs_uid r = Some x" "x \<noteq> pc_uid p"
      using CD_ReArm by (auto simp: claim_drive_def split: option.splits if_splits)
    have "q_uid q' \<noteq> x" if "q' \<in> set (views rp c0)" "q_claims q'" for q'
    proof
      assume "q_uid q' = x"
      then have "q_name q' = pc_name p" using ok(2) that r by (auto simp: prev_ok_def)
      moreover have "distinct (map q_name (views rp c0))" using ok(3) by (simp add: pop_inv_def pvcs_ok_def)
      ultimately have "q' = ?q" using q(1) that(1) by (metis distinct_map inj_onD view_simps(2))
      with \<open>q_uid q' = x\<close> r(3) show False by simp
    qed
    then have "\<exists>y. lost rp c0 y v" if "rb x = Some v" for v
      using ok(1) that by (auto simp: lost_def rebound_ok_def)
    with CD_ReArm reap show ?thesis by (simp add: drive_one_claim_def Let_def)
  qed
qed

text \<open>What the loop has collected for the claims already driven.\<close>

definition collected :: "restore_object \<Rightarrow> claims \<Rightarrow> (string \<rightharpoonup> string) \<Rightarrow> pvc_object list \<Rightarrow> fanout \<Rightarrow> bool" where
  "collected rp prev rb ps acc \<longleftrightarrow>
     map fst (fo_next acc) = map pc_name ps \<and>
     (\<forall>p \<in> set ps. \<exists>oc. outcome_ok rp prev rb (view rp p) oc \<and> (pc_name p, co_record oc) \<in> set (fo_next acc)) \<and>
     (\<forall>f \<in> set (fo_finalizers acc). \<exists>p \<in> set ps. \<exists>oc. outcome_ok rp prev rb (view rp p) oc \<and>
        co_after_patch oc = Some f \<and> (pc_name p, co_record oc) \<in> set (fo_next acc))"

lemma collected_snoc:
  assumes "collected rp prev rb ps acc" and "outcome_ok rp prev rb (view rp p) oc"
  shows "collected rp prev rb (ps @ [p]) \<lparr>fo_next = fo_next acc @ [(pc_name p, co_record oc)], fo_events = ev,
     fo_finalizers = fo_finalizers acc @ (case co_after_patch oc of Some f \<Rightarrow> [f] | None \<Rightarrow> []), fo_requeue = rq\<rparr>"
  using assms unfolding collected_def by (fastforce split: option.split)

definition plan_of :: "claims \<Rightarrow> pvc_object \<Rightarrow> (string \<times> string) \<times> claim_drive" where
  "plan_of prev p = ((pc_name p, pc_uid p), claim_drive (map_of prev (pc_name p)) (pc_uid p))"

lemma triple_loop:
  assumes ok: "rebound_ok rp c0 prev rb" "prev_ok rp c0 prev" "pop_inv rp c0" "claimants_ok rp c0 cs"
    and acc: "fo_next acc = []" "fo_finalizers acc = []"
  shows "triple (loop_inv rp c0 {}) (io_each (fanout_claim w rp cs prev rb) (map (plan_of prev) (ca_consumers cs)) acc)
    (\<lambda>acc c. loop_inv rp c0 (pc_uid ` set (ca_consumers cs)) c \<and> collected rp prev rb (ca_consumers cs) acc) (pop_inv rp)"
proof -
  define I where "I ps acc c \<longleftrightarrow> loop_inv rp c0 (pc_uid ` set ps) c \<and> collected rp prev rb ps acc" for ps acc c
  have each: "triple (I ps acc) (fanout_claim w rp cs prev rb (plan_of prev p) acc) (I (ps @ [p])) (pop_inv rp)"
    if split: "ca_consumers cs = ps @ p # rest" for ps p rest acc
  proof -
    have p: "p \<in> set (ca_consumers cs)" "pc_uid p \<notin> pc_uid ` set ps" "distinct (map pc_name (ca_consumers cs))"
      using ok(4) split by (auto simp: claimants_ok_def)
    note t = triple_returns [OF triple_drive_one_claim [OF ok p(1,2)] returns_drive_one_claim [OF p(1,3)]]
    show ?thesis
    proof (cases "collected rp prev rb ps acc")
      case True
      show ?thesis
        unfolding fanout_claim_def Let_def plan_of_def fst_conv snd_conv
        by (rule triple_weaken [OF triple_bind [OF t triple_ok]])
          (use True in \<open>auto simp: I_def intro!: collected_snoc\<close>)
    qed (simp add: I_def triple_def)
  qed
  have "triple (I [] acc) (io_each (fanout_claim w rp cs prev rb) (map (plan_of prev) (ca_consumers cs)) acc)
      (I (ca_consumers cs)) (pop_inv rp)"
    using each by (rule triple_each_map)
  then show ?thesis
    by (rule triple_weaken) (use acc in \<open>auto simp: I_def collected_def\<close>)
qed

subsection \<open>What a pass reads\<close>

definition index_rebound :: "string \<Rightarrow> (string \<times> volume) list \<Rightarrow> (string \<rightharpoonup> string) \<Rightarrow> string \<rightharpoonup> string" where
  "index_rebound ns vs m = foldl (\<lambda>by_uid (name, v). case rebound_uid ns v of None \<Rightarrow> by_uid | Some uid \<Rightarrow> by_uid(uid \<mapsto> name)) m vs"

lemma index_rebound_iff:
  "index_rebound ns vs m x = Some v \<Longrightarrow> m x = Some v \<or> (\<exists>vl. (v, vl) \<in> set vs \<and> rebound_uid ns vl = Some x)"
  "(v, vl) \<in> set vs \<Longrightarrow> rebound_uid ns vl = Some x \<Longrightarrow> index_rebound ns vs m x \<noteq> None"
  "m x \<noteq> None \<Longrightarrow> index_rebound ns vs m x \<noteq> None"
proof -
  show keep: "m x \<noteq> None \<Longrightarrow> index_rebound ns vs m x \<noteq> None" for m
    unfolding index_rebound_def by (induction vs arbitrary: m) (auto split: option.split)
  show "index_rebound ns vs m x = Some v \<Longrightarrow> m x = Some v \<or> (\<exists>vl. (v, vl) \<in> set vs \<and> rebound_uid ns vl = Some x)"
    unfolding index_rebound_def by (induction vs arbitrary: m) (fastforce split: option.splits if_splits)+
  show "(v, vl) \<in> set vs \<Longrightarrow> rebound_uid ns vl = Some x \<Longrightarrow> index_rebound ns vs m x \<noteq> None"
  proof (induction vs arbitrary: m)
    case (Cons a vs)
    have step: "index_rebound ns (a # vs) m = index_rebound ns vs (case rebound_uid ns (snd a) of None \<Rightarrow> m | Some uid \<Rightarrow> m(uid \<mapsto> fst a))" for m
      by (simp add: index_rebound_def case_prod_unfold)
    have later: "m' x \<noteq> None \<Longrightarrow> index_rebound ns vs m' x \<noteq> None" for m'
      unfolding index_rebound_def by (induction vs arbitrary: m') (auto split: option.split)
    show ?case unfolding step using Cons later by auto
  qed simp
qed

lemma index_rebound_annotated:
  assumes "rebinds_ok rp c"
  shows "index_rebound (rp_namespace rp) (cl_volumes c) Map.empty x = Some v \<longleftrightarrow> annotated rp c x v"
proof -
  let ?m = "index_rebound (rp_namespace rp) (cl_volumes c) Map.empty"
  have iff: "annotated rp c x v \<longleftrightarrow> (\<exists>vl. (v, vl) \<in> set (cl_volumes c) \<and> rebound_uid (rp_namespace rp) vl = Some x)" for x v
    using assms by (auto simp: annotated_iff find_volume_def rebinds_ok_def dest: map_of_SomeD)
  have sound: "?m x = Some v \<Longrightarrow> annotated rp c x v" for v using index_rebound_iff(1) iff by fastforce
  moreover have "?m x = Some v" if a: "annotated rp c x v"
  proof -
    obtain u where u: "?m x = Some u" using a iff index_rebound_iff(2) by fastforce
    have "(x, v) \<in> set (cl_rebinds c)" "(x, u) \<in> set (cl_rebinds c)" using assms a sound [OF u] by (simp_all add: rebinds_ok_def)
    then show ?thesis using rebinds_okD(2) [OF assms] u by blast
  qed
  ultimately show ?thesis by blast
qed

lemma populated_is_settled:
  assumes "populated_on_record c0 n x" and "prev_ok rp c0 prev"
  shows "claim_drive (map_of prev n) x = CD_Settled"
proof -
  obtain r where r: "map_of (cl_claims c0) n = Some r" "cs_uid r = Some x" "cs_phase r = Some RC_Populated"
    using assms(1) by (auto simp: populated_on_record_def is_some_and_iff)
  then have "map_of prev n = Some r" using assms(2) by (simp add: prev_ok_def)
  with r show ?thesis by (simp add: claim_drive_def)
qed

lemma rebound_ok_listed:
  assumes inv: "pop_inv rp c" and prev: "prev_ok rp c prev"
  shows "rebound_ok rp c prev (index_rebound (rp_namespace rp) (cl_volumes c) Map.empty)"
proof -
  have ok: "rebinds_ok rp c" "records_ok rp c" using inv by (simp_all add: pop_inv_def)
  note iff = index_rebound_annotated [OF ok(1)]
  have "annotated rp c (q_uid q) v" if "q \<in> set (views rp c)" "q_claims q" "claim_drive (map_of prev (q_name q)) (q_uid q) = CD_Drive"
      "(q_uid q, v) \<in> set (cl_rebinds c)" "is_none_or (\<lambda>u. u = v) (q_volume q)" for q v
  proof -
    have "annotated rp c (q_uid q) v \<or> populated_on_record c (q_name q) (q_uid q)"
      using ok(2) that by (simp add: records_ok_def handed_ok_def)
    then show ?thesis using populated_is_settled [OF _ prev] that(3) by force
  qed
  moreover have "annotated rp c x v \<Longrightarrow> (x, v) \<in> set (cl_rebinds c)" for x v using ok(1) by (simp add: rebinds_ok_def)
  ultimately show ?thesis unfolding rebound_ok_def iff by blast
qed

lemma rebound_ok_quiet:
  assumes "claimants_ok rp c cs" and "list_all (\<lambda>p. claim_drive (map_of prev (pc_name p)) (pc_uid p) = CD_Settled) (ca_consumers cs)"
  shows "rebound_ok rp c prev Map.empty"
proof -
  have "claim_drive (map_of prev (q_name q)) (q_uid q) = CD_Settled" if q: "q \<in> set (views rp c)" "q_claims q" for q
  proof -
    obtain p where "p \<in> set (ca_consumers cs)" "q = view rp p" using assms(1) q unfolding claimants_ok_def by blast
    then show ?thesis using assms(2) by (simp add: list_all_iff)
  qed
  then show ?thesis by (simp add: rebound_ok_def)
qed

lemma claimants_ok_listed:
  assumes inv: "pop_inv rp c"
  shows "claimants_ok rp c \<lparr>ca_consumers = sort_key pc_name (filter (pvc_claims_restore (rp_name rp)) (cl_pvcs c)), ca_primes = ps\<rparr>"
proof -
  let ?xs = "filter (pvc_claims_restore (rp_name rp)) (cl_pvcs c)"
  have pv: "pvcs_ok (views rp c)" using inv by (simp add: pop_inv_def)
  have names: "distinct (map pc_name (cl_pvcs c))" using pv by (simp add: pvcs_ok_def views_def comp_def)
  then have dn: "distinct ?xs" "inj_on pc_name (set ?xs)" by (auto simp: distinct_map intro: inj_on_subset)
  have "inj_on pc_uid (set ?xs)"
  proof (rule inj_onI)
    fix p q assume pq: "p \<in> set ?xs" "q \<in> set ?xs" "pc_uid p = pc_uid q"
    then have "view rp p \<in> set (views rp c)" "view rp q \<in> set (views rp c)" "q_claims (view rp p)" "q_claims (view rp q)"
      by (simp_all add: views_def) (simp_all add: view_def)
    then have "view rp p = view rp q" using pv pq(3) view_simps(1) unfolding pvcs_ok_def by metis
    then have "pc_name p = pc_name q" by (metis view_simps(2))
    then show "p = q" using dn(2) pq by (simp add: inj_on_def)
  qed
  moreover have "view rp ` set ?xs = {q \<in> set (views rp c). q_claims q}" by (auto simp: views_def view_def)
  ultimately show ?thesis using dn by (simp add: claimants_ok_def distinct_map)
qed

lemma prev_ok_stored:
  assumes "pop_inv rp c"
  shows "prev_ok rp c (cl_claims c)"
  using assms by (auto simp: prev_ok_def pop_inv_def records_ok_def own_record_def dest: map_of_SomeD)

lemma prev_ok_adopted:
  assumes inv: "pop_inv rp c" and cs: "claimants_ok rp c cs" and s: "cl_status c = Some s" "rst_claims s = []"
    and p: "p \<in> set (ca_consumers cs)" and r: "adopt_legacy_claim s p job = Some r"
  shows "prev_ok rp c [(pc_name p, r)]"
proof -
  have uid: "cs_uid r = Some (pc_uid p)" using r by (auto simp: adopt_legacy_claim_def split: if_splits)
  have "\<not> is_legacy_populator_status s" using inv s(1) by (simp add: pop_inv_def records_ok_def)
  then have "rst_phase s \<notin> {Some RE_Restoring, Some RE_Completed, Some RE_Failed}"
    using s(2) by (auto simp: is_legacy_populator_status_def split: if_splits)
  then have "\<not> is_some_and claim_is_terminal (cs_phase r)"
    using r by (auto simp: adopt_legacy_claim_def legacy_claim_phase_def split: if_splits option.splits restore_phase.splits)
  moreover have "view rp p \<in> set (views rp c)" "q_claims (view rp p)" using cs p by (auto simp: claimants_ok_def)
  then have "q_name q = pc_name p" if "q \<in> set (views rp c)" "q_claims q" "q_uid q = pc_uid p" for q
    using inv that view_simps unfolding pop_inv_def pvcs_ok_def by metis
  ultimately show ?thesis using uid s by (auto simp: prev_ok_def cl_claims_def)
qed

definition adopted_ok :: "claimants \<Rightarrow> restore_status option \<Rightarrow> claims \<Rightarrow> bool" where
  "adopted_ok cs status a \<longleftrightarrow> a = [] \<or> (\<exists>s p job r. status = Some s \<and> rst_claims s = [] \<and>
     p \<in> set (ca_consumers cs) \<and> adopt_legacy_claim s p job = Some r \<and> a = [(pc_name p, r)])"

lemma legacy_claimant_mem: "legacy_claimant ps live = Some p \<Longrightarrow> p \<in> set ps"
proof -
  assume a: "legacy_claimant ps live = Some p"
  have "filter pvc_is_bound ps = [c] \<Longrightarrow> c \<in> set ps" for c by (metis filter_is_subset list.set_intros(1) subsetD)
  with a show ?thesis
    by (auto simp: legacy_claimant_def find_Some_iff split: option.splits list.splits)
qed

lemma returns_adopt: "returns (adopt_legacy_claims w rp cs status) (adopted_ok cs status)"
proof -
  have "adopted_ok cs (Some s) (case adopt_legacy_claim s p job of None \<Rightarrow> [] | Some r \<Rightarrow> [(pc_name p, r)])"
    if "rst_claims s = []" "legacy_claimant (ca_consumers cs) (ca_primes cs) = Some p" for s p job
    using that legacy_claimant_mem unfolding adopted_ok_def by (cases "adopt_legacy_claim s p job") auto
  moreover have "adopted_ok cs st []" for st by (simp add: adopted_ok_def)
  ultimately show ?thesis
    unfolding adopt_legacy_claims_def by (auto intro!: returns_ok returns_then split: option.split)
qed

end
