(* ===== verification/Populator_Claims.thy ===== *)
theory Populator_Claims
  imports Populator_Safety "HOL-Library.Code_Target_Numeral"
begin

text \<open>
  The end of a populator pass (the status patch and the finalizers behind it), the steps of the movers,
  the provisioner, the volume controller and the users, and with them the invariant over the whole
  machine.
\<close>

subsection \<open>The status patch\<close>

lemma apply_claims_mirror_claims: "rst_claims (apply_claims_mirror m prev gone s) = rst_claims s"
  by (cases m) (auto simp: apply_claims_mirror_def Let_def split: option.split claims_mirror.split)

lemma cl_claims_patch:
  "cl_claims (patch_fanout_status prev next' gone c) = merge_claims prev next' gone (cl_claims c)"
  by (cases "cl_status c")
    (simp_all add: patch_fanout_status_def patch_restore_status_def cl_claims_def fanout_status_def Let_def
      apply_claims_mirror_claims blank_status_def)

lemma map_of_map_snd: "map_of (map (\<lambda>(k, x). (k, f k x)) xs) k = map_option (f k) (map_of xs k)"
  by (induction xs) auto

lemma merge_claims_driven:
  assumes "distinct (map fst next')" and "(n, r) \<in> set next'"
  shows "map_of (merge_claims prev next' gone stored) n = Some (apply_claim_patch (claim_merge_body (map_of prev n) r) (map_of stored n))"
  using assms by (simp add: merge_claims_def map_add_def map_of_map_snd map_of_is_SomeI split: option.split)

lemma merge_claims_keys:
  assumes "distinct (map fst next')" and "distinct (map fst stored)"
  shows "distinct (map fst (merge_claims prev next' gone stored))"
proof -
  let ?f = "\<lambda>(claim, record). (claim, apply_claim_patch (claim_merge_body (map_of prev claim) record) (map_of stored claim))"
  have keys: "map fst (map ?f xs) = map fst xs" for xs by (induction xs) auto
  have "distinct (map fst (filter g stored))" for g using assms(2) by (simp add: distinct_map_filter)
  moreover have "set (map fst next') \<inter> set (map fst (filter (\<lambda>(claim, _). claim \<notin> fst ` set next' \<and> claim \<notin> set gone) stored)) = {}"
    by (auto simp: image_iff)
  ultimately show ?thesis
    using assms(1) unfolding merge_claims_def map_append distinct_append keys by blast
qed

lemma merge_claims_other:
  assumes "(n, r) \<in> set (merge_claims prev next' gone stored)" and "n \<notin> fst ` set next'"
  shows "(n, r) \<in> set stored"
  using assms by (auto simp: merge_claims_def rev_image_eqI)

text \<open>The stored record of a driven claim, after the patch.\<close>

lemma patched_record:
  assumes col: "collected rp prev rb ps acc" and p: "p \<in> set ps" "distinct (map pc_name ps)" and prev: "prev_ok rp c0 prev"
    and c: "cl_status c = cl_status c0"
  obtains oc r where "outcome_ok rp prev rb (view rp p) oc" "(pc_name p, co_record oc) \<in> set (fo_next acc)"
    "map_of (cl_claims (patch_fanout_status prev (fo_next acc) gone c)) (pc_name p) = Some r"
    "cs_uid r = cs_uid (co_record oc)" "cs_phase r = cs_phase (co_record oc)" "cs_reason r = cs_reason (co_record oc)"
proof -
  obtain oc where oc: "outcome_ok rp prev rb (view rp p) oc" "(pc_name p, co_record oc) \<in> set (fo_next acc)"
    using col p(1) by (auto simp: collected_def)
  have keys: "distinct (map fst (fo_next acc))" using col p(2) by (simp add: collected_def)
  have "map_of (cl_claims c) (pc_name p) = map_of prev (pc_name p) \<or> map_of (cl_claims c) (pc_name p) = None"
    using prev core_claims [OF c] by (cases "map_of prev (pc_name p)"; cases "map_of (cl_claims c0) (pc_name p)") (auto simp: prev_ok_def)
  note fields = claim_patch_controller_fields [OF this, of "co_record oc"]
  show thesis
    using that [OF oc] merge_claims_driven [OF keys oc(2)] fields by (simp add: cl_claims_patch)
qed

lemma terminal_prev_stored:
  assumes "prev_ok rp c0 prev" and "map_of prev n = Some r" and "is_some_and claim_is_terminal (cs_phase r)"
  shows "map_of (cl_claims c0) n = Some r"
  using assms by (auto simp: prev_ok_def)

lemma settled_record:
  assumes "claim_drive r x = CD_Settled"
  shows "\<exists>s. r = Some s \<and> is_some_and claim_is_terminal (cs_phase s)"
  using assms by (auto simp: claim_drive_def split: option.splits if_splits)

text \<open>What holds when the loop over the claims is through.\<close>

definition loop_done ::
    "restore_object \<Rightarrow> cluster \<Rightarrow> claims \<Rightarrow> (string \<rightharpoonup> string) \<Rightarrow> claimants \<Rightarrow> fanout \<Rightarrow> cluster \<Rightarrow> bool" where
  "loop_done rp c0 prev rb cs acc c \<longleftrightarrow> loop_inv rp c0 (pc_uid ` set (ca_consumers cs)) c \<and>
     collected rp prev rb (ca_consumers cs) acc \<and> rebound_ok rp c0 prev rb \<and> prev_ok rp c0 prev \<and>
     claimants_ok rp c0 cs \<and> ca_consumers cs \<noteq> [] \<and> pop_inv rp c0"

lemma loop_doneD:
  assumes "loop_done rp c0 prev rb cs acc c"
  shows "collected rp prev rb (ca_consumers cs) acc" "rebound_ok rp c0 prev rb" "prev_ok rp c0 prev"
    "cl_status c = cl_status c0" "cl_claims c = cl_claims c0" "distinct (map pc_name (ca_consumers cs))"
    "map fst (fo_next acc) = map pc_name (ca_consumers cs)" "pop_inv rp c"
    and "q \<in> set (views rp c) \<and> q_claims q \<longleftrightarrow> q \<in> set (views rp c0) \<and> q_claims q"
proof -
  have l: "loop_inv rp c0 (pc_uid ` set (ca_consumers cs)) c" using assms by (simp add: loop_done_def)
  then show st: "cl_status c = cl_status c0" and "pop_inv rp c" by (simp_all add: loop_inv_def)
  from st show "cl_claims c = cl_claims c0" by (rule core_claims)
  show "q \<in> set (views rp c) \<and> q_claims q \<longleftrightarrow> q \<in> set (views rp c0) \<and> q_claims q" using l by (rule loop_inv_claims)
qed (use assms in \<open>auto simp: loop_done_def collected_def claimants_ok_def\<close>)

lemma loop_done_consumer:
  assumes d: "loop_done rp c0 prev rb cs acc c" and q: "q \<in> set (views rp c)" "q_claims q"
  obtains p where "p \<in> set (ca_consumers cs)" "q = view rp p"
  using assms loop_doneD(9) [OF d, of q] unfolding loop_done_def claimants_ok_def by blast

lemma loop_done_same:
  assumes d: "loop_done rp c0 prev rb cs acc c" and q: "q \<in> set (views rp c)" "q_claims q"
    and p: "p \<in> set (ca_consumers cs)" "q_uid q = pc_uid p"
  shows "q = view rp p"
proof -
  have "q \<in> set (views rp c0)" using q loop_doneD(9) [OF d, of q] by simp
  moreover have "view rp p \<in> set (views rp c0)" "q_claims (view rp p)" "pvcs_ok (views rp c0)"
    using p(1) d by (auto simp: loop_done_def claimants_ok_def pop_inv_def)
  ultimately show ?thesis using q(2) p(2) view_simps(1) [of rp p] unfolding pvcs_ok_def by metis
qed

lemma patched_keys:
  assumes "loop_done rp c0 prev rb cs acc c"
  shows "distinct (map fst (cl_claims (patch_fanout_status prev (fo_next acc) gone c)))"
  using loop_doneD(6,7,8) [OF assms] by (simp add: cl_claims_patch merge_claims_keys pop_inv_def records_ok_def)

lemma patched_entry:
  assumes d: "loop_done rp c0 prev rb cs acc c" and r: "(n, r) \<in> set (cl_claims (patch_fanout_status prev (fo_next acc) gone c))"
  shows "(n, r) \<in> set (cl_claims c) \<and> n \<notin> pc_name ` set (ca_consumers cs) \<or>
    (\<exists>p \<in> set (ca_consumers cs). \<exists>oc. n = pc_name p \<and> outcome_ok rp prev rb (view rp p) oc \<and>
      cs_uid r = cs_uid (co_record oc) \<and> cs_phase r = cs_phase (co_record oc) \<and> cs_reason r = cs_reason (co_record oc))"
proof (cases "n \<in> fst ` set (fo_next acc)")
  case True
  then obtain p where p: "p \<in> set (ca_consumers cs)" "n = pc_name p" using loop_doneD(7) [OF d] by (metis imageE list.set_map)
  obtain oc r' where oc: "outcome_ok rp prev rb (view rp p) oc"
      "map_of (cl_claims (patch_fanout_status prev (fo_next acc) gone c)) (pc_name p) = Some r'"
      "cs_uid r' = cs_uid (co_record oc)" "cs_phase r' = cs_phase (co_record oc)" "cs_reason r' = cs_reason (co_record oc)"
    using patched_record [OF loop_doneD(1) [OF d] p(1) loop_doneD(6,3,4) [OF d], of gone] by metis
  have "r' = r" using patched_keys [OF d, of gone] r oc(2) p(2) by (simp add: map_of_is_SomeI)
  with oc p show ?thesis by blast
next
  case False
  then have "(n, r) \<in> set (cl_claims c)" using r by (auto simp: cl_claims_patch dest: merge_claims_other)
  moreover have "n \<notin> pc_name ` set (ca_consumers cs)" using False loop_doneD(7) [OF d] by (metis list.set_map)
  ultimately show ?thesis by blast
qed

lemma own_record_patch:
  assumes d: "loop_done rp c0 prev rb cs acc c" and q: "q \<in> set (views rp c)" "q_claims q"
  shows "own_record (patch_fanout_status prev (fo_next acc) gone c) q"
  unfolding own_record_def
proof (intro allI impI)
  fix n r assume r: "(n, r) \<in> set (cl_claims (patch_fanout_status prev (fo_next acc) gone c))" "cs_uid r = Some (q_uid q)"
  from patched_entry [OF d r(1)] show "n = q_name q"
  proof (elim disjE bexE exE conjE)
    assume "(n, r) \<in> set (cl_claims c)"
    then show ?thesis using loop_doneD(8) [OF d] q r(2) by (simp add: pop_inv_def records_ok_def own_record_def)
  next
    fix p oc assume p: "p \<in> set (ca_consumers cs)" "n = pc_name p" and oc: "outcome_ok rp prev rb (view rp p) oc" "cs_uid r = cs_uid (co_record oc)"
    show ?thesis
    proof (cases "claim_drive (map_of prev (pc_name p)) (pc_uid p) = CD_Settled")
      case True
      then have "map_of prev n = Some (co_record oc)" using oc(1) p(2) by (simp add: outcome_ok_def)
      moreover have "q \<in> set (views rp c0)" using q loop_doneD(9) [OF d, of q] by simp
      ultimately show ?thesis using loop_doneD(3) [OF d] q(2) r(2) oc(2) by (simp add: prev_ok_def)
    next
      case False
      then have "q_uid q = pc_uid p" using oc r(2) by (simp add: outcome_ok_def)
      then show ?thesis using loop_done_same [OF d q p(1)] p(2) by simp
    qed
  qed
qed

lemma not_relabelled_patch:
  assumes d: "loop_done rp c0 prev rb cs acc c" and q: "q \<in> set (views rp c)" "q_claims q"
  shows "not_relabelled (patch_fanout_status prev (fo_next acc) gone c) q" (is "not_relabelled ?d q")
  unfolding not_relabelled_def
proof (intro allI impI)
  fix n r assume r: "(n, r) \<in> set (cl_claims ?d)" "cs_uid r = Some (q_uid q)" "cs_phase r = Some RC_AlreadyBound"
  have rebinds: "cl_rebinds ?d = cl_rebinds c" by (simp add: patch_fanout_status_def)
  have stored: "not_relabelled c q" using loop_doneD(8) [OF d] q by (simp add: pop_inv_def records_ok_def)
  obtain p where p: "p \<in> set (ca_consumers cs)" "q = view rp p" using loop_done_consumer [OF d q] .
  have "n = pc_name p" using own_record_patch [OF d q, of gone] r p(2) by (simp add: own_record_def)
  with patched_entry [OF d r(1)] obtain p' oc where oc: "p' \<in> set (ca_consumers cs)" "pc_name p' = pc_name p"
      "outcome_ok rp prev rb (view rp p') oc" "cs_uid r = cs_uid (co_record oc)" "cs_phase r = cs_phase (co_record oc)"
    using p(1) by auto
  then have p': "view rp p' = q" using p loop_doneD(6) [OF d] by (metis distinct_map inj_onD)
  show "is_some_and (\<lambda>v. (q_uid q, v) \<notin> set (cl_rebinds ?d)) (q_volume q)"
  proof (cases "claim_drive (map_of prev (q_name q)) (q_uid q) = CD_Settled")
    case True
    then have m: "map_of prev (q_name q) = Some (co_record oc)" using oc(3) p' by (simp add: outcome_ok_def)
    then have "map_of (cl_claims c) (q_name q) = Some (co_record oc)"
      using terminal_prev_stored [OF loop_doneD(3) [OF d] m] oc(5) [symmetric] r(3) loop_doneD(5) [OF d] by simp
    then show ?thesis
      using stored r oc(4,5) unfolding not_relabelled_def rebinds by (metis map_of_SomeD)
  next
    case False
    then have drive: "claim_drive (map_of prev (q_name q)) (q_uid q) = CD_Drive" and b: "q_volume q \<noteq> None \<or> q_bound q"
      and none: "is_none_or (\<lambda>v. q_volume q \<noteq> Some v) (rb (q_uid q))"
      using oc(3,5) r(3) p' by (simp_all add: outcome_ok_def)
    have "q_volume q \<noteq> None" using b q loop_doneD(8) [OF d] by (auto simp: pop_inv_def pvcs_ok_def)
    then obtain v where v: "q_volume q = Some v" by auto
    have q0: "q \<in> set (views rp c0)" using q loop_doneD(9) [OF d, of q] by simp
    have "(q_uid q, v) \<notin> set (cl_rebinds c)"
    proof
      assume "(q_uid q, v) \<in> set (cl_rebinds c)"
      moreover have "q' = q" if "q' \<in> set (views rp c0)" "q_claims q'" "q_uid q' = q_uid q" for q'
        using d that q0 q(2) unfolding loop_done_def pop_inv_def pvcs_ok_def by metis
      ultimately have "(q_uid q, v) \<in> set (cl_rebinds c0)"
        using d v unfolding loop_done_def loop_inv_def by (metis option.distinct(1))
      then have "rb (q_uid q) = Some v" using rebound_ok_complete [OF loop_doneD(2) [OF d] q0 q(2) drive] v by simp
      with none v show False by simp
    qed
    with v show ?thesis by (simp add: rebinds)
  qed
qed

lemma populated_patch:
  assumes d: "loop_done rp c0 prev rb cs acc c" and p: "p \<in> set (ca_consumers cs)"
    and oc: "outcome_ok rp prev rb (view rp p) oc" "(pc_name p, co_record oc) \<in> set (fo_next acc)"
    and r: "cs_uid (co_record oc) = Some (pc_uid p)" "cs_phase (co_record oc) = Some RC_Populated"
  shows "populated_on_record (patch_fanout_status prev (fo_next acc) gone c) (pc_name p) (pc_uid p)"
proof -
  obtain oc' :: claim_outcome and r' where oc': "(pc_name p, co_record oc') \<in> set (fo_next acc)"
    "map_of (cl_claims (patch_fanout_status prev (fo_next acc) gone c)) (pc_name p) = Some r'"
    "cs_uid r' = cs_uid (co_record oc')" "cs_phase r' = cs_phase (co_record oc')"
    by (rule patched_record [OF loop_doneD(1) [OF d] p loop_doneD(6,3,4) [OF d], of gone]) blast
  have "distinct (map fst (fo_next acc))" using loop_doneD(6,7) [OF d] by simp
  then have "co_record oc' = co_record oc" using oc(2) oc'(1) by (metis eq_key_imp_eq_value)
  with oc' r show ?thesis by (simp add: populated_on_record_def)
qed

lemma handed_ok_patch:
  assumes d: "loop_done rp c0 prev rb cs acc c" and q: "q \<in> set (views rp c)" "q_claims q"
  shows "handed_ok rp (patch_fanout_status prev (fo_next acc) gone c) q" (is "handed_ok rp ?d q")
proof -
  have same: "cl_rebinds ?d = cl_rebinds c" "annotated rp ?d x v = annotated rp c x v" for x v
    by (simp_all add: patch_fanout_status_def annotated_def find_volume_def)
  have "populated_on_record ?d (q_name q) (q_uid q)" if pr: "populated_on_record c (q_name q) (q_uid q)"
  proof -
    obtain p where p: "p \<in> set (ca_consumers cs)" "q = view rp p" using loop_done_consumer [OF d q] .
    obtain r where r: "map_of (cl_claims c0) (q_name q) = Some r" "cs_uid r = Some (q_uid q)" "cs_phase r = Some RC_Populated"
      using pr loop_doneD(5) [OF d] by (auto simp: populated_on_record_def is_some_and_iff)
    then have "map_of prev (q_name q) = Some r" using loop_doneD(3) [OF d] by (simp add: prev_ok_def)
    moreover have "claim_drive (map_of prev (q_name q)) (q_uid q) = CD_Settled"
      using r calculation by (simp add: claim_drive_def)
    moreover obtain oc where oc: "outcome_ok rp prev rb (view rp p) oc" "(pc_name p, co_record oc) \<in> set (fo_next acc)"
      using loop_doneD(1) [OF d] p(1) by (auto simp: collected_def)
    ultimately have "co_record oc = r" using p(2) by (simp add: outcome_ok_def)
    then show ?thesis using populated_patch [OF d p(1) oc, of gone] r p(2) by simp
  qed
  then show ?thesis
    using loop_doneD(8) [OF d] q unfolding pop_inv_def records_ok_def handed_ok_def same by blast
qed

lemma pop_inv_patch:
  assumes d: "loop_done rp c0 prev rb cs acc c"
  shows "pop_inv rp (patch_fanout_status prev (fo_next acc) gone c)" (is "pop_inv rp ?d")
proof -
  have views: "views rp ?d = views rp c" by (simp add: patch_fanout_status_def)
  have inv: "pvcs_ok (views rp c)" "rebinds_ok rp c" "records_ok rp c" using loop_doneD(8) [OF d] by (simp_all add: pop_inv_def)
  have same: "annotated rp ?d x v = annotated rp c x v" "find_volume v ?d = find_volume v c" "cl_volumes ?d = cl_volumes c"
      "cl_rebinds ?d = cl_rebinds c" for x v
    by (simp_all add: patch_fanout_status_def annotated_def find_volume_def)
  have "set (cl_recorded c) \<subseteq> set (cl_recorded ?d)" by (simp add: patch_fanout_status_def)
  then have "rebind_ok rp c x v \<Longrightarrow> rebind_ok rp ?d x v" for x v unfolding rebind_ok_def views same by blast
  then have "rebinds_ok rp ?d" using inv(2) unfolding rebinds_ok_def same by blast
  moreover have "cl_claims ?d \<noteq> []"
  proof -
    have "fo_next acc \<noteq> []" using d loop_doneD(7) [OF d] by (auto simp: loop_done_def)
    then show ?thesis by (simp add: cl_claims_patch merge_claims_def)
  qed
  then have "is_none_or (\<lambda>s. \<not> is_legacy_populator_status s) (cl_status ?d)"
    by (cases "cl_status ?d") (simp_all add: cl_claims_def is_legacy_populator_status_def)
  ultimately show ?thesis
    using inv(1) patched_keys [OF d] own_record_patch [OF d] not_relabelled_patch [OF d] handed_ok_patch [OF d]
    unfolding pop_inv_def records_ok_def views by simp
qed

subsection \<open>The finalizers\<close>

definition fin_ready :: "restore_object \<Rightarrow> cluster \<Rightarrow> post_patch_finalize \<Rightarrow> bool" where
  "fin_ready rp c f \<longleftrightarrow> (\<exists>x. (x, pf_pv f) \<in> set (cl_rebinds c) \<and> x \<in> set (cl_recorded c) \<and>
     (\<forall>q \<in> set (views rp c). q_claims q \<longrightarrow> q_uid q = x \<longrightarrow> populated_on_record c (q_name q) x))"

definition fins_inv :: "restore_object \<Rightarrow> post_patch_finalize list \<Rightarrow> cluster \<Rightarrow> bool" where
  "fins_inv rp fs c \<longleftrightarrow> pop_inv rp c \<and> (\<forall>f \<in> set fs. fin_ready rp c f)"

lemma fin_ready_fields:
  assumes "views rp d = views rp c" "cl_rebinds d = cl_rebinds c" "cl_recorded d = cl_recorded c" "cl_status d = cl_status c"
  shows "fin_ready rp d f = fin_ready rp c f"
  using assms core_claims [OF assms(4)] by (simp add: fin_ready_def populated_on_record_def)

lemma fins_inv_core: "same_core rp c d \<Longrightarrow> fins_inv rp fs c \<Longrightarrow> fins_inv rp fs d"
  using pop_inv_core [of rp c d] fin_ready_fields [of rp d c] by (simp add: fins_inv_def same_core_def)

lemma fins_inv_settle:
  assumes i: "fins_inv rp fs c" and f: "f \<in> set fs" and v: "find_volume (pf_pv f) c = Some vl"
  shows "fins_inv rp fs (set_volume (pf_pv f) (settled_vol vl t) c)" (is "fins_inv rp fs ?d")
proof -
  obtain x where x: "(x, pf_pv f) \<in> set (cl_rebinds c)" "x \<in> set (cl_recorded c)"
    "\<And>q. q \<in> set (views rp c) \<Longrightarrow> q_claims q \<Longrightarrow> q_uid q = x \<Longrightarrow> populated_on_record c (q_name q) x"
    using i f by (auto simp: fins_inv_def fin_ready_def)
  have "pop_inv rp ?d" using i x by (intro pop_inv_settle [OF _ v x(1)]) (auto simp: fins_inv_def)
  moreover have "fin_ready rp ?d g = fin_ready rp c g" for g by (rule fin_ready_fields) simp_all
  ultimately show ?thesis using i by (simp add: fins_inv_def)
qed

lemma triple_finalizers:
  "triple (fins_inv rp fs) (run_deferred_finalizers w fs) (\<lambda>_. fins_inv rp fs) (pop_inv rp)"
proof -
  have drop: "fins_inv rp fs c \<Longrightarrow> pop_inv rp c" for c by (simp add: fins_inv_def)
  have one: "triple (fins_inv rp fs) (settle_volume w (pf_pv f) None) (\<lambda>_. fins_inv rp fs) (pop_inv rp)" if "f \<in> set fs" for f
    unfolding settle_volume_def
  proof (rule triple_bind)
    show "triple (fins_inv rp fs) (io_read (pw_ok w (FinalizeGetVolume (pf_pv f))) (find_volume (pf_pv f)))
        (\<lambda>pv c. fins_inv rp fs c \<and> find_volume (pf_pv f) c = pv) (pop_inv rp)"
      by (auto intro: triple_read drop)
    fix pv
    show "triple (\<lambda>c. fins_inv rp fs c \<and> find_volume (pf_pv f) c = pv) (case pv of None \<Rightarrow> io_ok () | Some v \<Rightarrow>
        case or_else None (vl_original v) of None \<Rightarrow> io_ok () | Some target \<Rightarrow> io_write (pw_ok w (FinalizePatchVolume (pf_pv f)))
          (set_volume (pf_pv f) (v\<lparr>vl_policy := Some target, vl_original := None\<rparr>)))
        (\<lambda>_. fins_inv rp fs) (pop_inv rp)"
      using fins_inv_settle [OF _ that]
      by (cases pv) (auto intro!: triple_ok triple_write intro: drop simp: settled_vol_def split: option.split)
  qed
  have rest: "triple (fins_inv rp fs) (io_seq (io_attempt a (delete_job j)) (io_attempt b (delete_pvc n)))
      (\<lambda>_. fins_inv rp fs) (pop_inv rp)" for a b j n
    by (rule triple_weaken [OF triple_core [where P = "fins_inv rp fs" and rp = rp]])
      (auto intro!: core_rules intro: fins_inv_core drop)
  have body: "triple (fins_inv rp fs) (finalize_populator w j n (PA_RestoreOriginalPolicy (pf_pv f))) (\<lambda>_. fins_inv rp fs) (pop_inv rp)"
    if "f \<in> set fs" for f j n
    unfolding finalize_populator_def prime_pv_action.case by (rule triple_seq [OF one [OF that] rest])
  show ?thesis
    unfolding run_deferred_finalizers_def by (rule triple_each, rule body) simp
qed

lemma fins_ready_patch:
  assumes d: "loop_done rp c0 prev rb cs acc c"
  shows "fins_inv rp (fo_finalizers acc) (patch_fanout_status prev (fo_next acc) gone c)" (is "fins_inv rp _ ?d")
proof -
  have "fin_ready rp ?d f" if f: "f \<in> set (fo_finalizers acc)" for f
  proof -
    obtain p oc where p: "p \<in> set (ca_consumers cs)" and oc: "outcome_ok rp prev rb (view rp p) oc" "co_after_patch oc = Some f"
        "(pc_name p, co_record oc) \<in> set (fo_next acc)"
      using loop_doneD(1) [OF d] f unfolding collected_def by blast
    have "claim_drive (map_of prev (pc_name p)) (pc_uid p) \<noteq> CD_Settled"
      using oc(1,2) by (auto simp: outcome_ok_def)
    then have r: "cs_uid (co_record oc) = Some (pc_uid p)" "cs_phase (co_record oc) = Some RC_Populated" "rb (pc_uid p) = Some (pf_pv f)"
      using oc(1,2) by (simp_all add: outcome_ok_def)
    have "(pc_uid p, pf_pv f) \<in> set (cl_rebinds c)"
      using d r(3) by (auto simp: loop_done_def rebound_ok_def loop_inv_def)
    moreover have "pc_uid p \<in> set (populated_uids (fo_next acc))"
      using oc(3) r unfolding populated_uids_def by (force simp: set_filter_map)
    moreover have "populated_on_record ?d (q_name q) (pc_uid p)" if "q \<in> set (views rp c)" "q_claims q" "q_uid q = pc_uid p" for q
      using loop_done_same [OF d that(1,2) p that(3)] populated_patch [OF d p oc(1,3) r(1,2)] by simp
    ultimately show ?thesis unfolding fin_ready_def by (auto simp: patch_fanout_status_def)
  qed
  then show ?thesis using pop_inv_patch [OF d] by (simp add: fins_inv_def)
qed

subsection \<open>The pass\<close>

lemma triple_state: "(\<And>c0. P c0 \<Longrightarrow> triple (\<lambda>c. c = c0) m Q E) \<Longrightarrow> triple P m Q E"
  by (simp add: triple_def)

definition pass_ready :: "restore_object \<Rightarrow> claims \<Rightarrow> claimants \<Rightarrow> cluster \<Rightarrow> bool" where
  "pass_ready rp prev cs c \<longleftrightarrow> pop_inv rp c \<and> prev_ok rp c prev \<and> claimants_ok rp c cs"

lemma pass_ready_core: "same_core rp c d \<Longrightarrow> pass_ready rp prev cs c \<Longrightarrow> pass_ready rp prev cs d"
  using pop_inv_core [of rp c d] core_claims [of d c]
  by (simp add: pass_ready_def prev_ok_def claimants_ok_def same_core_def)

lemma plans_eq:
  "zip (map (\<lambda>p. (pc_name p, pc_uid p)) ps) (map (\<lambda>(claim, uid). claim_drive (map_of prev claim) uid) (map (\<lambda>p. (pc_name p, pc_uid p)) ps)) =
     map (plan_of prev) ps"
  by (induction ps) (simp_all add: plan_of_def)

lemma triple_list:
  assumes "quiet \<Longrightarrow> list_all (\<lambda>p. claim_drive (map_of prev (pc_name p)) (pc_uid p) = CD_Settled) (ca_consumers cs)"
  shows "triple (pass_ready rp prev cs) (if quiet then io_ok Map.empty else our_rebound_pvs w (rp_namespace rp))
    (\<lambda>rb c. pass_ready rp prev cs c \<and> rebound_ok rp c prev rb) (pop_inv rp)"
  unfolding our_rebound_pvs_def index_rebound_def [symmetric]
  by (intro triple_if triple_ok triple_read) (auto simp: pass_ready_def intro: rebound_ok_listed rebound_ok_quiet dest: assms)

lemma triple_loop_done:
  assumes cs: "ca_consumers cs \<noteq> []"
  shows "triple (\<lambda>c. pass_ready rp prev cs c \<and> rebound_ok rp c prev rb)
    (io_each (fanout_claim w rp cs prev rb) (map (plan_of prev) (ca_consumers cs))
      \<lparr>fo_next = [], fo_events = [], fo_finalizers = [], fo_requeue = 600\<rparr>)
    (\<lambda>acc c. \<exists>c0. loop_done rp c0 prev rb cs acc c) (pop_inv rp)"
proof (rule triple_state)
  fix c0 assume "pass_ready rp prev cs c0 \<and> rebound_ok rp c0 prev rb"
  then have ok: "rebound_ok rp c0 prev rb" "prev_ok rp c0 prev" "pop_inv rp c0" "claimants_ok rp c0 cs" by (simp_all add: pass_ready_def)
  show "triple (\<lambda>c. c = c0) (io_each (fanout_claim w rp cs prev rb) (map (plan_of prev) (ca_consumers cs))
      \<lparr>fo_next = [], fo_events = [], fo_finalizers = [], fo_requeue = 600\<rparr>) (\<lambda>acc c. \<exists>c0. loop_done rp c0 prev rb cs acc c) (pop_inv rp)"
    by (rule triple_weaken [OF triple_loop [OF ok]]) (use ok cs in \<open>auto simp: loop_done_def intro: loop_inv_start\<close>)
qed

lemma triple_drive_claims:
  assumes cs: "ca_consumers cs \<noteq> []"
  shows "triple (pass_ready rp prev cs) (drive_claims w rp cs prev) (\<lambda>_. pop_inv rp) (pop_inv rp)"
proof -
  have drop: "pass_ready rp prev cs c \<Longrightarrow> pop_inv rp c" for c by (simp add: pass_ready_def)
  have gone: "triple (pass_ready rp prev cs) (reap_gone_claims w rp prev live) (\<lambda>_. pass_ready rp prev cs) (pop_inv rp)" for live
    by (rule triple_weaken [OF triple_core [OF core_reap_gone, where P = "pass_ready rp prev cs" and rp = rp]])
      (auto intro: pass_ready_core drop)
  have patch: "triple (\<lambda>c. \<exists>c0. loop_done rp c0 prev rb cs acc c) (io_write ok (patch_fanout_status prev (fo_next acc) gone))
      (\<lambda>_. fins_inv rp (fo_finalizers acc)) (pop_inv rp)" for rb acc ok gone
    by (rule triple_write) (auto intro: fins_ready_patch loop_doneD(8))
  have fins: "triple (fins_inv rp fs) (io_seq (run_deferred_finalizers w fs) (io_ok n)) (\<lambda>_. pop_inv rp) (pop_inv rp)" for fs and n :: nat
    by (rule triple_seq [OF triple_finalizers]) (auto intro: triple_ok simp: fins_inv_def)
  show ?thesis
    unfolding drive_claims_def Let_def plans_eq
    by (rule triple_bind [OF gone], rule triple_bind [OF triple_list], (auto simp: pass_is_all_quiet_def list_all_iff)[1],
        rule triple_bind [OF triple_loop_done [OF cs]], rule triple_seq [OF patch fins])
qed

lemma returns_reap_gone: "returns (reap_gone_claims w rp prev []) (\<lambda>gone. gone = map fst prev)"
proof -
  let ?body = "\<lambda>(claim, record) gone. if claim \<in> set [] then io_ok gone else
      io_seq (case cs_uid record of Some uid \<Rightarrow> reap_claim_artifacts w rp uid (cs_reason record) None | None \<Rightarrow> io_ok ())
        (io_ok (gone @ [claim]))"
  have "returns (io_each ?body prev g) (\<lambda>gone. gone = g @ map fst prev)" for g
  proof (induction prev arbitrary: g)
    case (Cons a prev)
    have "returns (?body a g) (\<lambda>x. x = g @ [fst a])" by (cases a) (auto intro!: returns_seq returns_ok)
    then show ?case unfolding io_each.simps
      by (rule returns_bind) (use Cons.IH [of "g @ [fst a]"] in simp)
  qed (simp add: returns_ok)
  from this [of "[]"] show ?thesis unfolding reap_gone_claims_def by simp
qed

lemma pop_inv_park:
  assumes inv: "pop_inv rp c" and none: "\<And>q. q \<in> set (views rp c) \<Longrightarrow> \<not> q_claims q"
  shows "pop_inv rp (patch_restore_status (awaiting_claim_status (map fst (cl_claims c))) c)" (is "pop_inv rp ?d")
proof -
  have "\<not> is_legacy_populator_status s" if "cl_status c = Some s" for s using inv that by (simp add: pop_inv_def records_ok_def)
  then have "is_none_or (\<lambda>s. \<not> is_legacy_populator_status s) (cl_status ?d)"
    by (cases "cl_status c") (auto simp: patch_restore_status_def awaiting_claim_status_def Let_def is_legacy_populator_status_def
        blank_status_def cl_claims_def split: if_splits)
  moreover have "cl_claims ?d = []"
    by (cases "cl_status c") (auto simp: patch_restore_status_def awaiting_claim_status_def Let_def blank_status_def cl_claims_def
        filter_empty_conv rev_image_eqI)
  moreover have "annotated rp ?d x v = annotated rp c x v" "find_volume v ?d = find_volume v c" for x v
    by (simp_all add: annotated_def find_volume_def)
  ultimately show ?thesis
    using inv none unfolding pop_inv_def records_ok_def rebinds_ok_def rebind_ok_def by simp
qed

lemma triple_fanout:
  "triple (\<lambda>c. pop_inv rp c \<and> cl_status c = status \<and> claimants_ok rp c cs)
     (drive_populator_fanout w rp status cs) (\<lambda>_. pop_inv rp) (pop_inv rp)"
proof -
  let ?P = "\<lambda>c. pop_inv rp c \<and> cl_status c = status \<and> claimants_ok rp c cs"
  let ?prev = "case status of None \<Rightarrow> [] | Some s \<Rightarrow> rst_claims s"
  have prev: "cl_status c = status \<Longrightarrow> cl_claims c = ?prev" for c by (simp add: cl_claims_def)
  have stable: "?P d" if "same_core rp c d" "?P c" for c d
    using pop_inv_core [OF that(1)] that unfolding same_core_def claimants_ok_def by simp
  have keep: "triple ?P m (\<lambda>_. ?P) (pop_inv rp)" if "within (same_core rp) m" for m :: "'x pass"
    by (rule triple_weaken [OF triple_core [OF that, where P = ?P]]) (erule stable, auto)
  show ?thesis
  proof (cases "ca_consumers cs = []")
    case True
    have park: "pop_inv rp (patch_restore_status (awaiting_claim_status gone) c)" if "?P c \<and> gone = map fst ?prev" for gone c
    proof -
      have "q \<in> set (views rp c) \<Longrightarrow> \<not> q_claims q" for q using that True by (simp add: claimants_ok_def)
      then show ?thesis using pop_inv_park [of rp c] that prev [of c] by simp
    qed
    have "triple (\<lambda>c. ?P c \<and> gone = map fst ?prev) (io_seq (io_write ok (patch_restore_status (awaiting_claim_status gone))) (io_ok 30))
        (\<lambda>_. pop_inv rp) (pop_inv rp)" for gone ok
      by (rule triple_seq [where R = "pop_inv rp"], rule triple_write, erule park) (auto intro: triple_ok)
    with True show ?thesis
      unfolding drive_populator_fanout_def park_unclaimed_populator_def Let_def
      by (auto intro!: triple_bind [OF triple_returns [OF keep [OF core_reap_gone] returns_reap_gone]])
  next
    case False
    have adopt: "within (same_core rp) (adopt_legacy_claims w rp cs status)"
      unfolding adopt_legacy_claims_def by (auto intro!: core_rules split: option.split)
    have "triple (\<lambda>c. ?P c \<and> adopted_ok cs status a) (drive_claims w rp cs (if a = [] then ?prev else a)) (\<lambda>_. pop_inv rp) (pop_inv rp)" for a
    proof (rule triple_weaken [OF triple_drive_claims [OF False]])
      fix c assume c: "?P c \<and> adopted_ok cs status a"
      then have "prev_ok rp c (if a = [] then ?prev else a)"
        using prev_ok_stored [of rp c] prev_ok_adopted [of rp c cs] prev [of c] unfolding adopted_ok_def by auto
      with c show "pass_ready rp (if a = [] then ?prev else a) cs c" by (simp add: pass_ready_def)
    qed
    with False show ?thesis
      unfolding drive_populator_fanout_def Let_def
      by (simp add: triple_bind [OF triple_returns [OF keep [OF adopt] returns_adopt]])
  qed
qed

lemma pop_inv_pass:
  assumes "pop_inv rp c" and "populator_pass w rp c = (reply, d)"
  shows "pop_inv rp d"
proof -
  have "triple (pop_inv rp) (populator_pass w rp) (\<lambda>_. pop_inv rp) (pop_inv rp)"
    unfolding populator_pass_def claiming_pvcs_def
  proof (rule triple_bind)
    show "triple (pop_inv rp) (io_read True cl_status) (\<lambda>s c. pop_inv rp c \<and> cl_status c = s) (pop_inv rp)"
      by (rule triple_read) auto
    fix s
    let ?cs = "\<lambda>items. \<lparr>ca_consumers = sort_key pc_name (filter (pvc_claims_restore (rp_name rp)) items),
       ca_primes = map pc_name (filter (\<lambda>p. \<not> pvc_claims_restore (rp_name rp) p \<and> owned_prime (rp_uid rp) p) items)\<rparr>"
    have list: "triple (\<lambda>c. pop_inv rp c \<and> cl_status c = s) (io_bind (io_read ok cl_pvcs) (\<lambda>items. io_ok (?cs items)))
       (\<lambda>cs c. pop_inv rp c \<and> cl_status c = s \<and> claimants_ok rp c cs) (pop_inv rp)" for ok
      by (rule triple_bind [where R = "\<lambda>items c. (pop_inv rp c \<and> cl_status c = s) \<and> cl_pvcs c = items"])
        (auto intro!: triple_read triple_ok simp: claimants_ok_listed)
    show "triple (\<lambda>c. pop_inv rp c \<and> cl_status c = s)
       (io_bind (io_bind (io_read (pw_ok w ListPvcs) cl_pvcs) (\<lambda>items. io_ok (?cs items))) (drive_populator_fanout w rp s))
       (\<lambda>_. pop_inv rp) (pop_inv rp)"
      by (rule triple_bind [OF list]) (rule triple_fanout)
  qed
  from triple_run [OF this assms] show ?thesis by (cases reply) simp_all
qed

subsection \<open>The steps around the pass\<close>

lemma pop_inv_mover:
  assumes "pop_inv rp c"
  shows "pop_inv rp (patch_restore_status (mover_patch n (mover_fields res obs tail fail)) c)" (is "pop_inv rp ?d")
proof -
  let ?f = "mover_fields res obs tail fail"
  have f: "cs_uid (?f r) = cs_uid r" "cs_phase (?f r) = cs_phase r" for r by (simp_all add: mover_fields_def)
  have claims: "cl_claims ?d = (if n \<in> fst ` set (cl_claims c) then map (\<lambda>(m, r). (m, if m = n then ?f r else r)) (cl_claims c)
      else cl_claims c @ [(n, ?f no_claim_status)])"
    by (cases "cl_status c") (simp_all add: cl_claims_def patch_restore_status_def mover_patch_def blank_status_def)
  have orig: "\<exists>s. (m, s) \<in> set (cl_claims c) \<and> cs_uid s = cs_uid r \<and> cs_phase s = cs_phase r"
    if "(m, r) \<in> set (cl_claims ?d)" "cs_uid r = Some x" for m r x
    using that unfolding claims by (fastforce simp: f no_claim_status_def split: if_splits)
  have keys: "distinct (map fst (cl_claims ?d))"
  proof -
    have "map fst (map (\<lambda>(m, r). (m, if m = n then ?f r else r)) xs) = map fst xs" for xs by (induction xs) auto
    note k = this
    have "distinct (map fst (cl_claims c))" using assms by (simp add: pop_inv_def records_ok_def)
    then show ?thesis unfolding claims by (cases "n \<in> fst ` set (cl_claims c)") (simp_all only: k if_True if_False, simp)
  qed
  have pop: "populated_on_record ?d m x = populated_on_record c m x" for m x
  proof -
    have mm: "map_of (map (\<lambda>(m, r). (m, if m = n then ?f r else r)) xs) m = (if m = n then map_option ?f (map_of xs n) else map_of xs m)" for xs
      by (induction xs) auto
    have "map_of (cl_claims ?d) m = (if m = n then Some (?f (unwrap_or (map_of (cl_claims c) n) no_claim_status)) else map_of (cl_claims c) m)"
    proof (cases "map_of (cl_claims c) n")
      case None
      then have "n \<notin> fst ` set (cl_claims c)" by (simp add: map_of_eq_None_iff)
      with None show ?thesis unfolding claims by (simp add: map_add_def split: option.split)
    next
      case (Some r)
      then have "n \<in> fst ` set (cl_claims c)" by (metis map_of_eq_None_iff option.distinct(1))
      with Some show ?thesis unfolding claims by (simp add: mm)
    qed
    then show ?thesis
      unfolding populated_on_record_def by (cases "map_of (cl_claims c) n") (simp_all add: f no_claim_status_def)
  qed
  have "cl_claims ?d \<noteq> []" unfolding claims by auto
  then have "is_none_or (\<lambda>s. \<not> is_legacy_populator_status s) (cl_status ?d)"
    by (cases "cl_status ?d") (simp_all add: cl_claims_def is_legacy_populator_status_def)
  moreover have "annotated rp ?d x v = annotated rp c x v" "find_volume v ?d = find_volume v c" for x v
    by (simp_all add: annotated_def find_volume_def)
  moreover have "own_record c q \<Longrightarrow> own_record ?d q" for q unfolding own_record_def by (metis orig)
  moreover have "not_relabelled c q \<Longrightarrow> not_relabelled ?d q" for q
    unfolding not_relabelled_def cluster_fields by (metis orig)
  ultimately show ?thesis
    using assms keys unfolding pop_inv_def rebinds_ok_def rebind_ok_def records_ok_def handed_ok_def pop by simp
qed

text \<open>A PVC that gets a volume.\<close>

definition give :: "string \<Rightarrow> string \<Rightarrow> pvc_view \<Rightarrow> pvc_view" where
  "give n v q = (if q_name q = n then q\<lparr>q_volume := Some v, q_bound := True\<rparr> else q)"

lemma give_simps [simp]:
  "q_name (give n v q) = q_name q" "q_uid (give n v q) = q_uid q" "q_claims (give n v q) = q_claims q"
  "q_name q \<noteq> n \<Longrightarrow> give n v q = q" "q_name q = n \<Longrightarrow> q_volume (give n v q) = Some v"
  by (simp_all add: give_def)

lemma views_give:
  "v \<noteq> [] \<Longrightarrow> views rp (update_pvc n (\<lambda>p. p\<lparr>pc_volume := Some v, pc_status_bound := True\<rparr>) c) = map (give n v) (views rp c)"
  by (simp add: views_def update_pvc_def view_def give_def non_empty_def pvc_claims_restore_def)

lemma pvcs_okI:
  assumes "distinct (map q_name qs)"
    and "\<And>p q. p \<in> set qs \<Longrightarrow> q \<in> set qs \<Longrightarrow> q_claims p \<Longrightarrow> q_claims q \<Longrightarrow> q_uid p = q_uid q \<Longrightarrow> p = q"
    and "\<And>q. q \<in> set qs \<Longrightarrow> q_claims q \<Longrightarrow> q_name q \<notin> range prime_pvc_name"
    and "\<And>p q. p \<in> set qs \<Longrightarrow> q \<in> set qs \<Longrightarrow> \<not> q_claims p \<Longrightarrow> \<not> q_claims q \<Longrightarrow> q_volume p \<noteq> None \<Longrightarrow>
      q_volume p = q_volume q \<Longrightarrow> p = q"
    and "\<And>q. q \<in> set qs \<Longrightarrow> q_claims q \<Longrightarrow> q_bound q \<Longrightarrow> q_volume q \<noteq> None"
  shows "pvcs_ok qs"
  unfolding pvcs_ok_def using assms by (intro conjI ballI impI; (elim conjE)?) simp_all

lemma pvcs_ok_give:
  assumes "pvcs_ok qs" and fresh: "(\<forall>q \<in> set qs. q_name q = n \<longrightarrow> q_claims q) \<or> (\<forall>q \<in> set qs. q_volume q \<noteq> Some v)"
  shows "pvcs_ok (map (give n v) qs)"
proof -
  have inj: "p = q" if "p \<in> set qs" "q \<in> set qs" "q_name p = q_name q" for p q
    using assms(1) that unfolding pvcs_ok_def by (metis distinct_map inj_onD)
  show ?thesis
  proof (rule pvcs_okI)
    have "map q_name (map (give n v) qs) = map q_name qs" by simp
    then show "distinct (map q_name (map (give n v) qs))" using assms(1) by (simp only: pvcs_ok_def)
  next
    fix p q assume "p \<in> set (map (give n v) qs)" "q \<in> set (map (give n v) qs)" "q_claims p" "q_claims q" "q_uid p = q_uid q"
    then obtain p' q' where "p' \<in> set qs" "q' \<in> set qs" "p = give n v p'" "q = give n v q'" "q_claims p'" "q_claims q'" "q_uid p' = q_uid q'"
      by auto
    then show "p = q" using assms(1) unfolding pvcs_ok_def by metis
  next
    fix q assume "q \<in> set (map (give n v) qs)" "q_claims q"
    then show "q_name q \<notin> range prime_pvc_name" using assms(1) unfolding pvcs_ok_def by force
  next
    fix p q assume "p \<in> set (map (give n v) qs)" "q \<in> set (map (give n v) qs)" "\<not> q_claims p" "\<not> q_claims q"
      and vol: "q_volume p \<noteq> None" "q_volume p = q_volume q"
    then obtain p' q' where pq: "p' \<in> set qs" "q' \<in> set qs" "p = give n v p'" "q = give n v q'" "\<not> q_claims p'" "\<not> q_claims q'"
      by auto
    show "p = q"
    proof (cases "q_name p' = n \<or> q_name q' = n")
      case True
      then have "q_name p' = n \<and> q_name q' = n" using fresh pq vol by (metis give_simps(4,5))
      with inj pq show ?thesis by metis
    next
      case False
      then have "p = p'" "q = q'" using pq by simp_all
      with assms(1) pq vol show ?thesis unfolding pvcs_ok_def by metis
    qed
  next
    fix q assume "q \<in> set (map (give n v) qs)" "q_claims q" "q_bound q"
    then obtain q' where "q' \<in> set qs" "q = give n v q'" "q_claims q'" "q_bound (give n v q')" by auto
    then show "q_volume q \<noteq> None" using assms(1) by (cases "q_name q' = n") (simp_all add: pvcs_ok_def)
  qed
qed

lemma records_ok_give:
  assumes ok: "records_ok rp c" and views: "views rp d = map (give n v) (views rp c)"
    and same: "cl_status d = cl_status c" "cl_rebinds d = cl_rebinds c"
    and ann: "\<And>x u. (x, u) \<in> set (cl_rebinds c) \<Longrightarrow> annotated rp c x u \<Longrightarrow> annotated rp d x u"
    and unbound: "\<And>q. q \<in> set (views rp c) \<Longrightarrow> q_name q = n \<Longrightarrow> q_volume q = None"
  shows "records_ok rp d"
proof -
  have claims: "cl_claims d = cl_claims c" using same(1) by (rule core_claims)
  have "own_record d (give n v q) \<and> not_relabelled d (give n v q) \<and> handed_ok rp d (give n v q)"
    if q: "q \<in> set (views rp c)" "q_claims q" for q
  proof -
    have c: "own_record c q" "not_relabelled c q" "handed_ok rp c q" using ok q by (simp_all add: records_ok_def)
    have "not_relabelled d (give n v q)"
    proof (cases "q_name q = n")
      case True
      with c(2) unbound [OF q(1)] show ?thesis by (auto simp: not_relabelled_def claims)
    qed (use c(2) in \<open>simp add: not_relabelled_def claims same(2)\<close>)
    moreover have "handed_ok rp d (give n v q)"
      unfolding handed_ok_def
    proof (intro allI impI)
      fix u assume u: "(q_uid (give n v q), u) \<in> set (cl_rebinds d)" "is_none_or (\<lambda>u'. u' = u) (q_volume (give n v q))"
      have "is_none_or (\<lambda>u'. u' = u) (q_volume q)"
        using u(2) unbound [OF q(1)] by (cases "q_name q = n") simp_all
      then have "annotated rp c (q_uid q) u \<or> populated_on_record c (q_name q) (q_uid q)"
        using c(3) u(1) by (simp add: handed_ok_def same(2))
      then show "annotated rp d (q_uid (give n v q)) u \<or> populated_on_record d (q_name (give n v q)) (q_uid (give n v q))"
        using ann [of "q_uid q" u] u(1) by (auto simp: same(2) populated_on_record_def claims)
    qed
    ultimately show ?thesis using c(1) by (simp add: own_record_def claims)
  qed
  then show ?thesis using ok unfolding records_ok_def views claims same(1) by simp
qed

lemma pop_inv_provision:
  assumes inv: "pop_inv rp c" and p: "p \<in> set (cl_pvcs c)" "non_empty (pc_volume p) = None" and v: "fresh_volume v c"
    and vl: "vl_original vl = None"
  shows "pop_inv rp (update_pvc (pc_name p) (\<lambda>p. p\<lparr>pc_volume := Some v, pc_status_bound := True\<rparr>)
    (c\<lparr>cl_volumes := (v, vl) # cl_volumes c\<rparr>))" (is "pop_inv rp ?d")
proof -
  have ok: "pvcs_ok (views rp c)" "rebinds_ok rp c" "records_ok rp c" using inv by (simp_all add: pop_inv_def)
  have vs: "views rp ?d = map (give (pc_name p) v) (views rp c)" using v by (simp add: views_give fresh_volume_def)
  have d: "cl_status ?d = cl_status c" "cl_rebinds ?d = cl_rebinds c" "cl_recorded ?d = cl_recorded c"
      "cl_volumes ?d = (v, vl) # cl_volumes c" by (simp_all add: update_pvc_def)
  have unused: "q_volume q \<noteq> Some v" if q: "q \<in> set (views rp c)" for q
  proof -
    obtain r where r: "r \<in> set (cl_pvcs c)" "q = view rp r" using q by (auto simp: views_def)
    have "pc_volume r \<noteq> Some v" using r(1) v by (force simp: fresh_volume_def)
    with r(2) show ?thesis by (auto simp: view_def non_empty_def split: option.splits if_splits)
  qed
  have newv: "(x, u) \<in> set (cl_rebinds c) \<Longrightarrow> u \<noteq> v" for x u using v by (force simp: fresh_volume_def)
  have find: "find_volume u ?d = (if u = v then Some vl else find_volume u c)" for u
    by (simp add: find_volume_def d)
  have ann: "annotated rp ?d x u \<longleftrightarrow> u \<noteq> v \<and> annotated rp c x u" for x u
    using vl by (auto simp: annotated_iff find rebound_uid_def)
  have own: "q_volume q = None" if "q \<in> set (views rp c)" "q_name q = pc_name p" for q
  proof -
    have "view rp p \<in> set (views rp c)" "q_volume (view rp p) = None" using p by (simp_all add: views_def) (simp add: view_def)
    then show ?thesis using ok(1) that view_simps(2) [of rp p] unfolding pvcs_ok_def by (metis distinct_map inj_onD)
  qed
  have "pvcs_ok (views rp ?d)" unfolding vs using ok(1) unused by (intro pvcs_ok_give) auto
  moreover have "rebind_ok rp ?d x u" if xu: "(x, u) \<in> set (cl_rebinds c)" for x u
  proof -
    note D = rebinds_okD(1,3,4) [OF ok(2) xu] and uv = newv [OF xu]
    have "q_name q = prime_pvc_name x" if q: "q \<in> set (views rp c)" "\<not> q_claims q" "q_volume (give (pc_name p) v q) = Some u" for q
    proof (cases "q_name q = pc_name p")
      case True
      with q(3) uv show ?thesis by simp
    next
      case False
      with q D(1) show ?thesis by simp
    qed
    then show ?thesis
      using D(2,3) uv unfolding rebind_ok_def vs d(3) find by (auto simp: is_some_and_iff is_none_or_iff)
  qed
  then have "rebinds_ok rp ?d"
    using ok(2) v newv unfolding rebinds_ok_def d ann by (auto simp: fresh_volume_def)
  moreover have "records_ok rp ?d"
    by (rule records_ok_give [OF ok(3) vs d(1,2)]) (auto simp: ann own dest: newv)
  ultimately show ?thesis by (simp add: pop_inv_def)
qed

lemma pop_inv_bind:
  assumes inv: "pop_inv rp c" and p: "p \<in> set (cl_pvcs c)" "non_empty (pc_volume p) = None" "pvc_claims_restore (rp_name rp) p"
    and v: "v \<noteq> []"
  shows "pop_inv rp (update_pvc (pc_name p) (\<lambda>p. p\<lparr>pc_volume := Some v, pc_status_bound := True\<rparr>) c)" (is "pop_inv rp ?d")
proof -
  have ok: "pvcs_ok (views rp c)" "rebinds_ok rp c" "records_ok rp c" using inv by (simp_all add: pop_inv_def)
  have vs: "views rp ?d = map (give (pc_name p) v) (views rp c)" using v by (rule views_give)
  have d: "cl_status ?d = cl_status c" "cl_rebinds ?d = cl_rebinds c" "cl_recorded ?d = cl_recorded c"
      "cl_volumes ?d = cl_volumes c" by (simp_all add: update_pvc_def)
  have find: "find_volume u ?d = find_volume u c" "annotated rp ?d x u = annotated rp c x u" for u x
    by (simp_all add: find_volume_def annotated_def d)
  have own: "q = view rp p" if "q \<in> set (views rp c)" "q_name q = pc_name p" for q
  proof -
    have "view rp p \<in> set (views rp c)" using p by (simp add: views_def)
    then show ?thesis using ok(1) that view_simps(2) [of rp p] unfolding pvcs_ok_def by (metis distinct_map inj_onD)
  qed
  have pv: "q_claims (view rp p)" "q_volume (view rp p) = None" using p by (simp_all add: view_def)
  have "pvcs_ok (views rp ?d)" unfolding vs using ok(1) own pv(1) by (intro pvcs_ok_give) auto
  moreover have "rebind_ok rp ?d x u = rebind_ok rp c x u" for x u
  proof -
    have "give (pc_name p) v q = q" if "q \<in> set (views rp c)" "\<not> q_claims q" for q
      using own [OF that(1)] pv(1) that(2) by (cases "q_name q = pc_name p") auto
    then show ?thesis unfolding rebind_ok_def vs d(3) find by (auto simp: image_iff)
  qed
  then have "rebinds_ok rp ?d" using ok(2) unfolding rebinds_ok_def d find by simp
  moreover have "records_ok rp ?d"
    by (rule records_ok_give [OF ok(3) vs d(1,2)]) (auto simp: find pv dest: own)
  ultimately show ?thesis by (simp add: pop_inv_def)
qed

lemma pop_inv_gone:
  assumes inv: "pop_inv rp c"
  shows "pop_inv rp (c\<lparr>cl_pvcs := filter f (cl_pvcs c)\<rparr>)" (is "pop_inv rp ?d")
proof -
  have sub: "set (views rp ?d) \<subseteq> set (views rp c)" by (auto simp: views_def)
  have "distinct (map q_name (views rp ?d))"
    using inv by (simp add: pop_inv_def pvcs_ok_def views_def comp_def distinct_map_filter)
  then have "pvcs_ok (views rp ?d)"
    using inv sub unfolding pop_inv_def pvcs_ok_def by (meson subsetD)
  moreover have same: "annotated rp ?d x v = annotated rp c x v" "find_volume v ?d = find_volume v c" "cl_claims ?d = cl_claims c"
      "populated_on_record ?d n x = populated_on_record c n x" for x v n
    by (simp_all add: annotated_def find_volume_def cl_claims_def populated_on_record_def)
  have "rebind_ok rp c x v \<Longrightarrow> rebind_ok rp ?d x v" for x v
    using sub unfolding rebind_ok_def same by auto
  then have "rebinds_ok rp ?d" using inv unfolding pop_inv_def rebinds_ok_def same by simp
  moreover have "own_record ?d q = own_record c q" "not_relabelled ?d q = not_relabelled c q" "handed_ok rp ?d q = handed_ok rp c q" for q
    by (simp_all add: own_record_def not_relabelled_def handed_ok_def same)
  then have "records_ok rp ?d" using inv sub unfolding pop_inv_def records_ok_def same by auto
  ultimately show ?thesis by (simp add: pop_inv_def)
qed

lemma pop_inv_reclaim:
  assumes inv: "pop_inv rp c" and v: "find_volume v c = Some vl" "vl_policy vl \<noteq> Some ''Retain''"
    and free: "\<forall>cr. vl_claim vl = Some cr \<longrightarrow> cr_uid cr \<notin> (\<lambda>p. Some (pc_uid p)) ` set (cl_pvcs c)"
  shows "pop_inv rp (c\<lparr>cl_volumes := filter (\<lambda>(n, _). n \<noteq> v) (cl_volumes c)\<rparr>)" (is "pop_inv rp ?d")
proof -
  have ok: "pvcs_ok (views rp c)" "rebinds_ok rp c" "records_ok rp c" using inv by (simp_all add: pop_inv_def)
  have "map_of (filter (\<lambda>(n, _). n \<noteq> v) xs) u = (if u = v then None else map_of xs u)" for xs :: "(string \<times> volume) list" and u
    by (induction xs) auto
  then have find: "find_volume u ?d = (if u = v then None else find_volume u c)" for u by (simp add: find_volume_def)
  have ann: "annotated rp ?d x u \<longleftrightarrow> u \<noteq> v \<and> annotated rp c x u" for x u by (auto simp: annotated_iff find)
  have same: "cl_claims ?d = cl_claims c" "populated_on_record ?d n x = populated_on_record c n x" for n x
    by (simp_all add: cl_claims_def populated_on_record_def)
  have "rebind_ok rp ?d x u" if "(x, u) \<in> set (cl_rebinds c)" for x u
    using rebinds_okD(1,3,4) [OF ok(2) that] v by (auto simp: rebind_ok_def find is_some_and_iff is_none_or_iff)
  moreover have "distinct (map fst (filter g (cl_volumes c)))" for g using ok(2) by (simp add: rebinds_ok_def distinct_map_filter)
  ultimately have "rebinds_ok rp ?d" using ok(2) unfolding rebinds_ok_def ann by simp
  moreover have "handed_ok rp ?d q" if q: "q \<in> set (views rp c)" "q_claims q" for q
  proof -
    have "(q_uid q, v) \<notin> set (cl_rebinds c)"
    proof
      assume "(q_uid q, v) \<in> set (cl_rebinds c)"
      then obtain cr where cr: "vl_claim vl = Some cr" "cr_uid cr = Some (q_uid q)" using rebinds_okD(3) [OF ok(2)] v(1) by blast
      have "q_uid q \<in> pc_uid ` set (cl_pvcs c)" using q(1) by (auto simp: views_def)
      with free cr show False by (auto simp: image_iff)
    qed
    then show ?thesis using ok(3) q unfolding records_ok_def handed_ok_def ann same(2) by auto
  qed
  then have "records_ok rp ?d" using ok(3) unfolding records_ok_def own_record_def not_relabelled_def same by simp
  ultimately show ?thesis using ok(1) by (simp add: pop_inv_def)
qed

lemma pop_inv_step:
  assumes inv: "pop_inv rp c" and "pop_step rp c d"
  shows "pop_inv rp d"
  using assms(2)
proof cases
  case (pass w reply)
  with inv show ?thesis by (rule pop_inv_pass)
next
  case gate
  with inv show ?thesis by (simp add: pop_inv_gate)
next
  case (mover name j claim resolved observed tail failure)
  with inv show ?thesis by (simp add: pop_inv_mover)
next
  case (job_ends name ok)
  then have "same_core rp c d" by (simp add: same_core_def)
  with inv pop_inv_core show ?thesis by blast
next
  case (job_gone name)
  then have "same_core rp c d" by (simp add: same_core_def)
  with inv pop_inv_core show ?thesis by blast
next
  case (provision p v policy)
  with inv show ?thesis by (simp add: pop_inv_provision)
next
  case (bind p v vl)
  with inv show ?thesis by (simp add: pop_inv_bind)
next
  case (create p)
  then have "unused_uid (pc_uid p) c" by (simp add: fresh_uid_def unused_uid_def)
  with create inv show ?thesis by (simp add: pop_inv_create non_empty_def)
next
  case (schedule name node)
  then have "same_core rp c d" by (simp add: same_core_def views_def update_pvc_def view_def pvc_claims_restore_def)
  with inv pop_inv_core show ?thesis by blast
next
  case (delete p)
  then have "same_core rp c d" by (simp add: same_core_def)
  with inv pop_inv_core show ?thesis by blast
next
  case (gone p)
  with inv show ?thesis by (simp add: pop_inv_gone)
next
  case (reclaim v vl)
  with inv show ?thesis by (simp add: pop_inv_reclaim)
qed

interpretation populators: step_invariant pop_init "pop_step rp" "pop_inv rp" for rp
proof
  fix c assume "pop_init c"
  then show "pop_inv rp c"
    by (simp add: pop_init_def pop_inv_def views_def pvcs_ok_def rebinds_ok_def records_ok_def annotated_def find_volume_def
        cl_claims_def)
qed (rule pop_inv_step)

end
