(* ===== verification/Populator_Handover.thy ===== *)
theory Populator_Handover
  imports Populator_Claims
begin

text \<open>
  The properties of the populator handover over every run of the machine: the restored volume outlives
  every failure until the handover is on record, a claim that got its volume is never relabelled, and the
  prime of a hijacked claim is never deleted; and runs that show where the driver falls short of its own
  comments.
\<close>

subsection \<open>What a pass spares\<close>

definition prime_alive :: "string \<Rightarrow> cluster \<Rightarrow> bool" where
  "prime_alive x c \<longleftrightarrow> is_some_and (\<lambda>p. \<not> pc_deleting p \<and> pc_op p = Some OP_RESTORE_POPULATE) (find_pvc (prime_pvc_name x) c)"

definition spares :: "restore_object \<Rightarrow> string \<Rightarrow> cluster \<Rightarrow> cluster \<Rightarrow> bool" where
  "spares rp x c d \<longleftrightarrow> cl_claims d = cl_claims c \<and> filter q_claims (views rp d) = filter q_claims (views rp c) \<and>
     (prime_alive x c \<longrightarrow> prime_alive x d)"

interpretation sparing: io_frame "spares rp x" for rp x
  by unfold_locales (auto simp: spares_def)

lemma find_pvc_delete:
  "find_pvc n (delete_pvc m c) = map_option (\<lambda>p. if n = m then p\<lparr>pc_deleting := True\<rparr> else p) (find_pvc n c)"
proof -
  have "List.find (\<lambda>p. pc_name p = n) (map (\<lambda>p. if pc_name p = m then p\<lparr>pc_deleting := True\<rparr> else p) ps) =
      map_option (\<lambda>p. if n = m then p\<lparr>pc_deleting := True\<rparr> else p) (List.find (\<lambda>p. pc_name p = n) ps)" for ps
    by (induction ps) auto
  then show ?thesis by (simp add: find_pvc_def delete_pvc_def)
qed

lemma prime_alive_pvcs: "cl_pvcs d = cl_pvcs c \<Longrightarrow> prime_alive x d = prime_alive x c"
  by (simp add: prime_alive_def find_pvc_def)

lemma spares_fields: "cl_pvcs d = cl_pvcs c \<Longrightarrow> cl_status d = cl_status c \<Longrightarrow> spares rp x c d"
  using prime_alive_pvcs [of d c x] core_claims [of d c] by (simp add: spares_def views_def)

lemma spares_delete: "u \<noteq> x \<Longrightarrow> spares rp x c (delete_pvc (prime_pvc_name u) c)"
  by (auto simp: spares_def cl_claims_def prime_alive_def find_pvc_delete is_some_and_iff)

lemma spares_create: "pc_data_source p = None \<Longrightarrow> spares rp x c (c\<lparr>cl_pvcs := cl_pvcs c @ [p]\<rparr>)"
proof -
  assume p: "pc_data_source p = None"
  have "List.find P (ps @ [q]) = (case List.find P ps of Some r \<Rightarrow> Some r | None \<Rightarrow> if P q then Some q else None)" for P ps and q :: pvc_object
    by (induction ps) auto
  then show ?thesis
    using view_prime_unclaimed [OF p]
    by (auto simp: spares_def cl_claims_def views_def prime_alive_def find_pvc_def is_some_and_iff)
qed

lemma spares_writes:
  "within (spares rp x) (io_attempt ok (delete_job j))" "within (spares rp x) (io_write ok (delete_job j))"
  "within (spares rp x) (io_write ok (set_volume v vl))" "within (spares rp x) (io_write ok (rebind_volume ns n u v vl))"
  "within (spares rp x) (io_write ok (\<lambda>c. c\<lparr>cl_jobs := f c\<rparr>))"
  by (auto intro!: sparing.within_attempt sparing.within_write spares_fields simp: rebind_volume_def)

lemma spares_prime_deletes:
  "u \<noteq> x \<Longrightarrow> within (spares rp x) (io_attempt ok (delete_pvc (prime_pvc_name u)))"
  by (auto intro!: sparing.within_attempt spares_delete)

lemma spares_gate: "within (spares rp x) (io_write ok (patch_restore_status (\<lambda>s. s\<lparr>rst_phase := Some RE_Pending\<rparr>)))"
proof (rule sparing.within_write)
  fix c
  have "cl_claims (patch_restore_status (\<lambda>s. s\<lparr>rst_phase := Some RE_Pending\<rparr>) c) = cl_claims c"
    by (cases "cl_status c") (simp_all add: cl_claims_def patch_restore_status_def blank_status_def)
  then show "spares rp x c (patch_restore_status (\<lambda>s. s\<lparr>rst_phase := Some RE_Pending\<rparr>) c)"
    by (simp add: spares_def prime_alive_def find_pvc_def)
qed

lemmas spare_rules = sparing.within_ok sparing.within_err sparing.within_read sparing.within_bind sparing.within_seq
  spares_writes spares_prime_deletes spares_gate

lemma spares_settle: "within (spares rp x) (settle_volume w v forced)"
  unfolding settle_volume_def by (auto intro!: spare_rules split: option.split)

lemma spares_finalize: "u \<noteq> x \<Longrightarrow> within (spares rp x) (finalize_populator w j (prime_pvc_name u) a)"
  unfolding finalize_populator_def by (auto intro!: spare_rules spares_settle split: prime_pv_action.split)

lemma spares_reap:
  assumes "u = x \<Longrightarrow> \<not> claim_artifacts_reapable reason"
  shows "within (spares rp x) (reap_claim_artifacts w rp' u reason pv)"
  using assms unfolding reap_claim_artifacts_def surviving_populate_artifacts_def delete_populate_run_def Let_def
  by (cases "u = x") (auto intro!: spare_rules spares_finalize)

lemma spares_mover: "within (spares rp x) (run_restore_mover w job reuse key)"
  unfolding run_restore_mover_def observe_restore_mover_def
  by (auto intro!: spare_rules split: option.split launch_reply.split bool.split)

lemma spares_ensure: "within (spares rp x) (ensure_prime_pvc w rp' n consumer node)"
  unfolding ensure_prime_pvc_def
  by (auto intro!: spare_rules sparing.within_write spares_create split: option.split)

lemma spares_rebind: "u \<noteq> x \<Longrightarrow> within (spares rp x) (rebind_prime_to_consumer w ns (prime_pvc_name u) n v)"
  unfolding rebind_prime_to_consumer_def issue_rebind_def by (auto intro!: spare_rules split: option.split)

lemma spares_populate:
  assumes "cc_prime_name cc = prime_pvc_name u" "u \<noteq> x"
  shows "within (spares rp x) (claim_populate w rp' cc)"
proof -
  have c: "within (spares rp x) (consumer_storage_class_is_wffc w p)" for p
    unfolding consumer_storage_class_is_wffc_def by (auto intro!: spare_rules split: option.split)
  have r: "within (spares rp x) (resolve_claim_source w rp' cc)"
    unfolding resolve_claim_source_def Let_def by (auto intro!: spare_rules split: option.split resolution.split source_reply.split)
  show ?thesis
    unfolding claim_populate_def populate_selected_def Let_def assms(1)
    using assms(2)
    by (auto intro!: spare_rules r c spares_ensure spares_mover spares_rebind split: claim_resolution.split mover_outcome.split)
qed

lemma spares_drive_claim:
  assumes "cc_prime_name cc = prime_pvc_name u" "u \<noteq> x"
  shows "within (spares rp x) (drive_claim w rp' cc rb)"
  unfolding drive_claim_def claim_finalize_rebound_def claim_already_bound_def fail_populate_hijacked_def delete_populate_run_def
    Let_def assms(1)
  using assms
  by (auto intro!: spare_rules spares_populate spares_finalize split: populator_handshake.split)

subsection \<open>A hijacked claim\<close>

definition hijacked :: "claim_status \<Rightarrow> bool" where
  "hijacked r \<longleftrightarrow> cs_phase r = Some RC_Failed \<and> cs_reason r = Some (claim_reason_str PopulateHijacked)"

definition hijack_inv :: "restore_object \<Rightarrow> string \<Rightarrow> cluster \<Rightarrow> bool" where
  "hijack_inv rp x c \<longleftrightarrow> prime_alive x c \<and>
     (\<forall>n r. (n, r) \<in> set (cl_claims c) \<longrightarrow> cs_uid r = Some x \<longrightarrow> hijacked r) \<and>
     (\<forall>q \<in> set (views rp c). q_claims q \<longrightarrow> q_uid q = x \<longrightarrow> is_some_and (\<lambda>r. cs_uid r = Some x) (map_of (cl_claims c) (q_name q)))"

lemma hijacked_not_reapable: "hijacked r \<Longrightarrow> \<not> claim_artifacts_reapable (cs_reason r) \<and> \<not> settled_artifacts_reapable r"
proof -
  have "\<not> claim_artifacts_reapable (Some ''PopulateHijacked'')" by code_simp
  then show "hijacked r \<Longrightarrow> \<not> claim_artifacts_reapable (cs_reason r) \<and> \<not> settled_artifacts_reapable r"
    by (simp add: hijacked_def settled_artifacts_reapable_def)
qed

lemma hijack_inv_spares: "spares rp x c d \<Longrightarrow> hijack_inv rp x c \<Longrightarrow> hijack_inv rp x d"
proof -
  assume s: "spares rp x c d" and h: "hijack_inv rp x c"
  have "set (filter q_claims (views rp d)) = set (filter q_claims (views rp c))" using s by (simp add: spares_def)
  then have "q \<in> set (views rp d) \<and> q_claims q \<longleftrightarrow> q \<in> set (views rp c) \<and> q_claims q" for q by auto
  then show ?thesis using s h unfolding hijack_inv_def spares_def by metis
qed

text \<open>What a pass must know of the records it works from to leave the prime of \<open>x\<close> alone.\<close>

definition prev_spares :: "string \<Rightarrow> claims \<Rightarrow> pvc_object list \<Rightarrow> bool" where
  "prev_spares x prev ps \<longleftrightarrow> (\<forall>n r. map_of prev n = Some r \<longrightarrow> cs_uid r = Some x \<longrightarrow> hijacked r) \<and>
     (\<forall>p \<in> set ps. pc_uid p = x \<longrightarrow> is_some_and (\<lambda>r. cs_uid r = Some x) (map_of prev (pc_name p)))"

lemma hijacked_is_settled:
  assumes "prev_spares x prev ps" and "p \<in> set ps" and "pc_uid p = x"
  shows "\<exists>r. map_of prev (pc_name p) = Some r \<and> hijacked r \<and> cs_uid r = Some x \<and> claim_drive (map_of prev (pc_name p)) x = CD_Settled"
proof -
  obtain r where "map_of prev (pc_name p) = Some r" "cs_uid r = Some x" using assms by (auto simp: prev_spares_def is_some_and_iff)
  moreover have "hijacked r" using assms(1) calculation by (simp add: prev_spares_def)
  ultimately show ?thesis by (simp add: claim_drive_def hijacked_def)
qed

lemma spares_drive_one_claim:
  assumes ps: "prev_spares x prev (ca_consumers cs)" and p: "p \<in> set (ca_consumers cs)"
  shows "within (spares rp x) (drive_one_claim w rp' cs prev rb (pc_name p, pc_uid p) (claim_drive (map_of prev (pc_name p)) (pc_uid p)))"
proof (cases "pc_uid p = x")
  case True
  with hijacked_is_settled [OF ps p] hijacked_not_reapable show ?thesis
    by (auto simp: drive_one_claim_def Let_def intro!: spare_rules)
next
  case False
  show ?thesis
  proof (cases "claim_drive (map_of prev (pc_name p)) (pc_uid p)")
    case CD_Drive
    have "within (spares rp x) (drive_claim w rp' (claim_context_for rp' r q n (pc_uid p)) rb)" for r q n
      by (rule spares_drive_claim [OF _ False]) (simp add: claim_context_for_def Let_def)
    with CD_Drive show ?thesis
      by (auto simp: drive_one_claim_def Let_def intro!: spare_rules split: option.split)
  next
    case CD_Settled
    with False show ?thesis by (auto simp: drive_one_claim_def Let_def intro!: spare_rules spares_reap)
  next
    case (CD_ReArm u)
    obtain r where r: "map_of prev (pc_name p) = Some r" "cs_uid r = Some u"
      using CD_ReArm by (auto simp: claim_drive_def split: option.splits if_splits)
    have "\<not> claim_artifacts_reapable (cs_reason r)" if "u = x"
      using ps r that hijacked_not_reapable by (simp add: prev_spares_def)
    with CD_ReArm r show ?thesis by (auto simp: drive_one_claim_def Let_def intro!: spare_rules spares_reap)
  qed
qed

lemma spares_loop:
  assumes "prev_spares x prev (ca_consumers cs)"
  shows "within (spares rp x) (io_each (fanout_claim w rp' cs prev rb) (map (plan_of prev) (ca_consumers cs)) acc)"
  by (rule sparing.within_each)
    (use assms in \<open>auto simp: fanout_claim_def plan_of_def Let_def intro!: spare_rules spares_drive_one_claim\<close>)

lemma spares_reap_gone:
  assumes "\<And>n r. (n, r) \<in> set prev \<Longrightarrow> cs_uid r = Some x \<Longrightarrow> hijacked r"
  shows "within (spares rp x) (reap_gone_claims w rp' prev live)"
  unfolding reap_gone_claims_def
  by (rule sparing.within_each)
    (use assms hijacked_not_reapable in \<open>auto intro!: spare_rules spares_reap split: option.split\<close>)

lemma spares_finalizers:
  assumes "\<And>f. f \<in> set fs \<Longrightarrow> \<exists>u. pf_prime f = prime_pvc_name u \<and> u \<noteq> x"
  shows "within (spares rp x) (run_deferred_finalizers w fs)"
  unfolding run_deferred_finalizers_def
  by (rule sparing.within_each) (use assms spares_finalize in metis)

lemma hijack_inv_patch:
  assumes d: "loop_done rp c0 prev rb cs acc c" and h: "hijack_inv rp x c" and ps: "prev_spares x prev (ca_consumers cs)"
  shows "hijack_inv rp x (patch_fanout_status prev (fo_next acc) gone c)" (is "hijack_inv rp x ?d")
proof -
  have pvcs: "cl_pvcs ?d = cl_pvcs c" by (simp add: patch_fanout_status_def)
  have "hijacked r" if r: "(n, r) \<in> set (cl_claims ?d)" "cs_uid r = Some x" for n r
    using patched_entry [OF d r(1)]
  proof (elim disjE bexE exE conjE)
    assume "(n, r) \<in> set (cl_claims c)"
    then show ?thesis using h r(2) by (simp add: hijack_inv_def)
  next
    fix p oc assume p: "p \<in> set (ca_consumers cs)" and oc: "outcome_ok rp prev rb (view rp p) oc" "cs_uid r = cs_uid (co_record oc)"
      "cs_phase r = cs_phase (co_record oc)" "cs_reason r = cs_reason (co_record oc)"
    have "map_of prev (pc_name p) = Some (co_record oc)"
    proof (cases "pc_uid p = x")
      case True
      then show ?thesis using hijacked_is_settled [OF ps p] oc(1) by (auto simp: outcome_ok_def)
    next
      case False
      then show ?thesis using oc(1,2) r(2) by (auto simp: outcome_ok_def split: if_splits)
    qed
    then have "hijacked (co_record oc)" using ps r(2) oc(2) by (simp add: prev_spares_def)
    then show ?thesis using oc(3,4) by (simp add: hijacked_def)
  qed
  moreover have "is_some_and (\<lambda>r. cs_uid r = Some x) (map_of (cl_claims ?d) (q_name q))"
    if q: "q \<in> set (views rp c)" "q_claims q" "q_uid q = x" for q
  proof -
    obtain p where p: "p \<in> set (ca_consumers cs)" "q = view rp p" using loop_done_consumer [OF d q(1,2)] .
    obtain oc r where oc: "outcome_ok rp prev rb (view rp p) oc" "map_of (cl_claims ?d) (pc_name p) = Some r" "cs_uid r = cs_uid (co_record oc)"
      using patched_record [OF loop_doneD(1) [OF d] p(1) loop_doneD(6,3,4) [OF d], of gone] by metis
    then show ?thesis using hijacked_is_settled [OF ps p(1)] p(2) q(3) by (auto simp: outcome_ok_def)
  qed
  moreover have "views rp ?d = views rp c" by (simp add: patch_fanout_status_def)
  ultimately show ?thesis
    using h prime_alive_pvcs [OF pvcs] by (simp add: hijack_inv_def)
qed

lemma hijack_finalizers:
  assumes d: "loop_done rp c0 prev rb cs acc c" and ps: "prev_spares x prev (ca_consumers cs)" and f: "f \<in> set (fo_finalizers acc)"
  shows "\<exists>u. pf_prime f = prime_pvc_name u \<and> u \<noteq> x"
proof -
  obtain p oc where p: "p \<in> set (ca_consumers cs)" and oc: "outcome_ok rp prev rb (view rp p) oc" "co_after_patch oc = Some f"
    using loop_doneD(1) [OF d] f unfolding collected_def by blast
  have ns: "claim_drive (map_of prev (pc_name p)) (pc_uid p) \<noteq> CD_Settled" using oc by (auto simp: outcome_ok_def)
  then have "pf_prime f = prime_pvc_name (pc_uid p)" using oc by (simp add: outcome_ok_def)
  moreover have "pc_uid p \<noteq> x" using hijacked_is_settled [OF ps p] ns by auto
  ultimately show ?thesis by blast
qed

lemma hijack_drive_claims:
  assumes cs: "ca_consumers cs \<noteq> []" and ps: "prev_spares x prev (ca_consumers cs)"
    and all: "\<And>n r. (n, r) \<in> set prev \<Longrightarrow> cs_uid r = Some x \<Longrightarrow> hijacked r"
  shows "triple (\<lambda>c. pass_ready rp prev cs c \<and> hijack_inv rp x c) (drive_claims w rp cs prev) (\<lambda>_. hijack_inv rp x) (hijack_inv rp x)"
proof -
  let ?R = "\<lambda>rb c. pass_ready rp prev cs c \<and> rebound_ok rp c prev rb" and ?H = "hijack_inv rp x"
  note carry = sparing.triple_carry [of _ _ _ _ rp x ?H, OF _ _ hijack_inv_spares]
  have drop: "triple P m Q (\<lambda>c. E c \<and> ?H c) \<Longrightarrow> triple P m Q ?H" for P m Q E by (erule triple_weaken) auto
  have gone: "triple (\<lambda>c. pass_ready rp prev cs c \<and> ?H c) (reap_gone_claims w rp prev live) (\<lambda>_ c. pass_ready rp prev cs c \<and> ?H c) ?H" for live
    by (rule drop, rule carry [OF triple_core [OF core_reap_gone] spares_reap_gone [OF all]]) (erule pass_ready_core)
  have list: "triple (\<lambda>c. pass_ready rp prev cs c \<and> ?H c) (if quiet then io_ok Map.empty else our_rebound_pvs w (rp_namespace rp))
      (\<lambda>rb c. ?R rb c \<and> ?H c) ?H"
    if "quiet \<Longrightarrow> list_all (\<lambda>p. claim_drive (map_of prev (pc_name p)) (pc_uid p) = CD_Settled) (ca_consumers cs)" for quiet
    by (rule drop, rule carry [OF triple_list [OF that]]) (auto simp: our_rebound_pvs_def intro!: spare_rules)
  have loop: "triple (\<lambda>c. ?R rb c \<and> ?H c) (io_each (fanout_claim w rp cs prev rb) (map (plan_of prev) (ca_consumers cs))
      \<lparr>fo_next = [], fo_events = [], fo_finalizers = [], fo_requeue = 600\<rparr>) (\<lambda>acc c. (\<exists>c0. loop_done rp c0 prev rb cs acc c) \<and> ?H c) ?H" for rb
    by (rule drop, rule carry [OF triple_loop_done [OF cs] spares_loop [OF ps]])
  have patch: "triple (\<lambda>c. (\<exists>c0. loop_done rp c0 prev rb cs acc c) \<and> ?H c) (io_write ok (patch_fanout_status prev (fo_next acc) gone))
      (\<lambda>_ c. ?H c \<and> (\<forall>f \<in> set (fo_finalizers acc). \<exists>u. pf_prime f = prime_pvc_name u \<and> u \<noteq> x)) ?H" for rb acc ok gone
    by (rule triple_write) (use hijack_inv_patch [OF _ _ ps] hijack_finalizers [OF _ ps] in blast)+
  have fins: "triple (\<lambda>c. ?H c \<and> (\<forall>f \<in> set fs. \<exists>u. pf_prime f = prime_pvc_name u \<and> u \<noteq> x))
      (io_seq (run_deferred_finalizers w fs) (io_ok n)) (\<lambda>_. ?H) ?H" for fs and n :: nat
  proof (cases "\<forall>f \<in> set fs. \<exists>u. pf_prime f = prime_pvc_name u \<and> u \<noteq> x")
    case True
    have "within (spares rp x) (io_seq (run_deferred_finalizers w fs) (io_ok n))"
      using True by (intro spare_rules spares_finalizers) blast
    then show ?thesis using hijack_inv_spares unfolding within_def triple_def
      by (auto split: prod.splits option.splits) (metis snd_conv)+
  qed (unfold triple_def, blast)
  show ?thesis
    unfolding drive_claims_def Let_def plans_eq
    by (rule triple_bind [OF gone], rule triple_bind [OF list], (auto simp: pass_is_all_quiet_def list_all_iff)[1],
        rule triple_bind [OF loop], rule triple_seq [OF patch fins])
qed

lemma hijack_park:
  assumes h: "hijack_inv rp x c" and none: "\<And>q. q \<in> set (views rp c) \<Longrightarrow> \<not> q_claims q" and gone: "gone = map fst (cl_claims c)"
  shows "hijack_inv rp x (patch_restore_status (awaiting_claim_status gone) c)" (is "hijack_inv rp x ?d")
proof -
  have "cl_claims ?d = []"
    unfolding gone by (cases "cl_status c") (auto simp: patch_restore_status_def awaiting_claim_status_def Let_def blank_status_def cl_claims_def
        filter_empty_conv rev_image_eqI)
  moreover have "prime_alive x ?d = prime_alive x c" by (rule prime_alive_pvcs) simp
  ultimately show ?thesis using h none by (simp add: hijack_inv_def)
qed

lemma hijack_prev:
  assumes h: "hijack_inv rp x c" and cs: "claimants_ok rp c cs" and st: "cl_status c = status" and ad: "adopted_ok cs status a"
    and prev: "prev = (if a = [] then cl_claims c else a)"
  shows "prev_spares x prev (ca_consumers cs) \<and> (\<forall>n r. (n, r) \<in> set prev \<longrightarrow> cs_uid r = Some x \<longrightarrow> hijacked r)"
proof -
  have consumer: "is_some_and (\<lambda>r. cs_uid r = Some x) (map_of (cl_claims c) (pc_name p))" if p: "p \<in> set (ca_consumers cs)" "pc_uid p = x" for p
  proof -
    have "view rp p \<in> set (views rp c)" "q_claims (view rp p)" using p(1) cs by (auto simp: claimants_ok_def)
    then have "is_some_and (\<lambda>r. cs_uid r = Some x) (map_of (cl_claims c) (q_name (view rp p)))"
      using h p(2) unfolding hijack_inv_def by (metis view_simps(1))
    then show ?thesis by simp
  qed
  show ?thesis
  proof (cases "a = []")
    case True
    then show ?thesis using h consumer unfolding prev prev_spares_def hijack_inv_def by (auto dest: map_of_SomeD)
  next
    case False
    then obtain s p job r where a: "cl_status c = Some s" "rst_claims s = []" "p \<in> set (ca_consumers cs)"
        "adopt_legacy_claim s p job = Some r" "a = [(pc_name p, r)]"
      using ad st unfolding adopted_ok_def by blast
    have "pc_uid q \<noteq> x" if "q \<in> set (ca_consumers cs)" for q using consumer [OF that] a(1,2) by (auto simp: cl_claims_def)
    moreover have "cs_uid r = Some (pc_uid p)" using a(4) by (auto simp: adopt_legacy_claim_def split: if_splits)
    ultimately show ?thesis using a(3,5) False by (auto simp: prev prev_spares_def)
  qed
qed

definition fanout_ready :: "restore_object \<Rightarrow> string \<Rightarrow> restore_status option \<Rightarrow> claimants \<Rightarrow> cluster \<Rightarrow> bool" where
  "fanout_ready rp x status cs c \<longleftrightarrow> pop_inv rp c \<and> cl_status c = status \<and> claimants_ok rp c cs \<and> hijack_inv rp x c"

definition status_claims :: "restore_status option \<Rightarrow> claims" where
  "status_claims status = (case status of None \<Rightarrow> [] | Some s \<Rightarrow> rst_claims s)"

lemma fanout_readyD:
  assumes "fanout_ready rp x status cs c"
  shows "pop_inv rp c" "cl_claims c = status_claims status" "claimants_ok rp c cs" "hijack_inv rp x c" "cl_status c = status"
  using assms by (auto simp: fanout_ready_def cl_claims_def status_claims_def)

lemma fanout_ready_keep:
  assumes "within (same_core rp) m" "within (spares rp x) m"
  shows "triple (fanout_ready rp x status cs) m (\<lambda>_. fanout_ready rp x status cs) (hijack_inv rp x)"
proof -
  let ?P = "\<lambda>c. pop_inv rp c \<and> cl_status c = status \<and> claimants_ok rp c cs"
  have "?P d" if "same_core rp c d" "?P c" for c d
    using pop_inv_core [OF that(1)] that unfolding same_core_def claimants_ok_def by simp
  then have "triple ?P m (\<lambda>_. ?P) ?P" by (rule triple_core [OF assms(1)])
  from sparing.triple_carry [OF this assms(2) hijack_inv_spares] show ?thesis
    by (rule triple_weaken) (auto simp: fanout_ready_def)
qed

lemma hijack_unclaimed:
  assumes cs: "ca_consumers cs = []"
  shows "triple (fanout_ready rp x status cs) (park_unclaimed_populator w rp (status_claims status)) (\<lambda>_. hijack_inv rp x) (hijack_inv rp x)"
proof -
  let ?P = "fanout_ready rp x status cs" and ?H = "hijack_inv rp x" and ?prev = "status_claims status"
  have park: "?H (patch_restore_status (awaiting_claim_status gone) c)" if "?P c \<and> gone = map fst ?prev" for gone c
    using that cs fanout_readyD(2-4) [of rp x status cs c] by (intro hijack_park) (auto simp: claimants_ok_def)
  have "triple (\<lambda>c. ?P c \<and> gone = map fst ?prev) (io_seq (io_write ok (patch_restore_status (awaiting_claim_status gone))) (io_ok 30))
      (\<lambda>_. ?H) ?H" for gone ok
    by (rule triple_seq [where R = ?H], rule triple_write, erule park) (auto intro: triple_ok dest: fanout_readyD(4))
  moreover have "triple ?P (reap_gone_claims w rp ?prev []) (\<lambda>g c. ?P c \<and> g = map fst ?prev) ?H"
  proof (rule triple_static)
    fix c assume "?P c"
    then show "\<forall>n r. (n, r) \<in> set ?prev \<longrightarrow> cs_uid r = Some x \<longrightarrow> hijacked r"
      using fanout_readyD(2,4) [of rp x status cs c] unfolding hijack_inv_def by metis
  next
    assume "\<forall>n r. (n, r) \<in> set ?prev \<longrightarrow> cs_uid r = Some x \<longrightarrow> hijacked r"
    then have "within (spares rp x) (reap_gone_claims w rp ?prev [])" by (intro spares_reap_gone) blast
    then show "triple ?P (reap_gone_claims w rp ?prev []) (\<lambda>g c. ?P c \<and> g = map fst ?prev) ?H"
      by (rule triple_returns [OF fanout_ready_keep [OF core_reap_gone] returns_reap_gone])
  qed
  ultimately show ?thesis unfolding park_unclaimed_populator_def by (intro triple_bind)
qed

lemma hijack_claimed:
  assumes cs: "ca_consumers cs \<noteq> []"
  shows "triple (\<lambda>c. fanout_ready rp x status cs c \<and> adopted_ok cs status a)
    (drive_claims w rp cs (if a = [] then status_claims status else a)) (\<lambda>_. hijack_inv rp x) (hijack_inv rp x)"
proof -
  define prev where "prev = (if a = [] then status_claims status else a)"
  let ?P = "\<lambda>c. fanout_ready rp x status cs c \<and> adopted_ok cs status a"
  have "triple ?P (drive_claims w rp cs prev) (\<lambda>_. hijack_inv rp x) (hijack_inv rp x)"
  proof (rule triple_static)
    fix c assume c: "?P c"
    note r = fanout_readyD [of rp x status cs c]
    have "prev = (if a = [] then cl_claims c else a)" using c r(2) by (simp add: prev_def)
    with c r show "prev_spares x prev (ca_consumers cs) \<and> (\<forall>n r. (n, r) \<in> set prev \<longrightarrow> cs_uid r = Some x \<longrightarrow> hijacked r)"
      by (intro hijack_prev) auto
  next
    assume st: "prev_spares x prev (ca_consumers cs) \<and> (\<forall>n r. (n, r) \<in> set prev \<longrightarrow> cs_uid r = Some x \<longrightarrow> hijacked r)"
    show "triple ?P (drive_claims w rp cs prev) (\<lambda>_. hijack_inv rp x) (hijack_inv rp x)"
    proof (rule triple_weaken [OF hijack_drive_claims [OF cs]])
      fix c assume c: "?P c"
      note r = fanout_readyD [of rp x status cs c]
      have "prev_ok rp c prev"
      proof (cases "a = []")
        case True
        then show ?thesis using c r(2) prev_ok_stored [OF r(1)] by (simp add: prev_def)
      next
        case False
        then obtain s p job r where "status = Some s" "rst_claims s = []" "p \<in> set (ca_consumers cs)"
            "adopt_legacy_claim s p job = Some r" "a = [(pc_name p, r)]"
          using c unfolding adopted_ok_def by blast
        with False c r(1,3,5) show ?thesis using prev_ok_adopted [of rp c cs s p job r] by (simp add: prev_def)
      qed
      with c r show "pass_ready rp prev cs c \<and> hijack_inv rp x c" by (simp add: pass_ready_def)
    qed (use st in auto)
  qed
  then show ?thesis by (simp add: prev_def)
qed

lemma hijack_fanout:
  "triple (fanout_ready rp x status cs) (drive_populator_fanout w rp status cs) (\<lambda>_. hijack_inv rp x) (hijack_inv rp x)"
proof (cases "ca_consumers cs = []")
  case True
  with hijack_unclaimed [OF True] show ?thesis
    unfolding drive_populator_fanout_def Let_def status_claims_def by simp
next
  case False
  have adopt: "within (same_core rp) (adopt_legacy_claims w rp cs status)" "within (spares rp x) (adopt_legacy_claims w rp cs status)"
    unfolding adopt_legacy_claims_def by (auto intro!: core_rules spare_rules split: option.split)
  show ?thesis
    using False unfolding drive_populator_fanout_def Let_def status_claims_def [symmetric]
    by (simp add: triple_bind [OF triple_returns [OF fanout_ready_keep [OF adopt] returns_adopt] hijack_claimed [OF False]])
qed

lemma hijack_pass:
  assumes "pop_inv rp c" "hijack_inv rp x c" and "populator_pass w rp c = (reply, d)"
  shows "hijack_inv rp x d"
proof -
  let ?P = "\<lambda>c. pop_inv rp c \<and> hijack_inv rp x c"
  have "triple ?P (populator_pass w rp) (\<lambda>_. hijack_inv rp x) (hijack_inv rp x)"
    unfolding populator_pass_def claiming_pvcs_def
  proof (rule triple_bind)
    show "triple ?P (io_read True cl_status) (\<lambda>s c. ?P c \<and> cl_status c = s) (hijack_inv rp x)"
      by (rule triple_read) auto
    fix s
    let ?cs = "\<lambda>items. \<lparr>ca_consumers = sort_key pc_name (filter (pvc_claims_restore (rp_name rp)) items),
       ca_primes = map pc_name (filter (\<lambda>p. \<not> pvc_claims_restore (rp_name rp) p \<and> owned_prime (rp_uid rp) p) items)\<rparr>"
    have list: "triple (\<lambda>c. ?P c \<and> cl_status c = s) (io_bind (io_read ok cl_pvcs) (\<lambda>items. io_ok (?cs items)))
       (\<lambda>cs c. fanout_ready rp x s cs c) (hijack_inv rp x)" for ok
      by (rule triple_bind [where R = "\<lambda>items c. (?P c \<and> cl_status c = s) \<and> cl_pvcs c = items"])
        (auto intro!: triple_read triple_ok simp: fanout_ready_def claimants_ok_listed)
    show "triple (\<lambda>c. ?P c \<and> cl_status c = s)
       (io_bind (io_bind (io_read (pw_ok w ListPvcs) cl_pvcs) (\<lambda>items. io_ok (?cs items))) (drive_populator_fanout w rp s))
       (\<lambda>_. hijack_inv rp x) (hijack_inv rp x)"
      by (rule triple_bind [OF list]) (rule hijack_fanout)
  qed
  from triple_run [OF this _ assms(3)] assms(1,2) show ?thesis by (cases reply) simp_all
qed

lemma find_update_pvc:
  assumes "\<And>p. pc_name (f p) = pc_name p"
  shows "find_pvc n (update_pvc m f c) = map_option (\<lambda>p. if n = m then f p else p) (find_pvc n c)"
proof -
  have "List.find (\<lambda>p. pc_name p = n) (map (\<lambda>p. if pc_name p = m then f p else p) ps) =
      map_option (\<lambda>p. if n = m then f p else p) (List.find (\<lambda>p. pc_name p = n) ps)" for ps
    using assms by (induction ps) auto
  then show ?thesis by (simp add: find_pvc_def update_pvc_def)
qed

text \<open>A step that changes no record keeps the invariant if the prime survives and no new claim has its uid.\<close>

lemma hijack_inv_same_records:
  assumes h: "hijack_inv rp x c" and same: "cl_claims d = cl_claims c" and alive: "prime_alive x d"
    and views: "\<And>q. q \<in> set (views rp d) \<Longrightarrow> q_claims q \<Longrightarrow> q_uid q = x \<Longrightarrow>
      \<exists>q' \<in> set (views rp c). q_claims q' \<and> q_uid q' = x \<and> q_name q' = q_name q"
  shows "hijack_inv rp x d"
proof -
  have "is_some_and (\<lambda>r. cs_uid r = Some x) (map_of (cl_claims c) (q_name q))"
    if q: "q \<in> set (views rp d)" "q_claims q" "q_uid q = x" for q
    using views [OF q] h unfolding hijack_inv_def by metis
  with h same alive show ?thesis unfolding hijack_inv_def by simp
qed

lemma hijack_update:
  assumes h: "hijack_inv rp x c" and f: "\<And>p. pc_name (f p) = pc_name p" "\<And>p. pc_uid (f p) = pc_uid p" "\<And>p. pc_op (f p) = pc_op p"
      "\<And>p. pc_deleting (f p) = pc_deleting p" "\<And>p. pc_data_source (f p) = pc_data_source p"
  shows "hijack_inv rp x (update_pvc n f c)"
proof (rule hijack_inv_same_records [OF h])
  show "prime_alive x (update_pvc n f c)"
  proof -
    obtain p where "find_pvc (prime_pvc_name x) c = Some p" "\<not> pc_deleting p" "pc_op p = Some OP_RESTORE_POPULATE"
      using h by (auto simp: hijack_inv_def prime_alive_def is_some_and_iff)
    then show ?thesis by (simp add: prime_alive_def find_update_pvc [OF f(1)] f)
  qed
  fix q assume "q \<in> set (views rp (update_pvc n f c))" "q_claims q" "q_uid q = x"
  then show "\<exists>q' \<in> set (views rp c). q_claims q' \<and> q_uid q' = x \<and> q_name q' = q_name q"
    by (fastforce simp: views_def update_pvc_def view_def pvc_claims_restore_def f split: if_splits)
qed (simp add: update_pvc_def cl_claims_def)

lemma hijack_mover:
  assumes h: "hijack_inv rp x c"
  shows "hijack_inv rp x (patch_restore_status (mover_patch n (mover_fields res obs tail fail)) c)" (is "hijack_inv rp x ?d")
proof -
  let ?f = "mover_fields res obs tail fail"
  have f: "cs_uid (?f r) = cs_uid r" "hijacked (?f r) = hijacked r" for r by (simp_all add: mover_fields_def hijacked_def)
  have claims: "cl_claims ?d = (if n \<in> fst ` set (cl_claims c) then map (\<lambda>(m, r). (m, if m = n then ?f r else r)) (cl_claims c)
      else cl_claims c @ [(n, ?f no_claim_status)])"
    by (cases "cl_status c") (simp_all add: cl_claims_def patch_restore_status_def mover_patch_def blank_status_def)
  have rec: "hijacked r" if "(m, r) \<in> set (cl_claims ?d)" "cs_uid r = Some x" for m r
    using that h unfolding claims hijack_inv_def by (auto simp: f no_claim_status_def split: if_splits)
  have mm: "map_of (map (\<lambda>(m, r). (m, if m = n then ?f r else r)) xs) m = (if m = n then map_option ?f (map_of xs m) else map_of xs m)" for xs m
    by (induction xs) auto
  have keep: "is_some_and (\<lambda>r. cs_uid r = Some x) (map_of (cl_claims ?d) m)" if "is_some_and (\<lambda>r. cs_uid r = Some x) (map_of (cl_claims c) m)" for m
    using that unfolding claims by (auto simp: mm f is_some_and_iff map_add_def)
  have "prime_alive x ?d" "views rp ?d = views rp c"
    using h prime_alive_pvcs [of ?d c x] by (simp_all add: hijack_inv_def)
  moreover have "is_some_and (\<lambda>r. cs_uid r = Some x) (map_of (cl_claims ?d) (q_name q))"
    if "q \<in> set (views rp c)" "q_claims q" "q_uid q = x" for q
    using h that by (intro keep) (simp add: hijack_inv_def)
  ultimately show ?thesis using rec unfolding hijack_inv_def by simp
qed

lemma alive_pvc:
  assumes "prime_alive x c" and "pvcs_ok (views rp c)" and "p \<in> set (cl_pvcs c)" and "pc_name p = prime_pvc_name x"
  shows "\<not> pc_deleting p \<and> pc_op p = Some OP_RESTORE_POPULATE"
proof -
  have "distinct (map pc_name (cl_pvcs c))" using assms(2) by (simp add: pvcs_ok_def views_def comp_def)
  then have "find_pvc (prime_pvc_name x) c = Some p"
    using find_distinct [of pc_name "cl_pvcs c" p] assms(3,4) by (simp add: find_pvc_def)
  with assms(1) show ?thesis by (simp add: prime_alive_def)
qed

lemma find_filter_other:
  "n \<noteq> m \<Longrightarrow> List.find (\<lambda>p. pc_name p = n) (filter (\<lambda>q. pc_name q \<noteq> m) ps) = List.find (\<lambda>p. pc_name p = n) ps"
  by (induction ps) auto

lemma hijack_step:
  assumes inv: "pop_inv rp c" and h: "hijack_inv rp x c" and step: "pop_step rp c d"
  shows "hijack_inv rp x d"
  using step
proof cases
  case (pass w reply)
  with hijack_pass [OF inv h] show ?thesis by blast
next
  case gate
  have "spares rp x c d" using gate spares_gate [of rp x True] by (simp add: within_def io_write_def)
  with h show ?thesis by (rule hijack_inv_spares [rotated])
next
  case (mover name j claim resolved observed tail failure)
  with h show ?thesis by (simp add: hijack_mover)
next
  case (job_ends name ok)
  then have "spares rp x c d" by (simp add: spares_fields)
  with h show ?thesis by (rule hijack_inv_spares [rotated])
next
  case (job_gone name)
  then have "spares rp x c d" by (simp add: spares_fields)
  with h show ?thesis by (rule hijack_inv_spares [rotated])
next
  case (provision p v policy)
  have "spares rp x c (c\<lparr>cl_volumes := vs\<rparr>)" for vs by (rule spares_fields) simp_all
  note hijack_inv_spares [OF this h]
  with provision show ?thesis by (simp add: hijack_update)
next
  case (bind p v vl)
  with h show ?thesis by (simp add: hijack_update)
next
  case (create p)
  have "pc_uid p \<noteq> x"
  proof
    assume "pc_uid p = x"
    then have "find_pvc (prime_pvc_name x) c = None" using create by (auto simp: fresh_uid_def find_pvc_None_iff)
    with h show False by (simp add: hijack_inv_def prime_alive_def)
  qed
  moreover have "prime_alive x d"
  proof -
    obtain q where "find_pvc (prime_pvc_name x) c = Some q" using h by (auto simp: hijack_inv_def prime_alive_def is_some_and_iff)
    moreover have "List.find P (ps @ [p]) = (case List.find P ps of Some r \<Rightarrow> Some r | None \<Rightarrow> if P p then Some p else None)" for P ps
      by (induction ps) auto
    ultimately show ?thesis using h create by (simp add: hijack_inv_def prime_alive_def find_pvc_def)
  qed
  ultimately show ?thesis
    using create by (intro hijack_inv_same_records [OF h]) (auto simp: cl_claims_def views_def)
next
  case (schedule name node)
  with h show ?thesis by (simp add: hijack_update)
next
  case (delete p)
  have "pc_name p \<noteq> prime_pvc_name x" using alive_pvc [of x c rp p] h inv delete by (auto simp: hijack_inv_def pop_inv_def)
  then have "prime_alive x d" using h delete by (auto simp: hijack_inv_def prime_alive_def find_pvc_delete is_some_and_iff)
  then show ?thesis using delete by (intro hijack_inv_same_records [OF h]) (auto simp: cl_claims_def)
next
  case (gone p)
  have "pc_name p \<noteq> prime_pvc_name x" using alive_pvc [of x c rp p] h inv gone by (auto simp: hijack_inv_def pop_inv_def)
  then have "prime_alive x d" using h gone by (simp add: hijack_inv_def prime_alive_def find_pvc_def find_filter_other)
  then show ?thesis using gone by (intro hijack_inv_same_records [OF h]) (auto simp: cl_claims_def views_def)
next
  case (reclaim v vl)
  then have "spares rp x c d" by (simp add: spares_fields)
  with h show ?thesis by (rule hijack_inv_spares [rotated])
qed

subsection \<open>The handover over every run\<close>

interpretation hijacks: step_invariant "\<lambda>c. pop_inv rp c \<and> hijack_inv rp x c" "pop_step rp" "\<lambda>c. pop_inv rp c \<and> hijack_inv rp x c" for rp x
  by unfold_locales (auto intro: populators.inv_step hijack_step)

lemma claimant_view:
  "p \<in> set (cl_pvcs c) \<Longrightarrow> pvc_claims_restore (rp_name rp) p \<Longrightarrow> view rp p \<in> set (views rp c) \<and> q_claims (view rp p)"
  by (simp add: views_def view_def)

lemma hijack_starts:
  assumes inv: "pop_inv rp c" and p: "p \<in> set (cl_pvcs c)" "pvc_claims_restore (rp_name rp) p"
    and r: "map_of (cl_claims c) (pc_name p) = Some r" "cs_uid r = Some (pc_uid p)" "hijacked r" and alive: "prime_alive (pc_uid p) c"
  shows "hijack_inv rp (pc_uid p) c"
proof -
  have own: "own_record c (view rp p)" and keys: "distinct (map fst (cl_claims c))"
    using inv claimant_view [OF p] by (auto simp: pop_inv_def records_ok_def)
  have "hijacked s" if "(n, s) \<in> set (cl_claims c)" "cs_uid s = Some (pc_uid p)" for n s
  proof -
    have "n = pc_name p" using own that by (simp add: own_record_def view_def)
    then have "s = r" using map_of_is_SomeI [OF keys that(1)] r(1) by simp
    with r(3) show ?thesis by simp
  qed
  moreover have "q_name q = pc_name p" if "q \<in> set (views rp c)" "q_claims q" "q_uid q = pc_uid p" for q
  proof -
    have "q = view rp p"
      using inv claimant_view [OF p] that by (auto simp: pop_inv_def pvcs_ok_def view_def)
    then show ?thesis by (simp add: view_def)
  qed
  ultimately show ?thesis using alive r(1,2) by (auto simp: hijack_inv_def)
qed

text \<open>
  C5. A completed handover is never forgotten. In every state the driver, the movers, the volume
  controller and the users can reach, with any call of any pass failing: once a claim's volume was
  rebound to it, and as long as the claim lives and has that volume or none yet, either the volume still
  carries the annotation the next pass finds it by or the claim's record says \<open>Populated\<close>; and no record
  of that claim says it was already bound by someone else.
\<close>

theorem handover_never_forgotten:
  assumes "reachable pop_init (pop_step rp) c" and "p \<in> set (cl_pvcs c)" and "pvc_claims_restore (rp_name rp) p"
    and "(pc_uid p, v) \<in> set (cl_rebinds c)" and "non_empty (pc_volume p) \<in> {None, Some v}"
  shows "(annotated rp c (pc_uid p) v \<or> populated_on_record c (pc_name p) (pc_uid p)) \<and>
    (\<forall>n r. (n, r) \<in> set (cl_claims c) \<longrightarrow> cs_uid r = Some (pc_uid p) \<longrightarrow> n = pc_name p \<and> cs_phase r \<noteq> Some RC_AlreadyBound)"
proof -
  let ?q = "view rp p"
  have q: "own_record c ?q" "not_relabelled c ?q" "handed_ok rp c ?q"
    using populators.inv_reachable [OF assms(1)] claimant_view [OF assms(2,3)] by (auto simp: pop_inv_def records_ok_def)
  have vol: "is_none_or (\<lambda>u. u = v) (non_empty (pc_volume p))" using assms(5) by (auto simp: is_none_or_iff non_empty_def)
  have "annotated rp c (pc_uid p) v \<or> populated_on_record c (pc_name p) (pc_uid p)"
    using q(3) assms(4) vol by (simp add: handed_ok_def view_def)
  moreover have "n = pc_name p" if "(n, r) \<in> set (cl_claims c)" "cs_uid r = Some (pc_uid p)" for n r
    using q(1) that by (simp add: own_record_def view_def)
  moreover have "cs_phase r \<noteq> Some RC_AlreadyBound" if "(n, r) \<in> set (cl_claims c)" "cs_uid r = Some (pc_uid p)" for n r
    using q(2) that assms(4,5) by (auto simp: not_relabelled_def view_def is_some_and_iff non_empty_None_iff)
  ultimately show ?thesis by blast
qed

text \<open>
  C6. The restored bytes survive until the status says so: a volume that was rebound to a claim exists and
  is retained until the claim's uid is recorded \<open>Populated\<close>, whatever fails and whoever deletes PVCs.
\<close>

theorem rebound_volume_is_retained:
  assumes "reachable pop_init (pop_step rp) c" and "(x, v) \<in> set (cl_rebinds c)" and "x \<notin> set (cl_recorded c)"
  shows "\<exists>vl. find_volume v c = Some vl \<and> vl_policy vl = Some ''Retain'' \<and> is_some_and (\<lambda>cr. cr_uid cr = Some x) (vl_claim vl)"
proof -
  have "rebinds_ok rp c" using populators.inv_reachable [OF assms(1)] by (simp add: pop_inv_def)
  from rebinds_okD(3,4) [OF this assms(2)] assms(3) show ?thesis by (auto simp: is_some_and_iff)
qed

text \<open>
  C11. A half-written prime PVC is kept for the user: once a live claim is recorded as hijacked during its
  population, no later run of passes, movers, controllers and users deletes its prime, except the user's
  own delete of the prime itself, which the machine leaves out.
\<close>

theorem hijacked_prime_survives:
  assumes "reachable pop_init (pop_step rp) c" and "p \<in> set (cl_pvcs c)" and "pvc_claims_restore (rp_name rp) p"
    and "map_of (cl_claims c) (pc_name p) = Some r" and "cs_uid r = Some (pc_uid p)" and "hijacked r"
    and "prime_alive (pc_uid p) c" and "(pop_step rp)\<^sup>*\<^sup>* c d"
  shows "prime_alive (pc_uid p) d"
proof -
  have "pop_inv rp c" using assms(1) by (rule populators.inv_reachable)
  then have "pop_inv rp c \<and> hijack_inv rp (pc_uid p) c" using hijack_starts assms(2-7) by blast
  with assms(8) have "hijack_inv rp (pc_uid p) d" using hijacks.inv_closure [of rp c d "pc_uid p"] by blast
  then show ?thesis by (simp add: hijack_inv_def)
qed

subsection \<open>Runs of the machine\<close>

text \<open>
  A Restore \<open>r\<close> and its only claim \<open>d\<close>. In the first run no snapshot matches and the claim is given its
  prime's empty volume; in the second a snapshot is pinned and a foreign provisioner binds the claim
  while the mover still writes the prime.
\<close>

definition demo_restore :: restore_object where
  "demo_restore = \<lparr>rp_name = ''r'', rp_namespace = ''ns'', rp_uid = Some ''ru'', rp_source = Src_FromPolicy None,
     rp_wait_timeout = None, rp_on_missing = Some OM_Continue\<rparr>"

definition handover_world :: "(call \<Rightarrow> bool) \<Rightarrow> source_reply \<Rightarrow> pass_world" where
  "handover_world ok found = \<lparr>pw_ok = ok, pw_now = 0, pw_now_str = ''t'', pw_rfc3339 = (\<lambda>_. None), pw_resolve = (\<lambda>_ _. found),
     pw_launch = (\<lambda>_. LR_Launched), pw_wedged = (\<lambda>_. Some False), pw_new_uid = (\<lambda>_. ''p'')\<rparr>"

definition demo_claim :: pvc_object where
  "demo_claim = \<lparr>pc_name = ''d'', pc_uid = ''u'', pc_deleting = False,
     pc_data_source = Some (''Restore'', ''r'', Some ''kopiur.home-operations.com''), pc_op = None, pc_owners = [],
     pc_class = None, pc_volume = None, pc_status_bound = False, pc_selected_node = None\<rparr>"

definition no_cluster :: cluster where
  "no_cluster = \<lparr>cl_status = None, cl_pvcs = [], cl_classes = [], cl_volumes = [], cl_jobs = [], cl_rebinds = [], cl_recorded = []\<rparr>"

definition after_pass :: "(call \<Rightarrow> bool) \<Rightarrow> source_reply \<Rightarrow> cluster \<Rightarrow> cluster" where
  "after_pass ok found c = snd (populator_pass (handover_world ok found) demo_restore c)"

definition provisioned :: "pvc_object \<Rightarrow> string \<Rightarrow> cluster \<Rightarrow> cluster" where
  "provisioned p v c = update_pvc (pc_name p) (\<lambda>p. p\<lparr>pc_volume := Some v, pc_status_bound := True\<rparr>)
     (c\<lparr>cl_volumes := (v, \<lparr>vl_policy = Some ''Delete'', vl_claim = Some (bound_claim (rp_namespace demo_restore) p),
          vl_original = None\<rparr>) # cl_volumes c\<rparr>)"

definition provisionable :: "pvc_object \<Rightarrow> string \<Rightarrow> cluster \<Rightarrow> bool" where
  "provisionable p v c \<longleftrightarrow> p \<in> set (cl_pvcs c) \<and> non_empty (pc_volume p) = None \<and> fresh_volume v c"

definition bindable :: "pvc_object \<Rightarrow> string \<Rightarrow> cluster \<Rightarrow> bool" where
  "bindable p v c \<longleftrightarrow> p \<in> set (cl_pvcs c) \<and> pvc_claims_restore (rp_name demo_restore) p \<and> non_empty (pc_volume p) = None \<and> v \<noteq> [] \<and>
     map_option vl_claim (find_volume v c) = Some (Some (bound_claim (rp_namespace demo_restore) p))"

definition all_jobs_done :: "cluster \<Rightarrow> cluster" where
  "all_jobs_done c = c\<lparr>cl_jobs := map (\<lambda>(n, j). (n, if n = fst (hd (cl_jobs c)) then j\<lparr>pj_terminal := Some True\<rparr> else j)) (cl_jobs c)\<rparr>"

definition demo_claimed :: cluster where
  "demo_claimed = no_cluster\<lparr>cl_pvcs := cl_pvcs no_cluster @ [demo_claim]\<rparr>"

definition demo_prime :: pvc_object where
  "demo_prime = \<lparr>pc_name = ''prime-u'', pc_uid = ''p'', pc_deleting = False, pc_data_source = None,
     pc_op = Some ''restore-populate'', pc_owners = [(''Restore'', ''ru'')], pc_class = None, pc_volume = None,
     pc_status_bound = False, pc_selected_node = None\<rparr>"

definition demo_primed :: "source_reply \<Rightarrow> cluster" where
  "demo_primed found = after_pass (\<lambda>_. True) found demo_claimed"

definition demo_rebound :: cluster where
  "demo_rebound = after_pass (\<lambda>_. True) SR_NoSnapshot (provisioned demo_prime ''v'' (demo_primed SR_NoSnapshot))"

definition demo_bound :: cluster where
  "demo_bound = update_pvc (pc_name demo_claim) (\<lambda>p. p\<lparr>pc_volume := Some ''v'', pc_status_bound := True\<rparr>) demo_rebound"

definition demo_copying :: cluster where
  "demo_copying = provisioned demo_prime ''v'' (demo_primed (SR_Pinned ''k'' None))"

definition demo_stolen :: cluster where
  "demo_stolen = provisioned demo_claim ''w'' demo_copying"

definition demo_hijacked :: cluster where
  "demo_hijacked = after_pass (\<lambda>_. True) (SR_Pinned ''k'' None) demo_stolen"

lemma pass_runs: "pop_step demo_restore c (after_pass ok found c)"
  unfolding after_pass_def
  by (rule pop_step.pass [of "handover_world ok found" demo_restore c "fst (populator_pass (handover_world ok found) demo_restore c)"]) simp

lemma provision_runs: "provisionable p v c \<Longrightarrow> pop_step demo_restore c (provisioned p v c)"
  unfolding provisioned_def provisionable_def by (intro pop_step.provision) auto

lemma bind_runs:
  "bindable p v c \<Longrightarrow>
   pop_step demo_restore c (update_pvc (pc_name p) (\<lambda>p. p\<lparr>pc_volume := Some v, pc_status_bound := True\<rparr>) c)"
  unfolding bindable_def by (auto intro: pop_step.bind)

lemma jobs_done_runs: "pop_step demo_restore c (all_jobs_done c)"
  unfolding all_jobs_done_def by (rule pop_step.job_ends)

lemma demo_claimed_reachable: "reachable pop_init (pop_step demo_restore) demo_claimed"
proof -
  have "reachable pop_init (pop_step demo_restore) no_cluster"
    by (rule reachable_init) (simp add: pop_init_def no_cluster_def)
  moreover have "pop_step demo_restore no_cluster demo_claimed"
    unfolding demo_claimed_def
    by (rule pop_step.create)
      (auto simp: no_cluster_def demo_claim_def fresh_uid_def cl_claims_def prime_pvc_name_def)
  ultimately show ?thesis by (rule reachable_step)
qed

lemma demo_primed_reachable: "reachable pop_init (pop_step demo_restore) (demo_primed found)"
  unfolding demo_primed_def by (rule reachable_step [OF demo_claimed_reachable pass_runs])

lemma demo_rebound_reachable: "reachable pop_init (pop_step demo_restore) demo_rebound"
proof -
  have "pop_step demo_restore (demo_primed SR_NoSnapshot) (provisioned demo_prime ''v'' (demo_primed SR_NoSnapshot))"
    by (rule provision_runs) code_simp
  then have "reachable pop_init (pop_step demo_restore) (provisioned demo_prime ''v'' (demo_primed SR_NoSnapshot))"
    by (rule reachable_step [OF demo_primed_reachable])
  then show ?thesis unfolding demo_rebound_def by (rule reachable_step) (rule pass_runs)
qed

lemma demo_bound_reachable: "reachable pop_init (pop_step demo_restore) demo_bound"
  unfolding demo_bound_def by (rule reachable_step [OF demo_rebound_reachable bind_runs]) code_simp

lemma demo_copying_reachable: "reachable pop_init (pop_step demo_restore) demo_copying"
proof (rule reachable_step [OF demo_primed_reachable])
  show "pop_step demo_restore (demo_primed (SR_Pinned ''k'' None)) demo_copying"
    unfolding demo_copying_def by (rule provision_runs) code_simp
qed

lemma demo_hijacked_reachable: "reachable pop_init (pop_step demo_restore) demo_hijacked"
proof -
  have "pop_step demo_restore demo_copying demo_stolen"
    unfolding demo_stolen_def by (rule provision_runs) code_simp
  then have "reachable pop_init (pop_step demo_restore) demo_stolen"
    by (rule reachable_step [OF demo_copying_reachable])
  then show ?thesis unfolding demo_hijacked_def by (rule reachable_step) (rule pass_runs)
qed

definition demo_record :: "cluster \<Rightarrow> claim_status" where
  "demo_record c = unwrap_or (map_of (cl_claims c) ''d'') no_claim_status"

definition demo_consumer :: "cluster \<Rightarrow> pvc_object" where
  "demo_consumer c = hd (cl_pvcs c)"

definition handed_over :: "cluster \<Rightarrow> bool" where
  "handed_over c \<longleftrightarrow> demo_consumer c \<in> set (cl_pvcs c) \<and> pvc_claims_restore (rp_name demo_restore) (demo_consumer c) \<and>
     pc_uid (demo_consumer c) = ''u'' \<and> pc_name (demo_consumer c) = ''d'' \<and> non_empty (pc_volume (demo_consumer c)) = Some ''v'' \<and>
     cl_rebinds c = [(''u'', ''v'')] \<and> cl_recorded c = []"

definition seen_hijacked :: "cluster \<Rightarrow> bool" where
  "seen_hijacked c \<longleftrightarrow> demo_consumer c \<in> set (cl_pvcs c) \<and> pvc_claims_restore (rp_name demo_restore) (demo_consumer c) \<and>
     pc_uid (demo_consumer c) = ''u'' \<and> pc_name (demo_consumer c) = ''d'' \<and> map_of (cl_claims c) ''d'' = Some (demo_record c) \<and>
     cs_uid (demo_record c) = Some ''u'' \<and> hijacked (demo_record c) \<and> prime_alive ''u'' c"

lemma demo_bound_handed_over: "handed_over demo_bound"
  by code_simp

lemma demo_hijacked_seen: "seen_hijacked demo_hijacked"
  by code_simp

theorem handover_never_forgotten_witness:
  "annotated demo_restore demo_bound ''u'' ''v'' \<or> populated_on_record demo_bound ''d'' ''u''"
  using handover_never_forgotten [OF demo_bound_reachable, of "demo_consumer demo_bound" "''v''"] demo_bound_handed_over
  by (simp add: handed_over_def)

theorem rebound_volume_is_retained_witness:
  "\<exists>vl. find_volume ''v'' demo_bound = Some vl \<and> vl_policy vl = Some ''Retain'' \<and>
     is_some_and (\<lambda>cr. cr_uid cr = Some ''u'') (vl_claim vl)"
  using rebound_volume_is_retained [OF demo_bound_reachable, of "''u''" "''v''"] demo_bound_handed_over
  by (simp add: handed_over_def)

theorem hijacked_prime_survives_witness:
  "prime_alive ''u'' (after_pass (\<lambda>_. True) (SR_Pinned ''k'' None) demo_hijacked)"
  using hijacked_prime_survives [OF demo_hijacked_reachable, of "demo_consumer demo_hijacked" "demo_record demo_hijacked"]
    r_into_rtranclp [of "pop_step demo_restore", OF pass_runs] demo_hijacked_seen by (simp add: seen_hijacked_def)

text \<open>
  Three runs against the driver's own comments. A foreign volume that wins the claim after the mover
  finished and before the rebind: the prime with the restored bytes is deleted and the record says no
  restore ran. A hijack whose status patch fails: the Job is already deleted, so the next pass deletes the
  prime it meant to keep. A pass that dies after its status patch: the claim is settled, so no later pass
  takes the annotation off its volume or gives it its policy back.
\<close>

definition demo_late :: cluster where
  "demo_late = after_pass (\<lambda>_. True) (SR_Pinned ''k'' None) (provisioned demo_claim ''w'' (all_jobs_done demo_copying))"

definition demo_unpatched :: cluster where
  "demo_unpatched = after_pass (\<lambda>_. True) (SR_Pinned ''k'' None)
     (after_pass (\<lambda>call. call \<noteq> PatchStatus) (SR_Pinned ''k'' None) demo_stolen)"

definition demo_unfinalized :: cluster where
  "demo_unfinalized = after_pass (\<lambda>_. True) SR_NoSnapshot
     (after_pass (\<lambda>call. call \<noteq> FinalizeGetVolume ''v'') SR_NoSnapshot demo_bound)"

definition told_no_restore_ran :: "cluster \<Rightarrow> bool" where
  "told_no_restore_ran c \<longleftrightarrow> cs_phase (demo_record c) = Some RC_AlreadyBound \<and>
     cs_reason (demo_record c) = Some (claim_reason_str TargetAlreadyBound) \<and> \<not> prime_alive ''u'' c"

definition left_annotated :: "cluster \<Rightarrow> bool" where
  "left_annotated c \<longleftrightarrow> cs_phase (demo_record c) = Some RC_Populated \<and> annotated demo_restore c ''u'' ''v'' \<and>
     map_option vl_policy (find_volume ''v'' c) = Some (Some ''Retain'')"

lemma finished_copy_is_deleted: "told_no_restore_ran demo_late"
  by code_simp

lemma unpatched_hijack_is_deleted: "told_no_restore_ran demo_unpatched"
  by code_simp

lemma unfinalized_volume_stays_annotated: "left_annotated demo_unfinalized"
  by code_simp

end
