(* ===== verification/Spec2Isabelle.thy ===== *)
theory Spec2Isabelle
  imports Mover_Delete Pool Leader Firing Adoption Bootstrap Populator_Handover
begin

text \<open>
  \<^bold>\<open>Verification of the kopiur operator\<close>

  Kopiur backs up Kubernetes volumes with kopia. A controller (\<open>src/crates/controller\<close>) reconciles
  custom resources (\<open>src/crates/api\<close>) and starts \<^emph>\<open>movers\<close> (\<open>src/crates/mover\<close>), Jobs that run kopia: a
  \<open>SnapshotSchedule\<close> mints \<open>Snapshot\<close>s, each run by a mover; a \<open>SnapshotPolicy\<close> prunes and adopts them; a
  \<open>Repository\<close> is bootstrapped and probed by a mover whose listing the catalog turns into discovered
  Snapshots; deleting a \<open>Snapshot\<close> ends in a batched delete mover; a \<open>Restore\<close> writes a snapshot into a
  volume. Several replicas of the controller elect a leader by a Lease. The development models the
  decisions and the state changes of these parts as functions and step relations, and proves over them
  what keeps backups from being lost, duplicated or handed to the wrong party.

  \<^bold>\<open>Shared theories\<close>
  \<^item> \<open>Kopiur_Prelude\<close>: instants, durations, option and list vocabulary of the Rust sources, \<open>BTreeMap\<close>s as
    sorted association lists, \<open>reachable\<close> and the locale \<open>step_invariant\<close> (an invariant of a step relation
    holds in every reachable state), which each machine below interprets.
  \<^item> \<open>Rust_Text\<close>: the string operations of the standard library. \<open>Kopiur_Api\<close>: the resource types
    (\<open>api/src/snapshot.rs\<close>, \<open>api/src/common/mod.rs\<close>).
  \<^item> \<open>Kube_Io\<close>: a pass as a program over the cluster in which each call may fail, its proof rules, and the
    locale \<open>io_frame\<close> (what a program leaves alone).

  \<^bold>\<open>Components\<close>
  \<^item> \<open>Retention\<close> (\<open>api/src/retention.rs\<close>, pruning of \<open>snapshot_policy.rs\<close>): \<open>select_kept\<close> equals the
    declarative grandfather-father-son rule; every pruned row leaves a survivor at least as new.
  \<^item> \<open>Deletion\<close> (\<open>snapshot/plan.rs\<close>): exactly when the finalizer plans a kopia delete, what the
    mass-deletion breaker holds, and that foreign rows never lead to a delete.
  \<^item> \<open>Batching\<close> (\<open>snapshot/batch.rs\<close>, dispatcher of \<open>snapshot/mod.rs\<close>): the waves of delete Jobs, and a
    machine of reconciles with stale LISTs in which a released finalizer implies a deleted snapshot.
  \<^item> \<open>Mover_Delete\<close> (\<open>mover/src/batch_delete.rs\<close>, \<open>resolve.rs\<close>): a batch reports success exactly when no
    member is left, and removes members only.
  \<^item> \<open>Naming\<close> (\<open>naming.rs\<close>, \<open>jitter.rs\<close>, \<open>duration.rs\<close>): 64-bit FNV-1a, bounded names, hashed cron fields,
    Go durations and their round trip.
  \<^item> \<open>Schedule\<close> and \<open>Firing\<close> (\<open>snapshot_schedule.rs\<close>): the pinned slot, what holds or replaces a run, and
    the reconcile on the rows of a namespace; a schedule's life is a machine in which no recorded slot
    fires again.
  \<^item> \<open>Expansion\<close> (\<open>api/src/expand.rs\<close>): selectors to members, kopia paths, child names, and that a restore
    reads the path its backup wrote.
  \<^item> \<open>Pool\<close> (\<open>pool.rs\<close>): the admission ledgers against the concurrency caps, with interleaving reconciles;
    the reservations through the locale \<open>reservation_store\<close>.
  \<^item> \<open>Leader\<close> (\<open>leader.rs\<close>): replicas with skewed clocks competing for the Lease; never two leaders.
  \<^item> \<open>Digest\<close>, \<open>Listing_Window\<close> (\<open>mover/src/digest.rs\<close>, \<open>bootstrap.rs\<close>): the membership digest (locale
    \<open>one_sided_set\<close>), the fair window and the size backstop of a bootstrap result.
  \<^item> \<open>Catalog\<close>, \<open>Catalog_Scan\<close> (\<open>catalog.rs\<close>): the plan a listing gives and the loops that carry it out; a
    capped listing expires only what the whole listing would.
  \<^item> \<open>Adoption\<close> (\<open>adoption.rs\<close>, \<open>run_adoption\<close> of \<open>snapshot_policy.rs\<close>): adoption loses no restore point.
  \<^item> \<open>Tenancy\<close> (\<open>validate/repository.rs\<close>, \<open>webhook/src/tenancy.rs\<close>, \<open>browse_session.rs\<close>): who is handed a
    repository's credentials.
  \<^item> \<open>Health\<close>, \<open>Bootstrap\<close> (\<open>health.rs\<close>, \<open>repository.rs\<close>, \<open>repo_seed.rs\<close>, \<open>run_bootstrap\<close>): the gates, the
    breaker, and the machine of passes, Jobs and pods in which a backend is initialised under a pinned
    id only after that id was acknowledged and the backend was seen empty.
  \<^item> \<open>Restore_Claims\<close> (\<open>restore/plan.rs\<close>) and \<open>Populator\<close> (\<open>restore/mod.rs\<close>): the claims of a populator
    Restore and the pass that drives each through its prime PVC, mover Job and rebind.
    \<open>Populator_Safety\<close> states the machine and its invariant, \<open>Populator_Claims\<close> proves that every pass,
    failed half way or not, and every other actor keeps it, and \<open>Populator_Handover\<close> draws the
    properties: a completed handover is never forgotten, the restored volume is retained until it is on
    record, the prime of a hijacked claim survives.

  \<^bold>\<open>Parameters and hypotheses\<close>
  Code that is not part of the repository is an argument: RFC 3339, cron and time zones (a computed
  slot lies strictly after its base, \<open>cron_advances\<close>), JSON, base64 (a decoder that inverts its encoder),
  kopia's answers, the calendar of \<open>chrono\<close>, and the API server's replies (server-side apply keeps what
  \<open>apply_lawful\<close> says). Where a property needs that two ids do not collide under the salted hash it says
  so (\<open>no_hash_collision\<close>). Each such hypothesis is met by a concrete function in a witness.
  A populator pass reads the stored status at its start and is one step of its machine; each of its calls
  may fail, so crashes are included, while another actor's write in the middle of a pass is not. New
  objects get uids and volume names that were never used, and no claim is named like a prime. The
  fields \<open>cl_rebinds\<close> and \<open>cl_recorded\<close> are histories that no operation reads.
  No model uses fuel: loops are structural recursion or have a termination proof.

  \<^bold>\<open>Not modelled\<close>
  The direct target of a Restore, resolving its snapshot and building mover Jobs; the run of one backup;
  maintenance, verification and replication; the ClusterRepository twin of the Repository reconcile; the
  in-process bootstrap of a filesystem backend; the kopia server; the admission webhook's field checks;
  manifests, watches, metrics, the command line and the user interface. They are I/O and object
  construction around the modelled decisions, or further controllers of the same shape. Message texts,
  Events and log lines are left out throughout.
\<close>

end
